(* ===== verification/Prelude.thy ===== *)
theory Prelude
  imports Main "HOL-Library.Word" "HOL-Library.AList" "HOL-Library.Multiset"
begin

text \<open>
  What every component of the development shares: the machine integers of the
  WebAssembly components, the containers of Rust's standard library the components keep
  their state in, and the collections of facts the proofs use.

  \<^item> A \<open>u64\<close> is a \<^typ>\<open>64 word\<close>. The components are built in release mode
    (\<open>shared/utils/src/build_helpers.rs\<close> passes \<open>--release\<close>), so \<open>+\<close> wraps around. A
    \<open>usize\<close> of \<open>wasm32\<close> has 32 bits: \<open>as usize\<close> truncates.
  \<^item> A byte is HOL's 8-bit \<^typ>\<open>char\<close>, and a Rust \<open>String\<close>, which is its UTF-8
    bytes, is a \<^typ>\<open>char list\<close>.
  \<^item> A \<open>BTreeMap\<close> is an association list in strictly ascending key order, a
    \<open>HashMap\<close> one with distinct keys, in the order of the entries' first insertion;
    properties that depend on a hash map's iteration order are stated for every order.
    Both implement the locale \<open>dict\<close>, and the former also \<open>ordered_dict\<close>.
  \<^item> \<open>Result<T, String>\<close> is \<open>string + 'a\<close>, with \<open>Inl\<close> for \<open>Err\<close>.
\<close>

unbundle bit_operations_syntax

section \<open>Types\<close>

type_synonym u64 = "64 word"
type_synonym bytes = "char list"
type_synonym 'a result = "string + 'a"

text \<open>An \<open>Instant\<close> is the number of nanoseconds since some origin; \<open>Duration\<close> likewise.\<close>

type_synonym instant = nat
type_synonym duration = nat

text \<open>Facts the component proofs unfold together.\<close>

named_theorems dict_simps \<open>lookups in updated maps\<close>
named_theorems ops_def \<open>definitions of component operations\<close>
named_theorems step_defs \<open>definitions of handlers built from operations\<close>

section \<open>Machine integers\<close>

definition as_usize :: "u64 \<Rightarrow> nat" where
  "as_usize w = unat w mod 2 ^ 32"

abbreviation u64_max :: u64 where
  "u64_max \<equiv> 18446744073709551615"

definition saturating_sub :: "u64 \<Rightarrow> u64 \<Rightarrow> u64" where
  "saturating_sub a b = (if b \<le> a then a - b else 0)"

definition saturating_mul :: "u64 \<Rightarrow> u64 \<Rightarrow> u64" where
  "saturating_mul a b = (if unat a * unat b < 2 ^ 64 then a * b else u64_max)"

definition from_millis :: "u64 \<Rightarrow> duration" where
  "from_millis ms = unat ms * 1000000"

lemma as_usize_small: "unat w < 2 ^ 32 \<Longrightarrow> as_usize w = unat w"
  by (simp add: as_usize_def)

lemma unat_saturating_sub: "unat (saturating_sub a b) = unat a - unat b"
  by (simp add: saturating_sub_def unat_sub word_le_nat_alt)

lemma unat_saturating_mul: "unat (saturating_mul a b) = min (unat a * unat b) (2 ^ 64 - 1)"
proof (cases "unat a * unat b < 2 ^ 64")
  case True
  then show ?thesis by (simp add: saturating_mul_def unat_word_ariths)
next
  case False
  then show ?thesis by (simp add: saturating_mul_def)
qed

lemma unat_le_max: "unat (w :: u64) < 2 ^ 64"
  using unsigned_less [of w] by simp

lemma unat_succ: "unat (w :: u64) + 1 < 2 ^ 64 \<Longrightarrow> unat (w + 1) = unat w + 1"
  by (simp add: unat_word_ariths)

lemma unat_succ_less: "w < (b :: u64) \<Longrightarrow> unat (w + 1) = unat w + 1"
  using unat_le_max [of b] by (intro unat_succ) (simp add: word_less_nat_alt)

lemma succ_le_iff: "w < (b :: u64) \<Longrightarrow> w + 1 \<le> c \<longleftrightarrow> w < c"
  by (simp add: word_le_nat_alt word_less_nat_alt unat_succ_less Suc_le_eq)

lemma less_succ_iff: "w < (b :: u64) \<Longrightarrow> c < w + 1 \<longleftrightarrow> c \<le> w"
  by (simp add: word_le_nat_alt word_less_nat_alt unat_succ_less less_Suc_eq_le)

lemma saturating_sub_one_add: "0 < (w :: u64) \<Longrightarrow> saturating_sub w 1 + 1 = w"
  by (simp add: saturating_sub_def word_le_nat_alt word_less_nat_alt Suc_le_eq)

section \<open>Fallible operations on a state\<close>

text \<open>
  An operation takes the state and gives a \<open>Result\<close> and the state after it, which an error
  does not roll back. \<open>io_bind\<close> is the \<open>?\<close> operator, \<open>io_map_err\<close> is
  \<open>map_err(|e| format!("...{}", e))\<close>, \<open>io_zoom\<close> runs an operation on a part of the state.
\<close>

definition io_bind ::
  "('s \<Rightarrow> 'a result \<times> 's) \<Rightarrow> ('a \<Rightarrow> 's \<Rightarrow> 'b result \<times> 's) \<Rightarrow> 's \<Rightarrow> 'b result \<times> 's" where
  "io_bind m f s = (case m s of (Inl e, s') \<Rightarrow> (Inl e, s') | (Inr x, s') \<Rightarrow> f x s')"

definition io_return :: "'a \<Rightarrow> 's \<Rightarrow> 'a result \<times> 's" where
  "io_return x s = (Inr x, s)"

definition io_fail :: "string \<Rightarrow> 's \<Rightarrow> 'a result \<times> 's" where
  "io_fail e s = (Inl e, s)"

definition io_lift :: "'a result \<Rightarrow> 's \<Rightarrow> 'a result \<times> 's" where
  "io_lift r s = (r, s)"

definition io_update :: "('s \<Rightarrow> 's) \<Rightarrow> 's \<Rightarrow> unit result \<times> 's" where
  "io_update f s = (Inr (), f s)"

definition map_err :: "string \<Rightarrow> 'a result \<Rightarrow> 'a result" where
  "map_err prefix r = (case r of Inl e \<Rightarrow> Inl (prefix @ e) | Inr x \<Rightarrow> Inr x)"

definition io_map_err :: "string \<Rightarrow> ('s \<Rightarrow> 'a result \<times> 's) \<Rightarrow> 's \<Rightarrow> 'a result \<times> 's" where
  "io_map_err prefix m s = (case m s of (r, s') \<Rightarrow> (map_err prefix r, s'))"

definition io_zoom ::
  "('s \<Rightarrow> 't) \<Rightarrow> ('t \<Rightarrow> 's \<Rightarrow> 's) \<Rightarrow> ('t \<Rightarrow> 'a result \<times> 't) \<Rightarrow> 's \<Rightarrow> 'a result \<times> 's" where
  "io_zoom get put m s = (case m (get s) of (r, t) \<Rightarrow> (r, put t s))"

lemma io_bind_Inr [simp]: "m s = (Inr x, s') \<Longrightarrow> io_bind m f s = f x s'"
  by (simp add: io_bind_def)

lemma io_bind_Inl [simp]: "m s = (Inl e, s') \<Longrightarrow> io_bind m f s = (Inl e, s')"
  by (simp add: io_bind_def)

lemma io_return_eq [simp]: "io_return x s = (Inr x, s)"
  by (simp add: io_return_def)

lemma io_lift_eq [simp]: "io_lift r s = (r, s)"
  by (simp add: io_lift_def)

lemma io_update_eq [simp]: "io_update f s = (Inr (), f s)"
  by (simp add: io_update_def)

lemma map_err_simps [simp]:
  "map_err prefix (Inr x) = Inr x"
  "map_err prefix (Inl e) = Inl (prefix @ e)"
  by (simp_all add: map_err_def)

lemma io_map_err_eq [simp]: "m s = (r, s') \<Longrightarrow> io_map_err prefix m s = (map_err prefix r, s')"
  by (simp add: io_map_err_def)

lemma io_zoom_eq [simp]: "m (get s) = (r, t) \<Longrightarrow> io_zoom get put m s = (r, put t s)"
  by (simp add: io_zoom_def)

section \<open>Containers\<close>

subsection \<open>The interface of a map\<close>

locale dict =
  fixes dempty :: "'m"
    and lookup :: "'m \<Rightarrow> 'k \<Rightarrow> 'v option"
    and ins :: "'k \<Rightarrow> 'v \<Rightarrow> 'm \<Rightarrow> 'm"
    and del :: "'k \<Rightarrow> 'm \<Rightarrow> 'm"
    and ok :: "'m \<Rightarrow> bool"
  assumes lookup_empty: "lookup dempty k = None"
    and lookup_ins: "ok m \<Longrightarrow> lookup (ins k v m) k' = (if k' = k then Some v else lookup m k')"
    and lookup_del: "ok m \<Longrightarrow> lookup (del k m) k' = (if k' = k then None else lookup m k')"
    and ok_empty: "ok dempty"
    and ok_ins: "ok m \<Longrightarrow> ok (ins k v m)"
    and ok_del: "ok m \<Longrightarrow> ok (del k m)"
begin

text \<open>Inserting a list of entries, the later ones winning: how a log is replayed.\<close>

definition ins_all :: "('k \<times> 'v) list \<Rightarrow> 'm \<Rightarrow> 'm" where
  "ins_all kvs m = foldl (\<lambda>m (k, v). ins k v m) m kvs"

lemma ins_all_simps:
  "ins_all [] m = m"
  "ins_all ((k, v) # kvs) m = ins_all kvs (ins k v m)"
  by (simp_all add: ins_all_def)

lemma ok_ins_all: "ok m \<Longrightarrow> ok (ins_all kvs m)"
  by (induction kvs arbitrary: m) (auto simp: ins_all_simps ok_ins)

lemma lookup_ins_all:
  "ok m \<Longrightarrow> lookup (ins_all kvs m) k =
     (case map_of (rev kvs) k of Some v \<Rightarrow> Some v | None \<Rightarrow> lookup m k)"
proof (induction kvs arbitrary: m)
  case Nil
  then show ?case by (simp add: ins_all_simps)
next
  case (Cons kv kvs)
  obtain k' v where "kv = (k', v)" by (cases kv)
  with Cons show ?case
    by (auto simp: ins_all_simps ok_ins lookup_ins map_add_def split: option.splits)
qed

end

text \<open>An ordered map also lists its entries in ascending key order.\<close>

locale ordered_dict = dict dempty lookup ins del ok
  for dempty :: "'m"
    and lookup :: "'m \<Rightarrow> 'k::linorder \<Rightarrow> 'v option"
    and ins :: "'k \<Rightarrow> 'v \<Rightarrow> 'm \<Rightarrow> 'm"
    and del :: "'k \<Rightarrow> 'm \<Rightarrow> 'm"
    and ok :: "'m \<Rightarrow> bool" +
  fixes entries :: "'m \<Rightarrow> ('k \<times> 'v) list"
  assumes entries_sorted: "ok m \<Longrightarrow> sorted_wrt (<) (map fst (entries m))"
    and lookup_entries: "ok m \<Longrightarrow> lookup m k = map_of (entries m) k"
begin

lemma entries_distinct: "ok m \<Longrightarrow> distinct (map fst (entries m))"
  by (auto dest!: entries_sorted simp: strict_sorted_iff)

lemma lookup_iff_entry: "ok m \<Longrightarrow> lookup m k = Some v \<longleftrightarrow> (k, v) \<in> set (entries m)"
  by (simp add: lookup_entries entries_distinct)

lemma last_entry_greatest:
  assumes "ok m" and "(k, v) \<in> set (entries m)"
  shows "k \<le> fst (last (entries m))"
proof -
  from assms have "entries m \<noteq> []" by auto
  then obtain es e where es: "entries m = es @ [e]"
    by (metis rev_exhaust)
  with assms entries_sorted [OF assms(1)] show ?thesis
    by (auto simp: sorted_wrt_append intro: less_imp_le)
qed

lemma entries_unique:
  assumes "ok m" and "ok m'" and "\<And>k. lookup m k = lookup m' k"
  shows "entries m = entries m'"
proof -
  have "map_of (entries m) = map_of (entries m')"
    using assms by (auto simp: fun_eq_iff lookup_entries)
  then have "set (entries m) = set (entries m')"
    using assms(1,2) by (metis entries_distinct map_of_inject_set)
  then show ?thesis
    using assms(1,2) entries_sorted entries_distinct
    by (metis (no_types, lifting) distinct_map map_sorted_distinct_set_unique
        strict_sorted_imp_sorted sup.idem)
qed

end

subsection \<open>BTreeMap\<close>

type_synonym ('k, 'v) btree_map = "('k \<times> 'v) list"

fun bt_insert :: "'k::linorder \<Rightarrow> 'v \<Rightarrow> ('k, 'v) btree_map \<Rightarrow> ('k, 'v) btree_map" where
  "bt_insert k v [] = [(k, v)]"
| "bt_insert k v (e # m) =
     (if fst e < k then e # bt_insert k v m
      else if fst e = k then (k, v) # m
      else (k, v) # e # m)"

abbreviation bt_get :: "('k, 'v) btree_map \<Rightarrow> 'k \<Rightarrow> 'v option" where
  "bt_get \<equiv> map_of"

definition bt_remove :: "'k \<Rightarrow> ('k, 'v) btree_map \<Rightarrow> ('k, 'v) btree_map" where
  "bt_remove k m = filter (\<lambda>e. fst e \<noteq> k) m"

text \<open>\<open>range(k..)\<close>, \<open>retain\<close>, \<open>keys().last()\<close> and \<open>values()\<close>.\<close>

definition bt_range_from :: "'k::linorder \<Rightarrow> ('k, 'v) btree_map \<Rightarrow> ('k, 'v) btree_map" where
  "bt_range_from k m = filter (\<lambda>e. k \<le> fst e) m"

definition bt_retain :: "('k \<Rightarrow> bool) \<Rightarrow> ('k, 'v) btree_map \<Rightarrow> ('k, 'v) btree_map" where
  "bt_retain p m = filter (\<lambda>e. p (fst e)) m"

definition bt_last_key :: "('k, 'v) btree_map \<Rightarrow> 'k option" where
  "bt_last_key m = (if m = [] then None else Some (fst (last m)))"

abbreviation bt_values :: "('k, 'v) btree_map \<Rightarrow> 'v list" where
  "bt_values \<equiv> map snd"

definition bt_ok :: "('k::linorder, 'v) btree_map \<Rightarrow> bool" where
  "bt_ok m \<longleftrightarrow> sorted_wrt (<) (map fst m)"

lemma bt_insert_keys: "fst ` set (bt_insert k v m) = insert k (fst ` set m)"
  by (induction m) auto

lemma bt_insert_sorted: "bt_ok m \<Longrightarrow> bt_ok (bt_insert k v m)"
proof (induction m)
  case Nil
  then show ?case by (simp add: bt_ok_def)
next
  case (Cons e m)
  then have "\<forall>x \<in> fst ` set (bt_insert k v m). fst e < x" if "fst e < k"
    using that by (simp add: bt_insert_keys bt_ok_def)
  with Cons show ?case
    by (fastforce simp: bt_ok_def)
qed

lemma bt_ok_filter: "bt_ok m \<Longrightarrow> bt_ok (filter p m)"
  by (auto simp: bt_ok_def sorted_wrt_map sorted_wrt_filter)

lemma bt_ok_distinct: "bt_ok m \<Longrightarrow> distinct (map fst m)"
  by (simp add: bt_ok_def strict_sorted_iff)

lemma bt_get_insert: "bt_ok m \<Longrightarrow> bt_get (bt_insert k v m) = (bt_get m)(k \<mapsto> v)"
proof (induction m)
  case Nil
  then show ?case by simp
next
  case (Cons e m)
  have "bt_get m k = None" if "\<not> fst e < k" "fst e \<noteq> k"
    using Cons.prems that by (force simp: bt_ok_def map_of_eq_None_iff)
  with Cons show ?case
    by (cases e) (auto simp: bt_ok_def fun_eq_iff)
qed

lemma map_of_filter_key: "map_of (filter (\<lambda>e. p (fst e)) m) k = (if p k then map_of m k else None)"
  by (induction m) auto

lemmas map_of_filter_neq = map_of_filter_key [where p = "\<lambda>k'. k' \<noteq> k" for k]

lemma bt_ok_empty [simp]: "bt_ok []"
  by (simp add: bt_ok_def)

lemma bt_ok_remove: "bt_ok m \<Longrightarrow> bt_ok (bt_remove k m)"
  by (simp add: bt_remove_def bt_ok_filter)

lemma bt_ok_retain: "bt_ok m \<Longrightarrow> bt_ok (bt_retain p m)"
  by (simp add: bt_retain_def bt_ok_filter)

interpretation bt: ordered_dict "[]" bt_get bt_insert bt_remove bt_ok "\<lambda>m. m"
  by unfold_locales
    (auto simp: bt_get_insert bt_insert_sorted bt_ok_filter bt_remove_def map_of_filter_neq
      simp flip: bt_ok_def)

lemma bt_get_insert_at [dict_simps]:
  "bt_ok m \<Longrightarrow> bt_get (bt_insert k v m) k' = (if k' = k then Some v else bt_get m k')"
  by (rule bt.lookup_ins)

lemma bt_get_retain [dict_simps]: "bt_get (bt_retain p m) k = (if p k then bt_get m k else None)"
  by (simp add: bt_retain_def map_of_filter_key)

lemma bt_last_key_greatest:
  "bt_ok m \<Longrightarrow> bt_get m k = Some v \<Longrightarrow> \<exists>k'. bt_last_key m = Some k' \<and> k \<le> k'"
  by (auto simp: bt_last_key_def bt.lookup_iff_entry dest: bt.last_entry_greatest)

lemma bt_last_key_present: "bt_ok m \<Longrightarrow> bt_last_key m = Some k \<Longrightarrow> \<exists>v. bt_get m k = Some v"
  by (auto simp: bt_last_key_def bt.lookup_iff_entry split: if_splits intro: exI [of _ "snd (last m)"])

subsection \<open>HashMap\<close>

type_synonym ('k, 'v) hash_map = "('k \<times> 'v) list"

definition hm_insert :: "'k \<Rightarrow> 'v \<Rightarrow> ('k, 'v) hash_map \<Rightarrow> ('k, 'v) hash_map" where
  "hm_insert k v m = AList.update k v m"

abbreviation hm_get :: "('k, 'v) hash_map \<Rightarrow> 'k \<Rightarrow> 'v option" where
  "hm_get \<equiv> map_of"

definition hm_remove :: "'k \<Rightarrow> ('k, 'v) hash_map \<Rightarrow> ('k, 'v) hash_map" where
  "hm_remove k m = filter (\<lambda>e. fst e \<noteq> k) m"

definition hm_ok :: "('k, 'v) hash_map \<Rightarrow> bool" where
  "hm_ok m \<longleftrightarrow> distinct (map fst m)"

interpretation hm: dict "[]" hm_get hm_insert hm_remove hm_ok
  by unfold_locales
    (auto simp: hm_insert_def update_conv' distinct_update hm_remove_def hm_ok_def
      map_of_filter_neq distinct_map_filter)

lemma hm_get_insert_at [dict_simps]:
  "hm_get (hm_insert k v m) k' = (if k' = k then Some v else hm_get m k')"
  by (simp add: hm_insert_def update_conv')

lemma hm_insert_keys: "fst ` set (hm_insert k v m) = insert k (fst ` set m)"
  by (simp add: hm_insert_def dom_update [unfolded dom_map_of_conv_image_fst])

section \<open>Lists\<close>

lemma set_map_filter_iff: "v \<in> set (List.map_filter f xs) \<longleftrightarrow> (\<exists>x \<in> set xs. f x = Some v)"
  by (induction xs) (auto simp: map_filter_simps split: option.splits)

section \<open>Strings\<close>

text \<open>\<open>str::contains\<close>\<close>

fun contains :: "string \<Rightarrow> string \<Rightarrow> bool" where
  "contains p [] \<longleftrightarrow> p = []"
| "contains p (c # cs) \<longleftrightarrow> take (length p) (c # cs) = p \<or> contains p cs"

text \<open>The decimal rendering of a number, \<open>u64::to_string\<close>.\<close>

definition digit_char :: "nat \<Rightarrow> char" where
  "digit_char d = char_of (48 + d)"

fun show_nat :: "nat \<Rightarrow> string" where
  "show_nat n = (if n < 10 then [digit_char n] else show_nat (n div 10) @ [digit_char (n mod 10)])"

declare show_nat.simps [simp del]

definition show_u64 :: "u64 \<Rightarrow> string" where
  "show_u64 w = show_nat (unat w)"

section \<open>Majorities\<close>

text \<open>
  The interface between the components that count votes and the reasoning about them: a
  threshold that is more than half of the number of voters, so that two groups of voters
  that reach it share a member.
\<close>

locale majority =
  fixes threshold :: "u64 \<Rightarrow> nat"
  assumes majority_threshold: "unat n < 2 ^ 32 \<Longrightarrow> unat n < 2 * threshold n"
    and threshold_reachable: "0 < unat n \<Longrightarrow> unat n < 2 ^ 32 \<Longrightarrow> threshold n \<le> unat n"
begin

lemma quorums_intersect:
  assumes "unat n < 2 ^ 32" and "finite S" and "card S \<le> unat n"
    and "A \<subseteq> S" and "B \<subseteq> S" and "threshold n \<le> card A" and "threshold n \<le> card B"
  shows "A \<inter> B \<noteq> {}"
proof
  assume "A \<inter> B = {}"
  with assms(2,4,5) have "card (A \<union> B) = card A + card B"
    by (intro card_Un_disjoint) (auto intro: finite_subset)
  moreover from assms(2,4,5) have "card (A \<union> B) \<le> card S"
    by (intro card_mono) auto
  ultimately show False
    using majority_threshold [OF assms(1)] assms(3,6,7) by linarith
qed

lemma threshold_pos: "unat n < 2 ^ 32 \<Longrightarrow> 0 < threshold n"
  using majority_threshold [of n] by (cases "threshold n") auto

end

end
