(* ===== verification/Paxos_Types.thy ===== *)
theory Paxos_Types
  imports Prelude
begin

text \<open>
  The data of the system, as \<open>paxos-wasm/shared/wit/types.wit\<close> declares it. The names
  are the source's; a field that several WIT records share carries a prefix here
  (\<open>slot\<close> of a \<open>p-value\<close> is \<open>pv_slot\<close>).
\<close>

section \<open>Basic types\<close>

type_synonym slot = u64
type_synonym ballot = u64

datatype paxos_phase = Start | PrepareSend | PreparePending | AcceptCommit | Stop | Crash

datatype paxos_role = Coordinator | Proposer | Acceptor | Learner | Client

record node =
  node_id :: u64
  address :: string
  role :: paxos_role

record run_config =
  is_event_driven :: bool
  acceptors_send_learns :: bool
  learners_send_executed :: bool
  prepare_timeout :: u64
  demo_client :: bool
  demo_client_requests :: u64
  batch_size :: u64
  tick_micros :: u64
  exec_interval_ms :: u64
  retry_interval_ms :: u64
  learn_max_gap :: u64
  message_batch_size :: u64
  client_server_port :: "16 word"
  persistent_storage :: bool
  heartbeats :: bool
  heartbeat_interval_ms :: u64
  crashes :: "u64 list list"
  storage_load_snapshots :: u64
  storage_max_snapshots :: u64
  storage_flush_state_count :: u64
  storage_flush_state_interval_ms :: u64
  storage_flush_change_count :: u64
  storage_flush_change_interval_ms :: u64
  storage_snapshot_slot_interval :: u64

section \<open>Commands and values\<close>

record kv_pair =
  kv_key :: string
  kv_value :: string

datatype operation = Get string | Set kv_pair | Remove string | Clear | Demo

type_synonym cmd = "operation option"

datatype cmd_result = NoOp | CmdValue "string option"

record paxos_value =
  command :: cmd
  client_id :: string
  client_seq :: u64

record client_response =
  resp_client_id :: string
  resp_client_seq :: u64
  resp_success :: bool
  command_result :: cmd_result

section \<open>Messages of the protocol\<close>

record proposal =
  prop_slot :: slot
  prop_ballot :: ballot
  prop_value :: paxos_value

record prepare =
  prep_slot :: slot
  prep_ballot :: ballot

record p_value =
  pv_slot :: slot
  pv_ballot :: ballot
  pv_value :: "paxos_value option"

record promise =
  prom_slot :: slot
  prom_ballot :: ballot
  prom_accepted :: "p_value list"

record accept =
  acc_slot :: slot
  acc_ballot :: ballot
  acc_value :: paxos_value

record accepted =
  ad_slot :: slot
  ad_ballot :: ballot
  ad_success :: bool

record learn =
  ln_slot :: slot
  ln_value :: paxos_value

record retry_learns =
  retry_slots :: "slot list"

record execute_result =
  er_value :: paxos_value
  er_slot :: slot
  er_success :: bool
  er_cmd_result :: cmd_result

record executed =
  ex_results :: "execute_result list"
  ex_adu :: slot

record benchmark =
  send_timestamp :: u64
  bm_payload :: string

datatype message_payload =
    Ignore
  | ClientRequest paxos_value
  | ClientResponse client_response
  | PrepareMsg prepare
  | PromiseMsg promise
  | AcceptMsg accept
  | AcceptedMsg accepted
  | LearnMsg learn
  | Heartbeat
  | ExecutedMsg executed
  | RetryLearnsMsg retry_learns
  | BenchmarkMsg benchmark
  | AduMsg slot

record network_message =
  sender :: node
  payload :: message_payload

section \<open>Results of the core components\<close>

datatype prepare_result = PrepareSuccess | PrepareQuorumFailure | PrepareIsEventDriven

datatype accept_result =
    AcceptAccepted u64 | MissingProposal | AcceptQuorumFailure | AcceptIsEventDriven

datatype proposal_status = InFlight | Chosen | CommitPending | Finalized

record proposal_entry =
  pe_proposal :: proposal
  pe_status :: proposal_status

record proposer_state =
  ps_is_leader :: bool
  ps_num_acceptors :: u64
  ps_current_slot :: slot
  ps_current_ballot :: ballot
  ps_pending :: "paxos_value list"
  ps_proposals :: "proposal_entry list"

datatype promise_result = Promised promise | PromiseRejected ballot

datatype accepted_result = AcceptedOk accepted | AcceptedRejected ballot

record acceptor_state =
  as_promises :: "ballot list"
  as_accepted :: "p_value list"

record learned_entry =
  le_slot :: slot
  le_value :: paxos_value

datatype learn_result = Execute "learned_entry list" | LearnIgnore

datatype retry_learn_result = NoGap | Skip slot | Retry "slot list"

record learner_state =
  ls_learned :: "learned_entry list"

section \<open>Derived orders\<close>

text \<open>
  The bindings derive \<open>PartialOrd\<close> and \<open>Ord\<close>: constructors in order of declaration. For
  the status of a proposal that order is the order of its life cycle.
\<close>

fun status_rank :: "proposal_status \<Rightarrow> nat" where
  "status_rank InFlight = 0"
| "status_rank Chosen = 1"
| "status_rank CommitPending = 2"
| "status_rank Finalized = 3"

lemma status_rank_inject: "status_rank a = status_rank b \<Longrightarrow> a = b"
  by (cases a; cases b) simp_all

instantiation proposal_status :: linorder
begin

definition less_eq_proposal_status :: "proposal_status \<Rightarrow> proposal_status \<Rightarrow> bool" where
  "a \<le> b \<longleftrightarrow> status_rank a \<le> status_rank b"

definition less_proposal_status :: "proposal_status \<Rightarrow> proposal_status \<Rightarrow> bool" where
  "a < b \<longleftrightarrow> status_rank a < status_rank b"

instance
  by standard
    (auto simp: less_eq_proposal_status_def less_proposal_status_def intro: status_rank_inject)

end

lemma status_order_simps [simp]:
  "InFlight < Chosen" "Chosen < CommitPending" "CommitPending < Finalized"
  "InFlight \<le> s" "s \<le> Finalized" "\<not> Finalized < s"
  by (cases s; simp add: less_eq_proposal_status_def less_proposal_status_def)+

end
