(* ===== verification/Bytes.thy ===== *)
theory Bytes
  imports Prelude
begin

text \<open>
  Bytes on disk and on the wire: the four-byte big-endian length prefix that the storage's
  changelog (\<open>write_u32::<BigEndian>\<close>, \<open>read_u32::<BigEndian>\<close>) and every network
  message (\<open>u32::to_be_bytes\<close>, \<open>u32::from_be_bytes\<close>) put before a record.
\<close>

definition u32_to_be_bytes :: "nat \<Rightarrow> bytes" where
  "u32_to_be_bytes n =
     [char_of (n div 2 ^ 24), char_of (n div 2 ^ 16), char_of (n div 2 ^ 8), char_of n]"

definition u32_from_be_bytes :: "bytes \<Rightarrow> nat" where
  "u32_from_be_bytes bs = foldl (\<lambda>n c. n * 256 + of_char c) 0 bs"

text \<open>\<open>len as u32\<close>: the low 32 bits.\<close>

definition as_u32 :: "nat \<Rightarrow> nat" where
  "as_u32 n = n mod 2 ^ 32"

lemma length_u32_to_be_bytes [simp]: "length (u32_to_be_bytes n) = 4"
  by (simp add: u32_to_be_bytes_def)

lemma as_u32_less: "as_u32 n < 2 ^ 32"
  by (simp add: as_u32_def)

lemma as_u32_small [simp]: "n < 2 ^ 32 \<Longrightarrow> as_u32 n = n"
  by (simp add: as_u32_def)

lemma base256_digits:
  fixes n :: nat
  assumes "n < 2 ^ 32"
  shows "((n div 2 ^ 24 mod 256 * 256 + n div 2 ^ 16 mod 256) * 256 + n div 2 ^ 8 mod 256) * 256
    + n mod 256 = n"
proof -
  have step: "n div (k * 256) * 256 + n div k mod 256 = n div k" for k :: nat
    by (simp add: div_mult2_eq)
  from assms have "n div 2 ^ 24 < 256" by (simp add: div_less_iff_less_mult)
  then have "n div 2 ^ 24 mod 256 = n div 2 ^ 24" by simp
  then show ?thesis
    using step [of "2 ^ 16"] step [of "2 ^ 8"] step [of 1] by simp
qed

lemma u32_be_roundtrip: "n < 2 ^ 32 \<Longrightarrow> u32_from_be_bytes (u32_to_be_bytes n) = n"
  using base256_digits [of n] by (simp add: u32_from_be_bytes_def u32_to_be_bytes_def)

text \<open>A record as it is written: its length, then its bytes.\<close>

definition frame :: "bytes \<Rightarrow> bytes" where
  "frame b = u32_to_be_bytes (as_u32 (length b)) @ b"

lemma length_frame [simp]: "length (frame b) = 4 + length b"
  by (simp add: frame_def)

lemma take_4_frame: "take 4 (frame b @ rest) = u32_to_be_bytes (as_u32 (length b))"
  by (simp add: frame_def)

lemma drop_4_frame: "drop 4 (frame b @ rest) = b @ rest"
  by (simp add: frame_def)

lemma frame_header: "length b < 2 ^ 32 \<Longrightarrow> u32_from_be_bytes (take 4 (frame b @ rest)) = length b"
  unfolding take_4_frame by (simp add: u32_be_roundtrip)

end
