(* ===== verification/Storage.thy ===== *)
theory Storage
  imports Paxos_Types Bytes "HOL-Library.Char_ord" "HOL-Library.List_Lexorder"
begin

text \<open>
  The storage component (\<open>paxos-wasm/core/storage/src/storage.rs\<close>): one directory per key
  with a \<open>current-state.bin\<close> that is overwritten, a changelog that is appended to through
  a \<open>BufWriter\<close>, and a directory of timestamped snapshots.

  The disk is part of the state. Every system call may fail: the field \<open>faults\<close> scripts
  the outcomes of the calls to come (\<open>None\<close>, or the end of the script, is success;
  \<open>Some (e, k)\<close> is an error with message \<open>e\<close> after \<open>k\<close> bytes were
  transferred), so that a theorem for every script is one for every way the disk can fail.
\<close>

section \<open>The disk and system calls\<close>

type_synonym fault = "(string \<times> nat) option"

record storage =
  st_key :: string
  st_max_snapshots :: u64
  linked :: bool                        \<comment> \<open>\<open>state/<key>/\<close> still exists\<close>
  snapshot_files :: "(string, bytes) hash_map"  \<comment> \<open>entries of the snapshots directory\<close>
  changelog_file :: bytes
  changelog_buf :: bytes                \<comment> \<open>what the \<open>BufWriter\<close> still holds\<close>
  state_data :: bytes                   \<comment> \<open>contents of \<open>current-state.bin\<close>\<close>
  faults :: "fault list"

type_synonym 'a io = "storage \<Rightarrow> 'a result \<times> storage"

text \<open>A system call with its effect on success and, after \<open>k\<close> bytes, on failure.\<close>

definition syscall :: "(storage \<Rightarrow> storage) \<Rightarrow> (nat \<Rightarrow> storage \<Rightarrow> storage) \<Rightarrow> unit io" where
  "syscall success partial s =
     (case faults s of
        Some (e, k) # fs \<Rightarrow> (Inl e, partial k (s\<lparr>faults := fs\<rparr>))
      | fs \<Rightarrow> (Inr (), success (s\<lparr>faults := tl fs\<rparr>)))"

text \<open>The message of \<open>ENOENT\<close> on WASI.\<close>

definition enoent :: string where
  "enoent = ''No such file or directory (os error 44)''"

definition read_eof :: string where
  "read_eof = ''failed to fill whole buffer''"

section \<open>BufWriter\<close>

definition buf_capacity :: nat where
  "buf_capacity = 8192"

definition bw_flush_buf :: "unit io" where
  "bw_flush_buf s =
     (if changelog_buf s = [] then (Inr (), s)
      else syscall
        (\<lambda>s. s\<lparr>changelog_file := changelog_file s @ changelog_buf s, changelog_buf := []\<rparr>)
        (\<lambda>k s. s\<lparr>changelog_file := changelog_file s @ take k (changelog_buf s),
                  changelog_buf := drop k (changelog_buf s)\<rparr>) s)"

definition bw_push :: "bytes \<Rightarrow> unit io" where
  "bw_push data s = (Inr (), s\<lparr>changelog_buf := changelog_buf s @ data\<rparr>)"

definition bw_direct :: "bytes \<Rightarrow> unit io" where
  "bw_direct data = syscall
     (\<lambda>s. s\<lparr>changelog_file := changelog_file s @ data\<rparr>)
     (\<lambda>k s. s\<lparr>changelog_file := changelog_file s @ take k data\<rparr>)"

definition bw_write_all :: "bytes \<Rightarrow> unit io" where
  "bw_write_all data s =
     (let spare = buf_capacity - length (changelog_buf s) in
      if length data < spare then bw_push data s
      else io_bind (if spare < length data then bw_flush_buf else io_return ())
        (\<lambda>_. if buf_capacity \<le> length data then bw_direct data else bw_push data) s)"

section \<open>Operations\<close>

definition storage_new :: "string \<Rightarrow> u64 \<Rightarrow> storage \<Rightarrow> storage" where
  "storage_new key max_snapshots disk =
     (if linked disk
      then disk\<lparr>st_key := key, st_max_snapshots := max_snapshots, changelog_buf := []\<rparr>
      else \<lparr>st_key = key, st_max_snapshots = max_snapshots, linked = True, snapshot_files = [],
            changelog_file = [], changelog_buf = [], state_data = [], faults = faults disk\<rparr>)"

text \<open>\<open>seek\<close>, \<open>set_len(0)\<close>, \<open>write_all\<close>.\<close>

definition save_state :: "bytes \<Rightarrow> unit io" where
  "save_state state =
     io_bind (syscall (\<lambda>s. s) (\<lambda>_ s. s)) (\<lambda>_.
     io_bind (syscall (\<lambda>s. s\<lparr>state_data := []\<rparr>) (\<lambda>_ s. s)) (\<lambda>_.
     syscall (\<lambda>s. s\<lparr>state_data := state\<rparr>) (\<lambda>k s. s\<lparr>state_data := take k state\<rparr>)))"

definition load_state :: "bytes io" where
  "load_state s =
     (if \<not> linked s then (Inl enoent, s)
      else io_bind (syscall (\<lambda>s. s) (\<lambda>_ s. s)) (\<lambda>_. io_return (state_data s)) s)"

definition flush_state :: "unit io" where
  "flush_state = syscall (\<lambda>s. s) (\<lambda>_ s. s)"

definition save_change :: "bytes \<Rightarrow> unit io" where
  "save_change change =
     io_bind (bw_write_all (u32_to_be_bytes (as_u32 (length change))))
       (\<lambda>_. bw_write_all change)"

definition flush_changes :: "unit io" where
  "flush_changes = bw_flush_buf"

definition is_snapshot_name :: "string \<Rightarrow> bool" where
  "is_snapshot_name n \<longleftrightarrow>
     take (length ''snapshot-'') n = ''snapshot-'' \<and>
     length ''.bin'' \<le> length n \<and> drop (length n - length ''.bin'') n = ''.bin''"

text \<open>An unreadable directory lists nothing. The names come back in lexicographic order.\<close>

definition list_snapshots :: "storage \<Rightarrow> string list \<times> storage" where
  "list_snapshots s =
     (if \<not> linked s then ([], s)
      else case syscall (\<lambda>s. s) (\<lambda>_ s. s) s of
        (Inl _, s') \<Rightarrow> ([], s')
      | (Inr _, s') \<Rightarrow> (sort (filter is_snapshot_name (map fst (snapshot_files s'))), s'))"

fun prune_loop :: "u64 \<Rightarrow> string list \<Rightarrow> unit io" where
  "prune_loop retain [] = io_return ()"
| "prune_loop retain (oldest # snaps) =
     (if unat retain < length (oldest # snaps)
      then io_bind (syscall (\<lambda>s. s\<lparr>snapshot_files := hm_remove oldest (snapshot_files s)\<rparr>)
                      (\<lambda>_ s. s))
             (\<lambda>_. prune_loop retain snaps)
      else io_return ())"

definition prune_snapshots :: "u64 \<Rightarrow> unit io" where
  "prune_snapshots retain s = (case list_snapshots s of (snaps, s') \<Rightarrow> prune_loop retain snaps s')"

definition snapshot_name :: "string \<Rightarrow> string" where
  "snapshot_name timestamp = ''snapshot-'' @ timestamp @ ''.bin''"

text \<open>The three stages of \<open>checkpoint\<close>: the temporary file, the rename, the changelog.\<close>

definition write_tmp :: "string \<Rightarrow> bytes \<Rightarrow> unit io" where
  "write_tmp tmp state s =
     (if \<not> linked s then (Inl enoent, s)
      else
     io_bind (syscall (\<lambda>s. s\<lparr>snapshot_files := hm_insert tmp [] (snapshot_files s)\<rparr>) (\<lambda>_ s. s)) (\<lambda>_.
     io_bind (syscall (\<lambda>s. s\<lparr>snapshot_files := hm_insert tmp state (snapshot_files s)\<rparr>)
       (\<lambda>k s. s\<lparr>snapshot_files := hm_insert tmp (take k state) (snapshot_files s)\<rparr>)) (\<lambda>_.
     syscall (\<lambda>s. s) (\<lambda>_ s. s))) s)"

definition rename_file :: "string \<Rightarrow> string \<Rightarrow> unit io" where
  "rename_file tmp final s =
     (case hm_get (snapshot_files s) tmp of
        None \<Rightarrow> (Inl enoent, s)
      | Some content \<Rightarrow>
          syscall
            (\<lambda>s. s\<lparr>snapshot_files := hm_insert final content (hm_remove tmp (snapshot_files s))\<rparr>)
            (\<lambda>_ s. s) s)"

definition truncate_changelog :: "unit io" where
  "truncate_changelog =
     io_bind bw_flush_buf (\<lambda>_.
     io_bind (syscall (\<lambda>s. s\<lparr>changelog_file := []\<rparr>) (\<lambda>_ s. s)) (\<lambda>_.
     io_bind (syscall (\<lambda>s. s) (\<lambda>_ s. s)) (\<lambda>_.
     syscall (\<lambda>s. s) (\<lambda>_ s. s))))"

definition checkpoint :: "bytes \<Rightarrow> string \<Rightarrow> unit io" where
  "checkpoint state timestamp s =
     (let final = snapshot_name timestamp; tmp = final @ ''.tmp'' in
      io_bind (write_tmp tmp state) (\<lambda>_.
      io_bind (rename_file tmp final) (\<lambda>_.
      io_bind truncate_changelog (\<lambda>_.
      prune_snapshots (st_max_snapshots s)))) s)"

text \<open>\<open>fs::read\<close> of each name in turn; the first error is the result.\<close>

fun read_files :: "string list \<Rightarrow> bytes list io" where
  "read_files [] = io_return []"
| "read_files (n # ns) =
     io_bind (syscall (\<lambda>s. s) (\<lambda>_ s. s)) (\<lambda>_ s.
       case hm_get (snapshot_files s) n of
         None \<Rightarrow> (Inl enoent, s)
       | Some b \<Rightarrow> io_bind (read_files ns) (\<lambda>bs. io_return (b # bs)) s)"

text \<open>
  The loop over the changelog. A clean end of file, or fewer than four bytes left, ends it;
  a record cut short is an error.
\<close>

function read_changes :: "bytes \<Rightarrow> bytes list \<Rightarrow> bytes list io" where
  "read_changes f changes s =
     (case syscall (\<lambda>s. s) (\<lambda>_ s. s) s of
        (Inl e, s') \<Rightarrow> (Inl e, s')
      | (Inr _, s') \<Rightarrow>
          if length f < 4 then (Inr changes, s')
          else
            (let len = u32_from_be_bytes (take 4 f); rest = drop 4 f in
             case syscall (\<lambda>s. s) (\<lambda>_ s. s) s' of
               (Inl e, s'') \<Rightarrow> (Inl e, s'')
             | (Inr _, s'') \<Rightarrow>
                 if length rest < len then (Inl read_eof, s'')
                 else read_changes (drop len rest) (changes @ [take len rest]) s''))"
  by pat_completeness auto
termination
  by (relation "measure (\<lambda>(f, changes, s). length f)") auto

declare read_changes.simps [simp del]

definition load_changes :: "bytes list io" where
  "load_changes s =
     (if \<not> linked s then (Inr [], s)
      else case syscall (\<lambda>s. s) (\<lambda>_ s. s) s of
        (Inl _, s') \<Rightarrow> (Inr [], s')
      | (Inr _, s') \<Rightarrow> read_changes (changelog_file s') [] s')"

definition load_state_and_changes :: "u64 \<Rightarrow> (bytes list \<times> bytes list) io" where
  "load_state_and_changes num_snapshots s =
     (case list_snapshots s of (all, s') \<Rightarrow>
        io_bind (read_files (drop (length all - as_usize num_snapshots) all)) (\<lambda>snaps.
        io_bind load_changes (\<lambda>changes. io_return (snaps, changes))) s')"

text \<open>\<open>remove_dir_all\<close>: the open files stay writable but have no name any more.\<close>

definition delete :: "storage \<Rightarrow> bool \<times> storage" where
  "delete s =
     (if \<not> linked s then (False, s)
      else case syscall (\<lambda>s. s\<lparr>linked := False, snapshot_files := []\<rparr>) (\<lambda>_ s. s) s of
        (Inl _, s') \<Rightarrow> (False, s')
      | (Inr _, s') \<Rightarrow> (True, s'))"

section \<open>A disk that works\<close>

lemma faults_nil_idem [simp]: "faults s = [] \<Longrightarrow> s\<lparr>faults := []\<rparr> = s"
  by (cases s) simp

lemma syscall_works [simp]: "faults s = [] \<Longrightarrow> syscall success partial s = (Inr (), success s)"
  by (simp add: syscall_def)

subsection \<open>The changelog as a sequence of records\<close>

text \<open>
  What an append-only log promises its clients. \<open>holds s bs\<close>: the log is in working order
  and its records are \<open>bs\<close>; \<open>durable s\<close>: nothing waits in a buffer.
\<close>

locale record_log =
  fixes append_rec :: "bytes \<Rightarrow> 's \<Rightarrow> unit result \<times> 's"
    and flush_log :: "'s \<Rightarrow> unit result \<times> 's"
    and load_log :: "'s \<Rightarrow> bytes list result \<times> 's"
    and holds :: "'s \<Rightarrow> bytes list \<Rightarrow> bool"
    and durable :: "'s \<Rightarrow> bool"
  assumes append_holds: "holds s bs \<Longrightarrow> length b < 2 ^ 32 \<Longrightarrow>
      fst (append_rec b s) = Inr () \<and> holds (snd (append_rec b s)) (bs @ [b])"
    and flush_holds: "holds s bs \<Longrightarrow>
      fst (flush_log s) = Inr () \<and> holds (snd (flush_log s)) bs \<and> durable (snd (flush_log s))"
    and load_holds: "holds s bs \<Longrightarrow> durable s \<Longrightarrow> load_log s = (Inr bs, s)"
begin

definition append_all :: "bytes list \<Rightarrow> 's \<Rightarrow> 's" where
  "append_all bs s = foldl (\<lambda>s b. snd (append_rec b s)) s bs"

lemma append_all_holds:
  "holds s bs \<Longrightarrow> \<forall>b \<in> set cs. length b < 2 ^ 32 \<Longrightarrow> holds (append_all cs s) (bs @ cs)"
proof (induction cs arbitrary: s bs)
  case Nil
  then show ?case by (simp add: append_all_def)
next
  case (Cons c cs)
  then have "holds (snd (append_rec c s)) (bs @ [c])"
    using append_holds by simp
  from Cons.IH [OF this] Cons.prems show ?case
    by (simp add: append_all_def)
qed

lemma append_flush_load:
  assumes "holds s bs" and "\<forall>b \<in> set cs. length b < 2 ^ 32"
  shows "fst (load_log (snd (flush_log (append_all cs s)))) = Inr (bs @ cs)"
  using append_all_holds [OF assms] flush_holds load_holds by fastforce

end

definition changelog_holds :: "storage \<Rightarrow> bytes list \<Rightarrow> bool" where
  "changelog_holds s bs \<longleftrightarrow> faults s = [] \<and> linked s \<and>
     changelog_file s @ changelog_buf s = concat (map frame bs) \<and> (\<forall>b \<in> set bs. length b < 2 ^ 32)"

definition changelog_durable :: "storage \<Rightarrow> bool" where
  "changelog_durable s \<longleftrightarrow> changelog_buf s = []"

text \<open>Writing through the buffer appends, whichever of its paths is taken.\<close>

definition log_extended :: "storage \<Rightarrow> storage \<Rightarrow> bytes \<Rightarrow> bool" where
  "log_extended s s' data \<longleftrightarrow>
     s' = s\<lparr>changelog_file := changelog_file s', changelog_buf := changelog_buf s'\<rparr> \<and>
     changelog_file s' @ changelog_buf s' = changelog_file s @ changelog_buf s @ data"

lemma log_extended_faults: "log_extended s s' data \<Longrightarrow> faults s' = faults s"
  by (metis log_extended_def storage.select_convs(8) storage.surjective storage.update_convs(5,6))

lemma log_extended_linked: "log_extended s s' data \<Longrightarrow> linked s' = linked s"
  by (metis log_extended_def storage.select_convs(3) storage.surjective storage.update_convs(5,6))

lemma log_extended_trans:
  assumes "log_extended s s' d" and "log_extended s' s'' e"
  shows "log_extended s s'' (d @ e)"
  using assms by (cases s; cases s'; cases s'') (auto simp: log_extended_def)

lemma bw_push_extends: "bw_push data s = (Inr (), s') \<Longrightarrow> log_extended s s' data"
  by (auto simp: bw_push_def log_extended_def)

lemma bw_direct_extends:
  "faults s = [] \<Longrightarrow> changelog_buf s = [] \<Longrightarrow>
     bw_direct data s = (Inr (), s') \<Longrightarrow> log_extended s s' data"
  by (auto simp: bw_direct_def log_extended_def)

lemma bw_flush_extends:
  "faults s = [] \<Longrightarrow> \<exists>s'. bw_flush_buf s = (Inr (), s') \<and> log_extended s s' [] \<and> changelog_buf s' = []"
  by (auto simp: bw_flush_buf_def log_extended_def)

lemma bw_push_works: "\<exists>s'. bw_push data s = (Inr (), s') \<and> log_extended s s' data"
  using bw_push_extends by (simp add: bw_push_def)

lemma bw_direct_works:
  "faults s = [] \<Longrightarrow> changelog_buf s = [] \<Longrightarrow>
     \<exists>s'. bw_direct data s = (Inr (), s') \<and> log_extended s s' data"
  using bw_direct_extends by (simp add: bw_direct_def)

lemma bw_tail_works:
  "faults s = [] \<Longrightarrow> (buf_capacity \<le> length data \<Longrightarrow> changelog_buf s = []) \<Longrightarrow>
     \<exists>s'. (if buf_capacity \<le> length data then bw_direct data else bw_push data) s = (Inr (), s') \<and>
          log_extended s s' data"
  by (cases "buf_capacity \<le> length data") (simp_all add: bw_push_works bw_direct_works)

lemma bw_write_all_extends:
  assumes "faults s = []"
  shows "\<exists>s'. bw_write_all data s = (Inr (), s') \<and> log_extended s s' data"
proof -
  let ?spare = "buf_capacity - length (changelog_buf s)"
  consider (fits) "length data < ?spare" | (full) "length data = ?spare"
    | (over) "?spare < length data" by linarith
  then show ?thesis
  proof cases
    case fits
    obtain s' where "bw_push data s = (Inr (), s')" "log_extended s s' data"
      using bw_push_works by blast
    with fits show ?thesis by (simp add: bw_write_all_def)
  next
    case full
    then have "changelog_buf s = []" if "buf_capacity \<le> length data"
      using that by (cases "changelog_buf s") (auto simp: buf_capacity_def)
    then obtain s' where
      "(if buf_capacity \<le> length data then bw_direct data else bw_push data) s = (Inr (), s')"
      "log_extended s s' data"
      using bw_tail_works [OF assms] by blast
    with full show ?thesis
      by (simp add: bw_write_all_def)
  next
    case over
    obtain s1 where s1: "bw_flush_buf s = (Inr (), s1)" "log_extended s s1 []" "changelog_buf s1 = []"
      using bw_flush_extends [OF assms] by blast
    then have "faults s1 = []" using assms by (simp add: log_extended_faults)
    then obtain s' where s':
      "(if buf_capacity \<le> length data then bw_direct data else bw_push data) s1 = (Inr (), s')"
      "log_extended s1 s' data"
      using bw_tail_works s1(3) by blast
    from over s1(1) s'(1) have "bw_write_all data s = (Inr (), s')"
      by (simp add: bw_write_all_def)
    moreover have "log_extended s s' data"
      using log_extended_trans [OF s1(2) s'(2)] by simp
    ultimately show ?thesis by blast
  qed
qed

lemma save_change_holds:
  assumes "changelog_holds s bs" and "length b < 2 ^ 32"
  shows "fst (save_change b s) = Inr () \<and> changelog_holds (snd (save_change b s)) (bs @ [b])"
proof -
  let ?h = "u32_to_be_bytes (as_u32 (length b))"
  from assms(1) have ok: "faults s = []" by (simp add: changelog_holds_def)
  then obtain s1 where 1: "bw_write_all ?h s = (Inr (), s1)" "log_extended s s1 ?h"
    using bw_write_all_extends by blast
  with ok have "faults s1 = []" by (simp add: log_extended_faults)
  then obtain s2 where 2: "bw_write_all b s1 = (Inr (), s2)" "log_extended s1 s2 b"
    using bw_write_all_extends by blast
  have ext: "log_extended s s2 (frame b)"
    unfolding frame_def by (rule log_extended_trans [OF 1(2) 2(2)])
  then have "faults s2 = []" and "linked s2 = linked s"
    using ok by (simp_all add: log_extended_faults log_extended_linked)
  with 1 2 ext assms show ?thesis
    by (simp add: save_change_def changelog_holds_def log_extended_def)
qed

lemma read_changes_frames:
  "faults s = [] \<Longrightarrow> \<forall>b \<in> set bs. length b < 2 ^ 32 \<Longrightarrow>
     read_changes (concat (map frame bs)) acc s = (Inr (acc @ bs), s)"
proof (induction bs arbitrary: acc)
  case Nil
  then show ?case by (simp add: read_changes.simps [of "[]"])
next
  case (Cons b bs)
  let ?f = "frame b @ concat (map frame bs)"
  have "u32_from_be_bytes (take 4 ?f) = length b"
    using Cons.prems by (intro frame_header) simp
  moreover have "drop 4 ?f = b @ concat (map frame bs)"
    by (rule drop_4_frame)
  ultimately have "read_changes ?f acc s = read_changes (concat (map frame bs)) (acc @ [b]) s"
    using Cons.prems by (subst read_changes.simps) (simp add: Let_def)
  with Cons show ?case by simp
qed

lemmas storage_defs [ops_def] =
  save_state_def load_state_def flush_state_def save_change_def flush_changes_def
  list_snapshots_def prune_snapshots_def checkpoint_def load_changes_def
  load_state_and_changes_def delete_def

interpretation changelog: record_log save_change flush_changes load_changes
  changelog_holds changelog_durable
proof unfold_locales
  show "fst (save_change b s) = Inr () \<and> changelog_holds (snd (save_change b s)) (bs @ [b])"
    if "changelog_holds s bs" "length b < 2 ^ 32" for s bs b
    using that by (rule save_change_holds)
  show "fst (flush_changes s) = Inr () \<and> changelog_holds (snd (flush_changes s)) bs \<and>
      changelog_durable (snd (flush_changes s))" if "changelog_holds s bs" for s bs
    using that
    by (auto simp: flush_changes_def bw_flush_buf_def changelog_holds_def changelog_durable_def)
  show "load_changes s = (Inr bs, s)" if "changelog_holds s bs" "changelog_durable s" for s bs
    using that read_changes_frames [of s bs "[]"]
    by (auto simp: load_changes_def changelog_holds_def changelog_durable_def)
qed

section \<open>Snapshots\<close>

lemma prune_loop_keeps_suffix:
  "faults s = [] \<Longrightarrow>
     prune_loop retain snaps s = (Inr (), s\<lparr>snapshot_files :=
       filter (\<lambda>e. fst e \<notin> set (take (length snaps - unat retain) snaps)) (snapshot_files s)\<rparr>)"
proof (induction snaps arbitrary: s)
  case Nil
  then show ?case by simp
next
  case (Cons n ns)
  show ?case
  proof (cases "unat retain < length (n # ns)")
    case True
    let ?s = "s\<lparr>snapshot_files := hm_remove n (snapshot_files s)\<rparr>"
    let ?k = "length ns - unat retain"
    have "length (n # ns) - unat retain = Suc ?k"
      using True by simp
    then have eq: "set (take (length (n # ns) - unat retain) (n # ns)) = insert n (set (take ?k ns))"
      by simp
    have "prune_loop retain (n # ns) s = prune_loop retain ns ?s"
      using True Cons.prems by simp
    also have "\<dots> = (Inr (), ?s\<lparr>snapshot_files :=
        filter (\<lambda>e. fst e \<notin> set (take ?k ns)) (hm_remove n (snapshot_files s))\<rparr>)"
      using Cons.IH [of ?s] Cons.prems by simp
    also have "filter (\<lambda>e. fst e \<notin> set (take ?k ns)) (hm_remove n (snapshot_files s)) =
        filter (\<lambda>e. fst e \<notin> insert n (set (take ?k ns))) (snapshot_files s)"
      by (simp add: hm_remove_def conj_commute)
    finally show ?thesis unfolding eq by simp
  next
    case False
    then show ?thesis by simp
  qed
qed

lemma sort_drop_prefix:
  fixes xs :: "'a::linorder list"
  assumes "distinct xs"
  shows "sort (filter (\<lambda>n. n \<notin> set (take k (sort xs))) xs) = drop k (sort xs)"
proof -
  have "sort (filter (\<lambda>n. n \<notin> set (take k (sort xs))) xs) =
      filter (\<lambda>n. n \<notin> set (take k (sort xs))) (sort xs)"
    by (simp add: filter_sort)
  also have "\<dots> = filter (\<lambda>n. n \<notin> set (take k (sort xs))) (take k (sort xs) @ drop k (sort xs))"
    by simp
  also have "\<dots> = drop k (sort xs)"
    using set_take_disj_set_drop_if_distinct [of "sort xs" k k] assms
    by (auto simp del: append_take_drop_id simp: filter_empty_conv intro!: filter_True)
  finally show ?thesis .
qed

definition snapshot_names :: "storage \<Rightarrow> string list" where
  "snapshot_names s = sort (filter is_snapshot_name (map fst (snapshot_files s)))"

lemma list_snapshots_works:
  "faults s = [] \<Longrightarrow> linked s \<Longrightarrow> list_snapshots s = (snapshot_names s, s)"
  by (simp add: list_snapshots_def snapshot_names_def)

lemma prune_snapshots_works:
  assumes "faults s = []" and "linked s" and "hm_ok (snapshot_files s)"
  shows "\<exists>fs. prune_snapshots retain s = (Inr (), s\<lparr>snapshot_files := fs\<rparr>) \<and>
    snapshot_names (s\<lparr>snapshot_files := fs\<rparr>) =
      drop (length (snapshot_names s) - unat retain) (snapshot_names s) \<and>
    (\<forall>n. n \<in> set (snapshot_names (s\<lparr>snapshot_files := fs\<rparr>)) \<longrightarrow>
       hm_get fs n = hm_get (snapshot_files s) n)"
proof -
  let ?names = "snapshot_names s" and ?k = "length (snapshot_names s) - unat retain"
  let ?fs = "filter (\<lambda>e. fst e \<notin> set (take ?k ?names)) (snapshot_files s)"
  let ?xs = "filter is_snapshot_name (map fst (snapshot_files s))"
  have run: "prune_snapshots retain s = (Inr (), s\<lparr>snapshot_files := ?fs\<rparr>)"
    using assms(1,2) by (simp add: prune_snapshots_def list_snapshots_works prune_loop_keeps_suffix)
  have "filter is_snapshot_name (map fst ?fs) = filter (\<lambda>n. n \<notin> set (take ?k ?names)) ?xs"
    by (simp add: filter_map o_def conj_commute)
  moreover have "distinct ?xs" using assms(3) by (simp add: hm_ok_def)
  ultimately have names: "snapshot_names (s\<lparr>snapshot_files := ?fs\<rparr>) = drop ?k ?names"
    using sort_drop_prefix [of ?xs ?k] by (simp add: snapshot_names_def)
  have "hm_get ?fs n = hm_get (snapshot_files s) n" if "n \<in> set (drop ?k ?names)" for n
  proof -
    have "distinct ?names" using assms(3) by (simp add: snapshot_names_def hm_ok_def)
    then have "n \<notin> set (take ?k ?names)"
      using that set_take_disj_set_drop_if_distinct [of ?names ?k ?k] by auto
    then show ?thesis
      using map_of_filter_key [of "\<lambda>n. n \<notin> set (take ?k ?names)" "snapshot_files s" n] by simp
  qed
  with run names show ?thesis by auto
qed

lemma bw_flush_buf_works:
  "faults s = [] \<Longrightarrow> bw_flush_buf s =
     (Inr (), s\<lparr>changelog_file := changelog_file s @ changelog_buf s, changelog_buf := []\<rparr>)"
  by (cases s) (simp add: bw_flush_buf_def)

lemma truncate_changelog_works:
  "faults s = [] \<Longrightarrow>
     truncate_changelog s = (Inr (), s\<lparr>changelog_file := [], changelog_buf := []\<rparr>)"
  by (simp add: truncate_changelog_def bw_flush_buf_works)

text \<open>What a checkpoint leaves on a working disk.\<close>

lemma checkpoint_works:
  fixes ts :: string and st :: bytes and s :: storage
  assumes ok: "faults s = []" "linked s" "hm_ok (snapshot_files s)"
  defines "s\<^sub>1 \<equiv> s\<lparr>snapshot_files := hm_insert (snapshot_name ts) st
      (hm_remove (snapshot_name ts @ ''.tmp'') (hm_insert (snapshot_name ts @ ''.tmp'') st
        (hm_insert (snapshot_name ts @ ''.tmp'') [] (snapshot_files s)))),
    changelog_file := [], changelog_buf := []\<rparr>"
  shows "\<exists>fs. checkpoint st ts s = (Inr (), s\<^sub>1\<lparr>snapshot_files := fs\<rparr>) \<and>
    snapshot_names (s\<^sub>1\<lparr>snapshot_files := fs\<rparr>) =
      drop (length (snapshot_names s\<^sub>1) - unat (st_max_snapshots s)) (snapshot_names s\<^sub>1) \<and>
    (\<forall>n. n \<in> set (snapshot_names (s\<^sub>1\<lparr>snapshot_files := fs\<rparr>)) \<longrightarrow>
       hm_get fs n = hm_get (snapshot_files s\<^sub>1) n)"
proof -
  have "checkpoint st ts s = prune_snapshots (st_max_snapshots s) s\<^sub>1"
    using ok by (simp add: checkpoint_def Let_def write_tmp_def rename_file_def dict_simps
        truncate_changelog_works s\<^sub>1_def)
  moreover have "faults s\<^sub>1 = []" "linked s\<^sub>1" "hm_ok (snapshot_files s\<^sub>1)"
    using ok by (simp_all add: s\<^sub>1_def hm.ok_ins hm.ok_del)
  ultimately show ?thesis
    using prune_snapshots_works by fastforce
qed

section \<open>A disk that fails\<close>

lemma syscall_cases:
  obtains (works) fs where "syscall success partial s = (Inr (), success (s\<lparr>faults := fs\<rparr>))"
  | (fails) e k fs where "syscall success partial s = (Inl e, partial k (s\<lparr>faults := fs\<rparr>))"
proof (cases "faults s")
  case Nil
  with works [of "[]"] show ?thesis by simp
next
  case (Cons f fs)
  with works [of fs] fails show ?thesis by (cases f) (auto simp: syscall_def)
qed

lemma io_bind_cases:
  assumes "io_bind m f s = (r, s')"
  obtains (fails) e where "m s = (Inl e, s')" "r = Inl e"
  | (works) x s'' where "m s = (Inr x, s'')" "f x s'' = (r, s')"
  using assms by (cases "m s"; cases "fst (m s)") (auto simp: io_bind_def)

text \<open>What every system call of an operation keeps, the operation keeps, wherever it fails.\<close>

lemma syscall_keeps:
  assumes "q s" and "\<And>fs. q s \<Longrightarrow> q (success (s\<lparr>faults := fs\<rparr>))"
    and "\<And>k fs. q s \<Longrightarrow> q (partial k (s\<lparr>faults := fs\<rparr>))"
  shows "q (snd (syscall success partial s))"
  by (cases rule: syscall_cases [of success partial s]) (auto simp: assms)

lemma io_bind_keeps:
  assumes "q (snd (m s))" and "\<And>x s'. q s' \<Longrightarrow> q (snd (f x s'))"
  shows "q (snd (io_bind m f s))"
  using assms by (cases "m s"; cases "fst (m s)") (auto simp: io_bind_def)

lemma prune_loop_removes_prefix:
  "\<exists>j fs. j \<le> length snaps - unat retain \<and>
     snd (prune_loop retain snaps s) =
       s\<lparr>snapshot_files := filter (\<lambda>e. fst e \<notin> set (take j snaps)) (snapshot_files s), faults := fs\<rparr>"
proof (induction snaps arbitrary: s)
  case Nil
  then show ?case by (auto intro: exI [of _ "faults s"])
next
  case (Cons n ns)
  show ?case
  proof (cases "unat retain < length (n # ns)")
    case True
    let ?c = "syscall (\<lambda>s. s\<lparr>snapshot_files := hm_remove n (snapshot_files s)\<rparr>) (\<lambda>_ s. s)"
    show ?thesis
    proof (cases rule: syscall_cases
        [of "\<lambda>s. s\<lparr>snapshot_files := hm_remove n (snapshot_files s)\<rparr>" "\<lambda>_ s. s" s])
      case (works fs)
      let ?s = "s\<lparr>faults := fs, snapshot_files := hm_remove n (snapshot_files s)\<rparr>"
      from works True have run: "prune_loop retain (n # ns) s = prune_loop retain ns ?s"
        by simp
      obtain j fs' where j: "j \<le> length ns - unat retain" and
        s': "snd (prune_loop retain ns ?s) = ?s\<lparr>snapshot_files :=
          filter (\<lambda>e. fst e \<notin> set (take j ns)) (snapshot_files ?s), faults := fs'\<rparr>"
        using Cons.IH [of ?s] by blast
      have "Suc j \<le> length (n # ns) - unat retain" using j True by simp
      moreover have "snd (prune_loop retain (n # ns) s) = s\<lparr>snapshot_files :=
          filter (\<lambda>e. fst e \<notin> set (take (Suc j) (n # ns))) (snapshot_files s), faults := fs'\<rparr>"
        unfolding run s' by (simp add: hm_remove_def conj_commute)
      ultimately show ?thesis by blast
    next
      case (fails e k fs)
      then show ?thesis using True by (intro exI [of _ 0] exI [of _ fs]) simp
    qed
  next
    case False
    then show ?thesis by (intro exI [of _ 0] exI [of _ "faults s"]) simp
  qed
qed

lemma bw_flush_keeps_snapshots: "snapshot_files (snd (bw_flush_buf s)) = snapshot_files s"
proof (cases "changelog_buf s = []")
  case False
  then show ?thesis
    unfolding bw_flush_buf_def
    by (simp, intro syscall_keeps [where q = "\<lambda>s'. snapshot_files s' = snapshot_files s"]) simp_all
qed (simp add: bw_flush_buf_def)

lemma truncate_keeps_snapshots:
  "snapshot_files (snd (truncate_changelog s)) = snapshot_files s"
  unfolding truncate_changelog_def
  by (intro io_bind_keeps [where q = "\<lambda>s'. snapshot_files s' = snapshot_files s"]
      syscall_keeps [where q = "\<lambda>s'. snapshot_files s' = snapshot_files s"])
    (simp_all add: bw_flush_keeps_snapshots)

text \<open>Everything but one file, the temporary one, is as it was.\<close>

definition untouched_but :: "string \<Rightarrow> storage \<Rightarrow> storage \<Rightarrow> bool" where
  "untouched_but tmp s s' \<longleftrightarrow>
     changelog_file s' = changelog_file s \<and> changelog_buf s' = changelog_buf s \<and>
     (\<forall>n. n \<noteq> tmp \<longrightarrow> hm_get (snapshot_files s') n = hm_get (snapshot_files s) n)"

lemma write_tmp_untouched: "untouched_but tmp s (snd (write_tmp tmp st s))"
proof (cases "linked s")
  case True
  then show ?thesis
    unfolding write_tmp_def
    by (simp, intro io_bind_keeps [where q = "untouched_but tmp s"]
        syscall_keeps [where q = "untouched_but tmp s"])
      (auto simp: untouched_but_def dict_simps)
qed (simp add: write_tmp_def untouched_but_def)

lemma write_tmp_content:
  assumes "write_tmp tmp st s = (Inr (), s')"
  shows "hm_get (snapshot_files s') tmp = Some st"
proof -
  let ?c1 = "syscall (\<lambda>s. s\<lparr>snapshot_files := hm_insert tmp [] (snapshot_files s)\<rparr>) (\<lambda>_ s. s)"
  let ?c2 = "syscall (\<lambda>s. s\<lparr>snapshot_files := hm_insert tmp st (snapshot_files s)\<rparr>)
       (\<lambda>k s. s\<lparr>snapshot_files := hm_insert tmp (take k st) (snapshot_files s)\<rparr>)"
  from assms have "io_bind ?c1 (\<lambda>_. io_bind ?c2 (\<lambda>_. syscall (\<lambda>s. s) (\<lambda>_ s. s))) s = (Inr (), s')"
    by (simp add: write_tmp_def split: if_splits)
  then obtain s1 where "io_bind ?c2 (\<lambda>_. syscall (\<lambda>s. s) (\<lambda>_ s. s)) s1 = (Inr (), s')"
    by (cases rule: io_bind_cases) auto
  then obtain s2 where 2: "?c2 s1 = (Inr (), s2)" and 3: "syscall (\<lambda>s. s) (\<lambda>_ s. s) s2 = (Inr (), s')"
    by (cases rule: io_bind_cases) auto
  from 2 have "hm_get (snapshot_files s2) tmp = Some st"
    by (cases rule: syscall_cases
        [of "\<lambda>s. s\<lparr>snapshot_files := hm_insert tmp st (snapshot_files s)\<rparr>"
          "\<lambda>k s. s\<lparr>snapshot_files := hm_insert tmp (take k st) (snapshot_files s)\<rparr>" s1])
      (auto simp: dict_simps)
  moreover from 3 have "snapshot_files s' = snapshot_files s2"
    by (cases rule: syscall_cases [of "\<lambda>s. s" "\<lambda>_ s. s" s2]) auto
  ultimately show ?thesis by simp
qed

lemma tmp_is_no_snapshot: "\<not> is_snapshot_name (snapshot_name ts @ ''.tmp'')"
  by (simp add: is_snapshot_name_def)

lemma snapshot_name_is_snapshot: "is_snapshot_name (snapshot_name ts)"
  by (simp add: is_snapshot_name_def snapshot_name_def)

text \<open>Pruning never removes the newest snapshot when at least one is to be kept.\<close>

lemma write_tmp_ok: "hm_ok (snapshot_files s) \<Longrightarrow> hm_ok (snapshot_files (snd (write_tmp tmp st s)))"
proof (cases "linked s")
  case True
  assume "hm_ok (snapshot_files s)"
  with True show ?thesis
    unfolding write_tmp_def
    by (simp, intro io_bind_keeps [where q = "\<lambda>s. hm_ok (snapshot_files s)"]
        syscall_keeps [where q = "\<lambda>s. hm_ok (snapshot_files s)"])
      (auto simp: hm.ok_ins)
qed (simp add: write_tmp_def)

lemma set_snapshot_names:
  "set (snapshot_names s) = {n. is_snapshot_name n \<and> hm_get (snapshot_files s) n \<noteq> None}"
  by (auto simp: snapshot_names_def map_of_eq_None_iff simp flip: not_None_eq)

lemma sorted_greatest_last:
  fixes xs :: "'a::linorder list"
  assumes "sorted xs" and "distinct xs" and "x \<in> set xs" and "\<forall>y \<in> set xs. y \<le> x" and "k < length xs"
  shows "x \<notin> set (take k xs)"
proof
  assume "x \<in> set (take k xs)"
  then obtain i where i: "i < k" "xs ! i = x" by (auto simp: in_set_conv_nth)
  from assms(3) have "xs \<noteq> []" by auto
  note last = last_conv_nth [OF this]
  have "x \<le> last xs"
    using i assms(1,5) by (auto simp: last intro: sorted_nth_mono)
  moreover have "last xs \<le> x" using assms(4,5) by (cases xs) auto
  ultimately have "xs ! i = xs ! (length xs - 1)"
    using i by (simp add: last)
  with assms(2,5) i show False
    by (auto simp: nth_eq_iff_index_eq)
qed

lemma prune_keeps_newest:
  assumes "hm_get (snapshot_files s) n = Some b" and "is_snapshot_name n"
    and "\<forall>m \<in> set (snapshot_names s). m \<le> n" and "0 < unat retain" and "hm_ok (snapshot_files s)"
  shows "hm_get (snapshot_files (snd (prune_snapshots retain s))) n = Some b"
proof -
  obtain names fs where ls: "list_snapshots s = (names, s\<lparr>faults := fs\<rparr>)"
      "names = [] \<or> names = snapshot_names s"
    by (cases "linked s"; cases rule: syscall_cases [of "\<lambda>s. s" "\<lambda>_ s. s" s])
      (auto simp: list_snapshots_def snapshot_names_def intro: that [of "[]" "faults s"])
  obtain j fs' where j: "j \<le> length names - unat retain" and
    run: "snd (prune_loop retain names (s\<lparr>faults := fs\<rparr>)) = s\<lparr>faults := fs, snapshot_files :=
      filter (\<lambda>e. fst e \<notin> set (take j names)) (snapshot_files s), faults := fs'\<rparr>"
    using prune_loop_removes_prefix [of names retain "s\<lparr>faults := fs\<rparr>"] by auto
  have "n \<in> fst ` set (snapshot_files s)"
    using assms(1) by (force dest: map_of_SomeD)
  then have mem: "n \<in> set (snapshot_names s)"
    using assms(2) by (simp add: snapshot_names_def)
  have "sorted (snapshot_names s)" "distinct (snapshot_names s)"
    using assms(5) by (simp_all add: snapshot_names_def hm_ok_def)
  moreover have "j < length (snapshot_names s)" if "names \<noteq> []"
    using that ls(2) assms(4) j mem by (cases "snapshot_names s") auto
  ultimately have "n \<notin> set (take j names)"
    using ls(2) mem assms(3) sorted_greatest_last [of names n j] by (cases "names = []") auto
  then show ?thesis
    using ls(1) run assms(1) map_of_filter_key [of "\<lambda>n. n \<notin> set (take j names)" "snapshot_files s" n]
    by (simp add: prune_snapshots_def)
qed

text \<open>On a disk that works the new snapshot is among those that are kept.\<close>

lemma checkpoint_keeps_newest:
  assumes ok: "faults s = []" "linked s" "hm_ok (snapshot_files s)"
    and latest: "\<forall>n \<in> set (snapshot_names s). n < snapshot_name ts" and "0 < unat (st_max_snapshots s)"
  shows "fst (checkpoint st ts s) = Inr () \<and>
    changelog_file (snd (checkpoint st ts s)) = [] \<and> changelog_buf (snd (checkpoint st ts s)) = [] \<and>
    length (snapshot_names (snd (checkpoint st ts s))) \<le> unat (st_max_snapshots s) \<and>
    hm_get (snapshot_files (snd (checkpoint st ts s))) (snapshot_name ts) = Some st"
proof -
  let ?s1 = "s\<lparr>snapshot_files := hm_insert (snapshot_name ts) st
      (hm_remove (snapshot_name ts @ ''.tmp'') (hm_insert (snapshot_name ts @ ''.tmp'') st
        (hm_insert (snapshot_name ts @ ''.tmp'') [] (snapshot_files s)))),
    changelog_file := [], changelog_buf := []\<rparr>"
  obtain fs where run: "checkpoint st ts s = (Inr (), ?s1\<lparr>snapshot_files := fs\<rparr>)"
    and names: "snapshot_names (?s1\<lparr>snapshot_files := fs\<rparr>) =
      drop (length (snapshot_names ?s1) - unat (st_max_snapshots s)) (snapshot_names ?s1)"
    and get: "\<And>n. n \<in> set (snapshot_names (?s1\<lparr>snapshot_files := fs\<rparr>)) \<Longrightarrow>
       hm_get fs n = hm_get (snapshot_files ?s1) n"
    using checkpoint_works [OF ok, of st ts] by blast
  have all: "n \<in> set (snapshot_names ?s1) \<longleftrightarrow> n = snapshot_name ts \<or> n \<in> set (snapshot_names s)" for n
    using tmp_is_no_snapshot [of ts] snapshot_name_is_snapshot [of ts]
    by (auto simp: set_snapshot_names dict_simps hm_remove_def map_of_filter_neq split: if_splits)
  have "hm_ok (snapshot_files ?s1)" using ok by (simp add: hm.ok_ins hm.ok_del)
  then have sorted: "sorted (snapshot_names ?s1)" "distinct (snapshot_names ?s1)"
    by (simp_all add: snapshot_names_def hm_ok_def)
  have mem: "snapshot_name ts \<in> set (snapshot_names ?s1)" by (simp add: all)
  have "\<forall>n \<in> set (snapshot_names ?s1). n \<le> snapshot_name ts"
    using latest by (auto simp: all intro: less_imp_le)
  moreover have "length (snapshot_names ?s1) - unat (st_max_snapshots s) < length (snapshot_names ?s1)"
    using mem assms(5) by (cases "snapshot_names ?s1") auto
  ultimately have "snapshot_name ts \<notin>
      set (take (length (snapshot_names ?s1) - unat (st_max_snapshots s)) (snapshot_names ?s1))"
    using sorted_greatest_last [OF sorted mem] by blast
  with mem have "snapshot_name ts \<in> set (snapshot_names (?s1\<lparr>snapshot_files := fs\<rparr>))"
    unfolding names by (metis append_take_drop_id set_append UnE)
  from get [OF this] have "hm_get fs (snapshot_name ts) = Some st" by (simp add: dict_simps)
  moreover have "length (snapshot_names (?s1\<lparr>snapshot_files := fs\<rparr>)) \<le> unat (st_max_snapshots s)"
    unfolding names by simp
  ultimately show ?thesis by (simp add: run)
qed

lemma rename_file_cases:
  assumes "hm_get (snapshot_files s) tmp = Some content"
  obtains (works) fs where "rename_file tmp final s = (Inr (), s\<lparr>faults := fs,
      snapshot_files := hm_insert final content (hm_remove tmp (snapshot_files s))\<rparr>)"
  | (fails) e fs where "rename_file tmp final s = (Inl e, s\<lparr>faults := fs\<rparr>)"
  using assms
  by (cases rule: syscall_cases [of "\<lambda>s. s\<lparr>snapshot_files :=
        hm_insert final content (hm_remove tmp (snapshot_files s))\<rparr>" "\<lambda>_ s. s" s])
    (auto simp: rename_file_def)

text \<open>
  A checkpoint that stops anywhere loses nothing: either neither the changelog nor any
  snapshot has changed, or the new snapshot is in place in full.
\<close>

lemma checkpoint_atomic:
  assumes "hm_ok (snapshot_files s)" and "\<forall>n \<in> set (snapshot_names s). n < snapshot_name ts"
    and "0 < unat (st_max_snapshots s)" and run: "checkpoint st ts s = (r, s')"
  shows "(changelog_file s' = changelog_file s \<and> changelog_buf s' = changelog_buf s \<and>
      (\<forall>n. is_snapshot_name n \<longrightarrow> hm_get (snapshot_files s') n = hm_get (snapshot_files s) n)) \<or>
    hm_get (snapshot_files s') (snapshot_name ts) = Some st"
proof -
  let ?final = "snapshot_name ts" and ?tmp = "snapshot_name ts @ ''.tmp''"
  obtain r1 s1 where 1: "write_tmp ?tmp st s = (r1, s1)" by (cases "write_tmp ?tmp st s")
  then have keep: "untouched_but ?tmp s s1" using write_tmp_untouched [of ?tmp s st] by simp
  then have same: "changelog_file s1 = changelog_file s \<and> changelog_buf s1 = changelog_buf s \<and>
      (\<forall>n. is_snapshot_name n \<longrightarrow> hm_get (snapshot_files s1) n = hm_get (snapshot_files s) n)"
    using tmp_is_no_snapshot unfolding untouched_but_def by metis
  show ?thesis
  proof (cases r1)
    case (Inl e)
    with 1 run same show ?thesis by (simp add: checkpoint_def Let_def)
  next
    case (Inr u)
    with 1 have content: "hm_get (snapshot_files s1) ?tmp = Some st"
      using write_tmp_content by simp
    then show ?thesis
    proof (cases rule: rename_file_cases [where final = ?final])
      case (fails e fs)
      with 1 Inr run have "s' = s1\<lparr>faults := fs\<rparr>"
        by (simp add: checkpoint_def Let_def)
      with same show ?thesis by simp
    next
      case (works fs)
      let ?s2 = "s1\<lparr>faults := fs, snapshot_files := hm_insert ?final st (hm_remove ?tmp (snapshot_files s1))\<rparr>"
      have s': "s' = snd (io_bind truncate_changelog (\<lambda>_. prune_snapshots (st_max_snapshots s)) ?s2)"
        using 1 Inr run works by (simp add: checkpoint_def Let_def)
      have ok: "hm_ok (snapshot_files ?s2)"
        using write_tmp_ok [OF assms(1), of ?tmp st] 1 by (simp add: hm.ok_ins hm.ok_del)
      have get: "hm_get (snapshot_files ?s2) ?final = Some st" by (simp add: dict_simps)
      have newest: "\<forall>m \<in> set (snapshot_names ?s2). m \<le> ?final"
      proof
        fix m assume "m \<in> set (snapshot_names ?s2)"
        then have "m = ?final \<or> m \<in> set (snapshot_names s)"
          using same by (auto simp: set_snapshot_names dict_simps hm_remove_def map_of_filter_neq
              split: if_splits)
        with assms(2) show "m \<le> ?final" by (auto intro: less_imp_le)
      qed
      obtain r3 s3 where t: "truncate_changelog ?s2 = (r3, s3)" by (cases "truncate_changelog ?s2")
      then have files: "snapshot_files s3 = snapshot_files ?s2"
        using truncate_keeps_snapshots [of ?s2] by simp
      then have "snapshot_names s3 = snapshot_names ?s2"
        by (simp add: snapshot_names_def)
      then have "hm_get (snapshot_files (snd (prune_snapshots (st_max_snapshots s) s3))) ?final = Some st"
        using prune_keeps_newest [of s3 ?final st] files get newest ok assms(3)
          snapshot_name_is_snapshot by metis
      then have "hm_get (snapshot_files s') ?final = Some st"
        using t files get unfolding s' by (cases r3) simp_all
      then show ?thesis ..
    qed
  qed
qed

end
