(* ===== verification/Persistence.thy ===== *)
theory Persistence
  imports Storage
begin

text \<open>
  The part of \<open>StorageHelper\<close> that \<open>core/acceptor/src/acceptor.rs\<close> and
  \<open>core/learner/src/learner.rs\<close> have line by line in common, at different types of entries:
  a changelog that is flushed by count or by time, and a snapshot every
  \<open>storage_snapshot_slot_interval\<close> slots after which the map in memory is pruned.

  \<open>bincode\<close> is not part of the repository: an encoding is a parameter, a pair of functions
  into \<open>Result\<close>. Theorems about what is read back assume that decoding inverts encoding.
  An operation reads the clock once; the reading, and the timestamp of a snapshot, are its
  arguments.
\<close>

section \<open>State and operations\<close>

record 'a codec =
  enc :: "'a \<Rightarrow> bytes result"
  dec :: "bytes \<Rightarrow> 'a result"

record clock =
  clk_now :: instant
  clk_timestamp :: string

record storage_helper =
  sh_store :: storage
  sh_enabled :: bool
  sh_config :: run_config
  change_flush_interval :: duration
  change_pending :: u64
  change_last_flush :: instant
  snapshot_slot_offset :: u64
  last_snapshot_slot :: slot

text \<open>Running an operation of the store.\<close>

definition on_store ::
  "'a io \<Rightarrow> 'z storage_helper_scheme \<Rightarrow> 'a result \<times> 'z storage_helper_scheme" where
  "on_store = io_zoom sh_store (\<lambda>st h. h\<lparr>sh_store := st\<rparr>)"

definition sh_flush_changes ::
  "clock \<Rightarrow> 'z storage_helper_scheme \<Rightarrow> unit result \<times> 'z storage_helper_scheme" where
  "sh_flush_changes c h =
     (if \<not> sh_enabled h then (Inr (), h)
      else io_bind (on_store flush_changes)
        (\<lambda>_. io_update (\<lambda>h. h\<lparr>change_last_flush := clk_now c\<rparr>)) h)"

definition sh_maybe_flush_changes ::
  "clock \<Rightarrow> 'z storage_helper_scheme \<Rightarrow> unit result \<times> 'z storage_helper_scheme" where
  "sh_maybe_flush_changes c h =
     (if \<not> sh_enabled h then (Inr (), h)
      else if change_pending h = 0 then (Inr (), h)
      else
        (let elapsed = clk_now c - change_last_flush h in
         if storage_flush_change_count (sh_config h) \<le> change_pending h \<or>
            change_flush_interval h \<le> elapsed
         then io_bind (sh_flush_changes c) (\<lambda>_. io_update (\<lambda>h. h\<lparr>change_pending := 0\<rparr>)) h
         else (Inr (), h)))"

definition sh_save_change ::
  "('e \<Rightarrow> bytes result) \<Rightarrow> clock \<Rightarrow> 'e \<Rightarrow> 'z storage_helper_scheme \<Rightarrow>
   unit result \<times> 'z storage_helper_scheme" where
  "sh_save_change encode c e h =
     (if \<not> sh_enabled h then (Inr (), h)
      else io_bind (io_lift (map_err ''bincode encode changes: '' (encode e))) (\<lambda>blob.
           io_bind (on_store (save_change blob)) (\<lambda>_.
           io_bind (io_update (\<lambda>h. h\<lparr>change_pending := change_pending h + 1\<rparr>)) (\<lambda>_.
           sh_maybe_flush_changes c))) h)"

text \<open>\<open>iter().rev().take(n).collect()\<close>: the last entries.\<close>

definition trimmed :: "u64 \<Rightarrow> (slot, 'v) btree_map \<Rightarrow> (slot, 'v) btree_map" where
  "trimmed n m = drop (length m - as_usize n) m"

definition pruned :: "run_config \<Rightarrow> (slot, 'v) btree_map \<Rightarrow> (slot, 'v) btree_map" where
  "pruned cfg m =
     (if 0 < storage_max_snapshots cfg \<and> 0 < storage_snapshot_slot_interval cfg then
        (let keep_span = saturating_mul (storage_snapshot_slot_interval cfg) (storage_max_snapshots cfg) in
         case bt_last_key m of
           None \<Rightarrow> m
         | Some max_slot \<Rightarrow> bt_retain (\<lambda>s. saturating_sub max_slot keep_span < s) m)
      else m)"

text \<open>A helper and the map it keeps on disk, as one state.\<close>

definition on_helper ::
  "('h \<Rightarrow> 'a result \<times> 'h) \<Rightarrow> 'h \<times> 'm \<Rightarrow> 'a result \<times> 'h \<times> 'm" where
  "on_helper = io_zoom fst (\<lambda>h (_, m). (h, m))"

definition sh_checkpoint ::
  "((slot, 'v) btree_map \<Rightarrow> bytes result) \<Rightarrow> clock \<Rightarrow>
   'z storage_helper_scheme \<times> (slot, 'v) btree_map \<Rightarrow>
   unit result \<times> 'z storage_helper_scheme \<times> (slot, 'v) btree_map" where
  "sh_checkpoint encode c hm =
     io_bind (io_lift (map_err ''bincode encode snapshot: ''
        (encode (trimmed (storage_snapshot_slot_interval (sh_config (fst hm))) (snd hm))))) (\<lambda>blob.
     io_bind (on_helper (on_store (checkpoint blob (clk_timestamp c)))) (\<lambda>_.
     io_update (\<lambda>(h, m). (h, pruned (sh_config h) m)))) hm"

definition sh_maybe_snapshot ::
  "((slot, 'v) btree_map \<Rightarrow> bytes result) \<Rightarrow> clock \<Rightarrow> slot \<Rightarrow>
   'z storage_helper_scheme \<times> (slot, 'v) btree_map \<Rightarrow>
   unit result \<times> 'z storage_helper_scheme \<times> (slot, 'v) btree_map" where
  "sh_maybe_snapshot encode c slot hm =
     (let h = fst hm; interval = storage_snapshot_slot_interval (sh_config h) in
      if \<not> sh_enabled h \<or> interval = 0 then (Inr (), hm)
      else if slot mod interval = snapshot_slot_offset h \<and> last_snapshot_slot h < slot then
        io_bind (on_helper (sh_flush_changes c)) (\<lambda>_.
        io_bind (sh_checkpoint encode c) (\<lambda>_.
        io_update (\<lambda>(h, m). (h\<lparr>last_snapshot_slot := slot\<rparr>, m)))) hm
      else (Inr (), hm))"

text \<open>
  The loops of recovery: decode each blob and insert what it holds; the first that does not
  decode ends the loop, with the earlier ones inserted.
\<close>

fun apply_blobs ::
  "(bytes \<Rightarrow> 'x result) \<Rightarrow> ('x \<Rightarrow> 's \<Rightarrow> 's) \<Rightarrow> bytes list \<Rightarrow> 's \<Rightarrow> unit result \<times> 's" where
  "apply_blobs decode f [] = io_return ()"
| "apply_blobs decode f (b # bs) =
     io_bind (io_lift (decode b)) (\<lambda>x.
     io_bind (io_update (f x)) (\<lambda>_. apply_blobs decode f bs))"

text \<open>
  \<open>StorageHelper::new\<close>. The hash of the key is a parameter, for Rust leaves the algorithm
  of \<open>DefaultHasher\<close> open. The remainder by a zero interval panics: \<open>None\<close>.
\<close>

definition sh_new ::
  "(string \<Rightarrow> u64) \<Rightarrow> clock \<Rightarrow> string \<Rightarrow> run_config \<Rightarrow> bool \<Rightarrow> storage \<Rightarrow> storage_helper option" where
  "sh_new hash c key cfg enabled disk =
     (if storage_snapshot_slot_interval cfg = 0 then None
      else Some
        \<lparr>sh_store = storage_new key (storage_max_snapshots cfg) disk,
         sh_enabled = enabled,
         sh_config = cfg,
         change_flush_interval = from_millis (storage_flush_change_interval_ms cfg),
         change_pending = 0,
         change_last_flush = clk_now c,
         snapshot_slot_offset = hash key mod storage_snapshot_slot_interval cfg,
         last_snapshot_slot = 0\<rparr>)"

lemmas sh_defs [ops_def] =
  sh_flush_changes_def sh_maybe_flush_changes_def sh_save_change_def

section \<open>What a helper in working order keeps\<close>

text \<open>Everything but the disk and the flush counters.\<close>

definition same_settings :: "'z storage_helper_scheme \<Rightarrow> 'z storage_helper_scheme \<Rightarrow> bool" where
  "same_settings h h' \<longleftrightarrow>
     sh_enabled h' = sh_enabled h \<and> sh_config h' = sh_config h \<and>
     change_flush_interval h' = change_flush_interval h \<and>
     snapshot_slot_offset h' = snapshot_slot_offset h \<and>
     last_snapshot_slot h' = last_snapshot_slot h \<and>
     storage_helper.more h' = storage_helper.more h"

lemma same_settings_refl [simp]: "same_settings h h"
  by (simp add: same_settings_def)

lemma same_settings_trans: "same_settings h h' \<Longrightarrow> same_settings h' h'' \<Longrightarrow> same_settings h h''"
  by (simp add: same_settings_def)

lemma same_settings_update [simp]:
  "same_settings h (h'\<lparr>sh_store := s\<rparr>) = same_settings h h'"
  "same_settings h (h'\<lparr>change_pending := n\<rparr>) = same_settings h h'"
  "same_settings h (h'\<lparr>change_last_flush := t\<rparr>) = same_settings h h'"
  by (simp_all add: same_settings_def)

lemma on_store_eq: "on_store f h = (fst (f (sh_store h)), h\<lparr>sh_store := snd (f (sh_store h))\<rparr>)"
  by (simp add: on_store_def io_zoom_def split_def)

lemma io_bind_eq:
  "io_bind m f s = (case fst (m s) of Inl e \<Rightarrow> (Inl e, snd (m s)) | Inr x \<Rightarrow> f x (snd (m s)))"
  by (cases "m s"; cases "fst (m s)") simp_all

lemma sh_flush_settings: "same_settings h h' \<Longrightarrow> same_settings h (snd (sh_flush_changes c h'))"
  by (simp add: sh_flush_changes_def io_bind_eq on_store_eq split: sum.split)

lemma sh_maybe_flush_settings:
  "same_settings h h' \<Longrightarrow> same_settings h (snd (sh_maybe_flush_changes c h'))"
  by (simp add: sh_maybe_flush_changes_def Let_def io_bind_eq sh_flush_settings split: sum.split)

lemma sh_save_change_settings: "same_settings h (snd (sh_save_change encode c e h))"
  by (simp add: sh_save_change_def io_bind_eq on_store_eq sh_maybe_flush_settings split: sum.split)

text \<open>The entries the changelog of a helper holds, those in the write buffer included.\<close>

definition logged :: "'e codec \<Rightarrow> 'z storage_helper_scheme \<Rightarrow> 'e list \<Rightarrow> bool" where
  "logged cd h es \<longleftrightarrow>
     (\<exists>bs. changelog_holds (sh_store h) bs \<and> map (dec cd) bs = map Inr es)"

text \<open>An entry the codec can write and read back, in a record short enough for its header.\<close>

definition writable :: "'e codec \<Rightarrow> 'e \<Rightarrow> bool" where
  "writable cd e \<longleftrightarrow> (\<exists>b. enc cd e = Inr b \<and> dec cd b = Inr e \<and> length b < 2 ^ 32)"

lemma flush_snapshot_files: "snapshot_files (snd (flush_changes s)) = snapshot_files s"
  by (simp add: flush_changes_def bw_flush_keeps_snapshots)

lemma sh_flush_works:
  assumes "logged cd h es"
  shows "fst (sh_flush_changes c h) = Inr ()" "logged cd (snd (sh_flush_changes c h)) es"
    "sh_enabled h \<Longrightarrow> changelog_durable (sh_store (snd (sh_flush_changes c h)))"
    "snapshot_files (sh_store (snd (sh_flush_changes c h))) = snapshot_files (sh_store h)"
  using assms changelog.flush_holds
  by (fastforce simp: sh_flush_changes_def logged_def io_bind_eq on_store_eq flush_snapshot_files
      split: sum.split)+

lemma sh_maybe_flush_works:
  assumes "logged cd h es"
  shows "fst (sh_maybe_flush_changes c h) = Inr ()" "logged cd (snd (sh_maybe_flush_changes c h)) es"
    "snapshot_files (sh_store (snd (sh_maybe_flush_changes c h))) = snapshot_files (sh_store h)"
  using sh_flush_works [OF assms, of c] assms
  by (simp_all add: sh_maybe_flush_changes_def Let_def io_bind_eq logged_def split: sum.split)

lemma io_bind_ok: "fst (m s) = Inr x \<Longrightarrow> io_bind m f s = f x (snd (m s))"
  by (simp add: io_bind_eq)

lemma save_change_snapshot_files:
  assumes "faults s = []"
  shows "snapshot_files (snd (save_change b s)) = snapshot_files s"
proof -
  have ext: "snapshot_files s' = snapshot_files s" if "log_extended s s' d" for s s' d
    using that unfolding log_extended_def
    by (metis storage.select_convs(4) storage.surjective storage.update_convs(5,6))
  obtain s1 where 1: "bw_write_all (u32_to_be_bytes (as_u32 (length b))) s = (Inr (), s1)"
      "log_extended s s1 (u32_to_be_bytes (as_u32 (length b)))"
    using bw_write_all_extends [OF assms] by blast
  then have "faults s1 = []" using assms by (simp add: log_extended_faults)
  then obtain s2 where "bw_write_all b s1 = (Inr (), s2)" "log_extended s1 s2 b"
    using bw_write_all_extends by blast
  with 1 ext show ?thesis by (simp add: save_change_def)
qed

lemma sh_save_change_works:
  assumes "logged cd h es" and "writable cd e" and "sh_enabled h"
  shows "fst (sh_save_change (enc cd) c e h) = Inr ()"
    "logged cd (snd (sh_save_change (enc cd) c e h)) (es @ [e])"
    "snapshot_files (sh_store (snd (sh_save_change (enc cd) c e h))) = snapshot_files (sh_store h)"
proof -
  obtain b where b: "enc cd e = Inr b" "dec cd b = Inr e" "length b < 2 ^ 32"
    using assms(2) by (auto simp: writable_def)
  obtain bs where bs: "changelog_holds (sh_store h) bs" "map (dec cd) bs = map Inr es"
    using assms(1) by (auto simp: logged_def)
  note saved = save_change_holds [OF bs(1) b(3)]
  define h' where "h' = h\<lparr>sh_store := snd (save_change b (sh_store h)),
    change_pending := change_pending h + 1\<rparr>"
  have eq: "sh_save_change (enc cd) c e h = sh_maybe_flush_changes c h'"
    using assms(3) b(1) saved
    by (simp add: sh_save_change_def io_bind_eq on_store_eq h'_def)
  have "logged cd h' (es @ [e])"
    using saved bs(2) b(2) by (auto simp: logged_def h'_def intro!: exI [of _ "bs @ [b]"])
  moreover have "snapshot_files (sh_store h') = snapshot_files (sh_store h)"
    using bs(1) by (simp add: h'_def save_change_snapshot_files changelog_holds_def)
  ultimately show "fst (sh_save_change (enc cd) c e h) = Inr ()"
    "logged cd (snd (sh_save_change (enc cd) c e h)) (es @ [e])"
    "snapshot_files (sh_store (snd (sh_save_change (enc cd) c e h))) = snapshot_files (sh_store h)"
    using sh_maybe_flush_works unfolding eq by fastforce+
qed

section \<open>Reading back\<close>

lemma apply_blobs_works:
  "map d bs = map Inr xs \<Longrightarrow> apply_blobs d f bs s = (Inr (), foldl (\<lambda>s x. f x s) s xs)"
  by (induction bs arbitrary: s xs) auto

lemma load_changes_logged:
  "logged cd h es \<Longrightarrow> changelog_durable (sh_store h) \<Longrightarrow>
     \<exists>bs. load_changes (sh_store h) = (Inr bs, sh_store h) \<and> map (dec cd) bs = map Inr es"
  by (auto simp: logged_def dest: changelog.load_holds)

lemma read_files_works:
  "faults s = [] \<Longrightarrow> (\<And>n. n \<in> set ns \<Longrightarrow> hm_get (snapshot_files s) n = Some (content n)) \<Longrightarrow>
     read_files ns s = (Inr (map content ns), s)"
proof (induction ns)
  case (Cons n ns)
  then have "read_files ns s = (Inr (map content ns), s)" by simp
  with Cons.prems show ?case by simp
qed simp

text \<open>The snapshots a start reads: the contents of the last ones by name.\<close>

definition newest_snapshots :: "u64 \<Rightarrow> storage \<Rightarrow> bytes list" where
  "newest_snapshots n s =
     map (\<lambda>name. the (hm_get (snapshot_files s) name))
       (drop (length (snapshot_names s) - as_usize n) (snapshot_names s))"

lemma load_state_and_changes_works:
  assumes "logged cd h es" and "changelog_durable (sh_store h)"
  shows "\<exists>bs. load_state_and_changes n (sh_store h) =
      (Inr (newest_snapshots n (sh_store h), bs), sh_store h) \<and> map (dec cd) bs = map Inr es"
proof -
  let ?s = "sh_store h"
  have ok: "faults ?s = []" "linked ?s"
    using assms(1) by (auto simp: logged_def changelog_holds_def)
  obtain bs where bs: "load_changes ?s = (Inr bs, ?s)" "map (dec cd) bs = map Inr es"
    using load_changes_logged [OF assms] by blast
  have "read_files (drop (length (snapshot_names ?s) - as_usize n) (snapshot_names ?s)) ?s =
      (Inr (newest_snapshots n ?s), ?s)"
    unfolding newest_snapshots_def
    by (rule read_files_works [OF ok(1)]) (auto dest: in_set_dropD simp: set_snapshot_names)
  with bs ok show ?thesis
    by (simp add: load_state_and_changes_def list_snapshots_works)
qed

end
