(* ===== verification/Acceptor.thy ===== *)
theory Acceptor
  imports Persistence
begin

text \<open>
  The core acceptor (\<open>paxos-wasm/core/acceptor/src/acceptor.rs\<close>): the list of promises it
  made, the proposal it accepted in each slot, and its \<open>StorageHelper\<close>, which extends the
  shared one by the file with the promises. Errors of the storage are logged and otherwise
  ignored by \<open>prepare\<close> and \<open>accept\<close>, as in the source.
\<close>

section \<open>State\<close>

record acceptor_helper = storage_helper +
  state_flush_interval :: duration
  state_pending :: u64
  state_last_flush :: instant

record acceptor =
  acc_config :: run_config
  promises :: "ballot list"
  accepted_map :: "(slot, p_value) btree_map"
  acc_storage :: acceptor_helper

text \<open>The encodings of \<open>PersistentCurrentState\<close>, \<open>PersistentSnapshotState\<close>, \<open>PValue\<close>.\<close>

record acceptor_codec =
  promises_codec :: "ballot list codec"
  snapshot_codec :: "(slot, p_value) btree_map codec"
  change_codec :: "p_value codec"

section \<open>The storage helper\<close>

definition acceptor_helper_new ::
  "(string \<Rightarrow> u64) \<Rightarrow> clock \<Rightarrow> string \<Rightarrow> run_config \<Rightarrow> bool \<Rightarrow> storage \<Rightarrow> acceptor_helper option" where
  "acceptor_helper_new hash c key cfg enabled disk =
     map_option (\<lambda>h. storage_helper.extend h
         (acceptor_helper.fields (from_millis (storage_flush_state_interval_ms cfg)) 0 (clk_now c)))
       (sh_new hash c key cfg enabled disk)"

definition flush_current_state :: "clock \<Rightarrow> acceptor_helper \<Rightarrow> unit result \<times> acceptor_helper" where
  "flush_current_state c h =
     (if \<not> sh_enabled h then (Inr (), h)
      else io_bind (io_update (\<lambda>h. h\<lparr>state_last_flush := clk_now c\<rparr>)) (\<lambda>_.
           io_map_err ''storage.flush_state promises: '' (on_store flush_state)) h)"

definition maybe_flush_current_state ::
  "clock \<Rightarrow> acceptor_helper \<Rightarrow> unit result \<times> acceptor_helper" where
  "maybe_flush_current_state c h =
     (if \<not> sh_enabled h then (Inr (), h)
      else if state_pending h = 0 then (Inr (), h)
      else
        (let elapsed = clk_now c - state_last_flush h in
         if storage_flush_state_count (sh_config h) \<le> state_pending h \<or>
            state_flush_interval h \<le> elapsed
         then io_bind (flush_current_state c) (\<lambda>_. io_update (\<lambda>h. h\<lparr>state_pending := 0\<rparr>)) h
         else (Inr (), h)))"

definition save_current_state ::
  "acceptor_codec \<Rightarrow> clock \<Rightarrow> ballot list \<Rightarrow> acceptor_helper \<Rightarrow> unit result \<times> acceptor_helper" where
  "save_current_state cd c ps h =
     (if \<not> sh_enabled h then (Inr (), h)
      else io_bind (io_lift (map_err ''bincode encode promises: '' (enc (promises_codec cd) ps))) (\<lambda>blob.
           io_bind (io_map_err ''storage.save_state promises: '' (on_store (save_state blob))) (\<lambda>_.
           io_bind (io_update (\<lambda>h. h\<lparr>state_pending := state_pending h + 1\<rparr>)) (\<lambda>_.
           maybe_flush_current_state c))) h)"

text \<open>The pattern of the error that stands for a missing file is the source's.\<close>

definition no_such_file :: string where
  "no_such_file = ''no such file''"

definition load_current_state ::
  "acceptor_codec \<Rightarrow> acceptor_helper \<times> ballot list \<Rightarrow> unit result \<times> acceptor_helper \<times> ballot list" where
  "load_current_state cd hp =
     (let (h, ps) = hp in
      if \<not> sh_enabled h then (Inr (), hp)
      else case on_store load_state h of
        (Inr blob, h') \<Rightarrow>
          (case map_err ''bincode decode promises: '' (dec (promises_codec cd) blob) of
             Inl e \<Rightarrow> (Inl e, h', ps)
           | Inr ps' \<Rightarrow> (Inr (), h', ps'))
      | (Inl e, h') \<Rightarrow>
          if contains no_such_file e then (Inr (), h', ps)
          else (Inl (''storage.load_state promises: '' @ e), h', ps))"

definition acceptor_save_change ::
  "acceptor_codec \<Rightarrow> clock \<Rightarrow> p_value \<Rightarrow> acceptor_helper \<Rightarrow> unit result \<times> acceptor_helper" where
  "acceptor_save_change cd c pv = sh_save_change (enc (change_codec cd)) c pv"

definition acceptor_checkpoint_snapshot ::
  "acceptor_codec \<Rightarrow> clock \<Rightarrow> acceptor_helper \<times> (slot, p_value) btree_map \<Rightarrow>
   unit result \<times> acceptor_helper \<times> (slot, p_value) btree_map" where
  "acceptor_checkpoint_snapshot cd c hm =
     (if \<not> sh_enabled (fst hm) then (Inr (), hm)
      else sh_checkpoint (enc (snapshot_codec cd)) c hm)"

definition acceptor_maybe_snapshot ::
  "acceptor_codec \<Rightarrow> clock \<Rightarrow> slot \<Rightarrow> acceptor_helper \<times> (slot, p_value) btree_map \<Rightarrow>
   unit result \<times> acceptor_helper \<times> (slot, p_value) btree_map" where
  "acceptor_maybe_snapshot cd c s = sh_maybe_snapshot (enc (snapshot_codec cd)) c s"

text \<open>The rest of recovery, after the promises: the snapshots, then the changelog.\<close>

definition insert_all :: "(slot, 'v) btree_map \<Rightarrow> (slot, 'v) btree_map \<Rightarrow> (slot, 'v) btree_map" where
  "insert_all kvs m = foldl (\<lambda>m (k, v). bt_insert k v m) m kvs"

definition load_accepted ::
  "acceptor_codec \<Rightarrow> acceptor_helper \<times> (slot, p_value) btree_map \<Rightarrow>
   unit result \<times> acceptor_helper \<times> (slot, p_value) btree_map" where
  "load_accepted cd =
     io_bind (on_helper (\<lambda>h. io_map_err ''storage.load_state_and_changes: ''
         (on_store (load_state_and_changes (storage_load_snapshots (sh_config h)))) h)) (\<lambda>(snapshots, changes).
     io_bind (io_update (\<lambda>(h, m). (h, []))) (\<lambda>_.
     io_bind (io_zoom snd (\<lambda>m (h, _). (h, m))
       (apply_blobs (\<lambda>b. map_err ''bincode decode snapshot: '' (dec (snapshot_codec cd) b))
          insert_all snapshots)) (\<lambda>_.
     io_zoom snd (\<lambda>m (h, _). (h, m))
       (apply_blobs (\<lambda>b. map_err ''bincode decode change: '' (dec (change_codec cd) b))
          (\<lambda>pv. bt_insert (pv_slot pv) pv) changes))))"

definition load_and_combine_state :: "acceptor_codec \<Rightarrow> acceptor \<Rightarrow> unit result \<times> acceptor" where
  "load_and_combine_state cd a =
     (if \<not> sh_enabled (acc_storage a) then (Inr (), a)
      else io_bind
        (io_zoom (\<lambda>a. (acc_storage a, promises a)) (\<lambda>(h, ps) a. a\<lparr>acc_storage := h, promises := ps\<rparr>)
          (load_current_state cd)) (\<lambda>_.
        io_zoom (\<lambda>a. (acc_storage a, accepted_map a)) (\<lambda>(h, m) a. a\<lparr>acc_storage := h, accepted_map := m\<rparr>)
          (load_accepted cd)) a)"

section \<open>The acceptor\<close>

definition acceptor_new ::
  "(string \<Rightarrow> u64) \<Rightarrow> clock \<Rightarrow> string \<Rightarrow> run_config \<Rightarrow> storage \<Rightarrow> acceptor option" where
  "acceptor_new hash c nid cfg disk =
     map_option (\<lambda>h. \<lparr>acc_config = cfg, promises = [], accepted_map = [], acc_storage = h\<rparr>)
       (acceptor_helper_new hash c (''node'' @ nid @ ''-acceptor'') cfg (persistent_storage cfg) disk)"

definition highest_promised_ballot :: "acceptor \<Rightarrow> ballot" where
  "highest_promised_ballot a = (if promises a = [] then 0 else last (promises a))"

definition collect_accepted_from :: "slot \<Rightarrow> acceptor \<Rightarrow> p_value list" where
  "collect_accepted_from s a = bt_values (bt_range_from s (accepted_map a))"

definition highest_accepted_slot :: "acceptor \<Rightarrow> slot" where
  "highest_accepted_slot a = (case bt_last_key (accepted_map a) of Some s \<Rightarrow> s | None \<Rightarrow> 0)"

definition acceptor_prepare ::
  "acceptor_codec \<Rightarrow> clock \<Rightarrow> slot \<Rightarrow> ballot \<Rightarrow> acceptor \<Rightarrow> promise_result \<times> acceptor" where
  "acceptor_prepare cd c s b a =
     (let highest = highest_promised_ballot a in
      if b < highest then (PromiseRejected highest, a)
      else
        (let a' = (if highest < b then
               (let a1 = a\<lparr>promises := promises a @ [b]\<rparr>;
                    (r, h) = save_current_state cd c (promises a1) (acc_storage a1) in
                a1\<lparr>acc_storage := h\<rparr>)
             else a) in
         (Promised \<lparr>prom_slot = s, prom_ballot = b, prom_accepted = collect_accepted_from s a'\<rparr>, a')))"

definition accepted_reply :: "slot \<Rightarrow> ballot \<Rightarrow> accepted_result" where
  "accepted_reply s b = AcceptedOk \<lparr>ad_slot = s, ad_ballot = b, ad_success = True\<rparr>"

definition acceptor_accept ::
  "acceptor_codec \<Rightarrow> clock \<Rightarrow> slot \<Rightarrow> ballot \<Rightarrow> paxos_value \<Rightarrow> acceptor \<Rightarrow> accepted_result \<times> acceptor" where
  "acceptor_accept cd c s b v a =
     (let current = highest_promised_ballot a in
      if b < current then (AcceptedRejected current, a)
      else case bt_get (accepted_map a) s of
        Some existing \<Rightarrow>
          if pv_ballot existing = b \<and> pv_value existing = Some v then (accepted_reply s b, a)
          else if pv_value existing = Some v then (accepted_reply s b, a)
          else (AcceptedRejected (pv_ballot existing), a)
      | None \<Rightarrow>
          (let pv = \<lparr>pv_slot = s, pv_ballot = b, pv_value = Some v\<rparr>;
               m = bt_insert s pv (accepted_map a);
               (r1, h1) = acceptor_save_change cd c pv (acc_storage a);
               (r2, h2, m2) = acceptor_maybe_snapshot cd c s (h1, m) in
           (accepted_reply s b, a\<lparr>accepted_map := m2, acc_storage := h2\<rparr>)))"

definition acceptor_get_accepted :: "slot \<Rightarrow> acceptor \<Rightarrow> p_value option" where
  "acceptor_get_accepted s a = bt_get (accepted_map a) s"

definition acceptor_get_state :: "acceptor \<Rightarrow> acceptor_state" where
  "acceptor_get_state a = \<lparr>as_promises = promises a, as_accepted = bt_values (accepted_map a)\<rparr>"

definition acceptor_load_state :: "acceptor_codec \<Rightarrow> acceptor \<Rightarrow> unit result \<times> acceptor" where
  "acceptor_load_state cd a = load_and_combine_state cd a"

definition acceptor_maybe_flush :: "clock \<Rightarrow> acceptor \<Rightarrow> unit result \<times> acceptor" where
  "acceptor_maybe_flush c =
     io_zoom acc_storage (\<lambda>h a. a\<lparr>acc_storage := h\<rparr>)
       (io_bind (maybe_flush_current_state c) (\<lambda>_. sh_maybe_flush_changes c))"

section \<open>The invariant\<close>

text \<open>Promises ascend strictly; every accepted proposal sits at its slot with a value.\<close>

definition acceptor_inv :: "acceptor \<Rightarrow> bool" where
  "acceptor_inv a \<longleftrightarrow>
     sorted_wrt (<) (0 # promises a) \<and> bt_ok (accepted_map a) \<and>
     (\<forall>s pv. bt_get (accepted_map a) s = Some pv \<longrightarrow> pv_slot pv = s \<and> pv_value pv \<noteq> None)"

lemma highest_promised_last: "highest_promised_ballot a = last (0 # promises a)"
  by (simp add: highest_promised_ballot_def)

lemma sorted_snoc_last:
  "sorted_wrt (<) xs \<Longrightarrow> xs \<noteq> [] \<Longrightarrow> last xs < (x :: u64) \<Longrightarrow> sorted_wrt (<) (xs @ [x])"
  by (cases xs rule: rev_cases) (auto simp: sorted_wrt_append)

lemma pruned_get: "bt_get (pruned cfg m) s = Some x \<Longrightarrow> bt_get m s = Some x"
  by (auto simp: pruned_def Let_def dict_simps split: option.splits if_splits)

lemma pruned_ok: "bt_ok m \<Longrightarrow> bt_ok (pruned cfg m)"
  by (auto simp: pruned_def Let_def bt_ok_retain split: option.splits)

lemma on_helper_snd [simp]: "snd (snd (on_helper f hm)) = snd hm"
  by (simp add: on_helper_def io_zoom_def split_def)

lemma on_helper_eq: "on_helper f (h, m) = (fst (f h), snd (f h), m)"
  by (simp add: on_helper_def io_zoom_def split_def)

text \<open>A snapshot leaves the map in memory as it is or prunes it, whatever the disk does.\<close>

lemma sh_maybe_snapshot_map:
  "snd (snd (sh_maybe_snapshot encode c s (h, m))) = m \<or>
   snd (snd (sh_maybe_snapshot encode c s (h, m))) = pruned (sh_config h) m"
proof -
  have "sh_config (snd (sh_flush_changes c h)) = sh_config h"
    using sh_flush_settings [of h h c] by (simp add: same_settings_def)
  then show ?thesis
    by (auto simp: sh_maybe_snapshot_def sh_checkpoint_def Let_def io_bind_eq on_helper_eq on_store_eq
        split: sum.split)
qed

lemma sh_maybe_snapshot_disabled:
  "\<not> sh_enabled h \<Longrightarrow> sh_maybe_snapshot encode c s (h, m) = (Inr (), h, m)"
  by (simp add: sh_maybe_snapshot_def Let_def)

lemma acceptor_save_change_settings:
  "same_settings h (snd (acceptor_save_change cd c pv h))"
  by (simp add: acceptor_save_change_def sh_save_change_settings)

text \<open>The proposal a new slot gets, and helper and map after it was recorded.\<close>

definition recorded ::
  "acceptor_codec \<Rightarrow> clock \<Rightarrow> p_value \<Rightarrow> acceptor \<Rightarrow> acceptor_helper \<times> (slot, p_value) btree_map" where
  "recorded cd c pv a =
     snd (acceptor_maybe_snapshot cd c (pv_slot pv)
       (snd (acceptor_save_change cd c pv (acc_storage a)),
        bt_insert (pv_slot pv) pv (accepted_map a)))"

abbreviation new_pv :: "slot \<Rightarrow> ballot \<Rightarrow> paxos_value \<Rightarrow> p_value" where
  "new_pv s b v \<equiv> \<lparr>pv_slot = s, pv_ballot = b, pv_value = Some v\<rparr>"

lemma acceptor_accept_new:
  "\<not> b < highest_promised_ballot a \<Longrightarrow> bt_get (accepted_map a) s = None \<Longrightarrow>
   acceptor_accept cd c s b v a =
     (accepted_reply s b, a\<lparr>accepted_map := snd (recorded cd c (new_pv s b v) a),
        acc_storage := fst (recorded cd c (new_pv s b v) a)\<rparr>)"
  by (simp add: acceptor_accept_def recorded_def Let_def split_def)

lemma recorded_map:
  "snd (recorded cd c pv a) = bt_insert (pv_slot pv) pv (accepted_map a) \<or>
   snd (recorded cd c pv a) =
     pruned (sh_config (acc_storage a)) (bt_insert (pv_slot pv) pv (accepted_map a))"
proof -
  let ?h = "snd (acceptor_save_change cd c pv (acc_storage a))"
  have "sh_config ?h = sh_config (acc_storage a)"
    using acceptor_save_change_settings [of "acc_storage a" cd c pv] by (simp add: same_settings_def)
  then show ?thesis
    using sh_maybe_snapshot_map [of "enc (snapshot_codec cd)" c "pv_slot pv" ?h]
    by (simp add: recorded_def acceptor_maybe_snapshot_def)
qed

lemma recorded_disabled:
  "\<not> sh_enabled (acc_storage a) \<Longrightarrow>
   recorded cd c pv a = (acc_storage a, bt_insert (pv_slot pv) pv (accepted_map a))"
  by (simp add: recorded_def acceptor_maybe_snapshot_def acceptor_save_change_def
      sh_save_change_def sh_maybe_snapshot_disabled)

lemma recorded_get:
  "bt_ok (accepted_map a) \<Longrightarrow> bt_get (snd (recorded cd c pv a)) k = Some pv' \<Longrightarrow>
   if k = pv_slot pv then pv' = pv else bt_get (accepted_map a) k = Some pv'"
  using recorded_map [of cd c pv a]
  by (auto simp: dict_simps dest!: pruned_get split: if_splits)

lemma recorded_ok: "bt_ok (accepted_map a) \<Longrightarrow> bt_ok (snd (recorded cd c pv a))"
  using recorded_map [of cd c pv a] by (auto simp: bt_insert_sorted pruned_ok)

lemma acceptor_accept_old:
  assumes "b < highest_promised_ballot a \<or> bt_get (accepted_map a) s \<noteq> None"
  shows "snd (acceptor_accept cd c s b v a) = a"
  using assms by (auto simp: acceptor_accept_def Let_def)

lemma acceptor_accept_cases:
  fixes b :: ballot
  obtains (old) "b < highest_promised_ballot a \<or> bt_get (accepted_map a) s \<noteq> None"
  | (new) "\<not> b < highest_promised_ballot a" "bt_get (accepted_map a) s = None"
  by blast

lemma acceptor_accept_promises [simp]: "promises (snd (acceptor_accept cd c s b v a)) = promises a"
  by (cases b a s rule: acceptor_accept_cases) (simp_all add: acceptor_accept_old acceptor_accept_new)

lemma acceptor_accept_get:
  assumes "bt_ok (accepted_map a)"
    and "bt_get (accepted_map (snd (acceptor_accept cd c s b v a))) k = Some pv"
  shows "bt_get (accepted_map a) k = Some pv \<or>
    k = s \<and> pv = new_pv s b v \<and> bt_get (accepted_map a) s = None \<and> highest_promised_ballot a \<le> b"
proof (cases b a s rule: acceptor_accept_cases)
  case old
  with assms(2) show ?thesis by (simp add: acceptor_accept_old)
next
  case new
  with assms(2) have "bt_get (snd (recorded cd c (new_pv s b v) a)) k = Some pv"
    by (simp add: acceptor_accept_new)
  from recorded_get [OF assms(1) this] new show ?thesis by (auto split: if_splits)
qed

lemma acceptor_accept_ok:
  "bt_ok (accepted_map a) \<Longrightarrow> bt_ok (accepted_map (snd (acceptor_accept cd c s b v a)))"
  by (cases b a s rule: acceptor_accept_cases)
    (simp_all add: acceptor_accept_old acceptor_accept_new recorded_ok)

lemma acceptor_accept_inv:
  assumes "acceptor_inv a"
  shows "acceptor_inv (snd (acceptor_accept cd c s b v a))"
proof -
  from assms have ok: "bt_ok (accepted_map a)" by (simp add: acceptor_inv_def)
  have "pv_slot pv = k \<and> pv_value pv \<noteq> None"
    if "bt_get (accepted_map (snd (acceptor_accept cd c s b v a))) k = Some pv" for k pv
    using acceptor_accept_get [OF ok that] assms by (auto simp: acceptor_inv_def)
  with assms ok show ?thesis by (simp add: acceptor_inv_def acceptor_accept_ok)
qed

section \<open>Prepare\<close>

lemma acceptor_prepare_map [simp]:
  "accepted_map (snd (acceptor_prepare cd c s b a)) = accepted_map a"
  by (simp add: acceptor_prepare_def Let_def split_def)

lemma acceptor_prepare_promises:
  "promises (snd (acceptor_prepare cd c s b a)) =
     (if highest_promised_ballot a < b then promises a @ [b] else promises a)"
  by (auto simp: acceptor_prepare_def Let_def split_def)

lemma acceptor_prepare_highest:
  "highest_promised_ballot (snd (acceptor_prepare cd c s b a)) = max b (highest_promised_ballot a)"
  by (auto simp: highest_promised_ballot_def acceptor_prepare_promises max_def not_less)

lemma acceptor_prepare_result:
  "fst (acceptor_prepare cd c s b a) =
     (if b < highest_promised_ballot a then PromiseRejected (highest_promised_ballot a)
      else Promised \<lparr>prom_slot = s, prom_ballot = b, prom_accepted = collect_accepted_from s a\<rparr>)"
  by (simp add: acceptor_prepare_def Let_def split_def collect_accepted_from_def)

lemma acceptor_prepare_inv: "acceptor_inv a \<Longrightarrow> acceptor_inv (snd (acceptor_prepare cd c s b a))"
  using sorted_snoc_last [of "0 # promises a" b]
  by (auto simp: acceptor_inv_def acceptor_prepare_promises highest_promised_last)

text \<open>What a promise reports: every accepted proposal from its slot on, in order.\<close>

lemma collect_accepted_from_iff:
  assumes "acceptor_inv a"
  shows "pv \<in> set (collect_accepted_from s a) \<longleftrightarrow>
    s \<le> pv_slot pv \<and> bt_get (accepted_map a) (pv_slot pv) = Some pv"
proof -
  have ok: "bt_ok (accepted_map a)" using assms by (simp add: acceptor_inv_def)
  have key: "pv_slot pv = k" if "(k, pv) \<in> set (accepted_map a)" for k
    using assms that ok by (auto simp: acceptor_inv_def simp flip: bt.lookup_iff_entry)
  have "pv \<in> set (collect_accepted_from s a) \<longleftrightarrow> (\<exists>k. (k, pv) \<in> set (accepted_map a) \<and> s \<le> k)"
    by (auto simp: collect_accepted_from_def bt_range_from_def image_iff)
  also have "\<dots> \<longleftrightarrow> (pv_slot pv, pv) \<in> set (accepted_map a) \<and> s \<le> pv_slot pv"
    using key by blast
  finally show ?thesis
    using ok by (simp add: conj_commute flip: bt.lookup_iff_entry)
qed

lemma collect_accepted_from_sorted:
  assumes "acceptor_inv a"
  shows "sorted_wrt (\<lambda>p q. pv_slot p < pv_slot q) (collect_accepted_from s a)"
proof -
  have ok: "bt_ok (accepted_map a)" using assms by (simp add: acceptor_inv_def)
  have key: "pv_slot (snd e) = fst e" if "e \<in> set (accepted_map a)" for e
    using assms that ok by (cases e) (auto simp: acceptor_inv_def simp flip: bt.lookup_iff_entry)
  have "sorted_wrt (\<lambda>p q. fst p < fst q) (bt_range_from s (accepted_map a))"
    using bt_ok_filter [OF ok, of "\<lambda>e. s \<le> fst e"]
    by (simp add: bt_range_from_def bt_ok_def sorted_wrt_map)
  then have "sorted_wrt (\<lambda>p q. pv_slot (snd p) < pv_slot (snd q)) (bt_range_from s (accepted_map a))"
    by (rule sorted_wrt_mono_rel [rotated]) (auto simp: bt_range_from_def key)
  then show ?thesis by (simp add: collect_accepted_from_def sorted_wrt_map)
qed

end
