(* ===== verification/Acceptor_Agent.thy ===== *)
theory Acceptor_Agent
  imports Acceptor
begin

text \<open>
  The acceptor agent (\<open>paxos-wasm/agents/acceptor-agent/src/acceptor-agent.rs\<close>): it puts the
  core acceptor behind the network. A handler gives the reply, what it hands to the network
  client with \<open>send_message_forget\<close> (receivers and message, in order), and the state.
\<close>

type_synonym outbox = "(node list \<times> network_message) list"

record acceptor_agent =
  aa_config :: run_config
  aa_node :: node
  aa_learners :: "node list"
  aa_proposers :: "node list"
  aa_acceptor :: acceptor
  aa_all_nodes :: "node list"

definition is_learner_role :: "node \<Rightarrow> bool" where
  "is_learner_role n \<longleftrightarrow> role n = Learner \<or> role n = Coordinator"

definition aa_is_proposer_role :: "node \<Rightarrow> bool" where
  "aa_is_proposer_role n \<longleftrightarrow> role n = Proposer \<or> role n = Coordinator"

text \<open>A state that does not load is logged and otherwise ignored.\<close>

definition acceptor_agent_new ::
  "(string \<Rightarrow> u64) \<Rightarrow> acceptor_codec \<Rightarrow> clock \<Rightarrow> node \<Rightarrow> node list \<Rightarrow> run_config \<Rightarrow> storage \<Rightarrow>
   acceptor_agent option" where
  "acceptor_agent_new hash cd c n nodes cfg disk =
     map_option
       (\<lambda>a. \<lparr>aa_config = cfg, aa_node = n, aa_learners = filter is_learner_role nodes,
            aa_proposers = filter aa_is_proposer_role nodes,
            aa_acceptor = snd (acceptor_load_state cd a), aa_all_nodes = nodes\<rparr>)
       (acceptor_new hash c (show_u64 (node_id n)) cfg disk)"

definition aa_message :: "acceptor_agent \<Rightarrow> message_payload \<Rightarrow> network_message" where
  "aa_message ag p = \<lparr>sender = aa_node ag, payload = p\<rparr>"

definition aa_process_prepare ::
  "acceptor_codec \<Rightarrow> clock \<Rightarrow> slot \<Rightarrow> ballot \<Rightarrow> acceptor_agent \<Rightarrow> promise_result \<times> acceptor_agent" where
  "aa_process_prepare cd c s b ag =
     (let (r, a) = acceptor_prepare cd c s b (aa_acceptor ag) in (r, ag\<lparr>aa_acceptor := a\<rparr>))"

definition aa_process_accept ::
  "acceptor_codec \<Rightarrow> clock \<Rightarrow> slot \<Rightarrow> ballot \<Rightarrow> paxos_value \<Rightarrow> acceptor_agent \<Rightarrow>
   accepted_result \<times> acceptor_agent" where
  "aa_process_accept cd c s b v ag =
     (let (r, a) = acceptor_accept cd c s b v (aa_acceptor ag) in (r, ag\<lparr>aa_acceptor := a\<rparr>))"

text \<open>\<open>commit_phase\<close> panics when acceptors do not send learns.\<close>

definition aa_commit_phase :: "slot \<Rightarrow> paxos_value \<Rightarrow> acceptor_agent \<Rightarrow> (learn option \<times> outbox) option" where
  "aa_commit_phase s v ag =
     (if acceptors_send_learns (aa_config ag) then
        (let ln = \<lparr>ln_slot = s, ln_value = v\<rparr> in
         Some (Some ln, [(aa_learners ag, aa_message ag (LearnMsg ln))]))
      else None)"

definition noop_value :: paxos_value where
  "noop_value = \<lparr>command = None, client_id = '''', client_seq = 0\<rparr>"

definition retry_value :: "slot \<Rightarrow> acceptor_agent \<Rightarrow> paxos_value" where
  "retry_value s ag =
     (case acceptor_get_accepted s (aa_acceptor ag) of
        Some pv \<Rightarrow> (case pv_value pv of Some v \<Rightarrow> v | None \<Rightarrow> noop_value)
      | None \<Rightarrow> noop_value)"

definition aa_retry_learns :: "retry_learns \<Rightarrow> acceptor_agent \<Rightarrow> outbox" where
  "aa_retry_learns r ag =
     map (\<lambda>s. (aa_learners ag, aa_message ag (LearnMsg \<lparr>ln_slot = s, ln_value = retry_value s ag\<rparr>)))
       (retry_slots r)"

definition aa_handle_message ::
  "acceptor_codec \<Rightarrow> clock \<Rightarrow> network_message \<Rightarrow> acceptor_agent \<Rightarrow>
   network_message \<times> outbox \<times> acceptor_agent" where
  "aa_handle_message cd c m ag =
     (case payload m of
        PrepareMsg p \<Rightarrow>
          (let (r, ag') = aa_process_prepare cd c (prep_slot p) (prep_ballot p) ag in
           case r of
             Promised pr \<Rightarrow>
               (let msg = aa_message ag' (PromiseMsg pr) in
                (msg, if is_event_driven (aa_config ag') then [([sender m], msg)] else [], ag'))
           | PromiseRejected _ \<Rightarrow> (aa_message ag' Ignore, [], ag'))
      | AcceptMsg p \<Rightarrow>
          (let (r, ag') = aa_process_accept cd c (acc_slot p) (acc_ballot p) (acc_value p) ag in
           case r of
             AcceptedOk ad \<Rightarrow>
               (let msg = aa_message ag' (AcceptedMsg ad) in
                (msg,
                 if is_event_driven (aa_config ag') then
                   (if acceptors_send_learns (aa_config ag')
                    then [(aa_learners ag', aa_message ag'
                            (LearnMsg \<lparr>ln_slot = ad_slot ad, ln_value = acc_value p\<rparr>))]
                    else [([sender m], msg)])
                 else [],
                 ag'))
           | AcceptedRejected _ \<Rightarrow> (aa_message ag' Ignore, [], ag'))
      | RetryLearnsMsg r \<Rightarrow> (aa_message ag Ignore, aa_retry_learns r ag, ag)
      | _ \<Rightarrow> (aa_message ag Ignore, [], ag))"

text \<open>A failed flush is logged.\<close>

definition aa_handle_tick :: "clock \<Rightarrow> acceptor_agent \<Rightarrow> acceptor_agent" where
  "aa_handle_tick c ag = ag\<lparr>aa_acceptor := snd (acceptor_maybe_flush c (aa_acceptor ag))\<rparr>"

definition aa_send_heartbeat :: "acceptor_agent \<Rightarrow> outbox" where
  "aa_send_heartbeat ag = [(aa_all_nodes ag, aa_message ag Heartbeat)]"

section \<open>What an agent sends\<close>

text \<open>The learns in an outbox.\<close>

definition learns_of :: "outbox \<Rightarrow> learn list" where
  "learns_of out = List.map_filter (\<lambda>(_, m). case payload m of LearnMsg ln \<Rightarrow> Some ln | _ \<Rightarrow> None) out"

lemma learns_of_Nil [simp]: "learns_of [] = []"
  by (simp add: learns_of_def map_filter_def)

lemma learns_of_Cons [simp]:
  "learns_of ((ns, m) # out) = (case payload m of LearnMsg ln \<Rightarrow> ln # learns_of out | _ \<Rightarrow> learns_of out)"
  by (simp add: learns_of_def map_filter_simps split: message_payload.split)

lemma aa_message_simps [simp]:
  "payload (aa_message ag p) = p" "sender (aa_message ag p) = aa_node ag"
  by (simp_all add: aa_message_def)

lemma learns_of_retry:
  "learns_of (aa_retry_learns r ag) = map (\<lambda>s. \<lparr>ln_slot = s, ln_value = retry_value s ag\<rparr>) (retry_slots r)"
proof -
  have "learns_of (map (\<lambda>s. (ns, aa_message ag (LearnMsg (f s)))) ss) = map f ss" for ns f and ss :: "slot list"
    by (induction ss) simp_all
  then show ?thesis by (simp add: aa_retry_learns_def)
qed

text \<open>The core acceptor moves by its own requests only.\<close>

lemma aa_handle_message_acceptor:
  "aa_acceptor (snd (snd (aa_handle_message cd c m ag))) =
     (case payload m of
        PrepareMsg p \<Rightarrow> snd (acceptor_prepare cd c (prep_slot p) (prep_ballot p) (aa_acceptor ag))
      | AcceptMsg p \<Rightarrow> snd (acceptor_accept cd c (acc_slot p) (acc_ballot p) (acc_value p) (aa_acceptor ag))
      | _ \<Rightarrow> aa_acceptor ag)"
  by (simp add: aa_handle_message_def aa_process_prepare_def aa_process_accept_def Let_def split_def
      split: message_payload.split promise_result.split accepted_result.split)

lemma aa_handle_message_config [simp]:
  "aa_config (snd (snd (aa_handle_message cd c m ag))) = aa_config ag"
  "aa_node (snd (snd (aa_handle_message cd c m ag))) = aa_node ag"
  "aa_learners (snd (snd (aa_handle_message cd c m ag))) = aa_learners ag"
  by (simp_all add: aa_handle_message_def aa_process_prepare_def aa_process_accept_def Let_def split_def
      split: message_payload.split promise_result.split accepted_result.split)

lemma aa_handle_accept_sends:
  assumes "payload m = AcceptMsg p"
  shows "fst (snd (aa_handle_message cd c m ag)) =
    (case fst (acceptor_accept cd c (acc_slot p) (acc_ballot p) (acc_value p) (aa_acceptor ag)) of
       AcceptedOk ad \<Rightarrow>
         if is_event_driven (aa_config ag) then
           (if acceptors_send_learns (aa_config ag)
            then [(aa_learners ag, aa_message ag (LearnMsg \<lparr>ln_slot = ad_slot ad, ln_value = acc_value p\<rparr>))]
            else [([sender m], aa_message ag (AcceptedMsg ad))])
         else []
     | AcceptedRejected _ \<Rightarrow> [])"
  using assms
  by (simp add: aa_handle_message_def aa_process_accept_def aa_message_def Let_def split_def
      split: accepted_result.split)

lemma aa_handle_message_senders:
  "(ns, x) \<in> set (fst (snd (aa_handle_message cd c m ag))) \<Longrightarrow> sender x = aa_node ag"
  by (auto simp: aa_handle_message_def aa_process_prepare_def aa_process_accept_def Let_def split_def
      aa_retry_learns_def aa_message_def split: message_payload.splits promise_result.splits
      accepted_result.splits if_splits)

text \<open>A learn is sent for an accept that succeeded, or as the answer to a retry.\<close>

lemma aa_handle_message_learns:
  "ln \<in> set (learns_of (fst (snd (aa_handle_message cd c m ag)))) \<Longrightarrow>
     (\<exists>p ad. payload m = AcceptMsg p \<and> ln = \<lparr>ln_slot = ad_slot ad, ln_value = acc_value p\<rparr> \<and>
        fst (acceptor_accept cd c (acc_slot p) (acc_ballot p) (acc_value p) (aa_acceptor ag)) = AcceptedOk ad) \<or>
     (\<exists>r s. payload m = RetryLearnsMsg r \<and> s \<in> set (retry_slots r) \<and>
        ln = \<lparr>ln_slot = s, ln_value = retry_value s ag\<rparr>)"
proof (cases "payload m")
  case (AcceptMsg p)
  moreover assume "ln \<in> set (learns_of (fst (snd (aa_handle_message cd c m ag))))"
  ultimately show ?thesis
    using aa_handle_accept_sends [OF AcceptMsg, of cd c ag]
    by (auto split: accepted_result.splits if_splits)
qed (auto simp: aa_handle_message_def aa_process_prepare_def Let_def split_def learns_of_retry
    split: promise_result.splits if_splits)

end
