(* ===== verification/Acceptor_Recovery.thy ===== *)
theory Acceptor_Recovery
  imports Acceptor
begin

text \<open>
  Runs of the core acceptor, what it keeps over a run (\<open>acceptor_run\<close>), and what a start
  after a crash reads back (\<open>acceptor_restart\<close>).
\<close>

section \<open>Runs\<close>

datatype acceptor_request = PrepareReq slot ballot | AcceptReq slot ballot paxos_value

datatype acceptor_reply = PromiseReply promise_result | AcceptReply accepted_result

fun acceptor_handle ::
  "acceptor_codec \<Rightarrow> clock \<times> acceptor_request \<Rightarrow> acceptor \<Rightarrow> acceptor_reply \<times> acceptor" where
  "acceptor_handle cd (c, PrepareReq s b) a = map_prod PromiseReply (\<lambda>a. a) (acceptor_prepare cd c s b a)"
| "acceptor_handle cd (c, AcceptReq s b v) a = map_prod AcceptReply (\<lambda>a. a) (acceptor_accept cd c s b v a)"

fun acceptor_run ::
  "acceptor_codec \<Rightarrow> (clock \<times> acceptor_request) list \<Rightarrow> acceptor \<Rightarrow> acceptor" where
  "acceptor_run cd [] a = a"
| "acceptor_run cd (r # rs) a = acceptor_run cd rs (snd (acceptor_handle cd r a))"

lemma acceptor_run_append: "acceptor_run cd (rs @ rs') a = acceptor_run cd rs' (acceptor_run cd rs a)"
  by (induction rs arbitrary: a) simp_all

lemma acceptor_run_keeps:
  assumes "\<And>r a. r \<in> set rs \<Longrightarrow> q a \<Longrightarrow> q (snd (acceptor_handle cd r a))" and "q a"
  shows "q (acceptor_run cd rs a)"
  using assms by (induction rs arbitrary: a) simp_all

lemma acceptor_handle_inv: "acceptor_inv a \<Longrightarrow> acceptor_inv (snd (acceptor_handle cd r a))"
  by (cases "(cd, r, a)" rule: acceptor_handle.cases)
    (simp_all add: acceptor_prepare_inv acceptor_accept_inv)

lemma acceptor_run_inv: "acceptor_inv a \<Longrightarrow> acceptor_inv (acceptor_run cd rs a)"
  by (rule acceptor_run_keeps [where q = acceptor_inv]) (simp_all add: acceptor_handle_inv)

lemma acceptor_accept_highest [simp]:
  "highest_promised_ballot (snd (acceptor_accept cd c s b v a)) = highest_promised_ballot a"
  by (simp add: highest_promised_ballot_def)

lemma acceptor_handle_highest:
  "highest_promised_ballot a \<le> highest_promised_ballot (snd (acceptor_handle cd r a))"
  by (cases "(cd, r, a)" rule: acceptor_handle.cases) (simp_all add: acceptor_prepare_highest)

lemma acceptor_run_highest: "highest_promised_ballot a \<le> highest_promised_ballot (acceptor_run cd rs a)"
  by (rule acceptor_run_keeps [where q = "\<lambda>a'. highest_promised_ballot a \<le> highest_promised_ballot a'"])
    (auto intro: order_trans [OF _ acceptor_handle_highest])

lemma acceptor_new_inv:
  "acceptor_new hash c nid cfg disk = Some a \<Longrightarrow> acceptor_inv a"
  by (auto simp: acceptor_new_def acceptor_inv_def)

lemma acceptor_new_disabled:
  "acceptor_new hash c nid cfg disk = Some a \<Longrightarrow> \<not> persistent_storage cfg \<Longrightarrow> \<not> sh_enabled (acc_storage a)"
  by (auto simp: acceptor_new_def acceptor_helper_new_def sh_new_def storage_helper.extend_def
      acceptor_helper.fields_def split: if_splits)

lemma acceptor_accept_reply:
  "fst (acceptor_accept cd c s b v a) =
     (if b < highest_promised_ballot a then AcceptedRejected (highest_promised_ballot a)
      else case bt_get (accepted_map a) s of
        None \<Rightarrow> accepted_reply s b
      | Some e \<Rightarrow> if pv_value e = Some v then accepted_reply s b else AcceptedRejected (pv_ballot e))"
  by (auto simp: acceptor_accept_def Let_def split_def split: option.split)

lemma accepted_reply_ok: "accepted_reply s b = AcceptedOk x \<longleftrightarrow> x = \<lparr>ad_slot = s, ad_ballot = b, ad_success = True\<rparr>"
  by (auto simp: accepted_reply_def)

section \<open>What the operations leave of the helper\<close>

lemma sh_maybe_snapshot_enabled:
  "sh_enabled (fst (snd (sh_maybe_snapshot encode c s (h, m)))) = sh_enabled h"
  "sh_config (fst (snd (sh_maybe_snapshot encode c s (h, m)))) = sh_config h"
  using sh_flush_settings [of h h c]
  by (auto simp: sh_maybe_snapshot_def sh_checkpoint_def Let_def io_bind_eq on_helper_eq on_store_eq
      same_settings_def split: sum.split)

lemma recorded_settings:
  "sh_enabled (fst (recorded cd c pv a)) = sh_enabled (acc_storage a)"
  "sh_config (fst (recorded cd c pv a)) = sh_config (acc_storage a)"
  using acceptor_save_change_settings [of "acc_storage a" cd c pv]
  by (simp_all add: recorded_def acceptor_maybe_snapshot_def sh_maybe_snapshot_enabled same_settings_def)

lemma io_map_err_fst_snd:
  "io_map_err p m s = (map_err p (fst (m s)), snd (m s))"
  by (simp add: io_map_err_def split_def)

lemma save_current_state_settings:
  "sh_enabled (snd (save_current_state cd c ps h)) = sh_enabled h"
  "sh_config (snd (save_current_state cd c ps h)) = sh_config h"
  by (auto simp: save_current_state_def maybe_flush_current_state_def flush_current_state_def Let_def
      io_bind_eq on_store_eq io_map_err_fst_snd split: sum.split)

lemma acceptor_prepare_eq:
  "snd (acceptor_prepare cd c s b a) =
     (if highest_promised_ballot a < b
      then a\<lparr>promises := promises a @ [b],
             acc_storage := snd (save_current_state cd c (promises a @ [b]) (acc_storage a))\<rparr>
      else a)"
  by (auto simp: acceptor_prepare_def Let_def split_def)

lemma acceptor_handle_settings:
  "sh_enabled (acc_storage (snd (acceptor_handle cd r a))) = sh_enabled (acc_storage a)"
  "sh_config (acc_storage (snd (acceptor_handle cd r a))) = sh_config (acc_storage a)"
proof -
  have "sh_enabled (acc_storage (snd (acceptor_accept cd c s b v a))) = sh_enabled (acc_storage a) \<and>
      sh_config (acc_storage (snd (acceptor_accept cd c s b v a))) = sh_config (acc_storage a)" for c s b v
    by (cases b a s rule: acceptor_accept_cases)
      (simp_all add: acceptor_accept_old acceptor_accept_new recorded_settings)
  then show "sh_enabled (acc_storage (snd (acceptor_handle cd r a))) = sh_enabled (acc_storage a)"
    "sh_config (acc_storage (snd (acceptor_handle cd r a))) = sh_config (acc_storage a)"
    by (cases "(cd, r, a)" rule: acceptor_handle.cases;
        simp add: acceptor_prepare_eq save_current_state_settings)+
qed

section \<open>The contract of an acceptor\<close>

text \<open>
  The abstract acceptor has one promised ballot and a finite map that only grows. An acceptor
  that does not persist implements it; one that does forgets slots when it prunes.
\<close>

record spec_acceptor =
  sa_promised :: ballot
  sa_accepted :: "slot \<rightharpoonup> p_value"

fun spec_handle :: "acceptor_request \<Rightarrow> spec_acceptor \<Rightarrow> spec_acceptor" where
  "spec_handle (PrepareReq s b) sa = sa\<lparr>sa_promised := max b (sa_promised sa)\<rparr>"
| "spec_handle (AcceptReq s b v) sa =
     (if sa_promised sa \<le> b \<and> sa_accepted sa s = None
      then sa\<lparr>sa_accepted := (sa_accepted sa)(s \<mapsto> new_pv s b v)\<rparr> else sa)"

fun spec_reply :: "acceptor_request \<Rightarrow> spec_acceptor \<Rightarrow> acceptor_reply \<Rightarrow> bool" where
  "spec_reply (PrepareReq s b) sa r \<longleftrightarrow>
     (if sa_promised sa \<le> b
      then \<exists>pvs. r = PromiseReply (Promised \<lparr>prom_slot = s, prom_ballot = b, prom_accepted = pvs\<rparr>) \<and>
        set pvs = {pv. \<exists>k \<ge> s. sa_accepted sa k = Some pv} \<and>
        sorted_wrt (\<lambda>p q. pv_slot p < pv_slot q) pvs
      else r = PromiseReply (PromiseRejected (sa_promised sa)))"
| "spec_reply (AcceptReq s b v) sa r \<longleftrightarrow>
     r = AcceptReply
       (if b < sa_promised sa then AcceptedRejected (sa_promised sa)
        else case sa_accepted sa s of
          None \<Rightarrow> accepted_reply s b
        | Some e \<Rightarrow> if pv_value e = Some v then accepted_reply s b
                    else AcceptedRejected (pv_ballot e))"

definition abs_acceptor :: "acceptor \<Rightarrow> spec_acceptor" where
  "abs_acceptor a = \<lparr>sa_promised = highest_promised_ballot a, sa_accepted = bt_get (accepted_map a)\<rparr>"

lemma acceptor_new_abs:
  "acceptor_new hash c nid cfg disk = Some a \<Longrightarrow>
   abs_acceptor a = \<lparr>sa_promised = 0, sa_accepted = Map.empty\<rparr>"
  by (auto simp: acceptor_new_def abs_acceptor_def highest_promised_ballot_def)

lemma acceptor_handle_refines:
  assumes "acceptor_inv a" and "\<not> sh_enabled (acc_storage a)"
  shows "abs_acceptor (snd (acceptor_handle cd (c, req) a)) = spec_handle req (abs_acceptor a)"
proof (cases req)
  case (PrepareReq s b)
  then show ?thesis
    by (simp add: abs_acceptor_def acceptor_prepare_highest)
next
  case (AcceptReq s b v)
  have "bt_ok (accepted_map a)" using assms(1) by (simp add: acceptor_inv_def)
  with AcceptReq assms(2) show ?thesis
    by (cases b a s rule: acceptor_accept_cases)
      (auto simp: abs_acceptor_def acceptor_accept_old acceptor_accept_new recorded_disabled
        bt_get_insert not_less highest_promised_ballot_def)
qed

lemma acceptor_handle_replies:
  assumes "acceptor_inv a"
  shows "spec_reply req (abs_acceptor a) (fst (acceptor_handle cd (c, req) a))"
proof (cases req)
  case (PrepareReq s b)
  have slot: "pv_slot pv = k" if "bt_get (accepted_map a) k = Some pv" for k pv
    using assms that by (simp add: acceptor_inv_def)
  have "set (collect_accepted_from s a) = {pv. \<exists>k\<ge>s. bt_get (accepted_map a) k = Some pv}"
    unfolding set_eq_iff mem_Collect_eq collect_accepted_from_iff [OF assms] using slot by blast
  then show ?thesis
    unfolding PrepareReq acceptor_handle.simps spec_reply.simps fst_map_prod
    by (simp add: abs_acceptor_def acceptor_prepare_result collect_accepted_from_sorted [OF assms])
      (use leD leI in blast)
next
  case (AcceptReq s b v)
  then show ?thesis by (simp add: abs_acceptor_def acceptor_accept_reply)
qed

lemma acceptor_run_refines:
  "acceptor_inv a \<Longrightarrow> \<not> sh_enabled (acc_storage a) \<Longrightarrow>
   abs_acceptor (acceptor_run cd rs a) = foldl (\<lambda>sa r. spec_handle (snd r) sa) (abs_acceptor a) rs"
proof (induction rs arbitrary: a)
  case (Cons r rs)
  obtain c req where "r = (c, req)" by fastforce
  with Cons show ?case
    by (simp add: acceptor_handle_refines acceptor_handle_inv acceptor_handle_settings)
qed simp

lemma spec_handle_grows: "sa_accepted sa \<subseteq>\<^sub>m sa_accepted (spec_handle r sa)"
  by (cases r) (auto simp: map_le_def)

lemma acceptor_run_grows:
  assumes "acceptor_inv a" and "\<not> sh_enabled (acc_storage a)"
  shows "bt_get (accepted_map a) \<subseteq>\<^sub>m bt_get (accepted_map (acceptor_run cd rs a))"
proof -
  have "sa_accepted sa \<subseteq>\<^sub>m sa_accepted (foldl (\<lambda>sa r. spec_handle (snd r) sa) sa rs)" for sa
    by (induction rs arbitrary: sa) (auto intro: map_le_trans spec_handle_grows)
  from this [of "abs_acceptor a"] show ?thesis
    using acceptor_run_refines [OF assms, of cd rs] by (metis abs_acceptor_def spec_acceptor.select_convs(2))
qed

text \<open>A successful reply means that the value is the slot's, from then on.\<close>

lemma acceptor_accept_stores:
  assumes "acceptor_inv a" and "\<not> sh_enabled (acc_storage a)"
    and "fst (acceptor_accept cd c s b v a) = AcceptedOk x"
  shows "\<exists>b'. bt_get (accepted_map (snd (acceptor_accept cd c s b v a))) s = Some (new_pv s b' v)"
proof (cases b a s rule: acceptor_accept_cases)
  case old
  with assms(3) obtain e where e: "bt_get (accepted_map a) s = Some e" "pv_value e = Some v"
    by (auto simp: acceptor_accept_reply split: if_splits option.splits)
  with assms(1) have "e = new_pv s (pv_ballot e) v" by (auto simp: acceptor_inv_def)
  with e old show ?thesis by (metis acceptor_accept_old)
next
  case new
  with assms(1,2) show ?thesis
    by (simp add: acceptor_accept_new recorded_disabled acceptor_inv_def dict_simps)
qed

lemma acceptor_accepts_one_value:
  assumes "acceptor_inv a" and "\<not> sh_enabled (acc_storage a)"
    and "fst (acceptor_accept cd c s b v a) = AcceptedOk x"
    and "fst (acceptor_accept cd c' s b' w (acceptor_run cd rs (snd (acceptor_accept cd c s b v a)))) = AcceptedOk y"
  shows "w = v"
proof -
  let ?a1 = "snd (acceptor_accept cd c s b v a)"
  let ?a2 = "acceptor_run cd rs ?a1"
  obtain b1 where 1: "bt_get (accepted_map ?a1) s = Some (new_pv s b1 v)"
    using acceptor_accept_stores [OF assms(1-3)] by blast
  have a1: "acceptor_inv ?a1" "\<not> sh_enabled (acc_storage ?a1)"
    using assms(1,2) acceptor_accept_inv acceptor_handle_settings(1) [of cd "(c, AcceptReq s b v)" a]
    by simp_all
  have "bt_get (accepted_map ?a2) s = Some (new_pv s b1 v)"
    using acceptor_run_grows [OF a1, of cd rs] 1 by (force simp: map_le_def)
  with assms(4) show ?thesis
    by (auto simp: acceptor_accept_reply accepted_reply_ok split: if_splits)
qed

section \<open>Crash and restart\<close>

text \<open>
  A start after a crash: what the process held in memory, the write buffer of the changelog
  included, is gone; the files are as they were.
\<close>

definition acceptor_restart ::
  "(string \<Rightarrow> u64) \<Rightarrow> acceptor_codec \<Rightarrow> clock \<Rightarrow> string \<Rightarrow> run_config \<Rightarrow> storage \<Rightarrow>
   (unit result \<times> acceptor) option" where
  "acceptor_restart hash cd c nid cfg disk =
     map_option (acceptor_load_state cd) (acceptor_new hash c nid cfg disk)"

definition restored ::
  "(slot, p_value) btree_map list \<Rightarrow> p_value list \<Rightarrow> (slot, p_value) btree_map" where
  "restored snaps pvs =
     foldl (\<lambda>m pv. bt_insert (pv_slot pv) pv m) (foldl (\<lambda>m snap. insert_all snap m) [] snaps) pvs"

text \<open>The disk, with what the write buffer holds, represents the map in memory.\<close>

definition acceptor_synced :: "acceptor_codec \<Rightarrow> acceptor \<Rightarrow> bool" where
  "acceptor_synced cd a \<longleftrightarrow>
     (\<exists>snaps pvs. logged (change_codec cd) (acc_storage a) pvs \<and>
        map (dec (snapshot_codec cd))
          (newest_snapshots (storage_load_snapshots (sh_config (acc_storage a))) (sh_store (acc_storage a)))
          = map Inr snaps \<and>
        accepted_map a = restored snaps pvs)"

text \<open>With a flush count of at most one nothing is left in the buffer between two requests.\<close>

definition acceptor_durable :: "acceptor_codec \<Rightarrow> acceptor \<Rightarrow> bool" where
  "acceptor_durable cd a \<longleftrightarrow>
     acceptor_synced cd a \<and> sh_enabled (acc_storage a) \<and>
     storage_flush_change_count (sh_config (acc_storage a)) \<le> 1 \<and>
     change_pending (acc_storage a) = 0 \<and> changelog_durable (sh_store (acc_storage a)) \<and>
     dec (promises_codec cd) (state_data (sh_store (acc_storage a))) = Inr (promises a)"

definition snapshot_due :: "slot \<Rightarrow> 'z storage_helper_scheme \<Rightarrow> bool" where
  "snapshot_due s h \<longleftrightarrow> s mod storage_snapshot_slot_interval (sh_config h) = snapshot_slot_offset h \<and>
     last_snapshot_slot h < s"

lemma newest_snapshots_cong:
  "snapshot_files s' = snapshot_files s \<Longrightarrow> newest_snapshots n s' = newest_snapshots n s"
  by (simp add: newest_snapshots_def snapshot_names_def)

lemma state_data_flush: "state_data (snd (flush_changes s)) = state_data s"
proof (cases "changelog_buf s = []")
  case False
  then show ?thesis
    unfolding flush_changes_def bw_flush_buf_def
    by (simp, intro syscall_keeps [where q = "\<lambda>s'. state_data s' = state_data s"]) simp_all
qed (simp add: flush_changes_def bw_flush_buf_def)

lemma log_extended_state_data: "log_extended s s' d \<Longrightarrow> state_data s' = state_data s"
  unfolding log_extended_def
  by (metis storage.select_convs(7) storage.surjective storage.update_convs(5,6))

lemma save_change_state_data:
  assumes "faults s = []"
  shows "state_data (snd (save_change b s)) = state_data s"
proof -
  obtain s1 where 1: "bw_write_all (u32_to_be_bytes (as_u32 (length b))) s = (Inr (), s1)"
      "log_extended s s1 (u32_to_be_bytes (as_u32 (length b)))"
    using bw_write_all_extends [OF assms] by blast
  then have "faults s1 = []" using assms by (simp add: log_extended_faults)
  then obtain s2 where "bw_write_all b s1 = (Inr (), s2)" "log_extended s1 s2 b"
    using bw_write_all_extends by blast
  with 1 show ?thesis by (simp add: save_change_def log_extended_state_data)
qed

lemma sh_flush_eq:
  assumes "logged cd h es" and "sh_enabled h"
  shows "sh_flush_changes c h =
    (Inr (), h\<lparr>sh_store := snd (flush_changes (sh_store h)), change_last_flush := clk_now c\<rparr>)"
  using assms changelog.flush_holds [of "sh_store h"]
  by (auto simp: sh_flush_changes_def io_bind_eq on_store_eq logged_def split: sum.split)

text \<open>With that count, saving one change leaves it on disk and the promises untouched.\<close>

lemma sh_save_change_flushed:
  fixes c :: clock
  assumes "logged cd h es" and "writable cd e" and "sh_enabled h"
    and "storage_flush_change_count (sh_config h) \<le> 1" and "change_pending h = 0"
  defines "h' \<equiv> snd (sh_save_change (enc cd) c e h)"
  shows "change_pending h' = 0" "changelog_durable (sh_store h')"
    "state_data (sh_store h') = state_data (sh_store h)"
proof -
  obtain b where b: "enc cd e = Inr b" "dec cd b = Inr e" "length b < 2 ^ 32"
    using assms(2) by (auto simp: writable_def)
  obtain bs where bs: "changelog_holds (sh_store h) bs" "map (dec cd) bs = map Inr es"
    using assms(1) by (auto simp: logged_def)
  note saved = save_change_holds [OF bs(1) b(3)]
  define g where "g = h\<lparr>sh_store := snd (save_change b (sh_store h)), change_pending := 1\<rparr>"
  have g: "logged cd g (es @ [e])" "sh_enabled g"
    using saved bs(2) b(2) assms(3) by (auto simp: logged_def g_def intro!: exI [of _ "bs @ [b]"])
  have "h' = snd (sh_maybe_flush_changes c g)"
    using assms(3,5) b(1) saved by (simp add: h'_def sh_save_change_def io_bind_eq on_store_eq g_def)
  also have "\<dots> = (snd (sh_flush_changes c g))\<lparr>change_pending := 0\<rparr>"
    using assms(4) g(2) sh_flush_works(1) [OF g(1), of c]
    by (simp add: sh_maybe_flush_changes_def Let_def io_bind_eq g_def)
  finally have h': "h' = (snd (sh_flush_changes c g))\<lparr>change_pending := 0\<rparr>" .
  then show "change_pending h' = 0" by simp
  from h' show "changelog_durable (sh_store h')"
    using sh_flush_works(3) [OF g(1) g(2), of c] by simp
  from h' show "state_data (sh_store h') = state_data (sh_store h)"
    using sh_flush_eq [OF g(1) g(2), of c] bs(1)
    by (simp add: state_data_flush g_def save_change_state_data changelog_holds_def)
qed

lemma save_current_state_works:
  fixes c :: clock
  assumes "logged cd h es" and "sh_enabled h" and "enc (promises_codec cds) ps = Inr b"
  defines "h' \<equiv> snd (save_current_state cds c ps h)"
  shows "sh_store h' = (sh_store h)\<lparr>state_data := b\<rparr>" "change_pending h' = change_pending h"
proof -
  have "faults (sh_store h) = []" using assms(1) by (auto simp: logged_def changelog_holds_def)
  then show "sh_store h' = (sh_store h)\<lparr>state_data := b\<rparr>" "change_pending h' = change_pending h"
    using assms(2,3)
    by (auto simp: h'_def save_current_state_def maybe_flush_current_state_def
        flush_current_state_def Let_def io_bind_eq on_store_eq io_map_err_fst_snd
        save_state_def flush_state_def split: sum.split)
qed

lemma logged_cong:
  "changelog_file (sh_store h') = changelog_file (sh_store h) \<Longrightarrow>
   changelog_buf (sh_store h') = changelog_buf (sh_store h) \<Longrightarrow>
   faults (sh_store h') = faults (sh_store h) \<Longrightarrow> linked (sh_store h') = linked (sh_store h) \<Longrightarrow>
   logged cd h' es = logged cd h es"
  by (simp add: logged_def changelog_holds_def)

lemma acceptor_prepare_durable:
  assumes "acceptor_durable cd a"
    and "\<exists>x. enc (promises_codec cd) (promises a @ [b]) = Inr x \<and> dec (promises_codec cd) x = Inr (promises a @ [b])"
  shows "acceptor_durable cd (snd (acceptor_prepare cd c s b a))"
proof (cases "highest_promised_ballot a < b")
  case False
  with assms show ?thesis by (simp add: acceptor_prepare_eq)
next
  case True
  obtain x where x: "enc (promises_codec cd) (promises a @ [b]) = Inr x"
    "dec (promises_codec cd) x = Inr (promises a @ [b])" using assms(2) by blast
  obtain snaps pvs where sync: "logged (change_codec cd) (acc_storage a) pvs"
      "map (dec (snapshot_codec cd)) (newest_snapshots
         (storage_load_snapshots (sh_config (acc_storage a))) (sh_store (acc_storage a))) = map Inr snaps"
      "accepted_map a = restored snaps pvs"
    using assms(1) by (auto simp: acceptor_durable_def acceptor_synced_def)
  let ?h = "snd (save_current_state cd c (promises a @ [b]) (acc_storage a))"
  have en: "sh_enabled (acc_storage a)" using assms(1) by (simp add: acceptor_durable_def)
  note saved = save_current_state_works [OF sync(1) en x(1), of c]
  have "logged (change_codec cd) ?h pvs"
    using sync(1) logged_cong [of ?h "acc_storage a" "change_codec cd" pvs] saved by simp
  moreover have "newest_snapshots n (sh_store ?h) = newest_snapshots n (sh_store (acc_storage a))" for n
    by (rule newest_snapshots_cong) (simp add: saved)
  ultimately show ?thesis
    using assms(1) sync(2,3) True saved x(2)
    by (auto simp: acceptor_durable_def acceptor_synced_def acceptor_prepare_eq
        save_current_state_settings changelog_durable_def)
qed

lemma acceptor_accept_durable:
  assumes "acceptor_durable cd a" and "writable (change_codec cd) (new_pv s b v)"
    and "\<not> snapshot_due s (acc_storage a)"
  shows "acceptor_durable cd (snd (acceptor_accept cd c s b v a))"
proof (cases b a s rule: acceptor_accept_cases)
  case old
  with assms(1) show ?thesis by (simp add: acceptor_accept_old)
next
  case new
  let ?pv = "new_pv s b v" and ?h = "acc_storage a"
  let ?h' = "snd (sh_save_change (enc (change_codec cd)) c ?pv ?h)"
  from assms(1) have en: "sh_enabled ?h" "storage_flush_change_count (sh_config ?h) \<le> 1"
    "change_pending ?h = 0" by (simp_all add: acceptor_durable_def)
  obtain snaps pvs where sync: "logged (change_codec cd) ?h pvs"
      "map (dec (snapshot_codec cd)) (newest_snapshots
         (storage_load_snapshots (sh_config ?h)) (sh_store ?h)) = map Inr snaps"
      "accepted_map a = restored snaps pvs"
    using assms(1) by (auto simp: acceptor_durable_def acceptor_synced_def)
  have set: "same_settings ?h ?h'" by (rule sh_save_change_settings)
  have rec: "recorded cd c ?pv a = (?h', bt_insert s ?pv (accepted_map a))"
    using assms(3) set
    by (auto simp: recorded_def acceptor_save_change_def acceptor_maybe_snapshot_def
        sh_maybe_snapshot_def Let_def snapshot_due_def same_settings_def)
  note saved = sh_save_change_works [OF sync(1) assms(2) en(1), of c]
  note flushed = sh_save_change_flushed [OF sync(1) assms(2) en, of c]
  have "newest_snapshots n (sh_store ?h') = newest_snapshots n (sh_store ?h)" for n
    by (rule newest_snapshots_cong) (rule saved(3))
  moreover have "bt_insert s ?pv (accepted_map a) = restored snaps (pvs @ [?pv])"
    using sync(3) by (simp add: restored_def)
  ultimately show ?thesis
    using assms(1) sync(2) new set saved(2) flushed
    by (simp add: acceptor_durable_def acceptor_synced_def acceptor_accept_new rec same_settings_def)
      blast
qed

lemma recorded_same_settings:
  "\<not> snapshot_due (pv_slot pv) (acc_storage a) \<Longrightarrow>
   same_settings (acc_storage a) (fst (recorded cd c pv a))"
  using acceptor_save_change_settings [of "acc_storage a" cd c pv]
  by (auto simp: recorded_def acceptor_maybe_snapshot_def sh_maybe_snapshot_def Let_def
      snapshot_due_def same_settings_def)

text \<open>Between two snapshots the schedule of snapshots stands still.\<close>

lemma acceptor_handle_schedule:
  assumes "case r of (c, AcceptReq s b v) \<Rightarrow> \<not> snapshot_due s (acc_storage a) | _ \<Rightarrow> True"
  shows "snapshot_due k (acc_storage (snd (acceptor_handle cd r a))) = snapshot_due k (acc_storage a)"
proof -
  have "snapshot_slot_offset (snd (save_current_state cd c ps h)) = snapshot_slot_offset h \<and>
      last_snapshot_slot (snd (save_current_state cd c ps h)) = last_snapshot_slot h" for c ps h
    by (auto simp: save_current_state_def maybe_flush_current_state_def flush_current_state_def Let_def
        io_bind_eq on_store_eq io_map_err_fst_snd split: sum.split)
  moreover have "same_settings (acc_storage a) (acc_storage (snd (acceptor_accept cd c s b v a)))"
    if "\<not> snapshot_due s (acc_storage a)" for c s b v
    using that by (cases b a s rule: acceptor_accept_cases)
      (simp_all add: acceptor_accept_old acceptor_accept_new recorded_same_settings)
  ultimately show ?thesis
    using assms
    by (cases "(cd, r, a)" rule: acceptor_handle.cases)
      (auto simp: snapshot_due_def acceptor_prepare_eq save_current_state_settings same_settings_def)
qed

text \<open>The codec reads back what it wrote, for the lists of promises and the changes of a run.\<close>

definition codec_ok :: "'a codec \<Rightarrow> 'a \<Rightarrow> bool" where
  "codec_ok cd x \<longleftrightarrow> (\<exists>b. enc cd x = Inr b \<and> dec cd b = Inr x)"

fun request_durable :: "acceptor_codec \<Rightarrow> acceptor_helper \<Rightarrow> clock \<times> acceptor_request \<Rightarrow> bool" where
  "request_durable cd h (c, PrepareReq s b) \<longleftrightarrow> True"
| "request_durable cd h (c, AcceptReq s b v) \<longleftrightarrow>
     writable (change_codec cd) (new_pv s b v) \<and> \<not> snapshot_due s h"

lemma acceptor_run_durable:
  assumes "\<forall>ps. codec_ok (promises_codec cd) ps"
  shows "acceptor_durable cd a \<Longrightarrow> \<forall>r \<in> set rs. request_durable cd (acc_storage a) r \<Longrightarrow>
    acceptor_durable cd (acceptor_run cd rs a)"
proof (induction rs arbitrary: a)
  case (Cons r rs)
  let ?a = "snd (acceptor_handle cd r a)"
  from Cons.prems(2) have r: "request_durable cd (acc_storage a) r" by simp
  then have "acceptor_durable cd ?a"
    using Cons.prems(1) assms
    by (cases "(cd, acc_storage a, r)" rule: request_durable.cases)
      (simp_all add: acceptor_prepare_durable acceptor_accept_durable codec_ok_def)
  moreover have "snapshot_due k (acc_storage ?a) = snapshot_due k (acc_storage a)" for k
    using r by (intro acceptor_handle_schedule)
      (cases "(cd, acc_storage a, r)" rule: request_durable.cases; simp)
  then have "request_durable cd (acc_storage ?a) q = request_durable cd (acc_storage a) q" for q
    by (cases "(cd, acc_storage a, q)" rule: request_durable.cases) simp_all
  ultimately show ?case using Cons by simp
qed simp

lemma acceptor_restart_durable:
  assumes "acceptor_durable cd a"
    and cfg: "persistent_storage cfg" "storage_snapshot_slot_interval cfg \<noteq> 0"
      "storage_load_snapshots cfg = storage_load_snapshots (sh_config (acc_storage a))"
  shows "\<exists>a'. acceptor_restart hash cd c nid cfg (sh_store (acc_storage a)) = Some (Inr (), a') \<and>
    accepted_map a' = accepted_map a \<and> promises a' = promises a"
proof -
  let ?d = "sh_store (acc_storage a)"
  obtain snaps pvs where sync: "logged (change_codec cd) (acc_storage a) pvs"
      "map (dec (snapshot_codec cd)) (newest_snapshots
         (storage_load_snapshots (sh_config (acc_storage a))) ?d) = map Inr snaps"
      "accepted_map a = restored snaps pvs"
    using assms(1) by (auto simp: acceptor_durable_def acceptor_synced_def)
  from sync(1) have ok: "faults ?d = []" "linked ?d"
    by (auto simp: logged_def changelog_holds_def)
  obtain h0 where h0: "acceptor_helper_new hash c (''node'' @ nid @ ''-acceptor'') cfg True ?d = Some h0"
    "sh_enabled h0" "sh_config h0 = cfg"
    "sh_store h0 = ?d\<lparr>st_key := ''node'' @ nid @ ''-acceptor'',
       st_max_snapshots := storage_max_snapshots cfg, changelog_buf := []\<rparr>"
    using cfg(2) ok(2)
    by (simp add: acceptor_helper_new_def sh_new_def storage_new_def storage_helper.extend_def
        acceptor_helper.fields_def)
  let ?a0 = "\<lparr>acc_config = cfg, promises = [], accepted_map = [], acc_storage = h0\<rparr>"
  have logged: "logged (change_codec cd) h0 pvs" "changelog_durable (sh_store h0)"
    using sync(1) assms(1) h0(4)
    by (auto simp: logged_def changelog_holds_def acceptor_durable_def changelog_durable_def)
  have "newest_snapshots n (sh_store h0) = newest_snapshots n ?d" for n
    by (rule newest_snapshots_cong) (simp add: h0(4))
  then have dec_snaps: "map (dec (snapshot_codec cd))
      (newest_snapshots (storage_load_snapshots cfg) (sh_store h0)) = map Inr snaps"
    using sync(2) cfg(3) by simp
  obtain bs where bs: "load_state_and_changes (storage_load_snapshots cfg) (sh_store h0) =
      (Inr (newest_snapshots (storage_load_snapshots cfg) (sh_store h0), bs), sh_store h0)"
      "map (dec (change_codec cd)) bs = map Inr pvs"
    using load_state_and_changes_works [OF logged] by blast
  have "load_current_state cd (h0, []) = (Inr (), h0, promises a)"
    using assms(1) h0 ok
    by (simp add: load_current_state_def Let_def on_store_eq load_state_def acceptor_durable_def)
  moreover have "load_accepted cd (h0, []) = (Inr (), h0, accepted_map a)"
  proof -
    have "map (\<lambda>b. map_err p (dec (snapshot_codec cd) b))
        (newest_snapshots (storage_load_snapshots cfg) (sh_store h0)) = map Inr snaps" for p
      using dec_snaps by (metis (no_types, lifting) list.map_comp comp_apply map_eq_conv map_err_simps(1))
    moreover have "map (\<lambda>b. map_err p (dec (change_codec cd) b)) bs = map Inr pvs" for p
      using bs(2) by (metis (no_types, lifting) list.map_comp comp_apply map_eq_conv map_err_simps(1))
    ultimately show ?thesis
      using bs(1) h0(3) sync(3)
      by (simp add: load_accepted_def io_bind_eq on_helper_eq io_map_err_fst_snd on_store_eq io_zoom_def
          apply_blobs_works restored_def)
  qed
  ultimately show ?thesis
    using cfg(1) h0
    by (simp add: acceptor_restart_def acceptor_new_def acceptor_load_state_def
        load_and_combine_state_def io_bind_eq io_zoom_def)
qed

end
