(* ===== verification/Learner.thy ===== *)
theory Learner
  imports Persistence
begin

text \<open>
  The core learner (\<open>paxos-wasm/core/learner/src/learner.rs\<close>): it records which value each
  acceptor reports for a slot, learns a value that a quorum reports, and hands out the
  learned values in slot order, with \<open>adu\<close> (all decided up to) as the cursor. Its
  \<open>StorageHelper\<close> is the shared one.
\<close>

section \<open>State\<close>

record learner =
  lr_config :: run_config
  lr_num_acceptors :: u64
  slot_learns :: "(slot, (u64, learn) hash_map) btree_map"
  learned :: "(slot, paxos_value) btree_map"
  lr_adu :: slot
  lr_storage :: storage_helper

text \<open>The encodings of \<open>PersistentSnapshotState\<close> and \<open>LearnedEntry\<close>.\<close>

record learner_codec =
  lr_snapshot_codec :: "(slot \<times> (slot, paxos_value) btree_map) codec"
  lr_change_codec :: "learned_entry codec"

section \<open>The storage helper\<close>

definition learner_save_change ::
  "learner_codec \<Rightarrow> clock \<Rightarrow> learned_entry \<Rightarrow> storage_helper \<Rightarrow> unit result \<times> storage_helper" where
  "learner_save_change cd c e = sh_save_change (enc (lr_change_codec cd)) c e"

text \<open>The snapshot of the learner also holds the \<open>adu\<close> it was taken at.\<close>

definition learner_checkpoint_snapshot ::
  "learner_codec \<Rightarrow> clock \<Rightarrow> slot \<Rightarrow> storage_helper \<times> (slot, paxos_value) btree_map \<Rightarrow>
   unit result \<times> storage_helper \<times> (slot, paxos_value) btree_map" where
  "learner_checkpoint_snapshot cd c adu hm =
     sh_checkpoint (\<lambda>m. enc (lr_snapshot_codec cd) (adu, m)) c hm"

definition learner_maybe_snapshot ::
  "learner_codec \<Rightarrow> clock \<Rightarrow> slot \<Rightarrow> storage_helper \<times> (slot, paxos_value) btree_map \<Rightarrow>
   unit result \<times> storage_helper \<times> (slot, paxos_value) btree_map" where
  "learner_maybe_snapshot cd c new_adu =
     sh_maybe_snapshot (\<lambda>m. enc (lr_snapshot_codec cd) (new_adu, m)) c new_adu"

definition restore_snapshot ::
  "slot \<times> (slot, paxos_value) btree_map \<Rightarrow> (slot, paxos_value) btree_map \<times> slot \<Rightarrow>
   (slot, paxos_value) btree_map \<times> slot" where
  "restore_snapshot = (\<lambda>(snap_adu, entries) (m, adu).
     (foldl (\<lambda>m (s, v). bt_insert s v m) m entries, snap_adu))"

definition restore_entry ::
  "learned_entry \<Rightarrow> (slot, paxos_value) btree_map \<times> slot \<Rightarrow> (slot, paxos_value) btree_map \<times> slot" where
  "restore_entry e = (\<lambda>(m, adu). (bt_insert (le_slot e) (le_value e) m, adu))"

text \<open>The last loop of recovery: over the keys past \<open>adu\<close> as long as they are contiguous.\<close>

fun advance :: "slot list \<Rightarrow> slot \<Rightarrow> slot" where
  "advance [] next = next"
| "advance (s # ss) next = (if s = next then advance ss (next + 1) else next)"

definition restore_adu :: "(slot, paxos_value) btree_map \<times> slot \<Rightarrow> (slot, paxos_value) btree_map \<times> slot" where
  "restore_adu = (\<lambda>(m, adu).
     (m, saturating_sub (advance (dropWhile (\<lambda>s. s \<le> adu) (map fst m)) (adu + 1)) 1))"

definition on_learned ::
  "((slot, paxos_value) btree_map \<times> slot \<Rightarrow> 'a result \<times> (slot, paxos_value) btree_map \<times> slot) \<Rightarrow>
   learner \<Rightarrow> 'a result \<times> learner" where
  "on_learned = io_zoom (\<lambda>l. (learned l, lr_adu l)) (\<lambda>(m, adu) l. l\<lparr>learned := m, lr_adu := adu\<rparr>)"

definition load_and_replay_state :: "learner_codec \<Rightarrow> learner \<Rightarrow> unit result \<times> learner" where
  "load_and_replay_state cd l =
     (if \<not> sh_enabled (lr_storage l) then (Inr (), l)
      else io_bind
        (io_zoom lr_storage (\<lambda>h l. l\<lparr>lr_storage := h\<rparr>)
          (io_map_err ''storage.load_state_and_changes: ''
            (on_store (load_state_and_changes (storage_load_snapshots (sh_config (lr_storage l)))))))
        (\<lambda>(snapshots, changes).
         io_bind (io_update (\<lambda>l. l\<lparr>learned := []\<rparr>)) (\<lambda>_.
         io_bind (on_learned (apply_blobs (dec (lr_snapshot_codec cd)) restore_snapshot snapshots)) (\<lambda>_.
         io_bind (on_learned (apply_blobs (dec (lr_change_codec cd)) restore_entry changes)) (\<lambda>_.
         on_learned (io_update restore_adu))))) l)"

section \<open>The learner\<close>

definition learner_new ::
  "(string \<Rightarrow> u64) \<Rightarrow> clock \<Rightarrow> u64 \<Rightarrow> string \<Rightarrow> run_config \<Rightarrow> storage \<Rightarrow> learner option" where
  "learner_new hash c num_acceptors nid cfg disk =
     map_option (\<lambda>h. \<lparr>lr_config = cfg, lr_num_acceptors = num_acceptors, slot_learns = [], learned = [],
         lr_adu = 0, lr_storage = h\<rparr>)
       (sh_new hash c (''node'' @ nid @ ''-learner'') cfg (persistent_storage cfg) disk)"

definition learner_quorum :: "u64 \<Rightarrow> nat" where
  "learner_quorum num_acceptors = as_usize (num_acceptors div 2 + 1)"

text \<open>\<open>*counts.entry(v).or_default() += 1\<close>, over the votes.\<close>

definition count_votes :: "paxos_value list \<Rightarrow> (paxos_value, nat) hash_map" where
  "count_votes vs =
     foldl (\<lambda>counts v. hm_insert v (case hm_get counts v of Some n \<Rightarrow> n + 1 | None \<Rightarrow> 1) counts) [] vs"

definition check_quorum :: "slot \<Rightarrow> learner \<Rightarrow> paxos_value option" where
  "check_quorum s l =
     (case bt_get (slot_learns l) s of
        Some m \<Rightarrow>
          if learner_quorum (lr_num_acceptors l) \<le> length m then
            map_option fst
              (List.find (\<lambda>(_, cnt). learner_quorum (lr_num_acceptors l) \<le> cnt)
                (count_votes (map (ln_value \<circ> snd) m)))
          else None
      | None \<Rightarrow> None)"

definition learner_get_state :: "learner \<Rightarrow> learner_state" where
  "learner_get_state l = \<lparr>ls_learned = map (\<lambda>(s, v). \<lparr>le_slot = s, le_value = v\<rparr>) (learned l)\<rparr>"

definition learner_get_adu :: "learner \<Rightarrow> slot" where
  "learner_get_adu l = lr_adu l"

definition get_highest_learned :: "learner \<Rightarrow> slot" where
  "get_highest_learned l = (case bt_last_key (learned l) of Some s \<Rightarrow> s | None \<Rightarrow> 0)"

definition learner_learn ::
  "learner_codec \<Rightarrow> clock \<Rightarrow> slot \<Rightarrow> paxos_value \<Rightarrow> learner \<Rightarrow> bool \<times> learner" where
  "learner_learn cd c s v l =
     (if bt_get (learned l) s \<noteq> None then (False, l)
      else
        (let (r, h) = learner_save_change cd c \<lparr>le_slot = s, le_value = v\<rparr> (lr_storage l) in
         (True, l\<lparr>learned := bt_insert s v (learned l), lr_storage := h\<rparr>)))"

definition record_learn :: "learn \<Rightarrow> u64 \<Rightarrow> learner \<Rightarrow> learner" where
  "record_learn ln nid l =
     l\<lparr>slot_learns := bt_insert (ln_slot ln)
         (hm_insert nid ln (case bt_get (slot_learns l) (ln_slot ln) of Some m \<Rightarrow> m | None \<Rightarrow> []))
         (slot_learns l)\<rparr>"

definition learner_handle_learn ::
  "learner_codec \<Rightarrow> clock \<Rightarrow> learn \<Rightarrow> node \<Rightarrow> learner \<Rightarrow> bool \<times> learner" where
  "learner_handle_learn cd c ln from l =
     (let l1 = record_learn ln (node_id from) l in
      case check_quorum (ln_slot ln) l1 of
        Some v \<Rightarrow> learner_learn cd c (ln_slot ln) v l1
      | None \<Rightarrow> (False, l1))"

text \<open>
  The walk of \<open>to_be_executed\<close> up to the first gap. The keys it visits differ as long as
  the map has fewer than \<open>2 ^ 64\<close> entries, so the size of the map is enough fuel.
\<close>

fun walk :: "nat \<Rightarrow> (slot, paxos_value) btree_map \<Rightarrow> slot \<Rightarrow> learned_entry list \<times> slot" where
  "walk 0 m next = ([], next)"
| "walk (Suc fuel) m next =
     (case bt_get m next of
        None \<Rightarrow> ([], next)
      | Some v \<Rightarrow> (let (out, end) = walk fuel m (next + 1) in
                 (\<lparr>le_slot = next, le_value = v\<rparr> # out, end)))"

definition to_be_executed :: "learner_codec \<Rightarrow> clock \<Rightarrow> learner \<Rightarrow> learn_result \<times> learner" where
  "to_be_executed cd c l =
     (let (out, next) = walk (Suc (length (learned l))) (learned l) (lr_adu l + 1) in
      if out = [] then (LearnIgnore, l)
      else
        (let new_adu = saturating_sub next 1;
             (r, h, m) = learner_maybe_snapshot cd c new_adu (lr_storage l, learned l) in
         (Execute out, l\<lparr>lr_adu := new_adu, lr_storage := h, learned := m\<rparr>)))"

definition get_learned :: "slot \<Rightarrow> learner \<Rightarrow> learned_entry option" where
  "get_learned s l = map_option (\<lambda>v. \<lparr>le_slot = s, le_value = v\<rparr>) (bt_get (learned l) s)"

definition learner_load_state :: "learner_codec \<Rightarrow> learner \<Rightarrow> unit result \<times> learner" where
  "learner_load_state cd l = load_and_replay_state cd l"

definition learner_maybe_flush :: "clock \<Rightarrow> learner \<Rightarrow> unit result \<times> learner" where
  "learner_maybe_flush c = io_zoom lr_storage (\<lambda>h l. l\<lparr>lr_storage := h\<rparr>) (sh_maybe_flush_changes c)"

section \<open>The quorum\<close>

interpretation learner_majority: majority learner_quorum
proof
  fix n :: u64 assume n: "unat n < 2 ^ 32"
  then have *: "learner_quorum n = unat n div 2 + 1"
    by (simp add: learner_quorum_def as_usize_def unat_word_ariths unat_div)
  then show "unat n < 2 * learner_quorum n" by simp
  from * show "learner_quorum n \<le> unat n" if "0 < unat n" using that by simp
qed

text \<open>The counts of the votes.\<close>

lemma count_votes_get:
  "hm_get (count_votes vs) v = (if v \<in> set vs then Some (count (mset vs) v) else None)"
proof (induction vs rule: rev_induct)
  case Nil
  then show ?case by (simp add: count_votes_def)
next
  case (snoc x vs)
  have "count_votes (vs @ [x]) = hm_insert x
      (case hm_get (count_votes vs) x of Some n \<Rightarrow> n + 1 | None \<Rightarrow> 1) (count_votes vs)"
    by (simp add: count_votes_def)
  with snoc show ?case by (auto simp: dict_simps count_mset_0_iff split: if_splits)
qed

lemma count_votes_ok: "hm_ok (count_votes vs)"
  by (induction vs rule: rev_induct) (simp_all add: count_votes_def hm.ok_empty hm.ok_ins)

lemma find_map_Some: "map_option fst (List.find p kvs) = Some k \<Longrightarrow> \<exists>v. (k, v) \<in> set kvs \<and> p (k, v)"
  by (auto simp: find_Some_iff) (metis nth_mem)

text \<open>The voters for a value in a slot, as the learner has recorded them.\<close>

definition voters :: "learner \<Rightarrow> slot \<Rightarrow> paxos_value \<Rightarrow> u64 set" where
  "voters l s v =
     (case bt_get (slot_learns l) s of
        Some m \<Rightarrow> {i. \<exists>ln. hm_get m i = Some ln \<and> ln_value ln = v}
      | None \<Rightarrow> {})"

lemma card_voters:
  assumes "bt_get (slot_learns l) s = Some m" and "hm_ok m"
  shows "card (voters l s v) = count (mset (map (ln_value \<circ> snd) m)) v"
proof -
  have "voters l s v = fst ` set (filter (\<lambda>e. ln_value (snd e) = v) m)"
    using assms by (force simp: voters_def hm_ok_def)
  also have "card \<dots> = length (filter (\<lambda>e. ln_value (snd e) = v) m)"
    using assms(2) distinct_card [of "map fst (filter (\<lambda>e. ln_value (snd e) = v) m)"]
    by (simp add: hm_ok_def distinct_map_filter)
  also have "\<dots> = count (mset (map (ln_value \<circ> snd) m)) v"
    by (induction m) auto
  finally show ?thesis .
qed

definition votes_ok :: "learner \<Rightarrow> bool" where
  "votes_ok l \<longleftrightarrow> bt_ok (slot_learns l) \<and>
     (\<forall>s m. bt_get (slot_learns l) s = Some m \<longrightarrow>
        hm_ok m \<and> (\<forall>i ln. hm_get m i = Some ln \<longrightarrow> ln_slot ln = s))"

lemma check_quorum_sound:
  assumes "votes_ok l" and "check_quorum s l = Some v"
  shows "learner_quorum (lr_num_acceptors l) \<le> card (voters l s v)"
proof -
  obtain m where m: "bt_get (slot_learns l) s = Some m"
    and find: "map_option fst (List.find (\<lambda>(_, cnt). learner_quorum (lr_num_acceptors l) \<le> cnt)
        (count_votes (map (ln_value \<circ> snd) m))) = Some v"
    using assms(2) by (auto simp: check_quorum_def split: option.splits if_splits)
  let ?vs = "map (ln_value \<circ> snd) m"
  obtain n where "(v, n) \<in> set (count_votes ?vs)" "learner_quorum (lr_num_acceptors l) \<le> n"
    using find_map_Some [OF find] by auto
  moreover from this(1) have "hm_get (count_votes ?vs) v = Some n"
    using count_votes_ok [of ?vs] by (simp add: hm_ok_def)
  then have "n = count (mset ?vs) v"
    unfolding count_votes_get by (simp split: if_splits)
  moreover have "hm_ok m" using assms(1) m by (simp add: votes_ok_def)
  ultimately show ?thesis using card_voters [OF m] by simp
qed

lemma check_quorum_complete:
  assumes "votes_ok l" and "learner_quorum (lr_num_acceptors l) \<le> card (voters l s v)"
    and "0 < learner_quorum (lr_num_acceptors l)"
  shows "check_quorum s l \<noteq> None"
proof -
  let ?q = "learner_quorum (lr_num_acceptors l)"
  obtain m where m: "bt_get (slot_learns l) s = Some m"
    using assms(2,3) by (cases "bt_get (slot_learns l) s") (auto simp: voters_def)
  let ?vs = "map (ln_value \<circ> snd) m"
  have "hm_ok m" using assms(1) m by (simp add: votes_ok_def)
  from card_voters [OF m this] have card: "card (voters l s v) = count (mset ?vs) v" .
  with assms(2,3) have v: "v \<in> set ?vs" "?q \<le> count (mset ?vs) v"
    using count_mset_0_iff [of ?vs v] by (auto simp del: set_map)
  have "count (mset ?vs) v \<le> length m"
    using count_le_length [of ?vs v] by (simp add: count_mset del: mset_map)
  with v(2) have "?q \<le> length m" by simp
  moreover from v(1) have "hm_get (count_votes ?vs) v = Some (count (mset ?vs) v)"
    by (simp only: count_votes_get if_True)
  then have "(v, count (mset ?vs) v) \<in> set (count_votes ?vs)" by (rule map_of_SomeD)
  with v(2) have "List.find (\<lambda>(_, cnt). ?q \<le> cnt) (count_votes ?vs) \<noteq> None"
    by (auto simp: find_None_iff)
  ultimately show ?thesis using m by (simp add: check_quorum_def)
qed

text \<open>
  At most one value has a quorum when the votes come from the acceptors, so the answer does
  not depend on the iteration order of the hash maps.
\<close>

lemma quorum_unique:
  assumes "unat (lr_num_acceptors l) < 2 ^ 32" and "finite A" and "card A \<le> unat (lr_num_acceptors l)"
    and "voters l s v \<subseteq> A" and "voters l s w \<subseteq> A"
    and "learner_quorum (lr_num_acceptors l) \<le> card (voters l s v)"
    and "learner_quorum (lr_num_acceptors l) \<le> card (voters l s w)"
  shows "v = w"
proof -
  have "voters l s v \<inter> voters l s w \<noteq> {}"
    using learner_majority.quorums_intersect [OF assms(1-7)] .
  then show ?thesis by (auto simp: voters_def split: option.splits)
qed

section \<open>Learning\<close>

lemma record_learn_ok: "votes_ok l \<Longrightarrow> votes_ok (record_learn ln i l)"
  by (auto simp: votes_ok_def record_learn_def bt_insert_sorted dict_simps hm.ok_ins hm.ok_empty
      split: option.splits if_splits)

lemma record_learn_voters:
  assumes "votes_ok l"
  shows "voters (record_learn ln i l) s v =
    (if s \<noteq> ln_slot ln then voters l s v
     else if ln_value ln = v then insert i (voters l s v) else voters l s v - {i})"
  using assms
  by (auto simp: votes_ok_def voters_def record_learn_def dict_simps split: option.splits if_splits)

lemma record_learn_simps [simp]:
  "learned (record_learn ln i l) = learned l" "lr_adu (record_learn ln i l) = lr_adu l"
  "lr_num_acceptors (record_learn ln i l) = lr_num_acceptors l"
  "lr_storage (record_learn ln i l) = lr_storage l"
  by (simp_all add: record_learn_def)

lemma learner_learn_fst: "fst (learner_learn cd c s v l) \<longleftrightarrow> bt_get (learned l) s = None"
  by (auto simp: learner_learn_def split_def)

lemma learner_learn_simps [simp]:
  "slot_learns (snd (learner_learn cd c s v l)) = slot_learns l"
  "lr_adu (snd (learner_learn cd c s v l)) = lr_adu l"
  "lr_num_acceptors (snd (learner_learn cd c s v l)) = lr_num_acceptors l"
  by (auto simp: learner_learn_def split_def)

lemma learner_learn_learned:
  "learned (snd (learner_learn cd c s v l)) =
     (if bt_get (learned l) s = None then bt_insert s v (learned l) else learned l)"
  by (auto simp: learner_learn_def split_def)

lemma learner_learn_enabled:
  "sh_enabled (lr_storage (snd (learner_learn cd c s v l))) = sh_enabled (lr_storage l)"
  "sh_config (lr_storage (snd (learner_learn cd c s v l))) = sh_config (lr_storage l)"
  using sh_save_change_settings [of "lr_storage l" "enc (lr_change_codec cd)" c "\<lparr>le_slot = s, le_value = v\<rparr>"]
  by (auto simp: learner_learn_def split_def learner_save_change_def same_settings_def)

definition learner_inv :: "learner \<Rightarrow> bool" where
  "learner_inv l \<longleftrightarrow> votes_ok l \<and> bt_ok (learned l)"

lemma learner_learn_inv: "learner_inv l \<Longrightarrow> learner_inv (snd (learner_learn cd c s v l))"
  by (simp add: learner_inv_def votes_ok_def learner_learn_learned bt_insert_sorted)

lemma learner_handle_learn_eq:
  "snd (learner_handle_learn cd c ln from l) =
     (let l1 = record_learn ln (node_id from) l in
      case check_quorum (ln_slot ln) l1 of
        Some v \<Rightarrow> snd (learner_learn cd c (ln_slot ln) v l1) | None \<Rightarrow> l1)"
  by (simp add: learner_handle_learn_def Let_def split: option.split)

lemma learner_handle_learn_simps:
  "lr_adu (snd (learner_handle_learn cd c ln from l)) = lr_adu l"
  "lr_num_acceptors (snd (learner_handle_learn cd c ln from l)) = lr_num_acceptors l"
  "sh_enabled (lr_storage (snd (learner_handle_learn cd c ln from l))) = sh_enabled (lr_storage l)"
  "slot_learns (snd (learner_handle_learn cd c ln from l)) =
     slot_learns (record_learn ln (node_id from) l)"
  by (simp_all add: learner_handle_learn_eq Let_def learner_learn_enabled split: option.split)

lemma learner_handle_learn_inv:
  assumes "learner_inv l"
  shows "learner_inv (snd (learner_handle_learn cd c ln from l))"
proof -
  have "learner_inv (record_learn ln (node_id from) l)"
    using assms record_learn_ok by (simp add: learner_inv_def)
  then show ?thesis
    by (simp add: learner_handle_learn_eq Let_def learner_learn_inv split: option.split)
qed

lemma learner_learn_grows:
  "bt_ok (learned l) \<Longrightarrow> bt_get (learned l) \<subseteq>\<^sub>m bt_get (learned (snd (learner_learn cd c s v l)))"
  by (auto simp: learner_learn_learned map_le_def dict_simps)

lemma learner_handle_learn_grows:
  "bt_ok (learned l) \<Longrightarrow>
   bt_get (learned l) \<subseteq>\<^sub>m bt_get (learned (snd (learner_handle_learn cd c ln from l)))"
  using learner_learn_grows [of "record_learn ln (node_id from) l"]
  by (simp add: learner_handle_learn_eq Let_def split: option.split)

text \<open>What a handled learn adds is the value of a quorum.\<close>

lemma learner_handle_learn_new:
  assumes "learner_inv l"
    and "bt_get (learned (snd (learner_handle_learn cd c ln from l))) s = Some v"
    and "bt_get (learned l) s = None"
  shows "s = ln_slot ln \<and>
    learner_quorum (lr_num_acceptors l) \<le> card (voters (snd (learner_handle_learn cd c ln from l)) s v)"
proof -
  let ?l1 = "record_learn ln (node_id from) l"
  have ok: "votes_ok ?l1" "bt_ok (learned l)"
    using assms(1) by (simp_all add: learner_inv_def record_learn_ok)
  obtain w where w: "check_quorum (ln_slot ln) ?l1 = Some w"
    using assms(2,3) by (auto simp: learner_handle_learn_eq Let_def split: option.splits)
  then have eq: "snd (learner_handle_learn cd c ln from l) = snd (learner_learn cd c (ln_slot ln) w ?l1)"
    by (simp add: learner_handle_learn_eq Let_def)
  with assms(2,3) ok(2) have "s = ln_slot ln \<and> v = w"
    by (auto simp: learner_learn_learned dict_simps split: if_splits)
  with check_quorum_sound [OF ok(1) w] eq show ?thesis by (simp add: voters_def)
qed

section \<open>Handing out\<close>

lemma walk_out:
  "walk n m next = (out, end) \<Longrightarrow>
     length out \<le> n \<and> end = next + of_nat (length out) \<and>
     (\<forall>i < length out. le_slot (out ! i) = next + of_nat i \<and>
        bt_get m (next + of_nat i) = Some (le_value (out ! i)))"
proof (induction n arbitrary: "next" out "end")
  case (Suc n)
  show ?case
  proof (cases "bt_get m next")
    case None
    with Suc.prems show ?thesis by simp
  next
    case (Some v)
    with Suc.prems obtain out' where
      "walk n m (next + 1) = (out', end)" "out = \<lparr>le_slot = next, le_value = v\<rparr> # out'"
      by (cases "walk n m (next + 1)") auto
    with Suc.IH [of "next + 1" out' "end"] Some show ?thesis
      by (auto simp: less_Suc_eq_0_disj add.assoc nth_Cons')
  qed
qed simp

lemma walk_stops:
  "walk n m next = (out, end) \<Longrightarrow> length out < n \<Longrightarrow> bt_get m end = None"
proof (induction n arbitrary: "next" out "end")
  case (Suc n)
  then show ?case by (cases "walk n m (next + 1)") (auto split: option.splits)
qed simp

text \<open>The size of the map is enough fuel: the walk visits different keys.\<close>

lemma walk_fuel:
  assumes "walk (Suc (length m)) m next = (out, end)" and "length m < 2 ^ 64"
  shows "bt_get m end = None"
proof (rule walk_stops [OF assms(1)], rule ccontr)
  assume "\<not> length out < Suc (length m)"
  with walk_out [OF assms(1)] have len: "length out = Suc (length m)"
    and keys: "\<forall>i \<le> length m. bt_get m (next + of_nat i) \<noteq> None"
    by (auto simp: less_Suc_eq_le)
  have "inj_on (\<lambda>i. next + (of_nat i :: u64)) {.. length m}"
  proof (rule inj_onI)
    fix i j assume "i \<in> {.. length m}" "j \<in> {.. length m}"
      and "next + (of_nat i :: u64) = next + of_nat j"
    then have "i \<le> length m" "j \<le> length m" "unat (of_nat i :: u64) = unat (of_nat j :: u64)" by simp_all
    with assms(2) show "i = j" by (simp add: unsigned_of_nat take_bit_nat_eq_self)
  qed
  then have "card ((\<lambda>i. next + (of_nat i :: u64)) ` {.. length m}) = Suc (length m)"
    by (simp add: card_image)
  moreover have "(\<lambda>i. next + (of_nat i :: u64)) ` {.. length m} \<subseteq> fst ` set m"
    using keys by (auto simp: map_of_eq_None_iff)
  then have "card ((\<lambda>i. next + (of_nat i :: u64)) ` {.. length m}) \<le> card (fst ` set m)"
    by (intro card_mono) auto
  moreover have "card (fst ` set m) \<le> length m"
    by (metis card_length length_map list.set_map)
  ultimately show False by simp
qed

text \<open>
  The learner of an execution: no storage, the entries handed out so far in \<open>done\<close>. The
  outputs of successive calls are the learned values of slots 1 to \<open>adu\<close>, each once.
\<close>

definition entries_upto :: "learner \<Rightarrow> nat \<Rightarrow> learned_entry list" where
  "entries_upto l n =
     map (\<lambda>i. \<lparr>le_slot = of_nat i, le_value = the (bt_get (learned l) (of_nat i))\<rparr>) [1 ..< Suc n]"

definition delivered :: "learner \<Rightarrow> learned_entry list \<Rightarrow> bool" where
  "delivered l done \<longleftrightarrow>
     learner_inv l \<and> \<not> sh_enabled (lr_storage l) \<and>
     done = entries_upto l (unat (lr_adu l)) \<and>
     (\<forall>s. 1 \<le> s \<and> s \<le> lr_adu l \<longrightarrow> bt_get (learned l) s \<noteq> None)"

lemma to_be_executed_disabled:
  assumes "\<not> sh_enabled (lr_storage l)"
    and "walk (Suc (length (learned l))) (learned l) (lr_adu l + 1) = (out, end)"
  shows "to_be_executed cd c l =
    (if out = [] then (LearnIgnore, l) else (Execute out, l\<lparr>lr_adu := saturating_sub end 1\<rparr>))"
proof -
  have "sh_maybe_snapshot f c s (lr_storage l, learned l) = (Inr (), lr_storage l, learned l)" for f s
    using assms(1) by (simp add: sh_maybe_snapshot_def Let_def)
  with assms(2) show ?thesis
    by (simp add: to_be_executed_def learner_maybe_snapshot_def)
qed

definition result_entries :: "learn_result \<Rightarrow> learned_entry list" where
  "result_entries r = (case r of Execute out \<Rightarrow> out | LearnIgnore \<Rightarrow> [])"

text \<open>No slot is learned at the very end of the range, so the cursor does not wrap.\<close>

definition below_max :: "(slot, 'v) btree_map \<Rightarrow> bool" where
  "below_max m \<longleftrightarrow> (\<forall>s. bt_get m s \<noteq> None \<longrightarrow> unat s < 2 ^ 64 - 1)"

lemma walk_no_wrap:
  assumes "walk n m next = (out, end)" and "below_max m"
  shows "unat end = unat next + length out"
  using assms
proof (induction n arbitrary: "next" out "end")
  case (Suc n)
  show ?case
  proof (cases "bt_get m next")
    case None
    with Suc.prems show ?thesis by simp
  next
    case (Some v)
    with Suc.prems(2) have s: "unat (next + 1) = unat next + 1"
      by (intro unat_succ) (auto simp: below_max_def)
    from Some Suc.prems(1) obtain out' where
      "walk n m (next + 1) = (out', end)" "out = \<lparr>le_slot = next, le_value = v\<rparr> # out'"
      by (cases "walk n m (next + 1)") auto
    with Suc.IH [of "next + 1" out' "end"] Suc.prems(2) s show ?thesis by simp
  qed
qed simp

lemma to_be_executed_delivers:
  assumes "delivered l done" and "below_max (learned l)" and "unat (lr_adu l) < 2 ^ 64 - 1"
    and run: "to_be_executed cd c l = (r, l')"
  shows "delivered l' (done @ result_entries r)" "lr_adu l \<le> lr_adu l'"
    "length (learned l) < 2 ^ 64 \<Longrightarrow> bt_get (learned l') (lr_adu l' + 1) = None"
    "learned l' = learned l"
proof -
  obtain out e where w: "walk (Suc (length (learned l))) (learned l) (lr_adu l + 1) = (out, e)"
    by fastforce
  have dis: "\<not> sh_enabled (lr_storage l)" using assms(1) by (simp add: delivered_def)
  have s: "unat (lr_adu l + 1) = unat (lr_adu l) + 1" using assms(3) by (intro unat_succ) simp
  have e: "unat e = unat (lr_adu l) + 1 + length out"
    using walk_no_wrap [OF w assms(2)] s by simp
  then have adu: "saturating_sub e 1 + 1 = e" "unat (saturating_sub e 1) = unat (lr_adu l) + length out"
    by (auto simp: unat_saturating_sub intro!: saturating_sub_one_add) (simp add: word_less_nat_alt)
  have res: "result_entries r = out" "lr_adu l' = saturating_sub e 1"
    "l' = l\<lparr>lr_adu := saturating_sub e 1\<rparr>"
  proof -
    have "saturating_sub e 1 = lr_adu l" if "out = []"
      using adu(2) that by (simp add: word_unat_eq_iff)
    then show "result_entries r = out" "lr_adu l' = saturating_sub e 1"
      "l' = l\<lparr>lr_adu := saturating_sub e 1\<rparr>"
      using run to_be_executed_disabled [OF dis w]
      by (auto simp: result_entries_def split: if_splits)
  qed
  then show "learned l' = learned l" by simp
  show "lr_adu l \<le> lr_adu l'" using adu(2) res(2) by (simp add: word_le_nat_alt)
  show "bt_get (learned l') (lr_adu l' + 1) = None" if "length (learned l) < 2 ^ 64"
    using walk_fuel [OF w that] adu(1) res(2,3) by simp
  have out: "le_slot (out ! i) = of_nat (unat (lr_adu l) + 1 + i) \<and>
      bt_get (learned l) (of_nat (unat (lr_adu l) + 1 + i)) = Some (le_value (out ! i))"
    if "i < length out" for i
    using walk_out [OF w] that by (simp add: add.commute add.left_commute)
  define f where "f i = \<lparr>le_slot = of_nat i, le_value = the (bt_get (learned l) (of_nat i))\<rparr>" for i
  have "out = map f [Suc (unat (lr_adu l)) ..< Suc (unat (lr_adu l)) + length out]"
    by (rule nth_equalityI) (use out in \<open>auto simp: f_def simp del: upt_Suc\<close>)
  moreover have "done = map f [1 ..< Suc (unat (lr_adu l))]"
    using assms(1) by (simp only: delivered_def entries_upto_def f_def [abs_def])
  ultimately have "done @ out = map f [1 ..< Suc (unat (lr_adu l)) + length out]"
    using upt_add_eq_append [of 1 "Suc (unat (lr_adu l))" "length out"]
    by (metis le_add1 map_append plus_1_eq_Suc)
  then have "done @ out = entries_upto l (unat (lr_adu l'))"
    using adu(2) res(2) by (simp add: entries_upto_def f_def [abs_def] del: upt_Suc)
  moreover have "bt_get (learned l) k \<noteq> None" if "1 \<le> k" "k \<le> lr_adu l'" for k
  proof (cases "k \<le> lr_adu l")
    case True
    with that assms(1) show ?thesis by (simp add: delivered_def)
  next
    case False
    then have "unat (lr_adu l) < unat k" by (simp add: word_le_nat_alt)
    moreover have "unat k \<le> unat (lr_adu l) + length out"
      using that(2) adu(2) res(2) by (simp add: word_le_nat_alt)
    ultimately obtain i where "i < length out" "unat k = unat (lr_adu l) + 1 + i"
      by (metis add.commute add_Suc_right le_imp_less_Suc less_imp_Suc_add add_less_cancel_left plus_1_eq_Suc)
    moreover have "of_nat (unat k) = k" by simp
    ultimately show ?thesis using out [of i] by (metis option.distinct(1))
  qed
  ultimately show "delivered l' (done @ result_entries r)"
    using assms(1) res by (auto simp: delivered_def learner_inv_def votes_ok_def entries_upto_def)
qed

end
