(* ===== verification/Kv_Store.thy ===== *)
theory Kv_Store
  imports Paxos_Types
begin

text \<open>
  The replicated state machine (\<open>paxos-wasm/core/kv-store/src/kv-store.rs\<close>): a map from
  strings to strings and the history of every command applied to it.
\<close>

record kv_store =
  kv_map :: "(string, string) hash_map"
  kv_history :: "cmd list"

definition kv_new :: kv_store where
  "kv_new = \<lparr>kv_map = [], kv_history = []\<rparr>"

definition log_cmd :: "cmd \<Rightarrow> kv_store \<Rightarrow> kv_store" where
  "log_cmd c s = s\<lparr>kv_history := kv_history s @ [c]\<rparr>"

definition apply_get :: "string \<Rightarrow> kv_store \<Rightarrow> string option \<times> kv_store" where
  "apply_get key s = (hm_get (kv_map s) key, s)"

definition apply_set :: "kv_pair \<Rightarrow> kv_store \<Rightarrow> string option \<times> kv_store" where
  "apply_set kv s = (None, s\<lparr>kv_map := hm_insert (kv_key kv) (kv_value kv) (kv_map s)\<rparr>)"

definition apply_remove :: "string \<Rightarrow> kv_store \<Rightarrow> string option \<times> kv_store" where
  "apply_remove key s = (hm_get (kv_map s) key, s\<lparr>kv_map := hm_remove key (kv_map s)\<rparr>)"

definition apply_clear :: "kv_store \<Rightarrow> string option \<times> kv_store" where
  "apply_clear s = (None, s\<lparr>kv_map := []\<rparr>)"

fun kv_execute :: "operation \<Rightarrow> kv_store \<Rightarrow> string option \<times> kv_store" where
  "kv_execute (Get key) s = apply_get key s"
| "kv_execute (Set kv) s = apply_set kv s"
| "kv_execute (Remove key) s = apply_remove key s"
| "kv_execute Clear s = apply_clear s"
| "kv_execute Demo s = (Some ''Demo'', s)"

definition kv_apply :: "cmd \<Rightarrow> kv_store \<Rightarrow> cmd_result \<times> kv_store" where
  "kv_apply c s =
     (let s' = log_cmd c s in
      case c of
        None \<Rightarrow> (NoOp, s')
      | Some op \<Rightarrow> (case kv_execute op s' of (r, s'') \<Rightarrow> (CmdValue r, s'')))"

definition kv_get_state :: "kv_store \<Rightarrow> kv_pair list" where
  "kv_get_state s = map (\<lambda>(k, v). \<lparr>kv_key = k, kv_value = v\<rparr>) (kv_map s)"

definition kv_get_history :: "kv_store \<Rightarrow> cmd list" where
  "kv_get_history s = kv_history s"

lemmas kv_defs [ops_def] =
  log_cmd_def apply_get_def apply_set_def apply_remove_def apply_clear_def kv_apply_def

text \<open>Applying commands one after the other, collecting the results.\<close>

fun kv_run :: "cmd list \<Rightarrow> kv_store \<Rightarrow> cmd_result list \<times> kv_store" where
  "kv_run [] s = ([], s)"
| "kv_run (c # cs) s =
     (case kv_apply c s of (r, s') \<Rightarrow> case kv_run cs s' of (rs, s'') \<Rightarrow> (r # rs, s''))"

section \<open>The abstract state machine\<close>

text \<open>What the store promises: a partial function, whatever the order a hash map keeps.\<close>

fun spec_execute :: "operation \<Rightarrow> (string \<rightharpoonup> string) \<Rightarrow> string option \<times> (string \<rightharpoonup> string)" where
  "spec_execute (Get k) m = (m k, m)"
| "spec_execute (Set kv) m = (None, m(kv_key kv \<mapsto> kv_value kv))"
| "spec_execute (Remove k) m = (m k, m(k := None))"
| "spec_execute Clear m = (None, Map.empty)"
| "spec_execute Demo m = (Some ''Demo'', m)"

fun spec_apply :: "cmd \<Rightarrow> (string \<rightharpoonup> string) \<Rightarrow> cmd_result \<times> (string \<rightharpoonup> string)" where
  "spec_apply None m = (NoOp, m)"
| "spec_apply (Some op) m = (case spec_execute op m of (r, m') \<Rightarrow> (CmdValue r, m'))"

fun spec_run :: "cmd list \<Rightarrow> (string \<rightharpoonup> string) \<Rightarrow> cmd_result list \<times> (string \<rightharpoonup> string)" where
  "spec_run [] m = ([], m)"
| "spec_run (c # cs) m =
     (case spec_apply c m of (r, m') \<Rightarrow> case spec_run cs m' of (rs, m'') \<Rightarrow> (r # rs, m''))"

abbreviation kv_view :: "kv_store \<Rightarrow> (string \<rightharpoonup> string)" where
  "kv_view s \<equiv> hm_get (kv_map s)"

lemma kv_execute_refines:
  "fst (kv_execute op s) = fst (spec_execute op (kv_view s)) \<and>
   kv_view (snd (kv_execute op s)) = snd (spec_execute op (kv_view s)) \<and>
   kv_history (snd (kv_execute op s)) = kv_history s"
  by (cases op) (auto simp: kv_defs fun_eq_iff dict_simps hm_remove_def map_of_filter_neq)

lemma kv_apply_refines:
  "fst (kv_apply c s) = fst (spec_apply c (kv_view s)) \<and>
   kv_view (snd (kv_apply c s)) = snd (spec_apply c (kv_view s)) \<and>
   kv_history (snd (kv_apply c s)) = kv_history s @ [c]"
  using kv_execute_refines [of "the c" "log_cmd c s"]
  by (cases c) (auto simp: kv_apply_def log_cmd_def Let_def split: prod.splits)

lemma kv_run_refines:
  "fst (kv_run cs s) = fst (spec_run cs (kv_view s)) \<and>
   kv_view (snd (kv_run cs s)) = snd (spec_run cs (kv_view s)) \<and>
   kv_history (snd (kv_run cs s)) = kv_history s @ cs"
proof (induction cs arbitrary: s)
  case Nil
  then show ?case by simp
next
  case (Cons c cs)
  with kv_apply_refines [of c s] show ?case
    by (auto simp: split_def)
qed

lemma kv_run_append:
  "kv_run (cs @ ds) s =
     (case kv_run cs s of (rs, s') \<Rightarrow> case kv_run ds s' of (rs', s'') \<Rightarrow> (rs @ rs', s''))"
  by (induction cs arbitrary: s) (auto split: prod.splits)

lemma kv_run_snoc:
  "kv_run (cs @ [c]) s = (fst (kv_run cs s) @ [fst (kv_apply c (snd (kv_run cs s)))],
     snd (kv_apply c (snd (kv_run cs s))))"
  by (simp add: kv_run_append split_def)

end
