(* ===== verification/Learner_Agent.thy ===== *)
theory Learner_Agent
  imports Learner Kv_Store Acceptor_Agent
begin

text \<open>
  The learner agent (\<open>paxos-wasm/agents/learner-agent/src/learner-agent.rs\<close>): it feeds the
  learns from the network to the core learner, applies what the learner hands out to the
  key-value store, buffers the results for the proposers, and asks again for slots that stay
  unlearned. The fields for throughput logging are left out; the clock is an argument.
\<close>

section \<open>State and operations\<close>

record learner_agent =
  la_config :: run_config
  la_node :: node
  la_proposers :: "node list"
  la_acceptors :: "node list"
  la_all_nodes :: "node list"
  la_learner :: learner
  la_kv :: kv_store
  last_learn_time :: instant
  retries :: "(slot, instant) hash_map"
  exec_buffer :: "execute_result list"
  last_exec_time :: instant

definition la_is_acceptor_role :: "node \<Rightarrow> bool" where
  "la_is_acceptor_role n \<longleftrightarrow> role n = Acceptor \<or> role n = Coordinator"

definition la_is_proposer_role :: "node \<Rightarrow> bool" where
  "la_is_proposer_role n \<longleftrightarrow> role n = Proposer \<or> role n = Coordinator"

definition learner_agent_new ::
  "(string \<Rightarrow> u64) \<Rightarrow> learner_codec \<Rightarrow> clock \<Rightarrow> node \<Rightarrow> node list \<Rightarrow> run_config \<Rightarrow> storage \<Rightarrow>
   learner_agent option" where
  "learner_agent_new hash cd c n nodes cfg disk =
     (let accs = filter la_is_acceptor_role nodes;
          num_acceptors = of_nat (length accs) + (if role n = Coordinator then 1 else 0) in
      map_option
        (\<lambda>l. \<lparr>la_config = cfg, la_node = n, la_proposers = filter la_is_proposer_role nodes,
             la_acceptors = accs, la_all_nodes = nodes,
             la_learner = snd (learner_load_state cd l), la_kv = kv_new,
             last_learn_time = clk_now c, retries = [], exec_buffer = [], last_exec_time = clk_now c\<rparr>)
        (learner_new hash c num_acceptors (show_u64 (node_id n)) cfg disk))"

definition la_message :: "learner_agent \<Rightarrow> message_payload \<Rightarrow> network_message" where
  "la_message ag p = \<lparr>sender = la_node ag, payload = p\<rparr>"

definition la_get_state :: "learner_agent \<Rightarrow> learner_state \<times> kv_pair list" where
  "la_get_state ag = (learner_get_state (la_learner ag), kv_get_state (la_kv ag))"

definition la_get_adu :: "learner_agent \<Rightarrow> slot" where
  "la_get_adu ag = learner_get_adu (la_learner ag)"

definition la_record_learn ::
  "learner_codec \<Rightarrow> clock \<Rightarrow> slot \<Rightarrow> paxos_value \<Rightarrow> node \<Rightarrow> learner_agent \<Rightarrow> bool \<times> learner_agent" where
  "la_record_learn cd c s v from ag =
     (let (was_new, l) =
        (if acceptors_send_learns (la_config ag)
         then learner_handle_learn cd c \<lparr>ln_slot = s, ln_value = v\<rparr> from (la_learner ag)
         else learner_learn cd c s v (la_learner ag));
          ag1 = ag\<lparr>la_learner := l\<rparr> in
      (was_new, if was_new then ag1\<lparr>last_learn_time := clk_now c\<rparr> else ag1))"

text \<open>One entry applied to the store, its result buffered.\<close>

definition execute_entry :: "learned_entry \<Rightarrow> learner_agent \<Rightarrow> learner_agent" where
  "execute_entry le ag =
     (let (res, kv) = kv_apply (command (le_value le)) (la_kv ag) in
      ag\<lparr>la_kv := kv,
         exec_buffer := exec_buffer ag @
           [\<lparr>er_value = le_value le, er_slot = le_slot le, er_success = (res \<noteq> NoOp), er_cmd_result = res\<rparr>]\<rparr>)"

definition execute_chosen_learns :: "learner_codec \<Rightarrow> clock \<Rightarrow> learner_agent \<Rightarrow> learner_agent" where
  "execute_chosen_learns cd c ag =
     (let (r, l) = to_be_executed cd c (la_learner ag); ag1 = ag\<lparr>la_learner := l\<rparr> in
      case r of
        Execute entries \<Rightarrow> foldl (\<lambda>ag le. execute_entry le ag) ag1 entries
      | LearnIgnore \<Rightarrow> ag1)"

definition collect_executed :: "u64 option \<Rightarrow> bool \<Rightarrow> learner_agent \<Rightarrow> executed \<times> learner_agent" where
  "collect_executed batch_sz require_full ag =
     (let available = (case batch_sz of
            Some n \<Rightarrow> min (length (exec_buffer ag)) (as_usize n) | None \<Rightarrow> length (exec_buffer ag)) in
      if require_full \<and> (case batch_sz of Some n \<Rightarrow> available < as_usize n | None \<Rightarrow> False)
      then (\<lparr>ex_results = [], ex_adu = la_get_adu ag\<rparr>, ag)
      else (\<lparr>ex_results = take available (exec_buffer ag), ex_adu = la_get_adu ag\<rparr>,
            ag\<lparr>exec_buffer := drop available (exec_buffer ag)\<rparr>))"

definition dispatch_executed :: "executed \<Rightarrow> learner_agent \<Rightarrow> network_message option \<times> outbox" where
  "dispatch_executed ex ag =
     (if \<not> learners_send_executed (la_config ag) \<or> ex_results ex = [] then (None, [])
      else
        (let msg = la_message ag (ExecutedMsg ex) in
         if is_event_driven (la_config ag) then (None, [(la_proposers ag, msg)]) else (Some msg, [])))"

text \<open>The scan of \<open>evaluate_retry\<close>: at most \<open>cap\<close> slots that have cooled down.\<close>

fun scan_retries ::
  "instant \<Rightarrow> duration \<Rightarrow> nat \<Rightarrow> slot list \<Rightarrow> (slot, instant) hash_map \<Rightarrow>
   slot list \<times> (slot, instant) hash_map" where
  "scan_retries now timeout cap [] rs = ([], rs)"
| "scan_retries now timeout 0 (s # ss) rs = ([], rs)"
| "scan_retries now timeout (Suc cap) (s # ss) rs =
     (let slot_elapsed = (case hm_get rs s of Some t \<Rightarrow> now - t | None \<Rightarrow> timeout + from_millis 1) in
      if timeout \<le> slot_elapsed
      then (let (out, rs') = scan_retries now timeout cap ss (hm_insert s now rs) in (s # out, rs'))
      else scan_retries now timeout (Suc cap) ss rs)"

text \<open>The range \<open>a..=b\<close>.\<close>

definition slot_range :: "slot \<Rightarrow> slot \<Rightarrow> slot list" where
  "slot_range a b = map of_nat [unat a ..< Suc (unat b)]"

definition evaluate_retry :: "clock \<Rightarrow> learner_agent \<Rightarrow> retry_learn_result \<times> learner_agent" where
  "evaluate_retry c ag =
     (let now = clk_now c;
          global_elapsed = now - last_learn_time ag;
          global_timeout = from_millis (retry_interval_ms (la_config ag));
          highest = get_highest_learned (la_learner ag);
          adu = la_get_adu ag;
          gap = saturating_sub highest adu in
      if gap < learn_max_gap (la_config ag) \<and> global_elapsed < global_timeout then (NoGap, ag)
      else
        (let (to_retry, rs) = scan_retries now global_timeout (as_usize (message_batch_size (la_config ag)))
               (slot_range (adu + 1) highest) (retries ag);
             ag1 = ag\<lparr>retries := rs\<rparr> in
         if to_retry = [] then (Skip adu, ag1)
         else (Retry to_retry, ag1\<lparr>last_learn_time := now\<rparr>)))"

definition handle_evaluate_retry :: "clock \<Rightarrow> learner_agent \<Rightarrow> outbox \<times> learner_agent" where
  "handle_evaluate_retry c ag =
     (let (r, ag1) = evaluate_retry c ag in
      case r of
        Retry slots \<Rightarrow>
          (let msg = la_message ag1 (RetryLearnsMsg \<lparr>retry_slots = slots\<rparr>) in
           ([(if acceptors_send_learns (la_config ag1) then la_acceptors ag1 else la_proposers ag1, msg)], ag1))
      | _ \<Rightarrow> ([], ag1))"

definition la_maybe_flush_state :: "clock \<Rightarrow> learner_agent \<Rightarrow> learner_agent" where
  "la_maybe_flush_state c ag = ag\<lparr>la_learner := snd (learner_maybe_flush c (la_learner ag))\<rparr>"

definition la_handle_tick :: "learner_codec \<Rightarrow> clock \<Rightarrow> learner_agent \<Rightarrow> outbox \<times> learner_agent" where
  "la_handle_tick cd c ag =
     (let (out1, ag1) = handle_evaluate_retry c ag;
          elapsed = clk_now c - last_exec_time ag1 in
      if elapsed < from_millis (exec_interval_ms (la_config ag1)) then (out1, ag1)
      else
        (let ag2 = execute_chosen_learns cd c (ag1\<lparr>last_exec_time := clk_now c\<rparr>);
             (out2, ag3) =
               (if learners_send_executed (la_config ag2) then
                  (let (ex, ag') = collect_executed (Some (message_batch_size (la_config ag2))) False ag2 in
                   (if ex_results ex \<noteq> [] then snd (dispatch_executed ex ag') else [], ag'))
                else ([], ag2)) in
         (out1 @ out2, la_maybe_flush_state c ag3)))"

definition la_handle_message ::
  "learner_codec \<Rightarrow> clock \<Rightarrow> network_message \<Rightarrow> learner_agent \<Rightarrow>
   network_message \<times> outbox \<times> learner_agent" where
  "la_handle_message cd c m ag =
     (case payload m of
        LearnMsg p \<Rightarrow>
          (let ignore_msg = la_message ag Ignore;
               (was_new, ag1) = la_record_learn cd c (ln_slot p) (ln_value p) (sender m) ag in
           if was_new then
             (let ag2 = execute_chosen_learns cd c ag1 in
              if learners_send_executed (la_config ag2) then
                (let (ex, ag3) = collect_executed (Some (message_batch_size (la_config ag2))) True ag2;
                     (reply, out) = dispatch_executed ex ag3 in
                 (case reply of Some r \<Rightarrow> r | None \<Rightarrow> ignore_msg, out, ag3))
              else (ignore_msg, [], ag2))
           else (ignore_msg, [], ag1))
      | AduMsg _ \<Rightarrow>
          (let msg = la_message ag (AduMsg (la_get_adu ag)) in (msg, [([sender m], msg)], ag))
      | _ \<Rightarrow> (la_message ag Ignore, [], ag))"

definition la_send_heartbeat :: "learner_agent \<Rightarrow> outbox" where
  "la_send_heartbeat ag = [(la_all_nodes ag, la_message ag Heartbeat)]"

lemmas la_defs [step_defs] =
  la_handle_message_def la_handle_tick_def handle_evaluate_retry_def evaluate_retry_def
  collect_executed_def la_record_learn_def execute_chosen_learns_def la_maybe_flush_state_def

section \<open>The replica\<close>

text \<open>
  The replica has executed \<open>done\<close>: these are the learned entries of slots 1 to \<open>adu\<close>,
  and the store is what the commands make of an empty one. This is for a learner without
  storage, as a start from disk sets \<open>adu\<close> and does not replay the commands.
\<close>

definition cmds :: "learned_entry list \<Rightarrow> cmd list" where
  "cmds es = map (command \<circ> le_value) es"

definition replica :: "learner_agent \<Rightarrow> learned_entry list \<Rightarrow> bool" where
  "replica ag done \<longleftrightarrow> delivered (la_learner ag) done \<and> la_kv ag = snd (kv_run (cmds done) kv_new)"

lemma execute_entries:
  "la_kv (foldl (\<lambda>ag le. execute_entry le ag) ag es) = snd (kv_run (cmds es) (la_kv ag))"
  "la_learner (foldl (\<lambda>ag le. execute_entry le ag) ag es) = la_learner ag"
  "la_config (foldl (\<lambda>ag le. execute_entry le ag) ag es) = la_config ag"
  "la_node (foldl (\<lambda>ag le. execute_entry le ag) ag es) = la_node ag"
  by (induction es arbitrary: ag) (simp_all add: execute_entry_def cmds_def Let_def split_def)

lemma execute_entries_buffer:
  "exec_buffer (foldl (\<lambda>ag le. execute_entry le ag) ag es) = exec_buffer ag @
     map2 (\<lambda>e r. \<lparr>er_value = le_value e, er_slot = le_slot e, er_success = (r \<noteq> NoOp), er_cmd_result = r\<rparr>)
       es (fst (kv_run (cmds es) (la_kv ag)))"
  by (induction es arbitrary: ag) (simp_all add: execute_entry_def cmds_def Let_def split_def)

lemma execute_chosen_eq:
  "execute_chosen_learns cd c ag =
     foldl (\<lambda>ag le. execute_entry le ag) (ag\<lparr>la_learner := snd (to_be_executed cd c (la_learner ag))\<rparr>)
       (result_entries (fst (to_be_executed cd c (la_learner ag))))"
  by (simp add: execute_chosen_learns_def result_entries_def Let_def split_def split: learn_result.split)

definition in_range :: "learner \<Rightarrow> bool" where
  "in_range l \<longleftrightarrow> below_max (learned l) \<and> unat (lr_adu l) < 2 ^ 64 - 1"

lemma execute_chosen_replica:
  assumes "replica ag done" and "in_range (la_learner ag)"
  shows "replica (execute_chosen_learns cd c ag)
    (done @ result_entries (fst (to_be_executed cd c (la_learner ag))))"
proof -
  let ?r = "fst (to_be_executed cd c (la_learner ag))"
  let ?l = "snd (to_be_executed cd c (la_learner ag))"
  have "delivered ?l (done @ result_entries ?r)"
    using to_be_executed_delivers(1) [of "la_learner ag" "done" cd c ?r ?l] assms
    by (simp add: replica_def in_range_def)
  moreover have "snd (kv_run (cmds done @ cmds es) kv_new) =
      snd (kv_run (cmds es) (snd (kv_run (cmds done) kv_new)))" for es
    by (simp add: kv_run_append split_def)
  ultimately show ?thesis
    using assms(1)
    by (simp add: replica_def execute_chosen_eq execute_entries cmds_def)
qed

lemma entries_upto_cong:
  assumes "\<And>s. 1 \<le> s \<Longrightarrow> s \<le> n \<Longrightarrow> bt_get (learned l') s = bt_get (learned l) s"
  shows "entries_upto l' (unat n) = entries_upto l (unat n)"
  unfolding entries_upto_def
proof (rule map_cong [OF refl])
  fix i assume i: "i \<in> set [1 ..< Suc (unat n)]"
  then have "unat (of_nat i :: u64) = i"
    using unat_le_max [of n] by (auto simp: unsigned_of_nat take_bit_nat_eq_self)
  with i have "bt_get (learned l') (of_nat i) = bt_get (learned l) (of_nat i)"
    by (intro assms) (auto simp: word_le_nat_alt)
  then show "\<lparr>le_slot = of_nat i, le_value = the (bt_get (learned l') (of_nat i))\<rparr> =
      \<lparr>le_slot = of_nat i, le_value = the (bt_get (learned l) (of_nat i))\<rparr>" by simp
qed

text \<open>Learning more slots leaves what was handed out as it is.\<close>

lemma delivered_mono:
  assumes "delivered l done" and "learner_inv l'" and "bt_get (learned l) \<subseteq>\<^sub>m bt_get (learned l')"
    and "lr_adu l' = lr_adu l" and "sh_enabled (lr_storage l') = sh_enabled (lr_storage l)"
  shows "delivered l' done"
proof -
  have "bt_get (learned l') s = bt_get (learned l) s" if "1 \<le> s" "s \<le> lr_adu l" for s
    using assms(1,3) that by (auto simp: delivered_def map_le_def dom_def)
  with entries_upto_cong [of "lr_adu l" l' l] assms show ?thesis
    by (simp add: delivered_def)
qed

lemma delivered_learn:
  assumes "delivered l done"
  shows "delivered (snd (learner_learn cd c s v l)) done"
    "delivered (snd (learner_handle_learn cd c ln from l)) done"
proof -
  have l: "learner_inv l" "bt_ok (learned l)"
    using assms by (simp_all add: delivered_def learner_inv_def)
  show "delivered (snd (learner_learn cd c s v l)) done"
    using l by (intro delivered_mono [OF assms])
      (simp_all add: learner_learn_inv learner_learn_grows learner_learn_enabled)
  show "delivered (snd (learner_handle_learn cd c ln from l)) done"
    using l by (intro delivered_mono [OF assms])
      (simp_all add: learner_handle_learn_inv learner_handle_learn_grows learner_handle_learn_simps)
qed

lemma la_record_learn_simps:
  "la_learner (snd (la_record_learn cd c s v from ag)) =
     (if acceptors_send_learns (la_config ag)
      then snd (learner_handle_learn cd c \<lparr>ln_slot = s, ln_value = v\<rparr> from (la_learner ag))
      else snd (learner_learn cd c s v (la_learner ag)))"
  "la_kv (snd (la_record_learn cd c s v from ag)) = la_kv ag"
  "la_config (snd (la_record_learn cd c s v from ag)) = la_config ag"
  by (simp_all add: la_record_learn_def Let_def split_def)

lemma la_record_learn_replica:
  "replica ag done \<Longrightarrow> replica (snd (la_record_learn cd c s v from ag)) done"
  by (simp add: replica_def la_record_learn_simps delivered_learn)

lemma collect_executed_simps [simp]:
  "la_learner (snd (collect_executed b r ag)) = la_learner ag"
  "la_kv (snd (collect_executed b r ag)) = la_kv ag"
  by (simp_all add: collect_executed_def Let_def)

text \<open>A message executes what the record of its learn made executable, and nothing else.\<close>

definition message_executes ::
  "learner_codec \<Rightarrow> clock \<Rightarrow> network_message \<Rightarrow> learner_agent \<Rightarrow> learned_entry list" where
  "message_executes cd c m ag =
     (case payload m of
        LearnMsg p \<Rightarrow>
          (let (was_new, ag1) = la_record_learn cd c (ln_slot p) (ln_value p) (sender m) ag in
           if was_new then result_entries (fst (to_be_executed cd c (la_learner ag1))) else [])
      | _ \<Rightarrow> [])"

lemma la_handle_message_agent:
  "la_learner (snd (snd (la_handle_message cd c m ag))) =
     (case payload m of
        LearnMsg p \<Rightarrow>
          (let (was_new, ag1) = la_record_learn cd c (ln_slot p) (ln_value p) (sender m) ag in
           la_learner (if was_new then execute_chosen_learns cd c ag1 else ag1))
      | _ \<Rightarrow> la_learner ag)"
  "la_kv (snd (snd (la_handle_message cd c m ag))) =
     (case payload m of
        LearnMsg p \<Rightarrow>
          (let (was_new, ag1) = la_record_learn cd c (ln_slot p) (ln_value p) (sender m) ag in
           la_kv (if was_new then execute_chosen_learns cd c ag1 else ag1))
      | _ \<Rightarrow> la_kv ag)"
  by (simp_all add: la_handle_message_def Let_def split_def split: message_payload.split)

lemma la_handle_message_replica:
  assumes "replica ag done"
    and "\<And>p. payload m = LearnMsg p \<Longrightarrow>
      in_range (la_learner (snd (la_record_learn cd c (ln_slot p) (ln_value p) (sender m) ag)))"
  shows "replica (snd (snd (la_handle_message cd c m ag))) (done @ message_executes cd c m ag)"
proof (cases "payload m")
  case (LearnMsg p)
  let ?rl = "la_record_learn cd c (ln_slot p) (ln_value p) (sender m) ag"
  have rep: "replica (snd ?rl) done" using assms(1) by (rule la_record_learn_replica)
  show ?thesis
  proof (cases "fst ?rl")
    case True
    then have "replica (execute_chosen_learns cd c (snd ?rl)) (done @ message_executes cd c m ag)"
      using execute_chosen_replica [OF rep, of cd c] assms(2) LearnMsg
      by (simp add: message_executes_def split_def)
    with True LearnMsg show ?thesis
      by (simp add: replica_def la_handle_message_agent split_def)
  next
    case False
    with rep LearnMsg show ?thesis
      by (simp add: replica_def la_handle_message_agent message_executes_def split_def)
  qed
qed (use assms(1) in \<open>simp_all add: replica_def la_handle_message_agent message_executes_def\<close>)

lemma handle_evaluate_retry_simps [simp]:
  "la_learner (snd (handle_evaluate_retry c ag)) = la_learner ag"
  "la_kv (snd (handle_evaluate_retry c ag)) = la_kv ag"
  "la_config (snd (handle_evaluate_retry c ag)) = la_config ag"
  by (simp_all add: handle_evaluate_retry_def evaluate_retry_def Let_def split_def
      split: retry_learn_result.split)

lemma la_handle_tick_agent:
  "la_learner (snd (la_handle_tick cd c ag)) =
     (if clk_now c - last_exec_time (snd (handle_evaluate_retry c ag)) < from_millis (exec_interval_ms (la_config ag))
      then la_learner ag
      else snd (learner_maybe_flush c (snd (to_be_executed cd c (la_learner ag)))))"
  "la_kv (snd (la_handle_tick cd c ag)) =
     (if clk_now c - last_exec_time (snd (handle_evaluate_retry c ag)) < from_millis (exec_interval_ms (la_config ag))
      then la_kv ag
      else la_kv (execute_chosen_learns cd c ag))"
  by (simp_all add: la_handle_tick_def la_maybe_flush_state_def execute_chosen_eq execute_entries
      Let_def split_def)

lemma learner_maybe_flush_disabled:
  "\<not> sh_enabled (lr_storage l) \<Longrightarrow> snd (learner_maybe_flush c l) = l"
  by (simp add: learner_maybe_flush_def io_zoom_def sh_maybe_flush_changes_def)

lemma to_be_executed_disabled_simps:
  assumes "\<not> sh_enabled (lr_storage l)"
  shows "learned (snd (to_be_executed cd c l)) = learned l"
    "slot_learns (snd (to_be_executed cd c l)) = slot_learns l"
    "lr_num_acceptors (snd (to_be_executed cd c l)) = lr_num_acceptors l"
    "lr_storage (snd (to_be_executed cd c l)) = lr_storage l"
proof -
  obtain out e where "walk (Suc (length (learned l))) (learned l) (lr_adu l + 1) = (out, e)" by fastforce
  from to_be_executed_disabled [OF assms this]
  show "learned (snd (to_be_executed cd c l)) = learned l"
    "slot_learns (snd (to_be_executed cd c l)) = slot_learns l"
    "lr_num_acceptors (snd (to_be_executed cd c l)) = lr_num_acceptors l"
    "lr_storage (snd (to_be_executed cd c l)) = lr_storage l" by simp_all
qed

section \<open>Runs of a replica\<close>

datatype agent_event = Receive network_message | Tick

fun la_step :: "learner_codec \<Rightarrow> clock \<times> agent_event \<Rightarrow> learner_agent \<Rightarrow> learner_agent" where
  "la_step cd (c, Receive m) ag = snd (snd (la_handle_message cd c m ag))"
| "la_step cd (c, Tick) ag = snd (la_handle_tick cd c ag)"

definition la_run :: "learner_codec \<Rightarrow> (clock \<times> agent_event) list \<Rightarrow> learner_agent \<Rightarrow> learner_agent" where
  "la_run cd es ag = foldl (\<lambda>ag e. la_step cd e ag) ag es"

text \<open>No learn is for the very last slot number.\<close>

definition learns_in_range :: "agent_event \<Rightarrow> bool" where
  "learns_in_range e \<longleftrightarrow>
     (case e of Receive m \<Rightarrow> (case payload m of LearnMsg p \<Rightarrow> unat (ln_slot p) < 2 ^ 64 - 1 | _ \<Rightarrow> True)
      | Tick \<Rightarrow> True)"

lemma delivered_in_range: "delivered l done \<Longrightarrow> below_max (learned l) \<Longrightarrow> in_range l"
proof -
  assume d: "delivered l done" and b: "below_max (learned l)"
  have "unat (lr_adu l) < 2 ^ 64 - 1"
  proof (cases "lr_adu l = 0")
    case False
    then have "1 \<le> lr_adu l" by (simp add: word_le_nat_alt Suc_le_eq unat_gt_0)
    with d have "bt_get (learned l) (lr_adu l) \<noteq> None" by (simp add: delivered_def)
    with b show ?thesis by (simp add: below_max_def)
  qed simp
  with b show ?thesis by (simp add: in_range_def)
qed

lemma below_max_learn:
  assumes "bt_ok (learned l)" and "below_max (learned l)" and "unat s < 2 ^ 64 - 1"
  shows "below_max (learned (snd (learner_learn cd c s v l)))"
    "below_max (learned (snd (learner_handle_learn cd c \<lparr>ln_slot = s, ln_value = v\<rparr> from l)))"
proof -
  have *: "below_max (bt_insert s w (learned l))" for w
    using assms by (auto simp: below_max_def dict_simps)
  then show "below_max (learned (snd (learner_learn cd c s v l)))"
    using assms(2) by (simp add: learner_learn_learned)
  show "below_max (learned (snd (learner_handle_learn cd c \<lparr>ln_slot = s, ln_value = v\<rparr> from l)))"
    using assms(2) * by (simp add: learner_handle_learn_eq Let_def learner_learn_learned split: option.split)
qed

definition replica_ok :: "learner_agent \<Rightarrow> bool" where
  "replica_ok ag \<longleftrightarrow> (\<exists>done. replica ag done) \<and> below_max (learned (la_learner ag))"

lemma replica_disabled: "replica ag done \<Longrightarrow> \<not> sh_enabled (lr_storage (la_learner ag))"
  by (simp add: replica_def delivered_def)

lemma la_step_ok:
  assumes "replica_ok ag" and "learns_in_range (snd ce)"
  shows "replica_ok (la_step cd ce ag)"
proof -
  obtain es where rep: "replica ag es" and bm: "below_max (learned (la_learner ag))"
    using assms(1) by (auto simp: replica_ok_def)
  obtain c e where ce: "ce = (c, e)" by fastforce
  show ?thesis
  proof (cases e)
    case (Receive m)
    let ?rl = "\<lambda>p. la_learner (snd (la_record_learn cd c (ln_slot p) (ln_value p) (sender m) ag))"
    have ok: "bt_ok (learned (la_learner ag))"
      using rep by (simp add: replica_def delivered_def learner_inv_def)
    have bm': "below_max (learned (?rl p))" if "payload m = LearnMsg p" for p
      using below_max_learn [OF ok bm] assms(2) ce Receive that
      by (simp add: la_record_learn_simps learns_in_range_def)
    have rep': "replica (snd (la_record_learn cd c (ln_slot p) (ln_value p) (sender m) ag)) es" for p
      using rep by (rule la_record_learn_replica)
    have "in_range (?rl p)" if "payload m = LearnMsg p" for p
      using rep' [of p] bm' [OF that] by (auto simp: replica_def intro: delivered_in_range)
    with la_handle_message_replica [OF rep]
    have "replica (snd (snd (la_handle_message cd c m ag))) (es @ message_executes cd c m ag)" .
    moreover have "below_max (learned (la_learner (snd (snd (la_handle_message cd c m ag)))))"
    proof (cases "payload m")
      case (LearnMsg p)
      have "learned (la_learner (execute_chosen_learns cd c ag')) = learned (la_learner ag')"
        if "replica ag' es" for ag'
        using replica_disabled [OF that]
        by (simp add: execute_chosen_eq execute_entries to_be_executed_disabled_simps)
      with rep' [of p] bm' [OF LearnMsg] LearnMsg show ?thesis
        by (simp add: la_handle_message_agent split_def Let_def)
    qed (use bm in \<open>simp_all add: la_handle_message_agent\<close>)
    ultimately show ?thesis using ce Receive by (auto simp: replica_ok_def)
  next
    case Tick
    have dis: "\<not> sh_enabled (lr_storage (la_learner ag))" using rep by (rule replica_disabled)
    have rng: "in_range (la_learner ag)" using rep bm by (auto simp: replica_def intro: delivered_in_range)
    have exec: "replica (execute_chosen_learns cd c ag)
        (es @ result_entries (fst (to_be_executed cd c (la_learner ag))))"
      by (rule execute_chosen_replica [OF rep rng])
    show ?thesis
    proof (cases "clk_now c - last_exec_time (snd (handle_evaluate_retry c ag)) <
        from_millis (exec_interval_ms (la_config ag))")
      case True
      with rep bm ce Tick show ?thesis
        by (auto simp: replica_ok_def replica_def la_handle_tick_agent)
    next
      case False
      with exec bm ce Tick dis show ?thesis
        by (auto simp: replica_ok_def replica_def la_handle_tick_agent learner_maybe_flush_disabled
            to_be_executed_disabled_simps execute_chosen_eq execute_entries)
    qed
  qed
qed

lemma la_run_ok:
  "replica_ok ag \<Longrightarrow> \<forall>e \<in> set es. learns_in_range (snd e) \<Longrightarrow> replica_ok (la_run cd es ag)"
proof (induction es arbitrary: ag)
  case (Cons e es)
  then show ?case using la_step_ok [of ag e cd] by (simp add: la_run_def)
qed (simp add: la_run_def)

lemma learner_agent_new_ok:
  assumes "learner_agent_new hash cd c n nodes cfg disk = Some ag" and "\<not> persistent_storage cfg"
  shows "replica ag []" "replica_ok ag"
proof -
  have "learned (la_learner ag) = []" "lr_adu (la_learner ag) = 0" "slot_learns (la_learner ag) = []"
    "\<not> sh_enabled (lr_storage (la_learner ag))" "la_kv ag = kv_new"
    using assms
    by (auto simp: learner_agent_new_def Let_def learner_new_def sh_new_def learner_load_state_def
        load_and_replay_state_def split: if_splits)
  then show "replica ag []" "replica_ok ag"
    by (auto simp: replica_ok_def replica_def delivered_def learner_inv_def votes_ok_def cmds_def
        entries_upto_def below_max_def word_le_nat_alt intro!: exI [of _ "[]"])
qed

end
