(* ===== verification/Consensus.thy ===== *)
theory Consensus
  imports Acceptor_Agent Acceptor_Recovery Learner_Agent
begin

text \<open>
  The agents together. A system has an acceptor agent for each id of a finite set, any number
  of learner agents, and a network that never forgets a learn that was sent: a message may be
  delivered late, twice, out of order or never. What the proposers send is arbitrary. The
  configuration is the one in which acceptors send the learns, without storage.

  \<open>system_step\<close> leaves out the answers to \<open>RetryLearns\<close>; \<open>system_step_retry\<close> has
  them too.
\<close>

section \<open>The system\<close>

record system =
  sys_acceptor :: "u64 \<Rightarrow> acceptor_agent"
  sys_learner :: "nat \<Rightarrow> learner_agent"
  sys_net :: "network_message set"

definition is_retry :: "network_message \<Rightarrow> bool" where
  "is_retry m \<longleftrightarrow> (case payload m of RetryLearnsMsg _ \<Rightarrow> True | _ \<Rightarrow> False)"

definition is_learn :: "network_message \<Rightarrow> bool" where
  "is_learn m \<longleftrightarrow> (case payload m of LearnMsg _ \<Rightarrow> True | _ \<Rightarrow> False)"

definition acceptor_receives ::
  "acceptor_codec \<Rightarrow> clock \<Rightarrow> u64 \<Rightarrow> network_message \<Rightarrow> system \<Rightarrow> system" where
  "acceptor_receives cd c i m sys =
     (let (reply, out, ag) = aa_handle_message cd c m (sys_acceptor sys i) in
      sys\<lparr>sys_acceptor := (sys_acceptor sys)(i := ag), sys_net := sys_net sys \<union> snd ` set out\<rparr>)"

definition learner_receives ::
  "learner_codec \<Rightarrow> clock \<Rightarrow> nat \<Rightarrow> network_message \<Rightarrow> system \<Rightarrow> system" where
  "learner_receives cd c j m sys =
     sys\<lparr>sys_learner := (sys_learner sys)(j := la_step cd (c, Receive m) (sys_learner sys j))\<rparr>"

inductive system_step :: "acceptor_codec \<Rightarrow> learner_codec \<Rightarrow> u64 set \<Rightarrow> system \<Rightarrow> system \<Rightarrow> bool"
  for acd lcd A
  where
    step_acceptor:
      "i \<in> A \<Longrightarrow> \<not> is_retry m \<Longrightarrow> system_step acd lcd A sys (acceptor_receives acd c i m sys)"
  | step_acceptor_tick:
      "i \<in> A \<Longrightarrow> system_step acd lcd A sys
         (sys\<lparr>sys_acceptor := (sys_acceptor sys)(i := aa_handle_tick c (sys_acceptor sys i))\<rparr>)"
  | step_learner:
      "is_learn m \<longrightarrow> m \<in> sys_net sys \<Longrightarrow> system_step acd lcd A sys (learner_receives lcd c j m sys)"
  | step_learner_tick:
      "system_step acd lcd A sys
         (sys\<lparr>sys_learner := (sys_learner sys)(j := la_step lcd (c, Tick) (sys_learner sys j))\<rparr>)"

text \<open>The system as it is: retries are answered as well.\<close>

inductive system_step_retry :: "acceptor_codec \<Rightarrow> learner_codec \<Rightarrow> u64 set \<Rightarrow> system \<Rightarrow> system \<Rightarrow> bool"
  for acd lcd A
  where
    step_plain: "system_step acd lcd A sys sys' \<Longrightarrow> system_step_retry acd lcd A sys sys'"
  | step_retry:
      "i \<in> A \<Longrightarrow> is_retry m \<Longrightarrow> system_step_retry acd lcd A sys (acceptor_receives acd c i m sys)"

text \<open>The start: fresh agents, the acceptors of \<open>A\<close>, in a configuration without storage.\<close>

definition initial_acceptor :: "u64 \<Rightarrow> acceptor_agent \<Rightarrow> bool" where
  "initial_acceptor i ag \<longleftrightarrow>
     node_id (aa_node ag) = i \<and> promises (aa_acceptor ag) = [] \<and> accepted_map (aa_acceptor ag) = [] \<and>
     \<not> sh_enabled (acc_storage (aa_acceptor ag))"

definition initial_learner :: "u64 set \<Rightarrow> learner_agent \<Rightarrow> bool" where
  "initial_learner A ag \<longleftrightarrow>
     acceptors_send_learns (la_config ag) \<and> replica ag [] \<and>
     learned (la_learner ag) = [] \<and> slot_learns (la_learner ag) = [] \<and>
     unat (lr_num_acceptors (la_learner ag)) = card A"

definition initial_system :: "u64 set \<Rightarrow> system \<Rightarrow> bool" where
  "initial_system A sys \<longleftrightarrow>
     finite A \<and> card A < 2 ^ 32 \<and> (\<forall>i \<in> A. initial_acceptor i (sys_acceptor sys i)) \<and>
     (\<forall>j. initial_learner A (sys_learner sys j)) \<and> sys_net sys = {}"

inductive reachable ::
  "(system \<Rightarrow> system \<Rightarrow> bool) \<Rightarrow> u64 set \<Rightarrow> system \<Rightarrow> bool" for step A
  where
    reachable_init: "initial_system A sys \<Longrightarrow> reachable step A sys"
  | reachable_step: "reachable step A sys \<Longrightarrow> step sys sys' \<Longrightarrow> reachable step A sys'"

lemma initial_acceptor_new:
  "acceptor_agent_new hash cd c n nodes cfg disk = Some ag \<Longrightarrow> \<not> persistent_storage cfg \<Longrightarrow>
   initial_acceptor (node_id n) ag"
  by (auto simp: acceptor_agent_new_def acceptor_new_def acceptor_helper_new_def sh_new_def
      initial_acceptor_def acceptor_load_state_def load_and_combine_state_def
      storage_helper.extend_def acceptor_helper.fields_def split: if_splits)

section \<open>The invariant\<close>

text \<open>Acceptor \<open>i\<close> has accepted value \<open>v\<close> in slot \<open>s\<close>.\<close>

definition has_accepted :: "system \<Rightarrow> u64 \<Rightarrow> slot \<Rightarrow> paxos_value \<Rightarrow> bool" where
  "has_accepted sys i s v \<longleftrightarrow>
     (\<exists>pv. bt_get (accepted_map (aa_acceptor (sys_acceptor sys i))) s = Some pv \<and> pv_value pv = Some v)"

definition acceptances :: "u64 set \<Rightarrow> system \<Rightarrow> slot \<Rightarrow> paxos_value \<Rightarrow> u64 set" where
  "acceptances A sys s v = {i \<in> A. has_accepted sys i s v}"

definition net_inv :: "u64 set \<Rightarrow> system \<Rightarrow> bool" where
  "net_inv A sys \<longleftrightarrow> (\<forall>m \<in> sys_net sys. \<forall>ln. payload m = LearnMsg ln \<longrightarrow>
     node_id (sender m) \<in> acceptances A sys (ln_slot ln) (ln_value ln))"

definition acceptor_side :: "u64 set \<Rightarrow> system \<Rightarrow> bool" where
  "acceptor_side A sys \<longleftrightarrow> (\<forall>i \<in> A. acceptor_inv (aa_acceptor (sys_acceptor sys i)) \<and>
     \<not> sh_enabled (acc_storage (aa_acceptor (sys_acceptor sys i))) \<and>
     node_id (aa_node (sys_acceptor sys i)) = i)"

definition learner_ok :: "u64 set \<Rightarrow> system \<Rightarrow> learner_agent \<Rightarrow> bool" where
  "learner_ok A sys ag \<longleftrightarrow>
     acceptors_send_learns (la_config ag) \<and> learner_inv (la_learner ag) \<and>
     \<not> sh_enabled (lr_storage (la_learner ag)) \<and>
     unat (lr_num_acceptors (la_learner ag)) = card A \<and>
     (\<forall>s v. voters (la_learner ag) s v \<subseteq> acceptances A sys s v) \<and>
     (\<forall>s v. bt_get (learned (la_learner ag)) s = Some v \<longrightarrow>
        learner_quorum (lr_num_acceptors (la_learner ag)) \<le> card (acceptances A sys s v))"

definition system_inv :: "u64 set \<Rightarrow> system \<Rightarrow> bool" where
  "system_inv A sys \<longleftrightarrow> finite A \<and> card A < 2 ^ 32 \<and> acceptor_side A sys \<and> net_inv A sys \<and>
     (\<forall>j. learner_ok A sys (sys_learner sys j))"

lemma acceptances_subset: "acceptances A sys s v \<subseteq> A"
  by (auto simp: acceptances_def)

lemma acceptances_disjoint: "v \<noteq> w \<Longrightarrow> acceptances A sys s v \<inter> acceptances A sys s w = {}"
  by (auto simp: acceptances_def has_accepted_def)

text \<open>Acceptances are never taken back, so what they support stays supported.\<close>

definition grows :: "u64 set \<Rightarrow> system \<Rightarrow> system \<Rightarrow> bool" where
  "grows A sys sys' \<longleftrightarrow> (\<forall>s v. acceptances A sys s v \<subseteq> acceptances A sys' s v)"

lemma learner_ok_grows: "learner_ok A sys ag \<Longrightarrow> finite A \<Longrightarrow> grows A sys sys' \<Longrightarrow> learner_ok A sys' ag"
  unfolding learner_ok_def grows_def
  by (meson acceptances_subset card_mono finite_subset order_trans)

lemma net_inv_grows:
  "net_inv A sys \<Longrightarrow> grows A sys sys' \<Longrightarrow> sys_net sys' = sys_net sys \<Longrightarrow> net_inv A sys'"
  unfolding net_inv_def grows_def by blast

lemma grows_refl: "grows A sys sys"
  by (simp add: grows_def)

section \<open>Steps of the acceptors\<close>

definition request_of :: "network_message \<Rightarrow> acceptor_request option" where
  "request_of m =
     (case payload m of
        PrepareMsg p \<Rightarrow> Some (PrepareReq (prep_slot p) (prep_ballot p))
      | AcceptMsg p \<Rightarrow> Some (AcceptReq (acc_slot p) (acc_ballot p) (acc_value p))
      | _ \<Rightarrow> None)"

lemma aa_handle_message_handle:
  "aa_acceptor (snd (snd (aa_handle_message cd c m ag))) =
     (case request_of m of
        Some r \<Rightarrow> snd (acceptor_handle cd (c, r) (aa_acceptor ag)) | None \<Rightarrow> aa_acceptor ag)"
  by (simp add: aa_handle_message_acceptor request_of_def split: message_payload.split)

lemma acceptor_handle_grows:
  assumes "acceptor_inv a" and "\<not> sh_enabled (acc_storage a)"
  shows "bt_get (accepted_map a) \<subseteq>\<^sub>m bt_get (accepted_map (snd (acceptor_handle cd r a)))"
  using acceptor_run_grows [OF assms, of cd "[r]"] by simp

lemma acceptor_receives_simps:
  "sys_acceptor (acceptor_receives cd c i m sys) =
     (sys_acceptor sys)(i := snd (snd (aa_handle_message cd c m (sys_acceptor sys i))))"
  "sys_learner (acceptor_receives cd c i m sys) = sys_learner sys"
  "sys_net (acceptor_receives cd c i m sys) =
     sys_net sys \<union> snd ` set (fst (snd (aa_handle_message cd c m (sys_acceptor sys i))))"
  by (simp_all add: acceptor_receives_def split_def Let_def)

lemma acceptor_receives_side:
  "acceptor_side A sys \<Longrightarrow> i \<in> A \<Longrightarrow> acceptor_side A (acceptor_receives cd c i m sys)"
  by (auto simp: acceptor_side_def acceptor_receives_simps aa_handle_message_handle
      acceptor_handle_inv acceptor_handle_settings split: option.split)

lemma acceptor_receives_grows:
  assumes "acceptor_side A sys" and "i \<in> A"
  shows "grows A sys (acceptor_receives cd c i m sys)"
proof -
  let ?a = "aa_acceptor (sys_acceptor sys i)"
  have "bt_get (accepted_map ?a) \<subseteq>\<^sub>m
      bt_get (accepted_map (aa_acceptor (snd (snd (aa_handle_message cd c m (sys_acceptor sys i))))))"
    using assms
    by (auto simp: acceptor_side_def aa_handle_message_handle acceptor_handle_grows split: option.split)
  then show ?thesis
    by (auto simp: grows_def acceptances_def has_accepted_def acceptor_receives_simps map_le_def dom_def)
qed

text \<open>Every learn an acceptor sends for an accept is for the value it holds afterwards.\<close>

lemma acceptor_receives_net:
  assumes "acceptor_side A sys" and "net_inv A sys" and "i \<in> A" and "\<not> is_retry m"
  shows "net_inv A (acceptor_receives cd c i m sys)"
  unfolding net_inv_def
proof (intro ballI allI impI)
  let ?sys = "acceptor_receives cd c i m sys"
  let ?ag = "sys_acceptor sys i"
  fix x ln assume x: "x \<in> sys_net ?sys" "payload x = LearnMsg ln"
  show "node_id (sender x) \<in> acceptances A ?sys (ln_slot ln) (ln_value ln)"
  proof (cases "x \<in> sys_net sys")
    case True
    with x assms(2) acceptor_receives_grows [OF assms(1,3)] show ?thesis
      unfolding net_inv_def grows_def by blast
  next
    case False
    then obtain ns where out: "(ns, x) \<in> set (fst (snd (aa_handle_message cd c m ?ag)))"
      using x(1) by (auto simp: acceptor_receives_simps)
    have sender: "node_id (sender x) = i"
      using aa_handle_message_senders [OF out] assms(1,3) by (simp add: acceptor_side_def)
    have "ln \<in> set (learns_of (fst (snd (aa_handle_message cd c m ?ag))))"
      using out x(2) by (force simp: learns_of_def set_map_filter_iff)
    from aa_handle_message_learns [OF this] assms(4) obtain p ad where
      p: "payload m = AcceptMsg p" "ln = \<lparr>ln_slot = ad_slot ad, ln_value = acc_value p\<rparr>"
      and ok: "fst (acceptor_accept cd c (acc_slot p) (acc_ballot p) (acc_value p) (aa_acceptor ?ag)) = AcceptedOk ad"
      by (auto simp: is_retry_def)
    have "ad_slot ad = acc_slot p"
      using ok by (auto simp: acceptor_accept_reply accepted_reply_ok split: if_splits option.splits)
    moreover obtain b where "bt_get (accepted_map (snd (acceptor_accept cd c (acc_slot p) (acc_ballot p)
        (acc_value p) (aa_acceptor ?ag)))) (acc_slot p) = Some (new_pv (acc_slot p) b (acc_value p))"
      using acceptor_accept_stores [OF _ _ ok] assms(1,3) by (auto simp: acceptor_side_def)
    ultimately show ?thesis
      using sender assms(3) p
      by (simp add: acceptances_def has_accepted_def acceptor_receives_simps aa_handle_message_acceptor)
  qed
qed

section \<open>Steps of the learners\<close>

lemma learner_ok_record:
  assumes "learner_ok A sys ag" and "finite A"
    and "node_id from \<in> acceptances A sys (ln_slot ln) (ln_value ln)"
  shows "learner_ok A sys (ag\<lparr>la_learner := snd (learner_handle_learn cd c ln from (la_learner ag))\<rparr>)"
proof -
  let ?l = "la_learner ag"
  let ?l' = "snd (learner_handle_learn cd c ln from ?l)"
  have inv: "learner_inv ?l" "learner_inv ?l'"
    using assms(1) by (simp_all add: learner_ok_def learner_handle_learn_inv)
  have votes: "voters ?l' s v \<subseteq> acceptances A sys s v" for s v
  proof -
    have "voters ?l' s v = voters (record_learn ln (node_id from) ?l) s v"
      by (simp add: voters_def learner_handle_learn_simps)
    also have "\<dots> = (if s \<noteq> ln_slot ln then voters ?l s v
        else if ln_value ln = v then insert (node_id from) (voters ?l s v)
        else voters ?l s v - {node_id from})"
      using inv(1) by (intro record_learn_voters) (simp add: learner_inv_def)
    finally have eq: "voters ?l' s v = \<dots>" .
    have "voters ?l s v \<subseteq> acceptances A sys s v" using assms(1) by (simp add: learner_ok_def)
    with assms(3) show ?thesis unfolding eq by (auto split: if_splits)
  qed
  have "learner_quorum (lr_num_acceptors ?l) \<le> card (acceptances A sys s v)"
    if "bt_get (learned ?l') s = Some v" for s v
  proof (cases "bt_get (learned ?l) s")
    case None
    with learner_handle_learn_new [OF inv(1) that]
    have "learner_quorum (lr_num_acceptors ?l) \<le> card (voters ?l' s v)" by blast
    also have "\<dots> \<le> card (acceptances A sys s v)"
      using votes assms(2) by (intro card_mono) (auto intro: finite_subset [OF acceptances_subset])
    finally show ?thesis .
  next
    case (Some w)
    with learner_handle_learn_grows [of ?l cd c ln "from"] inv(1) that have "w = v"
      by (auto simp: learner_inv_def map_le_def dom_def)
    with Some assms(1) show ?thesis by (simp add: learner_ok_def)
  qed
  with assms(1) inv(2) votes show ?thesis
    by (simp add: learner_ok_def learner_handle_learn_simps)
qed

lemma learner_ok_cong:
  "learned (la_learner ag') = learned (la_learner ag) \<Longrightarrow>
   slot_learns (la_learner ag') = slot_learns (la_learner ag) \<Longrightarrow>
   lr_num_acceptors (la_learner ag') = lr_num_acceptors (la_learner ag) \<Longrightarrow>
   sh_enabled (lr_storage (la_learner ag')) = sh_enabled (lr_storage (la_learner ag)) \<Longrightarrow>
   la_config ag' = la_config ag \<Longrightarrow> learner_ok A sys ag' = learner_ok A sys ag"
  by (simp add: learner_ok_def learner_inv_def votes_ok_def voters_def)

lemma la_config_simps [simp]:
  "la_config (execute_chosen_learns cd c ag) = la_config ag"
  "la_config (snd (collect_executed b r ag)) = la_config ag"
  by (simp_all add: execute_chosen_eq execute_entries collect_executed_def Let_def)

lemma la_step_config [simp]: "la_config (la_step cd ce ag) = la_config ag"
  by (cases "(cd, ce, ag)" rule: la_step.cases)
    (auto simp: la_handle_message_def la_handle_tick_def la_maybe_flush_state_def la_record_learn_simps
      Let_def split_def split: message_payload.split)

lemma learner_ok_execute:
  "learner_ok A sys ag \<Longrightarrow> learner_ok A sys (execute_chosen_learns cd c ag)"
  using learner_ok_cong [of "execute_chosen_learns cd c ag" ag A sys]
  by (simp add: execute_chosen_eq execute_entries to_be_executed_disabled_simps learner_ok_def)

lemma learner_ok_message:
  assumes "learner_ok A sys ag" and "finite A"
    and "\<And>ln. payload m = LearnMsg ln \<Longrightarrow>
      node_id (sender m) \<in> acceptances A sys (ln_slot ln) (ln_value ln)"
  shows "learner_ok A sys (la_step cd (c, Receive m) ag)"
proof (cases "payload m")
  case (LearnMsg p)
  let ?rl = "la_record_learn cd c (ln_slot p) (ln_value p) (sender m) ag"
  have "learner_ok A sys (ag\<lparr>la_learner := snd (learner_handle_learn cd c p (sender m) (la_learner ag))\<rparr>)"
    by (rule learner_ok_record [OF assms(1,2) assms(3) [OF LearnMsg]])
  then have rl: "learner_ok A sys (snd ?rl)"
    using assms(1) learner_ok_cong [of "snd ?rl"
        "ag\<lparr>la_learner := snd (learner_handle_learn cd c p (sender m) (la_learner ag))\<rparr>" A sys]
    by (cases p) (simp add: la_record_learn_simps learner_ok_def)
  let ?ag' = "if fst ?rl then execute_chosen_learns cd c (snd ?rl) else snd ?rl"
  have "la_learner (la_step cd (c, Receive m) ag) = la_learner ?ag'"
    using LearnMsg by (simp add: la_handle_message_agent split_def Let_def)
  moreover have "la_config ?ag' = la_config ag" by (simp add: la_record_learn_simps)
  moreover have "learner_ok A sys ?ag'" using rl by (simp add: learner_ok_execute)
  ultimately show ?thesis
    using learner_ok_cong [of "la_step cd (c, Receive m) ag" ?ag' A sys]
    by (simp del: la_step.simps)
qed (use assms(1) learner_ok_cong [of "la_step cd (c, Receive m) ag" ag A sys] in
      \<open>simp_all add: la_handle_message_def Let_def\<close>)

lemma learner_ok_tick:
  assumes "learner_ok A sys ag"
  shows "learner_ok A sys (la_step cd (c, Tick) ag)"
proof (rule learner_ok_cong [THEN iffD2, OF _ _ _ _ _ assms])
  have dis: "\<not> sh_enabled (lr_storage (la_learner ag))" using assms by (simp add: learner_ok_def)
  note * = la_handle_tick_agent learner_maybe_flush_disabled to_be_executed_disabled_simps [OF dis] dis
  show "learned (la_learner (la_step cd (c, Tick) ag)) = learned (la_learner ag)"
    "slot_learns (la_learner (la_step cd (c, Tick) ag)) = slot_learns (la_learner ag)"
    "lr_num_acceptors (la_learner (la_step cd (c, Tick) ag)) = lr_num_acceptors (la_learner ag)"
    "sh_enabled (lr_storage (la_learner (la_step cd (c, Tick) ag))) = sh_enabled (lr_storage (la_learner ag))"
    by (simp_all add: *)
  show "la_config (la_step cd (c, Tick) ag) = la_config ag" by (rule la_step_config)
qed

section \<open>Agreement\<close>

lemma initial_system_inv: "initial_system A sys \<Longrightarrow> system_inv A sys"
  by (auto simp: initial_system_def system_inv_def acceptor_side_def initial_acceptor_def
      acceptor_inv_def net_inv_def learner_ok_def initial_learner_def replica_def delivered_def voters_def)

lemma system_step_inv:
  assumes "system_step acd lcd A sys sys'" and "system_inv A sys"
  shows "system_inv A sys'"
  using assms
proof (cases rule: system_step.cases)
  case (step_acceptor i m c)
  with assms(2) have "grows A sys sys'" by (simp add: system_inv_def acceptor_receives_grows)
  with assms(2) step_acceptor show ?thesis
    by (auto simp: system_inv_def acceptor_receives_side acceptor_receives_net
        acceptor_receives_simps(2) intro: learner_ok_grows)
next
  case (step_acceptor_tick i c)
  have "\<not> sh_enabled (acc_storage (aa_acceptor (sys_acceptor sys i)))"
    using assms(2) step_acceptor_tick by (simp add: system_inv_def acceptor_side_def)
  then have same: "aa_handle_tick c (sys_acceptor sys i) = sys_acceptor sys i"
    by (simp add: aa_handle_tick_def acceptor_maybe_flush_def io_zoom_def io_bind_eq
        maybe_flush_current_state_def sh_maybe_flush_changes_def)
  with step_acceptor_tick assms(2) show ?thesis by simp
next
  case (step_learner m c j)
  have "learner_ok A sys (la_step lcd (c, Receive m) (sys_learner sys j))"
    using assms(2) step_learner
    by (intro learner_ok_message) (auto simp: system_inv_def net_inv_def is_learn_def)
  moreover have "grows A sys sys'" using step_learner
    by (simp add: grows_def acceptances_def has_accepted_def learner_receives_def)
  ultimately show ?thesis
    using assms(2) step_learner
    by (auto simp: system_inv_def acceptor_side_def learner_receives_def simp del: la_step.simps
        intro: learner_ok_grows net_inv_grows)
next
  case (step_learner_tick j c)
  have "learner_ok A sys (la_step lcd (c, Tick) (sys_learner sys j))"
    using assms(2) by (intro learner_ok_tick) (simp add: system_inv_def)
  moreover have "grows A sys sys'" using step_learner_tick
    by (simp add: grows_def acceptances_def has_accepted_def)
  ultimately show ?thesis
    using assms(2) step_learner_tick
    by (auto simp: system_inv_def acceptor_side_def simp del: la_step.simps
        intro: learner_ok_grows net_inv_grows)
qed

lemma reachable_inv: "reachable (system_step acd lcd A) A sys \<Longrightarrow> system_inv A sys"
  by (induction rule: reachable.induct) (auto intro: initial_system_inv system_step_inv)

lemma system_inv_agreement:
  assumes "system_inv A sys"
    and "bt_get (learned (la_learner (sys_learner sys j))) s = Some v"
    and "bt_get (learned (la_learner (sys_learner sys k))) s = Some w"
  shows "v = w"
proof (rule ccontr)
  assume "v \<noteq> w"
  let ?n = "lr_num_acceptors (la_learner (sys_learner sys j))"
  have n: "unat ?n = card A" "lr_num_acceptors (la_learner (sys_learner sys k)) = ?n" "unat ?n < 2 ^ 32" "finite A"
    using assms(1) by (simp_all add: system_inv_def learner_ok_def word_unat_eq_iff)
  have "learner_quorum ?n \<le> card (acceptances A sys s v)" "learner_quorum ?n \<le> card (acceptances A sys s w)"
    using assms n(2) unfolding system_inv_def learner_ok_def by metis+
  then have "acceptances A sys s v \<inter> acceptances A sys s w \<noteq> {}"
    using n(1) by (intro learner_majority.quorums_intersect [OF n(3,4) _ acceptances_subset acceptances_subset]) simp_all
  with acceptances_disjoint [OF \<open>v \<noteq> w\<close>] show False by simp
qed

section \<open>Replicas\<close>

lemma system_step_net: "system_step acd lcd A sys sys' \<Longrightarrow> sys_net sys \<subseteq> sys_net sys'"
  by (cases rule: system_step.cases) (auto simp: acceptor_receives_simps learner_receives_def)

lemma system_step_replicas:
  assumes "system_step acd lcd A sys sys'" and "\<forall>j. replica_ok (sys_learner sys j)"
    and "\<forall>m \<in> sys_net sys. learns_in_range (Receive m)"
  shows "replica_ok (sys_learner sys' j)"
  using assms(1)
proof (cases rule: system_step.cases)
  case (step_learner m c k)
  have "learns_in_range (Receive m)"
  proof (cases "is_learn m")
    case True
    with step_learner assms(3) show ?thesis by simp
  next
    case False
    then show ?thesis by (simp add: is_learn_def learns_in_range_def split: message_payload.splits)
  qed
  then have "replica_ok (la_step lcd (c, Receive m) (sys_learner sys k))"
    using assms(2) by (intro la_step_ok) simp_all
  with step_learner assms(2) show ?thesis by (simp add: learner_receives_def del: la_step.simps)
next
  case (step_learner_tick k c)
  have "replica_ok (la_step lcd (c, Tick) (sys_learner sys k))"
    using assms(2) by (intro la_step_ok) (simp_all add: learns_in_range_def)
  with step_learner_tick assms(2) show ?thesis by (simp del: la_step.simps)
qed (use assms(2) in \<open>simp_all add: acceptor_receives_simps\<close>)

lemma reachable_replicas:
  "reachable (system_step acd lcd A) A sys \<Longrightarrow> \<forall>m \<in> sys_net sys. learns_in_range (Receive m) \<Longrightarrow>
   \<forall>j. replica_ok (sys_learner sys j)"
proof (induction rule: reachable.induct)
  case (reachable_init sys)
  then show ?case
    by (fastforce simp: initial_system_def initial_learner_def replica_ok_def below_max_def)
next
  case (reachable_step sys sys')
  from system_step_net [OF reachable_step.hyps(2)] reachable_step.prems
  have range: "\<forall>m \<in> sys_net sys. learns_in_range (Receive m)" by blast
  from system_step_replicas [OF reachable_step.hyps(2) reachable_step.IH [OF range] range]
  show ?case by blast
qed

lemma entries_upto_add:
  "entries_upto l (m + k) = entries_upto l m @
     map (\<lambda>i. \<lparr>le_slot = of_nat i, le_value = the (bt_get (learned l) (of_nat i))\<rparr>) [Suc m ..< Suc (m + k)]"
  using upt_add_eq_append [of 1 "Suc m" k] by (simp add: entries_upto_def del: upt_Suc flip: map_append)

text \<open>The replica that is behind has executed a prefix of what the other one has.\<close>

lemma replicas_prefix:
  assumes "system_inv A sys"
    and "replica (sys_learner sys j) dj" and "replica (sys_learner sys k) dk"
    and "lr_adu (la_learner (sys_learner sys j)) \<le> lr_adu (la_learner (sys_learner sys k))"
  shows "\<exists>es. dk = dj @ es"
proof -
  let ?lj = "la_learner (sys_learner sys j)" and ?lk = "la_learner (sys_learner sys k)"
  have logs: "dj = entries_upto ?lj (unat (lr_adu ?lj))" "dk = entries_upto ?lk (unat (lr_adu ?lk))"
    using assms(2,3) by (simp_all add: replica_def delivered_def)
  have "bt_get (learned ?lk) s = bt_get (learned ?lj) s" if s: "1 \<le> s" "s \<le> lr_adu ?lj" for s
  proof -
    have "s \<le> lr_adu ?lk" using s(2) assms(4) by (rule order_trans)
    then have "bt_get (learned ?lj) s \<noteq> None" "bt_get (learned ?lk) s \<noteq> None"
      using s assms(2,3) by (simp_all add: replica_def delivered_def)
    then obtain v w where "bt_get (learned ?lj) s = Some v" "bt_get (learned ?lk) s = Some w"
      by blast
    with system_inv_agreement [OF assms(1)] show ?thesis by metis
  qed
  then have "entries_upto ?lk (unat (lr_adu ?lj)) = dj"
    using entries_upto_cong [of "lr_adu ?lj" ?lk ?lj] logs(1) by simp
  moreover obtain n where "unat (lr_adu ?lk) = unat (lr_adu ?lj) + n"
    using assms(4) by (metis word_le_nat_alt le_Suc_ex)
  ultimately show ?thesis using logs(2) entries_upto_add [of ?lk "unat (lr_adu ?lj)" n] by simp
qed

lemma replicas_equal:
  assumes "system_inv A sys"
    and "replica_ok (sys_learner sys j)" and "replica_ok (sys_learner sys k)"
    and "lr_adu (la_learner (sys_learner sys j)) = lr_adu (la_learner (sys_learner sys k))"
  shows "la_kv (sys_learner sys j) = la_kv (sys_learner sys k)"
proof -
  obtain dj dk where d: "replica (sys_learner sys j) dj" "replica (sys_learner sys k) dk"
    using assms(2,3) by (auto simp: replica_ok_def)
  then have "\<exists>es. dk = dj @ es" "\<exists>es. dj = dk @ es"
    using replicas_prefix [OF assms(1)] assms(4) by (metis order_refl)+
  then have "dj = dk" by auto
  with d show ?thesis by (simp add: replica_def)
qed

end
