(* ===== verification/Proposer.thy ===== *)
theory Proposer
  imports Persistence
begin

text \<open>
  The core proposer (\<open>paxos-wasm/core/proposer/src/proposer.rs\<close>): the queues of values, the
  proposals by slot with their status, the ballot, and the file with the ballot and the
  \<open>adu\<close>. The operations that \<open>expect\<close> the file to be written panic when it is not: they
  are partial (\<open>None\<close>).
\<close>

section \<open>State\<close>

record proposer_helper =
  ph_store :: storage
  ph_enabled :: bool
  ph_config :: run_config
  ph_flush_interval :: duration
  ph_pending :: u64
  ph_last_flush :: instant

record proposer =
  pr_num_acceptors :: u64
  ballot_delta :: ballot
  pr_is_leader :: bool
  current_slot :: slot
  current_ballot :: ballot
  pr_adu :: slot
  pending_client_requests :: "paxos_value list"
  prioritized_values :: "paxos_value list"
  proposals :: "(slot, proposal_entry) btree_map"
  chosen_slots :: "slot list"
  pr_storage :: proposer_helper

text \<open>The encoding of \<open>PersistentCurrentState\<close>: the ballot and the \<open>adu\<close>.\<close>

type_synonym proposer_codec = "(ballot \<times> slot) codec"

section \<open>The storage helper\<close>

definition proposer_helper_new ::
  "clock \<Rightarrow> string \<Rightarrow> run_config \<Rightarrow> bool \<Rightarrow> storage \<Rightarrow> proposer_helper" where
  "proposer_helper_new c key cfg enabled disk =
     \<lparr>ph_store = storage_new key (storage_max_snapshots cfg) disk,
      ph_enabled = enabled,
      ph_config = cfg,
      ph_flush_interval = from_millis (storage_flush_state_interval_ms cfg),
      ph_pending = 0,
      ph_last_flush = clk_now c\<rparr>"

definition ph_on_store :: "'a io \<Rightarrow> proposer_helper \<Rightarrow> 'a result \<times> proposer_helper" where
  "ph_on_store = io_zoom ph_store (\<lambda>st h. h\<lparr>ph_store := st\<rparr>)"

definition ph_flush_state :: "clock \<Rightarrow> proposer_helper \<Rightarrow> unit result \<times> proposer_helper" where
  "ph_flush_state c h =
     (if \<not> ph_enabled h then (Inr (), h)
      else io_bind (io_update (\<lambda>h. h\<lparr>ph_last_flush := clk_now c\<rparr>)) (\<lambda>_.
           io_map_err ''storage.flush_state: '' (ph_on_store flush_state)) h)"

definition ph_maybe_flush_state :: "clock \<Rightarrow> proposer_helper \<Rightarrow> unit result \<times> proposer_helper" where
  "ph_maybe_flush_state c h =
     (if \<not> ph_enabled h then (Inr (), h)
      else if ph_pending h = 0 then (Inr (), h)
      else
        (let elapsed = clk_now c - ph_last_flush h in
         if storage_flush_state_count (ph_config h) \<le> ph_pending h \<or> ph_flush_interval h \<le> elapsed
         then io_bind (ph_flush_state c) (\<lambda>_. io_update (\<lambda>h. h\<lparr>ph_pending := 0\<rparr>)) h
         else (Inr (), h)))"

definition ph_save_state ::
  "proposer_codec \<Rightarrow> clock \<Rightarrow> ballot \<Rightarrow> slot \<Rightarrow> proposer_helper \<Rightarrow> unit result \<times> proposer_helper" where
  "ph_save_state cd c ballot adu h =
     (if \<not> ph_enabled h then (Inr (), h)
      else io_bind (io_lift (map_err ''bincode encode: '' (enc cd (ballot, adu)))) (\<lambda>blob.
           io_bind (io_map_err ''storage.save_state: '' (ph_on_store (save_state blob))) (\<lambda>_.
           io_bind (io_update (\<lambda>h. h\<lparr>ph_pending := ph_pending h + 1\<rparr>)) (\<lambda>_.
           ph_maybe_flush_state c))) h)"

text \<open>The state read back, if there is one, and the helper after the attempt.\<close>

definition ph_load_state ::
  "proposer_codec \<Rightarrow> proposer_helper \<Rightarrow> (ballot \<times> slot) option result \<times> proposer_helper" where
  "ph_load_state cd h =
     (if \<not> ph_enabled h then (Inr None, h)
      else case ph_on_store load_state h of
        (Inr blob, h') \<Rightarrow>
          (case map_err ''bincode decode: '' (dec cd blob) of
             Inl e \<Rightarrow> (Inl e, h') | Inr ps \<Rightarrow> (Inr (Some ps), h'))
      | (Inl e, h') \<Rightarrow>
          if contains ''no such file'' e then (Inr None, h')
          else (Inl (''storage.load_state: '' @ e), h'))"

section \<open>Queues, slots and proposals\<close>

definition proposer_new ::
  "clock \<Rightarrow> bool \<Rightarrow> u64 \<Rightarrow> ballot \<Rightarrow> string \<Rightarrow> run_config \<Rightarrow> storage \<Rightarrow> proposer" where
  "proposer_new c leader num_acceptors init_ballot nid cfg disk =
     \<lparr>pr_num_acceptors = num_acceptors,
      ballot_delta = num_acceptors,
      pr_is_leader = leader,
      current_slot = 0,
      current_ballot = init_ballot,
      pr_adu = 0,
      pending_client_requests = [],
      prioritized_values = [],
      proposals = [],
      chosen_slots = [],
      pr_storage = proposer_helper_new c (''node'' @ nid @ ''-proposer'') cfg (persistent_storage cfg) disk\<rparr>"

definition proposer_quorum :: "u64 \<Rightarrow> nat" where
  "proposer_quorum num_acceptors = as_usize (num_acceptors div 2 + 1)"

definition get_next_slot :: "proposer \<Rightarrow> slot \<times> proposer" where
  "get_next_slot p = (let next_slot = current_slot p + 1 in (next_slot, p\<lparr>current_slot := next_slot\<rparr>))"

definition next_value :: "proposer \<Rightarrow> paxos_value option \<times> proposer" where
  "next_value p =
     (case prioritized_values p of
        v # vs \<Rightarrow> (Some v, p\<lparr>prioritized_values := vs\<rparr>)
      | [] \<Rightarrow>
          (case pending_client_requests p of
             v # vs \<Rightarrow> (Some v, p\<lparr>pending_client_requests := vs\<rparr>)
           | [] \<Rightarrow> (None, p)))"

definition enqueue_client_request :: "paxos_value \<Rightarrow> proposer \<Rightarrow> bool \<times> proposer" where
  "enqueue_client_request req p =
     (True, p\<lparr>pending_client_requests := pending_client_requests p @ [req]\<rparr>)"

definition enqueue_prioritized_request :: "paxos_value \<Rightarrow> proposer \<Rightarrow> proposer" where
  "enqueue_prioritized_request req p =
     (if req \<in> set (prioritized_values p) then p
      else p\<lparr>prioritized_values := prioritized_values p @ [req]\<rparr>)"

definition get_proposal_by :: "slot \<Rightarrow> (proposal_status \<Rightarrow> bool) \<Rightarrow> proposer \<Rightarrow> proposal option" where
  "get_proposal_by s pred p =
     (case bt_get (proposals p) s of
        Some e \<Rightarrow> if pred (pe_status e) then Some (pe_proposal e) else None
      | None \<Rightarrow> None)"

definition get_proposal_by_status :: "slot \<Rightarrow> proposal_status \<Rightarrow> proposer \<Rightarrow> proposal option" where
  "get_proposal_by_status s st = get_proposal_by s (\<lambda>status. status = st)"

definition set_status :: "slot \<Rightarrow> proposal_status \<Rightarrow> proposal_entry \<Rightarrow> proposer \<Rightarrow> proposer" where
  "set_status s st e p = p\<lparr>proposals := bt_insert s (e\<lparr>pe_status := st\<rparr>) (proposals p)\<rparr>"

definition update_proposal_status ::
  "slot \<Rightarrow> proposal_status \<Rightarrow> proposer \<Rightarrow> paxos_value option \<times> proposer" where
  "update_proposal_status s st p =
     (case bt_get (proposals p) s of
        Some e \<Rightarrow> (Some (prop_value (pe_proposal e)), set_status s st e p)
      | None \<Rightarrow> (None, p))"

definition proposer_get_state :: "proposer \<Rightarrow> proposer_state" where
  "proposer_get_state p =
     \<lparr>ps_is_leader = pr_is_leader p, ps_num_acceptors = pr_num_acceptors p,
      ps_current_slot = current_slot p, ps_current_ballot = current_ballot p,
      ps_pending = pending_client_requests p, ps_proposals = bt_values (proposals p)\<rparr>"

definition reserve_next_chosen_proposal :: "proposer \<Rightarrow> proposal option \<times> proposer" where
  "reserve_next_chosen_proposal p =
     (case chosen_slots p of
        [] \<Rightarrow> (None, p)
      | s # ss \<Rightarrow>
          (let p1 = p\<lparr>chosen_slots := ss\<rparr> in
           case bt_get (proposals p1) s of
             Some e \<Rightarrow> (Some (pe_proposal e), set_status s CommitPending e p1)
           | None \<Rightarrow> (None, p1)))"

definition create_proposal :: "proposer \<Rightarrow> proposal option \<times> proposer" where
  "create_proposal p =
     (if \<not> pr_is_leader p then (None, p)
      else case next_value p of
        (None, p1) \<Rightarrow> (None, p1)
      | (Some v, p1) \<Rightarrow>
          (let (s, p2) = get_next_slot p1;
               prop = \<lparr>prop_slot = s, prop_ballot = current_ballot p2, prop_value = v\<rparr> in
           (Some prop,
            p2\<lparr>proposals := bt_insert s \<lparr>pe_proposal = prop, pe_status = InFlight\<rparr> (proposals p2)\<rparr>)))"

section \<open>Prepare\<close>

text \<open>\<open>entry(slot).and_modify(..).or_insert_with(..)\<close>: the highest ballot, the first of equals.\<close>

definition collect_one :: "slot \<Rightarrow> (slot, p_value) hash_map \<Rightarrow> p_value \<Rightarrow> (slot, p_value) hash_map" where
  "collect_one min_slot m pv =
     (if min_slot \<le> pv_slot pv then
        (case hm_get m (pv_slot pv) of
           Some existing \<Rightarrow>
             if pv_ballot existing < pv_ballot pv then hm_insert (pv_slot pv) pv m else m
         | None \<Rightarrow> hm_insert (pv_slot pv) pv m)
      else m)"

definition collect_map :: "slot \<Rightarrow> promise list \<Rightarrow> (slot, p_value) hash_map" where
  "collect_map min_slot ps = foldl (collect_one min_slot) [] (concat (map prom_accepted ps))"

definition no_op :: "ballot \<Rightarrow> slot \<Rightarrow> p_value" where
  "no_op b s = \<lparr>pv_slot = s, pv_ballot = b, pv_value = None\<rparr>"

text \<open>The inner loop pushes a no-op for each slot from \<open>expected\<close> up to \<open>slot\<close>.\<close>

fun fill_gaps :: "ballot \<Rightarrow> slot \<Rightarrow> (slot \<times> p_value) list \<Rightarrow> p_value list" where
  "fill_gaps b expected [] = []"
| "fill_gaps b expected ((s, pv) # rest) =
     map (no_op b \<circ> of_nat) [unat expected ..< unat s] @ pv # fill_gaps b (s + 1) rest"

definition collect_accepted_values :: "slot \<Rightarrow> promise list \<Rightarrow> proposer \<Rightarrow> p_value list \<times> proposer" where
  "collect_accepted_values min_slot ps p =
     (if min_slot < current_slot p then ([], p)
      else (fill_gaps (current_ballot p) min_slot (sort_key fst (collect_map min_slot ps)),
            p\<lparr>current_slot := saturating_sub min_slot 1\<rparr>))"

text \<open>\<open>filter(|p| seen_slots.insert(p.slot))\<close>\<close>

fun dedup_slots :: "slot list \<Rightarrow> p_value list \<Rightarrow> p_value list" where
  "dedup_slots seen [] = []"
| "dedup_slots seen (pv # pvs) =
     (if pv_slot pv \<in> set seen then dedup_slots seen pvs
      else pv # dedup_slots (pv_slot pv # seen) pvs)"

definition reproposed :: "p_value list \<Rightarrow> paxos_value list" where
  "reproposed pvs = filter (\<lambda>v. command v \<noteq> None) (List.map_filter pv_value (dedup_slots [] pvs))"

definition process_prepare :: "slot \<Rightarrow> promise list \<Rightarrow> proposer \<Rightarrow> prepare_result \<times> proposer" where
  "process_prepare min_slot ps p =
     (let valid = filter (\<lambda>pr. prom_ballot pr = current_ballot p) ps in
      if length valid < proposer_quorum (pr_num_acceptors p) then (PrepareQuorumFailure, p)
      else
        (let (accepted_values, p1) = collect_accepted_values min_slot ps p in
         (PrepareSuccess,
          foldl (\<lambda>p v. enqueue_prioritized_request v p) p1 (reproposed accepted_values))))"

section \<open>Accept, commit, leadership\<close>

definition process_accept :: "slot \<Rightarrow> accepted list \<Rightarrow> proposer \<Rightarrow> accept_result" where
  "process_accept s accepts p =
     (case get_proposal_by_status s InFlight p of
        None \<Rightarrow> MissingProposal
      | Some prop \<Rightarrow>
          (let cnt = length (filter (\<lambda>a. ad_slot a = prop_slot prop \<and> ad_ballot a = prop_ballot prop \<and>
                 ad_success a) accepts) in
           if cnt < proposer_quorum (pr_num_acceptors p) then AcceptQuorumFailure
           else if get_proposal_by_status s InFlight p = None then MissingProposal
           else AcceptAccepted (of_nat cnt)))"

definition mark_proposal_chosen :: "slot \<Rightarrow> proposer \<Rightarrow> paxos_value option \<times> proposer" where
  "mark_proposal_chosen s p =
     (if get_proposal_by_status s InFlight p = None then (None, p)
      else case update_proposal_status s Chosen p of
        (None, p1) \<Rightarrow> (None, p1)
      | (Some v, p1) \<Rightarrow> (Some v, p1\<lparr>chosen_slots := chosen_slots p1 @ [s]\<rparr>))"

definition mark_proposal_finalized :: "slot \<Rightarrow> proposer \<Rightarrow> paxos_value option \<times> proposer" where
  "mark_proposal_finalized s p =
     (if get_proposal_by s (\<lambda>status. status \<noteq> Finalized) p = None then (None, p)
      else update_proposal_status s Finalized p)"

definition save_proposer :: "proposer_codec \<Rightarrow> clock \<Rightarrow> proposer \<Rightarrow> proposer option" where
  "save_proposer cd c p =
     (case ph_save_state cd c (current_ballot p) (pr_adu p) (pr_storage p) of
        (Inl e, h) \<Rightarrow> None
      | (Inr _, h) \<Rightarrow> Some (p\<lparr>pr_storage := h\<rparr>))"

definition proposer_set_adu :: "proposer_codec \<Rightarrow> clock \<Rightarrow> slot \<Rightarrow> proposer \<Rightarrow> proposer option" where
  "proposer_set_adu cd c adu p = save_proposer cd c (p\<lparr>pr_adu := adu\<rparr>)"

definition increase_ballot :: "proposer_codec \<Rightarrow> clock \<Rightarrow> proposer \<Rightarrow> (ballot \<times> proposer) option" where
  "increase_ballot cd c p =
     (let new_ballot = current_ballot p + ballot_delta p in
      map_option (Pair new_ballot) (save_proposer cd c (p\<lparr>current_ballot := new_ballot\<rparr>)))"

definition become_leader :: "proposer_codec \<Rightarrow> clock \<Rightarrow> proposer \<Rightarrow> (bool \<times> proposer) option" where
  "become_leader cd c p =
     (if pr_is_leader p then Some (False, p)
      else map_option (\<lambda>(_, p1). (True, p1\<lparr>pr_is_leader := True\<rparr>)) (increase_ballot cd c p))"

definition resign_leader :: "proposer \<Rightarrow> bool \<times> proposer" where
  "resign_leader p = (if pr_is_leader p then (True, p\<lparr>pr_is_leader := False\<rparr>) else (False, p))"

definition proposer_load_state :: "proposer_codec \<Rightarrow> proposer \<Rightarrow> unit result \<times> proposer" where
  "proposer_load_state cd p =
     (case ph_load_state cd (pr_storage p) of
        (Inl e, h) \<Rightarrow> (Inl e, p\<lparr>pr_storage := h\<rparr>)
      | (Inr None, h) \<Rightarrow> (Inr (), p\<lparr>pr_storage := h\<rparr>)
      | (Inr (Some (b, adu)), h) \<Rightarrow>
          (Inr (), p\<lparr>pr_storage := h, current_ballot := b, pr_adu := adu\<rparr>))"

definition proposer_maybe_flush :: "clock \<Rightarrow> proposer \<Rightarrow> unit result \<times> proposer" where
  "proposer_maybe_flush c = io_zoom pr_storage (\<lambda>h p. p\<lparr>pr_storage := h\<rparr>) (ph_maybe_flush_state c)"

lemmas proposal_defs [ops_def] =
  get_proposal_by_def get_proposal_by_status_def set_status_def update_proposal_status_def
  reserve_next_chosen_proposal_def mark_proposal_chosen_def mark_proposal_finalized_def

section \<open>What the operations establish\<close>

interpretation proposer_majority: majority proposer_quorum
proof
  fix n :: u64 assume n: "unat n < 2 ^ 32"
  then have *: "proposer_quorum n = unat n div 2 + 1"
    by (simp add: proposer_quorum_def as_usize_def unat_word_ariths unat_div)
  then show "unat n < 2 * proposer_quorum n" by simp
  from * show "proposer_quorum n \<le> unat n" if "0 < unat n" using that by simp
qed

text \<open>The votes that count for a proposal.\<close>

definition matching :: "proposal \<Rightarrow> accepted \<Rightarrow> bool" where
  "matching prop a \<longleftrightarrow> ad_slot a = prop_slot prop \<and> ad_ballot a = prop_ballot prop \<and> ad_success a"

lemma process_accept_eq:
  "process_accept s accepts p =
     (case get_proposal_by_status s InFlight p of
        None \<Rightarrow> MissingProposal
      | Some prop \<Rightarrow>
          if length (filter (matching prop) accepts) < proposer_quorum (pr_num_acceptors p)
          then AcceptQuorumFailure
          else AcceptAccepted (of_nat (length (filter (matching prop) accepts))))"
  by (simp add: process_accept_def matching_def [abs_def] Let_def split: option.split)

lemma get_proposal_by_status_Some:
  "get_proposal_by_status s st p = Some prop \<longleftrightarrow>
     (\<exists>e. bt_get (proposals p) s = Some e \<and> pe_status e = st \<and> pe_proposal e = prop)"
  by (auto simp: get_proposal_by_status_def get_proposal_by_def split: option.splits)

subsection \<open>New proposals\<close>

lemma next_value_eq:
  "next_value p =
     (case prioritized_values p @ pending_client_requests p of
        [] \<Rightarrow> (None, p)
      | v # _ \<Rightarrow>
          (Some v, p\<lparr>prioritized_values := tl (prioritized_values p),
            pending_client_requests :=
              (if prioritized_values p = [] then tl (pending_client_requests p)
               else pending_client_requests p)\<rparr>))"
  by (cases p) (auto simp: next_value_def split: list.splits)

lemma next_value_simps [simp]:
  "proposals (snd (next_value p)) = proposals p" "current_slot (snd (next_value p)) = current_slot p"
  "current_ballot (snd (next_value p)) = current_ballot p"
  "chosen_slots (snd (next_value p)) = chosen_slots p" "pr_is_leader (snd (next_value p)) = pr_is_leader p"
  by (auto simp: next_value_eq split: list.splits)

lemma create_proposal_Some:
  "fst (create_proposal p) = Some prop \<longleftrightarrow>
     pr_is_leader p \<and> prop_slot prop = current_slot p + 1 \<and> prop_ballot prop = current_ballot p \<and>
     (\<exists>vs. prioritized_values p @ pending_client_requests p = prop_value prop # vs)"
proof -
  have "prop = \<lparr>prop_slot = s, prop_ballot = b, prop_value = v\<rparr> \<longleftrightarrow>
      prop_slot prop = s \<and> prop_ballot prop = b \<and> prop_value prop = v" for s b v
    by (cases "prop") auto
  then show ?thesis
    by (auto simp: create_proposal_def next_value_eq get_next_slot_def Let_def split: list.splits)
qed

lemma create_proposal_state:
  assumes "fst (create_proposal p) = Some prop"
  shows "current_slot (snd (create_proposal p)) = current_slot p + 1"
    "proposals (snd (create_proposal p)) =
       bt_insert (current_slot p + 1) \<lparr>pe_proposal = prop, pe_status = InFlight\<rparr> (proposals p)"
    "chosen_slots (snd (create_proposal p)) = chosen_slots p"
    "prioritized_values (snd (create_proposal p)) @ pending_client_requests (snd (create_proposal p)) =
       tl (prioritized_values p @ pending_client_requests p)"
proof -
  obtain v vs where vs: "pr_is_leader p" "prioritized_values p @ pending_client_requests p = v # vs"
    using assms by (auto simp: create_proposal_Some)
  define p1 where "p1 = snd (next_value p)"
  have nv: "next_value p = (Some v, p1)"
    using vs(2) by (simp add: next_value_eq p1_def)
  have q: "prioritized_values p1 @ pending_client_requests p1 = vs"
    using vs(2) nv by (cases "prioritized_values p") (auto simp: next_value_eq)
  note same = next_value_simps [of p, folded p1_def]
  define pr where "pr = \<lparr>prop_slot = current_slot p + 1, prop_ballot = current_ballot p, prop_value = v\<rparr>"
  have "create_proposal p = (Some pr, p1\<lparr>current_slot := current_slot p + 1,
      proposals := bt_insert (current_slot p + 1) \<lparr>pe_proposal = pr, pe_status = InFlight\<rparr> (proposals p)\<rparr>)"
    unfolding create_proposal_def nv get_next_slot_def Let_def pr_def using vs(1) same by simp
  moreover from this assms have "prop = pr" by simp
  ultimately show "current_slot (snd (create_proposal p)) = current_slot p + 1"
    "proposals (snd (create_proposal p)) =
       bt_insert (current_slot p + 1) \<lparr>pe_proposal = prop, pe_status = InFlight\<rparr> (proposals p)"
    "chosen_slots (snd (create_proposal p)) = chosen_slots p"
    "prioritized_values (snd (create_proposal p)) @ pending_client_requests (snd (create_proposal p)) =
       tl (prioritized_values p @ pending_client_requests p)"
    using vs(2) same q by simp_all
qed

lemma create_proposal_None:
  assumes "fst (create_proposal p) = None"
  shows "snd (create_proposal p) = p"
proof (cases "pr_is_leader p")
  case True
  obtain w p1 where nv: "next_value p = (w, p1)" by fastforce
  with assms True have "w = None"
    by (cases w) (simp_all add: create_proposal_def get_next_slot_def Let_def)
  moreover from this nv have "p1 = p" by (simp add: next_value_eq split: list.splits)
  ultimately show ?thesis using True nv by (simp add: create_proposal_def)
qed (simp add: create_proposal_def)

subsection \<open>The life of a proposal\<close>

text \<open>Every proposal of \<open>p\<close> is in \<open>p'\<close>, no less far in its life.\<close>

definition advances :: "proposer \<Rightarrow> proposer \<Rightarrow> bool" where
  "advances p p' \<longleftrightarrow>
     (\<forall>s e. bt_get (proposals p) s = Some e \<longrightarrow>
        (\<exists>e'. bt_get (proposals p') s = Some e' \<and> pe_proposal e' = pe_proposal e \<and>
           pe_status e \<le> pe_status e'))"

lemma advances_refl [simp]: "advances p p"
  by (simp add: advances_def)

lemma advances_trans: "advances p q \<Longrightarrow> advances q r \<Longrightarrow> advances p r"
  unfolding advances_def
proof (intro allI impI)
  fix s e
  assume pq: "\<forall>s e. bt_get (proposals p) s = Some e \<longrightarrow> (\<exists>e'. bt_get (proposals q) s = Some e' \<and>
      pe_proposal e' = pe_proposal e \<and> pe_status e \<le> pe_status e')"
    and qr: "\<forall>s e. bt_get (proposals q) s = Some e \<longrightarrow> (\<exists>e'. bt_get (proposals r) s = Some e' \<and>
      pe_proposal e' = pe_proposal e \<and> pe_status e \<le> pe_status e')"
    and "bt_get (proposals p) s = Some e"
  then obtain e1 where e1: "bt_get (proposals q) s = Some e1" "pe_proposal e1 = pe_proposal e"
    "pe_status e \<le> pe_status e1" by blast
  with qr obtain e2 where "bt_get (proposals r) s = Some e2" "pe_proposal e2 = pe_proposal e1"
    "pe_status e1 \<le> pe_status e2" by blast
  with e1 show "\<exists>e'. bt_get (proposals r) s = Some e' \<and> pe_proposal e' = pe_proposal e \<and>
      pe_status e \<le> pe_status e'"
    by (auto intro: order_trans)
qed

lemma advances_same: "proposals p' = proposals p \<Longrightarrow> advances p p'"
  by (simp add: advances_def)

lemma set_status_advances:
  "bt_ok (proposals p) \<Longrightarrow> bt_get (proposals p) s = Some e \<Longrightarrow> pe_status e \<le> st \<Longrightarrow>
   advances p (set_status s st e p)"
  by (auto simp: advances_def set_status_def dict_simps)

lemma set_status_simps [simp]:
  "chosen_slots (set_status s st e p) = chosen_slots p"
  "proposals (set_status s st e p) = bt_insert s (e\<lparr>pe_status := st\<rparr>) (proposals p)"
  "current_slot (set_status s st e p) = current_slot p"
  by (simp_all add: set_status_def)

lemma mark_proposal_chosen_eq:
  "mark_proposal_chosen s p =
     (case bt_get (proposals p) s of
        Some e \<Rightarrow> if pe_status e = InFlight
          then (Some (prop_value (pe_proposal e)),
                (set_status s Chosen e p)\<lparr>chosen_slots := chosen_slots p @ [s]\<rparr>)
          else (None, p)
      | None \<Rightarrow> (None, p))"
  by (auto simp: proposal_defs split: option.splits)

lemma mark_proposal_finalized_eq:
  "mark_proposal_finalized s p =
     (case bt_get (proposals p) s of
        Some e \<Rightarrow> if pe_status e \<noteq> Finalized
          then (Some (prop_value (pe_proposal e)), set_status s Finalized e p)
          else (None, p)
      | None \<Rightarrow> (None, p))"
  by (auto simp: proposal_defs split: option.splits)

lemma mark_proposal_chosen_advances:
  "bt_ok (proposals p) \<Longrightarrow> advances p (snd (mark_proposal_chosen s p))"
  by (auto simp: mark_proposal_chosen_eq split: option.split
      intro!: advances_trans [OF set_status_advances [of p s _ Chosen] advances_same])

lemma mark_proposal_finalized_advances:
  "bt_ok (proposals p) \<Longrightarrow> advances p (snd (mark_proposal_finalized s p))"
  by (auto simp: mark_proposal_finalized_eq split: option.split intro!: set_status_advances)

text \<open>Reserving does not look at the status, so this one needs the queue to be in order.\<close>

lemma reserve_advances:
  assumes "bt_ok (proposals p)"
    and "\<forall>s \<in> set (chosen_slots p). \<forall>e. bt_get (proposals p) s = Some e \<longrightarrow> pe_status e \<le> CommitPending"
  shows "advances p (snd (reserve_next_chosen_proposal p))"
proof (cases "chosen_slots p")
  case (Cons s ss)
  let ?p = "p\<lparr>chosen_slots := ss\<rparr>"
  have "advances p ?p" by (rule advances_same) simp
  moreover have "advances ?p (set_status s CommitPending e ?p)" if "bt_get (proposals p) s = Some e" for e
    using assms Cons that by (intro set_status_advances) auto
  ultimately show ?thesis
    using Cons by (auto simp: reserve_next_chosen_proposal_def Let_def split: option.split intro: advances_trans)
qed (simp add: reserve_next_chosen_proposal_def)

text \<open>A slot's value is handed out for finalisation once.\<close>

lemma finalized_stays:
  assumes "bt_ok (proposals p)" and "fst (mark_proposal_finalized s p) = Some v"
    and "advances (snd (mark_proposal_finalized s p)) p'"
  shows "mark_proposal_finalized s p' = (None, p')"
proof -
  obtain e where "bt_get (proposals p) s = Some e" "pe_status e \<noteq> Finalized"
    using assms(2) by (auto simp: mark_proposal_finalized_eq split: option.splits if_splits)
  then have "bt_get (proposals (snd (mark_proposal_finalized s p))) s = Some (e\<lparr>pe_status := Finalized\<rparr>)"
    using assms(1) by (simp add: mark_proposal_finalized_eq dict_simps)
  from assms(3) [unfolded advances_def, rule_format, OF this]
  obtain e' where "bt_get (proposals p') s = Some e'" "Finalized \<le> pe_status e'" by auto
  then show ?thesis
    by (cases "pe_status e'") (auto simp: mark_proposal_finalized_eq less_eq_proposal_status_def)
qed

subsection \<open>Prepare\<close>

text \<open>What the promises report for the slots from \<open>min_slot\<close> on.\<close>

definition reported :: "promise list \<Rightarrow> p_value list" where
  "reported ps = concat (map prom_accepted ps)"

definition best_for :: "p_value list \<Rightarrow> slot \<Rightarrow> p_value \<Rightarrow> bool" where
  "best_for pvs s pv \<longleftrightarrow> pv \<in> set pvs \<and> pv_slot pv = s \<and>
     (\<forall>q \<in> set pvs. pv_slot q = s \<longrightarrow> pv_ballot q \<le> pv_ballot pv)"

lemma collect_one_get:
  "hm_get (collect_one min_slot m x) s =
     (if s = pv_slot x \<and> min_slot \<le> s \<and>
        (case hm_get m s of Some e \<Rightarrow> pv_ballot e < pv_ballot x | None \<Rightarrow> True)
      then Some x else hm_get m s)"
  by (auto simp: collect_one_def dict_simps split: option.splits)

lemma collect_one_ok: "hm_ok m \<Longrightarrow> hm_ok (collect_one min_slot m x)"
  by (auto simp: collect_one_def hm.ok_ins split: option.split)

lemma collect_fold_ok: "hm_ok (foldl (collect_one min_slot) [] pvs)"
  by (induction pvs rule: rev_induct) (simp_all add: collect_one_ok hm.ok_empty)

lemma best_for_snoc:
  "best_for pvs s pv \<Longrightarrow> pv_slot x = s \<longrightarrow> pv_ballot x \<le> pv_ballot pv \<Longrightarrow> best_for (pvs @ [x]) s pv"
  by (auto simp: best_for_def)

lemma best_for_new:
  "best_for pvs (pv_slot x) e \<Longrightarrow> pv_ballot e < pv_ballot x \<Longrightarrow> best_for (pvs @ [x]) (pv_slot x) x"
  by (auto simp: best_for_def intro: order_trans less_imp_le)

lemma collect_fold:
  fixes min_slot :: slot
  defines "m pvs \<equiv> foldl (collect_one min_slot) [] pvs"
  shows "(\<forall>s pv. hm_get (m pvs) s = Some pv \<longrightarrow> min_slot \<le> s \<and> best_for pvs s pv) \<and>
    (\<forall>q \<in> set pvs. min_slot \<le> pv_slot q \<longrightarrow> hm_get (m pvs) (pv_slot q) \<noteq> None)"
proof (induction pvs rule: rev_induct)
  case Nil
  then show ?case by (simp add: m_def)
next
  case (snoc x pvs)
  have get: "hm_get (m (pvs @ [x])) s = (if s = pv_slot x \<and> min_slot \<le> s \<and>
      (case hm_get (m pvs) s of Some e \<Rightarrow> pv_ballot e < pv_ballot x | None \<Rightarrow> True)
      then Some x else hm_get (m pvs) s)" for s
    by (simp only: m_def foldl_append foldl.simps collect_one_get)
  have "min_slot \<le> s \<and> best_for (pvs @ [x]) s pv" if "hm_get (m (pvs @ [x])) s = Some pv" for s pv
  proof (cases "s = pv_slot x \<and> min_slot \<le> s")
    case False
    with that have "hm_get (m pvs) s = Some pv" unfolding get by (simp split: if_splits)
    with snoc have "min_slot \<le> s" "best_for pvs s pv" by blast+
    with False show ?thesis by (auto intro: best_for_snoc)
  next
    case s: True
    show ?thesis
    proof (cases "hm_get (m pvs) s")
      case None
      with snoc s have "pv_slot q \<noteq> s" if "q \<in> set pvs" for q using that by blast
      with None s that show ?thesis unfolding get by (auto simp: best_for_def)
    next
      case (Some e)
      with snoc have e: "best_for pvs s e" by blast
      with Some s that show ?thesis
        unfolding get by (auto intro: best_for_new best_for_snoc split: if_splits)
    qed
  qed
  moreover have "hm_get (m (pvs @ [x])) (pv_slot q) \<noteq> None"
    if "q \<in> set (pvs @ [x])" "min_slot \<le> pv_slot q" for q
    using snoc that unfolding get by (auto split: option.split)
  ultimately show ?case by blast
qed

lemma collect_map_facts:
  "hm_ok (collect_map min_slot ps)"
  "hm_get (collect_map min_slot ps) s = Some pv \<Longrightarrow> min_slot \<le> s \<and> best_for (reported ps) s pv"
  "q \<in> set (reported ps) \<Longrightarrow> min_slot \<le> pv_slot q \<Longrightarrow>
   hm_get (collect_map min_slot ps) (pv_slot q) \<noteq> None"
  using collect_fold [of min_slot "reported ps"] collect_fold_ok by (auto simp: collect_map_def reported_def)

text \<open>Gaps filled: the slots are consecutive, and each has its entry or a no-op.\<close>

lemma fill_gaps_slots:
  "sorted_wrt (<) (map fst kvs) \<Longrightarrow> \<forall>(s, pv) \<in> set kvs. b0 \<le> s \<and> pv_slot pv = s \<Longrightarrow>
   map (\<lambda>pv. unat (pv_slot pv)) (fill_gaps b b0 kvs) =
     [unat b0 ..< (if kvs = [] then unat b0 else Suc (unat (fst (last kvs))))]"
proof (induction b b0 kvs rule: fill_gaps.induct)
  case (2 b b0 s pv rest)
  have le: "unat b0 \<le> unat s" using 2(3) by (simp add: word_le_nat_alt)
  have pv: "pv_slot pv = s" using 2(3) by simp
  have gap: "map (\<lambda>i. unat (pv_slot (no_op b (of_nat i)))) [unat b0 ..< unat s] = [unat b0 ..< unat s]"
    by (rule map_idI) (use unat_le_max [of s] in \<open>simp add: no_op_def unsigned_of_nat take_bit_nat_eq_self\<close>)
  show ?case
  proof (cases rest)
    case Nil
    with gap le pv show ?thesis by (simp add: o_def)
  next
    case (Cons e es)
    then have lt: "s < fst e" using 2(2) by simp
    have s1: "unat (s + 1) = Suc (unat s)" using unat_succ_less [OF lt] by simp
    have bound: "\<forall>(k, v) \<in> set rest. s + 1 \<le> k \<and> pv_slot v = k"
    proof (clarify)
      fix k v assume "(k, v) \<in> set rest"
      moreover from this have "s < k" using 2(2) by force
      ultimately show "s + 1 \<le> k \<and> pv_slot v = k" using 2(3) succ_le_iff [OF lt, of k] by auto
    qed
    have IH: "map (\<lambda>pv. unat (pv_slot pv)) (fill_gaps b (s + 1) rest) = [Suc (unat s) ..< Suc (unat (fst (last rest)))]"
      using 2(1) [OF _ bound] 2(2) Cons s1 by simp
    have "\<forall>x \<in> set rest. s < fst x" using 2(2) by simp
    then have "s < fst (last rest)" using Cons last_in_set [of rest] by blast
    then have "unat s < unat (fst (last rest))" by (simp add: word_less_nat_alt)
    then have "[unat b0 ..< Suc (unat (fst (last rest)))] =
        [unat b0 ..< unat s] @ unat s # [Suc (unat s) ..< Suc (unat (fst (last rest)))]"
      using le upt_add_eq_append [of "unat b0" "unat s" "Suc (unat (fst (last rest))) - unat s"]
      by (simp add: upt_conv_Cons del: upt_Suc)
    with gap IH pv Cons show ?thesis by (simp add: o_def del: upt_Suc)
  qed
qed simp

lemma fill_gaps_elements:
  "pv \<in> set (fill_gaps b b0 kvs) \<Longrightarrow> pv \<in> snd ` set kvs \<or> pv = no_op b (pv_slot pv)"
  by (induction b b0 kvs rule: fill_gaps.induct) (auto simp: no_op_def)

lemma fill_gaps_entries: "snd ` set kvs \<subseteq> set (fill_gaps b b0 kvs)"
  by (induction b b0 kvs rule: fill_gaps.induct) auto

lemma sort_key_fst_strict:
  "hm_ok m \<Longrightarrow> sorted_wrt (<) (map fst (sort_key (fst :: 'a::linorder \<times> 'b \<Rightarrow> 'a) m))"
proof -
  assume "hm_ok m"
  then have "distinct (map fst (sort_key fst m))"
    by (simp add: hm_ok_def distinct_map inj_on_def)
  moreover have "sorted (map fst (sort_key fst m))" by (rule sorted_sort_key)
  ultimately show ?thesis by (simp only: strict_sorted_iff)
qed

lemma collect_accepted_values_spec:
  fixes ps :: "promise list"
  assumes "current_slot p \<le> min_slot"
  defines "pvs \<equiv> fst (collect_accepted_values min_slot ps p)"
  shows "map (\<lambda>pv. unat (pv_slot pv)) pvs = [unat min_slot ..< unat min_slot + length pvs]"
    "pv \<in> set pvs \<Longrightarrow> best_for (reported ps) (pv_slot pv) pv \<or>
       pv = no_op (current_ballot p) (pv_slot pv) \<and> (\<forall>q \<in> set (reported ps). pv_slot q \<noteq> pv_slot pv)"
    "q \<in> set (reported ps) \<Longrightarrow> min_slot \<le> pv_slot q \<Longrightarrow> \<exists>pv \<in> set pvs. pv_slot pv = pv_slot q"
proof -
  let ?m = "collect_map min_slot ps"
  let ?kvs = "sort_key fst ?m"
  have pvs: "pvs = fill_gaps (current_ballot p) min_slot ?kvs"
    using leD [OF assms(1)] by (simp add: pvs_def collect_accepted_values_def)
  have sorted: "sorted_wrt (<) (map fst ?kvs)"
    by (rule sort_key_fst_strict) (rule collect_map_facts(1))
  have entry: "min_slot \<le> s \<and> best_for (reported ps) s v" if "(s, v) \<in> set ?kvs" for s v
    using that collect_map_facts(1,2) [of min_slot ps] by (simp add: hm_ok_def)
  have "\<forall>(s, pv) \<in> set ?kvs. min_slot \<le> s \<and> pv_slot pv = s"
    using entry by (auto simp: best_for_def)
  note slots = fill_gaps_slots [OF sorted this, of "current_ballot p", folded pvs]
  obtain hi where hi: "map (\<lambda>pv. unat (pv_slot pv)) pvs = [unat min_slot ..< hi]"
    using slots by blast
  from arg_cong [OF hi, of length] have "length pvs = hi - unat min_slot"
    by (simp only: length_map length_upt)
  with hi have seq: "map (\<lambda>pv. unat (pv_slot pv)) pvs = [unat min_slot ..< unat min_slot + length pvs]"
    by (cases "unat min_slot \<le> hi") simp_all
  then show "map (\<lambda>pv. unat (pv_slot pv)) pvs = [unat min_slot ..< unat min_slot + length pvs]" .
  have inj: "inj_on (\<lambda>pv. unat (pv_slot pv)) (set pvs)"
    using arg_cong [OF seq, of distinct] by (simp only: distinct_map distinct_upt simp_thms)
  have covered: "\<exists>pv \<in> snd ` set ?kvs. pv_slot pv = pv_slot q \<and> pv \<in> set pvs"
    if q: "q \<in> set (reported ps)" "min_slot \<le> pv_slot q" for q
  proof -
    obtain v where "(pv_slot q, v) \<in> set ?m"
      using collect_map_facts(3) [OF q] by (auto dest: map_of_SomeD)
    then have v: "(pv_slot q, v) \<in> set ?kvs" by simp
    moreover have "pv_slot v = pv_slot q" using entry [OF v] by (simp add: best_for_def)
    moreover have "v \<in> set pvs"
      using fill_gaps_entries [of ?kvs "current_ballot p" min_slot] v pvs by force
    moreover from v have "v \<in> snd ` set ?kvs" by force
    ultimately show ?thesis by blast
  qed
  then show "q \<in> set (reported ps) \<Longrightarrow> min_slot \<le> pv_slot q \<Longrightarrow> \<exists>pv \<in> set pvs. pv_slot pv = pv_slot q"
    by blast
  show "best_for (reported ps) (pv_slot pv) pv \<or>
       pv = no_op (current_ballot p) (pv_slot pv) \<and> (\<forall>q \<in> set (reported ps). pv_slot q \<noteq> pv_slot pv)"
    if pv: "pv \<in> set pvs"
  proof (cases "pv \<in> snd ` set ?kvs")
    case True
    then obtain s where "(s, pv) \<in> set ?kvs" by force
    with entry have "best_for (reported ps) s pv" "pv_slot pv = s" by (auto simp: best_for_def)
    then show ?thesis by blast
  next
    case False
    then have "pv = no_op (current_ballot p) (pv_slot pv)"
      using fill_gaps_elements [OF pv [unfolded pvs]] by blast
    moreover have "pv_slot q \<noteq> pv_slot pv" if q: "q \<in> set (reported ps)" for q
    proof
      assume eq: "pv_slot q = pv_slot pv"
      have "unat (pv_slot pv) \<in> set (map (\<lambda>pv. unat (pv_slot pv)) pvs)" using pv by simp
      then have "unat min_slot \<le> unat (pv_slot pv)"
        by (simp only: seq set_upt atLeastLessThan_iff)
      then have "min_slot \<le> pv_slot q" by (simp only: eq word_le_nat_alt)
      from covered [OF q this] obtain v where "v \<in> snd ` set ?kvs" "pv_slot v = pv_slot pv" "v \<in> set pvs"
        using eq by auto
      moreover from this have "v = pv" using inj_onD [OF inj _ _ pv, of v] by simp
      ultimately show False using False by simp
    qed
    ultimately show ?thesis by blast
  qed
qed

lemma enqueue_prioritized_all:
  "set (prioritized_values (foldl (\<lambda>p v. enqueue_prioritized_request v p) p vs)) =
     set (prioritized_values p) \<union> set vs"
  "distinct (prioritized_values p) \<Longrightarrow>
   distinct (prioritized_values (foldl (\<lambda>p v. enqueue_prioritized_request v p) p vs))"
  by (induction vs arbitrary: p) (auto simp: enqueue_prioritized_request_def)

lemma enqueue_prioritized_fields:
  "current_slot (foldl (\<lambda>p v. enqueue_prioritized_request v p) p vs) = current_slot p"
  "proposals (foldl (\<lambda>p v. enqueue_prioritized_request v p) p vs) = proposals p"
  "current_ballot (foldl (\<lambda>p v. enqueue_prioritized_request v p) p vs) = current_ballot p"
  by (induction vs arbitrary: p) (simp_all add: enqueue_prioritized_request_def)

lemma dedup_slots_distinct:
  "distinct (map pv_slot pvs) \<Longrightarrow> set (map pv_slot pvs) \<inter> set seen = {} \<Longrightarrow> dedup_slots seen pvs = pvs"
  by (induction seen pvs rule: dedup_slots.induct) auto

text \<open>After a successful prepare every value that a quorum may have chosen is queued again.\<close>

lemma process_prepare_result:
  "fst (process_prepare min_slot ps p) =
     (if length (filter (\<lambda>pr. prom_ballot pr = current_ballot p) ps) < proposer_quorum (pr_num_acceptors p)
      then PrepareQuorumFailure else PrepareSuccess)"
  by (simp add: process_prepare_def Let_def split_def)

lemma process_prepare_queued:
  assumes "fst (process_prepare min_slot ps p) = PrepareSuccess" and "current_slot p \<le> min_slot"
  shows "set (prioritized_values (snd (process_prepare min_slot ps p))) =
    set (prioritized_values p) \<union>
    {v. \<exists>pv. best_for (reported ps) (pv_slot pv) pv \<and>
       pv \<in> set (fst (collect_accepted_values min_slot ps p)) \<and> pv_value pv = Some v \<and> command v \<noteq> None}"
    "current_slot (snd (process_prepare min_slot ps p)) = saturating_sub min_slot 1"
proof -
  let ?pvs = "fst (collect_accepted_values min_slot ps p)"
  let ?p1 = "snd (collect_accepted_values min_slot ps p)"
  have p1: "prioritized_values ?p1 = prioritized_values p" "current_slot ?p1 = saturating_sub min_slot 1"
    using leD [OF assms(2)] by (simp_all add: collect_accepted_values_def)
  have run: "snd (process_prepare min_slot ps p) =
      foldl (\<lambda>p v. enqueue_prioritized_request v p) ?p1 (reproposed ?pvs)"
    using assms(1) by (simp add: process_prepare_def Let_def split_def split: if_splits)
  note spec = collect_accepted_values_spec [OF assms(2), where ps = ps]
  have "distinct (map (\<lambda>pv. unat (pv_slot pv)) ?pvs)" using spec(1) by simp
  then have "distinct (map pv_slot ?pvs)" by (auto simp: distinct_map inj_on_def)
  then have dedup: "dedup_slots [] ?pvs = ?pvs" by (intro dedup_slots_distinct) simp_all
  have no_op: "pv = no_op b s \<Longrightarrow> pv_value pv = None" for pv b s by (simp add: no_op_def)
  have best: "best_for (reported ps) (pv_slot pv) pv" if "pv \<in> set ?pvs" "pv_value pv = Some v" for pv v
    using spec(2) [OF that(1)] that(2) no_op by (metis option.distinct(1))
  have "set (reproposed ?pvs) = {v. \<exists>pv. pv \<in> set ?pvs \<and> pv_value pv = Some v \<and> command v \<noteq> None}"
    by (auto simp: reproposed_def dedup set_map_filter_iff)
  also have "\<dots> = {v. \<exists>pv. best_for (reported ps) (pv_slot pv) pv \<and> pv \<in> set ?pvs \<and>
      pv_value pv = Some v \<and> command v \<noteq> None}"
    using best by blast
  finally show "set (prioritized_values (snd (process_prepare min_slot ps p))) =
    set (prioritized_values p) \<union>
    {v. \<exists>pv. best_for (reported ps) (pv_slot pv) pv \<and>
       pv \<in> set (fst (collect_accepted_values min_slot ps p)) \<and> pv_value pv = Some v \<and> command v \<noteq> None}"
    unfolding run enqueue_prioritized_all p1 by simp
  show "current_slot (snd (process_prepare min_slot ps p)) = saturating_sub min_slot 1"
    unfolding run enqueue_prioritized_fields p1 ..
qed

subsection \<open>Ballots\<close>

text \<open>Proposers whose first ballots differ modulo the number of acceptors never share one.\<close>

lemma save_proposer_fields:
  assumes "save_proposer cd c p = Some p'"
  shows "current_ballot p' = current_ballot p" "ballot_delta p' = ballot_delta p"
    "pr_is_leader p' = pr_is_leader p" "proposals p' = proposals p" "current_slot p' = current_slot p"
    "pr_adu p' = pr_adu p"
  using assms by (auto simp: save_proposer_def split: prod.splits sum.splits)

lemma increase_ballot_value:
  "increase_ballot cd c p = Some (b, p') \<Longrightarrow>
     b = current_ballot p + ballot_delta p \<and> current_ballot p' = b \<and> ballot_delta p' = ballot_delta p"
  by (auto simp: increase_ballot_def Let_def dest: save_proposer_fields)

lemma become_leader_ballot:
  "become_leader cd c p = Some (True, p') \<Longrightarrow>
     current_ballot p' = current_ballot p + ballot_delta p \<and> ballot_delta p' = ballot_delta p \<and>
     pr_is_leader p'"
  by (auto simp: become_leader_def dest: increase_ballot_value split: if_splits)

lemma become_leader_residue:
  assumes "become_leader cd c p = Some (True, p')"
    and "unat (current_ballot p) + unat (ballot_delta p) < 2 ^ 64"
  shows "unat (current_ballot p') mod unat (ballot_delta p') = unat (current_ballot p) mod unat (ballot_delta p)"
    "ballot_delta p \<noteq> 0 \<Longrightarrow> current_ballot p < current_ballot p'"
proof -
  have "current_ballot p' = current_ballot p + ballot_delta p" "ballot_delta p' = ballot_delta p"
    using become_leader_ballot [OF assms(1)] by simp_all
  moreover have "unat (current_ballot p + ballot_delta p) = unat (current_ballot p) + unat (ballot_delta p)"
    using assms(2) by (simp add: unat_word_ariths)
  ultimately show "unat (current_ballot p') mod unat (ballot_delta p') =
      unat (current_ballot p) mod unat (ballot_delta p)"
    "ballot_delta p \<noteq> 0 \<Longrightarrow> current_ballot p < current_ballot p'"
    by (simp_all add: word_less_nat_alt unat_gt_0)
qed

lemma collect_accepted_values_slots:
  assumes "current_slot p \<le> min_slot" and "pv \<in> set (fst (collect_accepted_values min_slot ps p))"
  shows "min_slot \<le> pv_slot pv"
proof -
  have "unat (pv_slot pv) \<in> set (map (\<lambda>pv. unat (pv_slot pv)) (fst (collect_accepted_values min_slot ps p)))"
    using assms(2) by simp
  then have "unat min_slot \<le> unat (pv_slot pv)"
    by (simp only: collect_accepted_values_spec(1) [OF assms(1)] set_upt atLeastLessThan_iff)
  then show ?thesis by (simp add: word_le_nat_alt)
qed

lemma process_prepare_distinct:
  "distinct (prioritized_values p) \<Longrightarrow> distinct (prioritized_values (snd (process_prepare min_slot ps p)))"
  by (simp add: process_prepare_def Let_def split_def collect_accepted_values_def enqueue_prioritized_all(2))

end
