(* ===== verification/Proposer_Agent.thy ===== *)
theory Proposer_Agent
  imports Proposer Acceptor_Agent
begin

text \<open>
  The proposer agent (\<open>paxos-wasm/agents/proposer-agent/src/proposer-agent.rs\<close>): the phases of
  a leader, the promises and accepted replies it has collected by sender, and the answers for
  clients. The replies that \<open>send_message\<close> of the network client returns in synchronous mode
  are an argument (\<open>net\<close>), the messages that are sent and forgotten go to an outbox.
\<close>

section \<open>Steps\<close>

text \<open>A step may panic (\<open>None\<close>); otherwise it has a result, messages sent and a new state.\<close>

type_synonym ('s, 'a) step = "'s \<Rightarrow> ('a \<times> outbox \<times> 's) option"

definition step_return :: "'a \<Rightarrow> ('s, 'a) step" where
  "step_return x s = Some (x, [], s)"

definition step_bind :: "('s, 'a) step \<Rightarrow> ('a \<Rightarrow> ('s, 'b) step) \<Rightarrow> ('s, 'b) step" where
  "step_bind m f s =
     (case m s of
        None \<Rightarrow> None
      | Some (x, out, s1) \<Rightarrow>
          (case f x s1 of None \<Rightarrow> None | Some (y, out', s2) \<Rightarrow> Some (y, out @ out', s2)))"

definition step_panic :: "('s, 'a) step" where
  "step_panic s = None"

definition step_get :: "('s \<Rightarrow> 'a) \<Rightarrow> ('s, 'a) step" where
  "step_get f s = Some (f s, [], s)"

definition step_update :: "('s \<Rightarrow> 's) \<Rightarrow> ('s, unit) step" where
  "step_update f s = Some ((), [], f s)"

definition step_send :: "node list \<Rightarrow> network_message \<Rightarrow> ('s, unit) step" where
  "step_send ns msg s = Some ((), [(ns, msg)], s)"

fun step_each :: "('b \<Rightarrow> ('s, unit) step) \<Rightarrow> 'b list \<Rightarrow> ('s, unit) step" where
  "step_each f [] = step_return ()"
| "step_each f (x # xs) = step_bind (f x) (\<lambda>_. step_each f xs)"

section \<open>State\<close>

record proposer_agent =
  pa_config :: run_config
  pa_phase :: paxos_phase
  pa_node :: node
  pa_proposer :: proposer
  pa_num_acceptors :: nat
  pa_acceptors :: "node list"
  pa_learners :: "node list"
  pa_all_nodes :: "node list"
  pa_promises :: "(ballot, (u64, promise) hash_map) btree_map"
  in_flight_accepted :: "(slot, (u64, accepted) hash_map) btree_map"
  client_responses :: "(slot, client_response) btree_map"
  last_prepare_start :: "instant option"
  last_get_adu_start :: instant
  has_received_adu :: bool
  slot_crash_list :: "slot list"

datatype ('t, 'r) collected = Synchronous "'t list" | EventDriven 'r

text \<open>The network client's \<open>send_message\<close>: the replies to a message.\<close>

type_synonym network = "node list \<Rightarrow> network_message \<Rightarrow> network_message list"

definition pa_message :: "proposer_agent \<Rightarrow> message_payload \<Rightarrow> network_message" where
  "pa_message ag p = \<lparr>sender = pa_node ag, payload = p\<rparr>"

definition on_proposer :: "(proposer \<Rightarrow> 'a \<times> proposer) \<Rightarrow> (proposer_agent, 'a) step" where
  "on_proposer f ag = (let (x, p) = f (pa_proposer ag) in Some (x, [], ag\<lparr>pa_proposer := p\<rparr>))"

text \<open>Operations of the core that panic when the state cannot be saved.\<close>

definition on_proposer_saved :: "(proposer \<Rightarrow> ('a \<times> proposer) option) \<Rightarrow> (proposer_agent, 'a) step" where
  "on_proposer_saved f ag =
     map_option (\<lambda>(x, p). (x, [], ag\<lparr>pa_proposer := p\<rparr>)) (f (pa_proposer ag))"

section \<open>Construction\<close>

definition pa_is_acceptor_role :: "node \<Rightarrow> bool" where
  "pa_is_acceptor_role n \<longleftrightarrow> role n = Acceptor \<or> role n = Coordinator"

definition pa_is_learner_role :: "node \<Rightarrow> bool" where
  "pa_is_learner_role n \<longleftrightarrow> role n = Learner \<or> role n = Coordinator"

text \<open>
  The first crash list whose head is the node's id. An empty list before it makes \<open>c[0]\<close> panic.
\<close>

fun find_crashes :: "u64 \<Rightarrow> u64 list list \<Rightarrow> slot list option" where
  "find_crashes i [] = Some []"
| "find_crashes i ([] # cs) = None"
| "find_crashes i ((x # xs) # cs) = (if x = i then Some xs else find_crashes i cs)"

definition proposer_agent_new ::
  "proposer_codec \<Rightarrow> clock \<Rightarrow> node \<Rightarrow> node list \<Rightarrow> bool \<Rightarrow> run_config \<Rightarrow> storage \<Rightarrow> proposer_agent option" where
  "proposer_agent_new cd c n nodes leader cfg disk =
     (let accs = filter pa_is_acceptor_role nodes;
          num_acceptors = of_nat (length accs) + (if role n = Coordinator then 1 else 0);
          p = proposer_new c leader num_acceptors (node_id n) (show_u64 (node_id n)) cfg disk in
      map_option
        (\<lambda>cl. \<lparr>pa_config = cfg, pa_phase = Start, pa_node = n,
             pa_proposer = snd (proposer_load_state cd p), pa_num_acceptors = as_usize num_acceptors,
             pa_acceptors = accs, pa_learners = filter pa_is_learner_role nodes, pa_all_nodes = nodes,
             pa_promises = [], in_flight_accepted = [], client_responses = [],
             last_prepare_start = None, last_get_adu_start = clk_now c, has_received_adu = False,
             slot_crash_list = cl\<rparr>)
        (find_crashes (node_id n) (crashes cfg)))"

section \<open>Phases\<close>

text \<open>The outcome of the prepare round is \<open>Some True\<close>, \<open>Some False\<close> or none.\<close>

definition next_phase :: "bool option \<Rightarrow> paxos_phase \<Rightarrow> paxos_phase" where
  "next_phase prepare_success ph =
     (case ph of
        Start \<Rightarrow> PrepareSend
      | PrepareSend \<Rightarrow> PreparePending
      | PreparePending \<Rightarrow> if prepare_success = Some True then AcceptCommit else PrepareSend
      | phase \<Rightarrow> phase)"

definition advance_phase :: "bool option \<Rightarrow> proposer_agent \<Rightarrow> proposer_agent" where
  "advance_phase prepare_success ag = ag\<lparr>pa_phase := next_phase prepare_success (pa_phase ag)\<rparr>"

definition start_prepare_round :: "clock \<Rightarrow> proposer_agent \<Rightarrow> proposer_agent" where
  "start_prepare_round c ag = advance_phase None (ag\<lparr>last_prepare_start := Some (clk_now c)\<rparr>)"

definition start_leader_loop :: "proposer_agent \<Rightarrow> proposer_agent" where
  "start_leader_loop ag = ag\<lparr>pa_phase := PrepareSend\<rparr>"

definition check_prepare_timeout :: "clock \<Rightarrow> proposer_agent \<Rightarrow> bool \<times> proposer_agent" where
  "check_prepare_timeout c ag =
     (if pa_phase ag = PreparePending then
        (case last_prepare_start ag of
           Some start \<Rightarrow>
             if from_millis (prepare_timeout (pa_config ag)) \<le> clk_now c - start
             then (True, (advance_phase (Some False) ag)\<lparr>last_prepare_start := None\<rparr>)
             else (False, ag)
         | None \<Rightarrow> (False, ag))
      else (False, ag))"

section \<open>Collecting replies\<close>

definition agent_quorum :: "nat \<Rightarrow> nat" where
  "agent_quorum num_acceptors = num_acceptors div 2 + 1"

definition entry_of :: "('k, ('n, 'v) hash_map) btree_map \<Rightarrow> 'k \<Rightarrow> ('n, 'v) hash_map" where
  "entry_of m k = (case bt_get m k of Some e \<Rightarrow> e | None \<Rightarrow> [])"

text \<open>The promise joins those of its ballot; the quorum is looked for at the highest ballot.\<close>

definition insert_and_check_promises ::
  "promise \<Rightarrow> node \<Rightarrow> proposer_agent \<Rightarrow> (ballot \<times> promise list) option \<times> proposer_agent" where
  "insert_and_check_promises pr from ag =
     (let b = prom_ballot pr;
          m = bt_insert b (hm_insert (node_id from) pr (entry_of (pa_promises ag) b)) (pa_promises ag);
          ag1 = ag\<lparr>pa_promises := m\<rparr> in
      (case bt_last_key m of
         Some highest \<Rightarrow>
           (let ps = map snd (entry_of m highest) in
            if agent_quorum (pa_num_acceptors ag) \<le> length ps then Some (highest, ps) else None)
       | None \<Rightarrow> None,
       ag1))"

definition insert_and_check_accepted ::
  "accepted \<Rightarrow> node \<Rightarrow> proposer_agent \<Rightarrow> (slot \<times> accepted list) option \<times> proposer_agent" where
  "insert_and_check_accepted a from ag =
     (let s = ad_slot a;
          replies = hm_insert (node_id from) a (entry_of (in_flight_accepted ag) s);
          ag1 = ag\<lparr>in_flight_accepted := bt_insert s replies (in_flight_accepted ag)\<rparr> in
      (if agent_quorum (pa_num_acceptors ag) \<le> length replies then Some (s, map snd replies) else None, ag1))"

definition get_learner_adu :: "clock \<Rightarrow> (proposer_agent, unit) step" where
  "get_learner_adu c ag =
     (if clk_now c - last_get_adu_start ag < from_millis (prepare_timeout (pa_config ag))
      then step_return () ag
      else step_bind (step_send (pa_learners ag) (pa_message ag (AduMsg 0)))
             (\<lambda>_. step_update (\<lambda>ag. ag\<lparr>last_get_adu_start := clk_now c\<rparr>)) ag)"

section \<open>Prepare and accept\<close>

definition broadcast_prepare ::
  "network \<Rightarrow> slot \<Rightarrow> ballot \<Rightarrow> (proposer_agent, (promise, prepare_result) collected) step" where
  "broadcast_prepare net s b ag =
     (let msg = pa_message ag (PrepareMsg \<lparr>prep_slot = s, prep_ballot = b\<rparr>) in
      if \<not> is_event_driven (pa_config ag)
      then step_return (Synchronous (List.map_filter
             (\<lambda>r. case payload r of PromiseMsg p \<Rightarrow> Some p | _ \<Rightarrow> None) (net (pa_acceptors ag) msg))) ag
      else step_bind (step_send (pa_acceptors ag) msg)
             (\<lambda>_. step_return (EventDriven PrepareIsEventDriven)) ag)"

definition broadcast_accept ::
  "network \<Rightarrow> paxos_value \<Rightarrow> slot \<Rightarrow> ballot \<Rightarrow> (proposer_agent, (accepted, accept_result) collected) step" where
  "broadcast_accept net v s b ag =
     (let msg = pa_message ag (AcceptMsg \<lparr>acc_slot = s, acc_ballot = b, acc_value = v\<rparr>) in
      if \<not> is_event_driven (pa_config ag)
      then step_return (Synchronous (List.map_filter
             (\<lambda>r. case payload r of AcceptedMsg a \<Rightarrow> Some a | _ \<Rightarrow> None) (net (pa_acceptors ag) msg))) ag
      else step_bind (step_send (pa_acceptors ag) msg)
             (\<lambda>_. step_return (EventDriven AcceptIsEventDriven)) ag)"

definition handle_prepare_result :: "prepare_result \<Rightarrow> proposer_agent \<Rightarrow> proposer_agent" where
  "handle_prepare_result r ag = (if r = PrepareSuccess then advance_phase (Some True) ag else ag)"

definition handle_accept_result :: "slot \<Rightarrow> accept_result \<Rightarrow> proposer_agent \<Rightarrow> proposer_agent" where
  "handle_accept_result s r ag =
     (case r of
        AcceptAccepted _ \<Rightarrow> ag\<lparr>pa_proposer := snd (mark_proposal_chosen s (pa_proposer ag))\<rparr>
      | _ \<Rightarrow> ag)"

text \<open>Replies of an agent's own acceptor (\<open>initial\<close>), when the coordinator has one, count as well.\<close>

definition prepare_phase ::
  "network \<Rightarrow> clock \<Rightarrow> slot \<Rightarrow> ballot \<Rightarrow> promise list \<Rightarrow> (proposer_agent, prepare_result) step" where
  "prepare_phase net c s b initial =
     step_bind (broadcast_prepare net s b) (\<lambda>r.
       case r of
         EventDriven res \<Rightarrow>
           step_bind (step_update (start_prepare_round c)) (\<lambda>_.
           step_bind (step_update (\<lambda>ag. foldl (\<lambda>ag pr. snd (insert_and_check_promises pr (pa_node ag) ag)) ag initial)) (\<lambda>_.
           step_return res))
       | Synchronous responses \<Rightarrow>
           step_bind (on_proposer (process_prepare s (responses @ initial))) (\<lambda>res.
           step_bind (step_update (handle_prepare_result res)) (\<lambda>_.
           step_return res)))"

definition accept_phase ::
  "network \<Rightarrow> paxos_value \<Rightarrow> slot \<Rightarrow> ballot \<Rightarrow> accepted list \<Rightarrow> (proposer_agent, accept_result) step" where
  "accept_phase net v s b initial =
     step_bind (broadcast_accept net v s b) (\<lambda>r.
       case r of
         EventDriven res \<Rightarrow>
           step_bind (step_update (\<lambda>ag. foldl (\<lambda>ag a. snd (insert_and_check_accepted a (pa_node ag) ag)) ag initial)) (\<lambda>_.
           step_return res)
       | Synchronous responses \<Rightarrow>
           step_bind (step_get (\<lambda>ag. process_accept s (responses @ initial) (pa_proposer ag))) (\<lambda>res.
           step_bind (step_update (handle_accept_result s res)) (\<lambda>_.
           step_return res)))"

definition broadcast_learn :: "learn \<Rightarrow> (proposer_agent, unit) step" where
  "broadcast_learn ln ag = step_send (pa_learners ag) (pa_message ag (LearnMsg ln)) ag"

text \<open>
  The loops over \<open>0..batch_size\<close>. A proposal for a slot of the crash list panics, which tests use.
\<close>

fun accept_loop :: "nat \<Rightarrow> (proposer_agent, proposal list) step" where
  "accept_loop 0 = step_return []"
| "accept_loop (Suc n) =
     step_bind (on_proposer create_proposal) (\<lambda>r.
       case r of
         None \<Rightarrow> step_return []
       | Some prop \<Rightarrow>
           step_bind (step_get slot_crash_list) (\<lambda>cl.
             if prop_slot prop \<in> set cl then step_panic
             else step_bind (accept_loop n) (\<lambda>props. step_return (prop # props))))"

definition proposals_to_accept :: "(proposer_agent, proposal list) step" where
  "proposals_to_accept ag = accept_loop (unat (batch_size (pa_config ag))) ag"

fun learn_loop :: "nat \<Rightarrow> proposer_agent \<Rightarrow> learn list \<times> proposer_agent" where
  "learn_loop 0 ag = ([], ag)"
| "learn_loop (Suc n) ag =
     (let (r, p) = reserve_next_chosen_proposal (pa_proposer ag); ag1 = ag\<lparr>pa_proposer := p\<rparr> in
      case r of
        None \<Rightarrow> ([], ag1)
      | Some prop \<Rightarrow>
          (let (ls, ag2) = learn_loop n ag1 in
           (\<lparr>ln_slot = prop_slot prop, ln_value = prop_value prop\<rparr> # ls, ag2)))"

definition learns_to_commit :: "proposer_agent \<Rightarrow> learn list \<times> proposer_agent" where
  "learns_to_commit ag = learn_loop (unat (batch_size (pa_config ag))) ag"

definition collect_client_responses :: "proposer_agent \<Rightarrow> client_response list \<times> proposer_agent" where
  "collect_client_responses ag =
     (let n = unat (batch_size (pa_config ag)) in
      (map snd (take n (client_responses ag)), ag\<lparr>client_responses := drop n (client_responses ag)\<rparr>))"

definition accept_commit :: "network \<Rightarrow> (proposer_agent, client_response list option) step" where
  "accept_commit net =
     step_bind proposals_to_accept (\<lambda>props.
     step_bind (step_each (\<lambda>prop.
         step_bind (accept_phase net (prop_value prop) (prop_slot prop) (prop_ballot prop) []) (\<lambda>r.
         if r = AcceptIsEventDriven then step_return () else step_panic)) props) (\<lambda>_.
     step_bind (\<lambda>ag.
         if \<not> acceptors_send_learns (pa_config ag)
         then (let (ls, ag1) = learns_to_commit ag in step_each broadcast_learn ls ag1)
         else step_return () ag) (\<lambda>_.
     \<lambda>ag. let (rs, ag1) = collect_client_responses ag in
         step_return (if rs = [] then None else Some rs) ag1)))"

section \<open>Handlers\<close>

definition executed_response :: "paxos_value \<Rightarrow> execute_result \<Rightarrow> client_response" where
  "executed_response v r =
     \<lparr>resp_client_id = client_id v, resp_client_seq = client_seq v, resp_success = er_success r,
      command_result = er_cmd_result r\<rparr>"

text \<open>One executed result; a command that was executed as a no-op is queued again.\<close>

definition executed_one :: "proposer_agent \<Rightarrow> execute_result \<Rightarrow> proposer_agent" where
  "executed_one ag r =
     (case mark_proposal_finalized (er_slot r) (pa_proposer ag) of
        (None, p) \<Rightarrow> ag\<lparr>pa_proposer := p\<rparr>
      | (Some v, p) \<Rightarrow>
          ag\<lparr>pa_proposer := (if er_cmd_result r = NoOp \<and> command v \<noteq> None
                 then enqueue_prioritized_request v p else p),
             client_responses := bt_insert (er_slot r) (executed_response v r) (client_responses ag)\<rparr>)"

definition process_executed :: "proposer_codec \<Rightarrow> clock \<Rightarrow> executed \<Rightarrow> (proposer_agent, unit) step" where
  "process_executed cd c ex ag =
     step_bind
       (if pr_adu (pa_proposer ag) < ex_adu ex
        then on_proposer_saved (\<lambda>p. map_option (Pair ()) (proposer_set_adu cd c (ex_adu ex) p))
        else step_return ())
       (\<lambda>_. step_update (\<lambda>ag.
         if \<not> pr_is_leader (pa_proposer ag) then ag else foldl executed_one ag (ex_results ex))) ag"

definition pa_retry_one :: "network \<Rightarrow> slot \<Rightarrow> (proposer_agent, unit) step" where
  "pa_retry_one net s ag =
     (case get_proposal_by_status s CommitPending (pa_proposer ag) of
        Some chosen \<Rightarrow> broadcast_learn \<lparr>ln_slot = s, ln_value = prop_value chosen\<rparr> ag
      | None \<Rightarrow>
         (case get_proposal_by_status s InFlight (pa_proposer ag) of
            Some prop \<Rightarrow>
              step_bind (accept_phase net (prop_value prop) (prop_slot prop) (prop_ballot prop) [])
                (\<lambda>_. step_return ()) ag
          | None \<Rightarrow> step_return () ag))"

definition pa_retry_learns :: "network \<Rightarrow> retry_learns \<Rightarrow> (proposer_agent, unit) step" where
  "pa_retry_learns net r = step_each (pa_retry_one net) (retry_slots r)"

definition handle_promise :: "promise \<Rightarrow> node \<Rightarrow> proposer_agent \<Rightarrow> proposer_agent" where
  "handle_promise pr from ag =
     (let (r, ag1) = insert_and_check_promises pr from ag in
      case r of
        None \<Rightarrow> ag1
      | Some (highest, ps) \<Rightarrow>
          (let (res, p) = process_prepare (prom_slot pr) ps (pa_proposer ag1) in
           handle_prepare_result res (ag1\<lparr>pa_proposer := p\<rparr>)))"

definition handle_accepted :: "accepted \<Rightarrow> node \<Rightarrow> proposer_agent \<Rightarrow> proposer_agent" where
  "handle_accepted a from ag =
     (let (r, ag1) = insert_and_check_accepted a from ag in
      case r of
        None \<Rightarrow> ag1
      | Some (s, accs) \<Rightarrow> handle_accept_result s (process_accept s accs (pa_proposer ag1)) ag1)"

definition pa_handle_message ::
  "proposer_codec \<Rightarrow> network \<Rightarrow> clock \<Rightarrow> network_message \<Rightarrow> (proposer_agent, network_message) step" where
  "pa_handle_message cd net c m =
     step_bind
       (case payload m of
          PromiseMsg pr \<Rightarrow> step_update (handle_promise pr (sender m))
        | AcceptedMsg a \<Rightarrow> step_update (handle_accepted a (sender m))
        | RetryLearnsMsg r \<Rightarrow>
            (\<lambda>ag. if \<not> pr_is_leader (pa_proposer ag) then step_return () ag else pa_retry_learns net r ag)
        | ExecutedMsg ex \<Rightarrow> process_executed cd c ex
        | AduMsg adu \<Rightarrow>
            step_bind (on_proposer_saved (\<lambda>p. map_option (Pair ()) (proposer_set_adu cd c adu p)))
              (\<lambda>_. step_update (\<lambda>ag. ag\<lparr>has_received_adu := True\<rparr>))
        | _ \<Rightarrow> step_return ())
       (\<lambda>_. step_get (\<lambda>ag. pa_message ag Ignore))"

definition pa_handle_tick ::
  "proposer_codec \<Rightarrow> network \<Rightarrow> clock \<Rightarrow> (proposer_agent, client_response list option) step" where
  "pa_handle_tick cd net c ag =
     (case pa_phase ag of
        Start \<Rightarrow>
          step_bind
            (if pr_is_leader (pa_proposer ag) then
               (if \<not> has_received_adu ag then get_learner_adu c else step_update start_leader_loop)
             else step_return ())
            (\<lambda>_. step_return None) ag
      | PrepareSend \<Rightarrow>
          (let s = pr_adu (pa_proposer ag) + 1 in
           step_bind (on_proposer_saved (increase_ballot cd c)) (\<lambda>b.
           step_bind (prepare_phase net c s b []) (\<lambda>r.
           if r = PrepareIsEventDriven then step_return None else step_panic)) ag)
      | PreparePending \<Rightarrow>
          step_bind (step_update (\<lambda>ag. snd (check_prepare_timeout c ag))) (\<lambda>_. step_return None) ag
      | AcceptCommit \<Rightarrow> accept_commit net ag
      | _ \<Rightarrow> step_return None ag)"

definition submit_client_request :: "paxos_value \<Rightarrow> (proposer_agent, bool) step" where
  "submit_client_request req = on_proposer (enqueue_client_request req)"

definition pa_become_leader :: "proposer_codec \<Rightarrow> clock \<Rightarrow> (proposer_agent, bool) step" where
  "pa_become_leader cd c = on_proposer_saved (become_leader cd c)"

definition pa_resign_leader :: "(proposer_agent, bool) step" where
  "pa_resign_leader = on_proposer resign_leader"

definition pa_send_heartbeat :: "proposer_agent \<Rightarrow> outbox" where
  "pa_send_heartbeat ag = [(pa_all_nodes ag, pa_message ag Heartbeat)]"

definition pa_maybe_flush_state :: "clock \<Rightarrow> proposer_agent \<Rightarrow> proposer_agent" where
  "pa_maybe_flush_state c ag = ag\<lparr>pa_proposer := snd (proposer_maybe_flush c (pa_proposer ag))\<rparr>"

lemmas step_simps [simp] = step_return_def step_update_def step_get_def step_send_def step_panic_def

lemma step_bind_Some:
  "step_bind m f s = Some (y, out, s') \<longleftrightarrow>
     (\<exists>x out1 s1 out2. m s = Some (x, out1, s1) \<and> f x s1 = Some (y, out2, s') \<and> out = out1 @ out2)"
  by (auto simp: step_bind_def split: option.splits)

lemma step_bind_eq [simp]:
  "m s = Some (x, out, s1) \<Longrightarrow> step_bind m f s =
     (case f x s1 of None \<Rightarrow> None | Some (y, out', s2) \<Rightarrow> Some (y, out @ out', s2))"
  by (simp add: step_bind_def)

section \<open>Events\<close>

datatype proposer_event =
    PaReceive network_message
  | PaTick
  | PaSubmit paxos_value
  | PaBecomeLeader
  | PaResignLeader

fun pa_step :: "proposer_codec \<Rightarrow> network \<Rightarrow> clock \<times> proposer_event \<Rightarrow> (proposer_agent, unit) step" where
  "pa_step cd net (c, PaReceive m) = step_bind (pa_handle_message cd net c m) (\<lambda>_. step_return ())"
| "pa_step cd net (c, PaTick) = step_bind (pa_handle_tick cd net c) (\<lambda>_. step_return ())"
| "pa_step cd net (c, PaSubmit v) = step_bind (submit_client_request v) (\<lambda>_. step_return ())"
| "pa_step cd net (c, PaBecomeLeader) = step_bind (pa_become_leader cd c) (\<lambda>_. step_return ())"
| "pa_step cd net (c, PaResignLeader) = step_bind pa_resign_leader (\<lambda>_. step_return ())"

definition pa_run :: "proposer_codec \<Rightarrow> network \<Rightarrow> (clock \<times> proposer_event) list \<Rightarrow> (proposer_agent, unit) step" where
  "pa_run cd net = step_each (pa_step cd net)"

section \<open>The phases\<close>

inductive phase_step :: "paxos_phase \<Rightarrow> paxos_phase \<Rightarrow> bool" where
  stay: "phase_step ph ph"
| started: "phase_step Start PrepareSend"
| sent: "phase_step PrepareSend PreparePending"
| promised: "phase_step PreparePending AcceptCommit"
| timed_out: "phase_step PreparePending PrepareSend"

inductive_cases phase_step_acceptE: "phase_step AcceptCommit ph"

lemma phase_step_next: "phase_step ph (next_phase r ph)"
  by (cases ph) (auto simp: next_phase_def intro: phase_step.intros)

text \<open>Only a tick in \<open>PrepareSend\<close> sends a prepare.\<close>

fun is_prepare :: "network_message \<Rightarrow> bool" where
  "is_prepare m = (case payload m of PrepareMsg _ \<Rightarrow> True | _ \<Rightarrow> False)"

definition quiet :: "outbox \<Rightarrow> bool" where
  "quiet out \<longleftrightarrow> (\<forall>(ns, m) \<in> set out. \<not> is_prepare m)"

lemma quiet_simps [simp]: "quiet []" "quiet (a @ b) \<longleftrightarrow> quiet a \<and> quiet b"
  "quiet ((ns, m) # out) \<longleftrightarrow> \<not> is_prepare m \<and> quiet out"
  by (auto simp: quiet_def)

text \<open>A step that leaves the phase alone and sends no prepare.\<close>

definition calm :: "(proposer_agent, 'a) step \<Rightarrow> bool" where
  "calm m \<longleftrightarrow> (\<forall>ag x out ag'. m ag = Some (x, out, ag') \<longrightarrow> pa_phase ag' = pa_phase ag \<and> quiet out)"

lemma calm_bind: "calm m \<Longrightarrow> (\<And>x. calm (f x)) \<Longrightarrow> calm (step_bind m f)"
  unfolding calm_def by (auto simp: step_bind_Some)

lemma calm_update: "(\<And>ag. pa_phase (f ag) = pa_phase ag) \<Longrightarrow> calm (step_update f)"
  by (auto simp: calm_def)

lemma calm_basic: "calm (step_return x)" "calm step_panic" "calm (step_get g)" "calm (on_proposer h)"
  "calm (on_proposer_saved k)" "\<not> is_prepare msg \<Longrightarrow> calm (step_send ns msg)"
  by (auto simp: calm_def on_proposer_def on_proposer_saved_def split_def Let_def)

lemma calm_each: "(\<And>x. calm (f x)) \<Longrightarrow> calm (step_each f xs)"
  by (induction xs) (auto intro: calm_basic calm_bind)

lemma calm_cong: "calm m \<Longrightarrow> m ag = Some (x, out, ag') \<Longrightarrow> pa_phase ag' = pa_phase ag \<and> quiet out"
  by (auto simp: calm_def)

lemma insert_checks_phase [simp]:
  "pa_phase (snd (insert_and_check_promises pr n ag)) = pa_phase ag"
  "pa_phase (snd (insert_and_check_accepted a n ag)) = pa_phase ag"
  "pa_proposer (snd (insert_and_check_promises pr n ag)) = pa_proposer ag"
  "pa_proposer (snd (insert_and_check_accepted a n ag)) = pa_proposer ag"
  "last_prepare_start (snd (insert_and_check_promises pr n ag)) = last_prepare_start ag"
  by (simp_all add: insert_and_check_promises_def insert_and_check_accepted_def Let_def)

lemma handle_accept_result_phase [simp]: "pa_phase (handle_accept_result s r ag) = pa_phase ag"
  by (simp add: handle_accept_result_def split: accept_result.split)

lemma fold_accepts_phase:
  "pa_phase (foldl (\<lambda>ag a. snd (insert_and_check_accepted a (pa_node ag) ag)) ag as) = pa_phase ag"
  by (induction as arbitrary: ag) simp_all

lemma fold_promises_phase:
  "pa_phase (foldl (\<lambda>ag a. snd (insert_and_check_promises a (pa_node ag) ag)) ag as) = pa_phase ag"
  by (induction as arbitrary: ag) simp_all

lemma executed_one_phase: "pa_phase (executed_one ag r) = pa_phase ag"
  by (simp add: executed_one_def split: prod.split option.split)

lemma fold_executed_phase: "pa_phase (foldl executed_one ag rs) = pa_phase ag"
  by (induction rs arbitrary: ag) (simp_all add: executed_one_phase)

lemma learn_loop_phase: "pa_phase (snd (learn_loop n ag)) = pa_phase ag"
  by (induction n arbitrary: ag) (simp_all add: Let_def split_def split: option.split)

lemma calm_broadcast_accept: "calm (broadcast_accept net v s b)"
  by (auto simp: calm_def broadcast_accept_def Let_def pa_message_def step_bind_Some split: if_splits)

lemma calm_accept_phase: "calm (accept_phase net v s b initial)"
  unfolding accept_phase_def
  by (intro calm_bind calm_broadcast_accept)
    (auto split: collected.split intro!: calm_bind calm_basic calm_update simp: fold_accepts_phase
      simp del: step_simps)

lemma calm_broadcast_learn: "calm (broadcast_learn ln)"
  by (auto simp: calm_def broadcast_learn_def pa_message_def)

lemma calm_accept_loop: "calm (accept_loop n)"
  by (induction n) (auto intro!: calm_bind calm_basic split: option.split simp del: step_simps)

lemma calm_proposals_to_accept: "calm proposals_to_accept"
  using calm_accept_loop by (auto simp: calm_def proposals_to_accept_def)

lemma calm_accept_commit: "calm (accept_commit net)"
  unfolding accept_commit_def
proof (intro calm_bind calm_proposals_to_accept calm_each calm_accept_phase)
  show "calm (if r = AcceptIsEventDriven then step_return () else step_panic)" for r
    by (simp add: calm_basic del: step_simps)
  show "calm (\<lambda>ag. if \<not> acceptors_send_learns (pa_config ag)
      then (let (ls, ag1) = learns_to_commit ag in step_each broadcast_learn ls ag1) else step_return () ag)"
    using calm_each [OF calm_broadcast_learn] learn_loop_phase
    by (fastforce simp: calm_def learns_to_commit_def split_def Let_def)
  show "calm (\<lambda>ag. let (rs, ag1) = collect_client_responses ag in step_return (if rs = [] then None else Some rs) ag1)"
    by (auto simp: calm_def collect_client_responses_def Let_def)
qed

lemma calm_process_executed: "calm (process_executed cd c ex)"
proof -
  have "calm (step_update (\<lambda>ag. if \<not> pr_is_leader (pa_proposer ag) then ag else foldl executed_one ag (ex_results ex)))"
    by (rule calm_update) (simp add: fold_executed_phase)
  then have "calm (step_bind
      (if b then on_proposer_saved k else step_return ())
      (\<lambda>_. step_update (\<lambda>ag. if \<not> pr_is_leader (pa_proposer ag) then ag else foldl executed_one ag (ex_results ex))))" for b k
    by (cases b) (auto intro!: calm_bind calm_basic simp del: step_simps)
  note step = calm_cong [OF this]
  show ?thesis unfolding calm_def process_executed_def by (intro allI impI) (rule step)
qed

lemma calm_pa_retry_learns: "calm (pa_retry_learns net r)"
proof -
  have "calm (step_bind (accept_phase net v s b initial) (\<lambda>_. step_return ()))" for v s b initial
    by (intro calm_bind calm_accept_phase calm_basic)
  then have "calm (pa_retry_one net s)" for s
    using calm_broadcast_learn
    by (fastforce simp: calm_def pa_retry_one_def split: option.splits)
  then show ?thesis unfolding pa_retry_learns_def by (rule calm_each)
qed

lemma handle_promise_phase:
  "pa_phase (handle_promise pr n ag) \<in> {pa_phase ag, next_phase (Some True) (pa_phase ag)}"
  by (simp add: handle_promise_def split_def Let_def handle_prepare_result_def advance_phase_def split: option.split)

lemma handle_accepted_phase: "pa_phase (handle_accepted a n ag) = pa_phase ag"
  by (simp add: handle_accepted_def split_def Let_def split: option.split)

text \<open>A step that moves the phase along the machine and sends no prepare.\<close>

definition steady :: "(proposer_agent, 'a) step \<Rightarrow> bool" where
  "steady m \<longleftrightarrow>
     (\<forall>ag x out ag'. m ag = Some (x, out, ag') \<longrightarrow> phase_step (pa_phase ag) (pa_phase ag') \<and> quiet out)"

lemma calm_steady: "calm m \<Longrightarrow> steady m"
  by (auto simp: calm_def steady_def intro: phase_step.intros)

lemma steady_then_calm: "steady m \<Longrightarrow> (\<And>x. calm (f x)) \<Longrightarrow> steady (step_bind m f)"
  by (force simp: steady_def calm_def step_bind_Some)

lemma steady_update: "(\<And>ag. phase_step (pa_phase ag) (pa_phase (f ag))) \<Longrightarrow> steady (step_update f)"
  by (auto simp: steady_def)

lemma steady_handle_message: "steady (pa_handle_message cd net c m)"
  unfolding pa_handle_message_def
proof (rule steady_then_calm)
  show "calm (step_get (\<lambda>ag. pa_message ag Ignore))" by (rule calm_basic)
  have promise: "steady (step_update (handle_promise pr n))" for pr n
    by (rule steady_update) (use handle_promise_phase phase_step_next phase_step.stay in \<open>metis insertE singletonD\<close>)
  have accepted: "steady (step_update (handle_accepted a n))" for a n
    by (rule calm_steady, rule calm_update) (rule handle_accepted_phase)
  have retry: "steady (\<lambda>ag. if \<not> pr_is_leader (pa_proposer ag) then step_return () ag else pa_retry_learns net r ag)" for r
    by (rule calm_steady) (use calm_pa_retry_learns in \<open>auto simp: calm_def\<close>)
  have adu: "steady (step_bind (on_proposer_saved k) (\<lambda>_. step_update (\<lambda>ag. ag\<lparr>has_received_adu := True\<rparr>)))" for k
    by (intro calm_steady calm_bind calm_basic calm_update) simp
  show "steady (case payload m of
          PromiseMsg pr \<Rightarrow> step_update (handle_promise pr (sender m))
        | AcceptedMsg a \<Rightarrow> step_update (handle_accepted a (sender m))
        | RetryLearnsMsg r \<Rightarrow>
            (\<lambda>ag. if \<not> pr_is_leader (pa_proposer ag) then step_return () ag else pa_retry_learns net r ag)
        | ExecutedMsg ex \<Rightarrow> process_executed cd c ex
        | AduMsg adu \<Rightarrow>
            step_bind (on_proposer_saved (\<lambda>p. map_option (Pair ()) (proposer_set_adu cd c adu p)))
              (\<lambda>_. step_update (\<lambda>ag. ag\<lparr>has_received_adu := True\<rparr>))
        | _ \<Rightarrow> step_return ())"
    by (simp add: promise accepted retry adu calm_steady [OF calm_process_executed] calm_steady [OF calm_basic(1)]
        del: step_simps split: message_payload.split)
qed

text \<open>The tick in \<open>PrepareSend\<close>: with replies that come as messages it sends the prepare.\<close>

lemma prepare_phase_event_driven:
  assumes "is_event_driven (pa_config ag)"
  shows "prepare_phase net c s b [] ag =
    Some (PrepareIsEventDriven, [(pa_acceptors ag, pa_message ag (PrepareMsg \<lparr>prep_slot = s, prep_ballot = b\<rparr>))],
      start_prepare_round c ag)"
  using assms by (simp add: prepare_phase_def broadcast_prepare_def)

lemma prepare_tick:
  assumes "pa_phase ag = PrepareSend"
  shows "pa_handle_tick cd net c ag =
    (if \<not> is_event_driven (pa_config ag) then None
     else case increase_ballot cd c (pa_proposer ag) of
       None \<Rightarrow> None
     | Some (b, p) \<Rightarrow>
        Some (None, [(pa_acceptors ag, pa_message ag (PrepareMsg \<lparr>prep_slot = pr_adu (pa_proposer ag) + 1, prep_ballot = b\<rparr>))],
          ag\<lparr>pa_proposer := p, pa_phase := PreparePending, last_prepare_start := Some (clk_now c)\<rparr>))"
proof (cases "increase_ballot cd c (pa_proposer ag)")
  case None
  then show ?thesis
    using assms by (simp add: pa_handle_tick_def Let_def step_bind_def on_proposer_saved_def)
next
  case (Some bp)
  obtain b p where bp: "bp = (b, p)" by fastforce
  then have saved: "on_proposer_saved (increase_ballot cd c) ag = Some (b, [], ag\<lparr>pa_proposer := p\<rparr>)"
    using Some by (simp add: on_proposer_saved_def)
  show ?thesis
  proof (cases "is_event_driven (pa_config ag)")
    case True
    then show ?thesis
      using assms Some bp saved
      by (simp add: pa_handle_tick_def Let_def prepare_phase_event_driven start_prepare_round_def
          advance_phase_def next_phase_def pa_message_def)
  next
    case False
    then have "\<exists>res ag'. prepare_phase net c s b [] (ag\<lparr>pa_proposer := p\<rparr>) = Some (res, [], ag') \<and> res \<noteq> PrepareIsEventDriven" for s
      by (auto simp: prepare_phase_def broadcast_prepare_def on_proposer_def Let_def split_def process_prepare_def)
    then obtain res ag' where "prepare_phase net c (pr_adu (pa_proposer ag) + 1) b [] (ag\<lparr>pa_proposer := p\<rparr>) = Some (res, [], ag')"
      "res \<noteq> PrepareIsEventDriven" by blast
    then show ?thesis
      using assms False saved by (simp add: pa_handle_tick_def Let_def)
  qed
qed

lemma steady_tick_elsewhere:
  assumes "pa_phase ag \<noteq> PrepareSend" and "pa_handle_tick cd net c ag = Some (x, out, ag')"
  shows "phase_step (pa_phase ag) (pa_phase ag') \<and> quiet out"
proof (cases "pa_phase ag")
  case Start
  with assms(2) show ?thesis
    by (auto simp: pa_handle_tick_def step_bind_Some get_learner_adu_def pa_message_def start_leader_loop_def
        intro: phase_step.intros split: if_splits)
next
  case PreparePending
  with assms(2) show ?thesis
    by (auto simp: pa_handle_tick_def step_bind_Some check_prepare_timeout_def advance_phase_def
        intro: phase_step_next split: if_splits option.splits intro: phase_step.intros)
next
  case AcceptCommit
  with assms(2) have "accept_commit net ag = Some (x, out, ag')" by (simp add: pa_handle_tick_def)
  from calm_cong [OF calm_accept_commit this] show ?thesis by (simp add: phase_step.stay)
qed (use assms in \<open>auto simp: pa_handle_tick_def intro: phase_step.intros\<close>)

text \<open>Every event moves the phase along the machine, and a prepare leaves only \<open>PrepareSend\<close>.\<close>

lemma pa_step_phase:
  assumes "pa_step cd net e ag = Some (u, out, ag')"
  shows "phase_step (pa_phase ag) (pa_phase ag') \<and> (quiet out \<or> snd e = PaTick \<and> pa_phase ag = PrepareSend)"
proof (cases e)
  case (Pair c ev)
  have steady: "phase_step (pa_phase ag) (pa_phase ag') \<and> quiet out"
    if "steady m" "step_bind m (\<lambda>_. step_return ()) ag = Some (u, out, ag')" for m :: "(proposer_agent, 'b) step"
    using steady_then_calm [OF that(1) calm_basic(1), of "\<lambda>_. ()"] that(2) unfolding steady_def by blast
  show ?thesis
  proof (cases ev)
    case PaTick
    with assms Pair obtain x where run: "pa_handle_tick cd net c ag = Some (x, out, ag')"
      by (auto simp: step_bind_Some)
    show ?thesis
    proof (cases "pa_phase ag = PrepareSend")
      case True
      with run show ?thesis
        by (auto simp: Pair PaTick prepare_tick split: if_splits option.splits intro: phase_step.intros)
    next
      case False
      with steady_tick_elsewhere [OF _ run] show ?thesis by simp
    qed
  next
    case (PaReceive m)
    with steady [OF steady_handle_message] assms Pair show ?thesis by simp
  next
    case (PaSubmit v)
    with steady [of "submit_client_request v"] assms Pair show ?thesis
      by (simp add: submit_client_request_def calm_steady calm_basic del: step_simps)
  next
    case PaBecomeLeader
    with steady [of "pa_become_leader cd c"] assms Pair show ?thesis
      by (simp add: pa_become_leader_def calm_steady calm_basic del: step_simps)
  next
    case PaResignLeader
    with steady [of pa_resign_leader] assms Pair show ?thesis
      by (simp add: pa_resign_leader_def calm_steady calm_basic del: step_simps)
  qed
qed

text \<open>So a proposer that has once reached \<open>AcceptCommit\<close> never prepares again.\<close>

lemma pa_run_accept_commit:
  "pa_run cd net es ag = Some (u, out, ag') \<Longrightarrow> pa_phase ag = AcceptCommit \<Longrightarrow>
   pa_phase ag' = AcceptCommit \<and> quiet out"
proof (induction es arbitrary: ag out)
  case Nil
  then show ?case by (simp add: pa_run_def)
next
  case (Cons e es)
  then obtain out1 ag1 out2 where step: "pa_step cd net e ag = Some ((), out1, ag1)"
      "pa_run cd net es ag1 = Some (u, out2, ag')" "out = out1 @ out2"
    by (auto simp: pa_run_def step_bind_Some)
  with pa_step_phase [OF step(1)] Cons.prems(2) have "pa_phase ag1 = AcceptCommit" "quiet out1"
    by (auto elim: phase_step_acceptE)
  with Cons.IH [OF step(2)] step(3) show ?case by simp
qed

section \<open>Quorums\<close>

text \<open>The number of acceptors reaches the agent as a \<open>usize\<close>, the core as a \<open>u64\<close>.\<close>

lemma agent_quorum_eq: "unat n < 2 ^ 32 \<Longrightarrow> agent_quorum (as_usize n) = proposer_quorum n"
  by (simp add: agent_quorum_def proposer_quorum_def as_usize_def unat_word_ariths unat_div)

interpretation agent_majority: majority "\<lambda>n. agent_quorum (as_usize n)"
  by unfold_locales
    (simp_all add: agent_quorum_eq proposer_majority.majority_threshold proposer_majority.threshold_reachable)

definition replies_ok :: "(slot, (u64, 'v) hash_map) btree_map \<Rightarrow> bool" where
  "replies_ok m \<longleftrightarrow> bt_ok m \<and> (\<forall>k e. bt_get m k = Some e \<longrightarrow> hm_ok e)"

lemma entry_of_ok: "replies_ok m \<Longrightarrow> hm_ok (entry_of m k)"
  by (auto simp: replies_ok_def entry_of_def hm_ok_def split: option.split)

lemma replies_ok_insert:
  "replies_ok m \<Longrightarrow> replies_ok (bt_insert k (hm_insert n v (entry_of m k)) m)"
  using entry_of_ok [of m k]
  by (auto simp: replies_ok_def dict_simps bt_insert_sorted hm.ok_ins split: if_splits)

lemma entry_of_insert:
  "replies_ok m \<Longrightarrow> entry_of (bt_insert k e m) k = e"
  by (simp add: entry_of_def replies_ok_def dict_simps)

text \<open>The senders whose latest reply for a slot accepts a proposal.\<close>

definition acceptors_of :: "proposer_agent \<Rightarrow> proposal \<Rightarrow> u64 set" where
  "acceptors_of ag prop =
     {i. \<exists>a. hm_get (entry_of (in_flight_accepted ag) (prop_slot prop)) i = Some a \<and> matching prop a}"

lemma card_matching:
  "hm_ok m \<Longrightarrow> card {i. \<exists>a. hm_get m i = Some a \<and> P a} = length (filter P (map snd m))"
proof (induction m)
  case Nil
  then show ?case by simp
next
  case (Cons e m)
  obtain k v where e: "e = (k, v)" by fastforce
  from Cons.prems e have ok: "hm_ok m" and k: "hm_get m k = None"
    by (auto simp: hm_ok_def map_of_eq_None_iff)
  let ?S = "{i. \<exists>a. hm_get m i = Some a \<and> P a}"
  have "{i. \<exists>a. hm_get (e # m) i = Some a \<and> P a} = (if P v then insert k ?S else ?S)"
    using e k by (auto split: if_splits)
  moreover have "finite ?S"
    by (rule finite_subset [OF _ finite_dom_map_of [of m]]) auto
  moreover have "k \<notin> ?S" using k by simp
  ultimately show ?case using Cons.IH [OF ok] e by simp
qed

lemma card_acceptors_of:
  "replies_ok (in_flight_accepted ag) \<Longrightarrow> card (acceptors_of ag prop) =
     length (filter (matching prop) (map snd (entry_of (in_flight_accepted ag) (prop_slot prop))))"
  unfolding acceptors_of_def by (rule card_matching [OF entry_of_ok])

text \<open>A proposal is under its own slot.\<close>

definition slots_ok :: "proposer \<Rightarrow> bool" where
  "slots_ok p \<longleftrightarrow> bt_ok (proposals p) \<and>
     (\<forall>s e. bt_get (proposals p) s = Some e \<longrightarrow> prop_slot (pe_proposal e) = s)"

lemma handle_accepted_eq:
  assumes "replies_ok (in_flight_accepted ag)"
    and "agent_quorum (pa_num_acceptors ag) = proposer_quorum (pr_num_acceptors (pa_proposer ag))"
    and "slots_ok (pa_proposer ag)"
    and "get_proposal_by_status (ad_slot a) InFlight (pa_proposer ag) = Some prop"
  shows "pa_proposer (handle_accepted a n ag) =
    (if proposer_quorum (pr_num_acceptors (pa_proposer ag)) \<le>
        card (acceptors_of (snd (insert_and_check_accepted a n ag)) prop)
     then snd (mark_proposal_chosen (ad_slot a) (pa_proposer ag)) else pa_proposer ag)"
proof -
  let ?ag = "snd (insert_and_check_accepted a n ag)"
  let ?m = "hm_insert (node_id n) a (entry_of (in_flight_accepted ag) (ad_slot a))"
  have slot: "prop_slot prop = ad_slot a"
    using assms(3,4) by (auto simp: slots_ok_def get_proposal_by_status_Some)
  have ag: "in_flight_accepted ?ag = bt_insert (ad_slot a) ?m (in_flight_accepted ag)"
    by (simp add: insert_and_check_accepted_def Let_def)
  then have entry: "entry_of (in_flight_accepted ?ag) (prop_slot prop) = ?m"
    by (simp add: slot entry_of_insert assms(1))
  have "replies_ok (in_flight_accepted ?ag)" unfolding ag by (rule replies_ok_insert [OF assms(1)])
  then have card: "card (acceptors_of ?ag prop) = length (filter (matching prop) (map snd ?m))"
    by (simp add: card_acceptors_of entry)
  have fst: "fst (insert_and_check_accepted a n ag) =
      (if agent_quorum (pa_num_acceptors ag) \<le> length ?m then Some (ad_slot a, map snd ?m) else None)"
    by (simp add: insert_and_check_accepted_def Let_def)
  have "length (filter (matching prop) (map snd ?m)) \<le> length ?m"
    using length_filter_le [of "matching prop" "map snd ?m"] by (simp only: length_map)
  then have enough: "proposer_quorum (pr_num_acceptors (pa_proposer ag)) \<le> length ?m"
    if "proposer_quorum (pr_num_acceptors (pa_proposer ag)) \<le> card (acceptors_of ?ag prop)"
    using that card by linarith
  show ?thesis
    using assms(2,4) fst card [symmetric] enough
    by (auto simp: handle_accepted_def split_def Let_def process_accept_eq handle_accept_result_def
        split: option.split accept_result.split)
qed

lemma mark_proposal_chosen_status:
  "bt_ok (proposals p) \<Longrightarrow> get_proposal_by_status s InFlight p = Some prop \<Longrightarrow>
   get_proposal_by_status s Chosen (snd (mark_proposal_chosen s p)) = Some prop"
  by (auto simp: get_proposal_by_status_Some mark_proposal_chosen_eq dict_simps)

section \<open>Proposals of a tick\<close>

lemma create_proposal_leader: "pr_is_leader (snd (create_proposal p)) = pr_is_leader p"
  "current_ballot (snd (create_proposal p)) = current_ballot p"
proof -
  obtain r p1 where nv: "next_value p = (r, p1)" by fastforce
  then have "pr_is_leader p1 = pr_is_leader p" "current_ballot p1 = current_ballot p"
    using next_value_simps(3,5) [of p] by simp_all
  with nv show "pr_is_leader (snd (create_proposal p)) = pr_is_leader p"
    "current_ballot (snd (create_proposal p)) = current_ballot p"
    by (auto simp: create_proposal_def get_next_slot_def Let_def split: option.split)
qed

lemma accept_loop_exact:
  assumes "pr_is_leader (pa_proposer ag)" and "slot_crash_list ag = []"
  shows "\<exists>props ag'. accept_loop n ag = Some (props, [], ag') \<and>
    length props = min n (length (prioritized_values (pa_proposer ag) @ pending_client_requests (pa_proposer ag))) \<and>
    map prop_value props = take n (prioritized_values (pa_proposer ag) @ pending_client_requests (pa_proposer ag)) \<and>
    map prop_slot props = map (\<lambda>i. current_slot (pa_proposer ag) + 1 + of_nat i) [0..<length props] \<and>
    (\<forall>prop \<in> set props. prop_ballot prop = current_ballot (pa_proposer ag))"
  using assms
proof (induction n arbitrary: ag)
  case 0
  then show ?case by simp
next
  case (Suc n)
  let ?p = "pa_proposer ag"
  show ?case
  proof (cases "fst (create_proposal ?p)")
    case None
    then have "prioritized_values ?p @ pending_client_requests ?p = []"
      using Suc.prems create_proposal_Some [of ?p "\<lparr>prop_slot = current_slot ?p + 1, prop_ballot = current_ballot ?p,
        prop_value = hd (prioritized_values ?p @ pending_client_requests ?p)\<rparr>"]
      by (cases "prioritized_values ?p @ pending_client_requests ?p") auto
    with None show ?thesis by (auto simp: on_proposer_def split_def)
  next
    case (Some pr)
    let ?ag = "ag\<lparr>pa_proposer := snd (create_proposal ?p)\<rparr>"
    from Suc.IH [of ?ag] Suc.prems obtain props ag' where IH: "accept_loop n ?ag = Some (props, [], ag')"
      "length props = min n (length (prioritized_values (pa_proposer ?ag) @ pending_client_requests (pa_proposer ?ag)))"
      "map prop_value props = take n (prioritized_values (pa_proposer ?ag) @ pending_client_requests (pa_proposer ?ag))"
      "map prop_slot props = map (\<lambda>i. current_slot (pa_proposer ?ag) + 1 + of_nat i) [0..<length props]"
      "\<forall>prop \<in> set props. prop_ballot prop = current_ballot (pa_proposer ?ag)"
      by (auto simp: create_proposal_leader)
    from Some obtain vs where q: "prop_slot pr = current_slot ?p + 1" "prop_ballot pr = current_ballot ?p"
      "prioritized_values ?p @ pending_client_requests ?p = prop_value pr # vs"
      by (auto simp: create_proposal_Some)
    note state = create_proposal_state [OF Some]
    have "accept_loop (Suc n) ag = Some (pr # props, [], ag')"
      using Some IH(1) Suc.prems by (simp add: on_proposer_def split_def)
    moreover have "map prop_slot (pr # props) = map (\<lambda>i. current_slot ?p + 1 + of_nat i) [0..<length (pr # props)]"
      using IH(4) q(1) state(1)
      by (simp add: upt_conv_Cons map_Suc_upt [symmetric] del: upt_Suc)
    ultimately show ?thesis
      using IH(2,3,5) q state(4) create_proposal_leader by (intro exI [of _ "pr # props"] exI [of _ ag']) simp
  qed
qed

section \<open>Executed results\<close>

text \<open>A slot that no more answer comes from: no proposal, or a finalized one.\<close>

definition settled :: "slot \<Rightarrow> proposer \<Rightarrow> bool" where
  "settled s p \<longleftrightarrow> (\<forall>e. bt_get (proposals p) s = Some e \<longrightarrow> pe_status e = Finalized)"

lemma mark_settled: "settled s p \<Longrightarrow> mark_proposal_finalized s p = (None, p)"
  by (auto simp: settled_def mark_proposal_finalized_eq split: option.split)

lemma executed_one_settled: "settled (er_slot r) (pa_proposer ag) \<Longrightarrow> executed_one ag r = ag"
  by (simp add: executed_one_def mark_settled)

lemma enqueue_proposals [simp]: "proposals (enqueue_prioritized_request v p) = proposals p"
  by (simp add: enqueue_prioritized_request_def)

lemma executed_one_settles:
  assumes "bt_ok (proposals (pa_proposer ag))"
  shows "settled (er_slot r) (pa_proposer (executed_one ag r))"
    and "settled s (pa_proposer ag) \<Longrightarrow> settled s (pa_proposer (executed_one ag r))"
    and "bt_ok (proposals (pa_proposer (executed_one ag r)))"
    and "pr_adu (pa_proposer (executed_one ag r)) = pr_adu (pa_proposer ag)"
  using assms
  by (auto simp: executed_one_def mark_proposal_finalized_eq settled_def set_status_def dict_simps bt_insert_sorted
      enqueue_prioritized_request_def split: option.split if_splits)

lemma executed_fold_settles:
  assumes "bt_ok (proposals (pa_proposer ag))"
  shows "(\<forall>r \<in> set rs. settled (er_slot r) (pa_proposer (foldl executed_one ag rs))) \<and>
    (\<forall>s. settled s (pa_proposer ag) \<longrightarrow> settled s (pa_proposer (foldl executed_one ag rs))) \<and>
    pr_adu (pa_proposer (foldl executed_one ag rs)) = pr_adu (pa_proposer ag)"
  using assms
proof (induction rs arbitrary: ag)
  case (Cons r rs)
  note one = executed_one_settles [OF Cons.prems, where r = r]
  from Cons.IH [OF one(3)] one(1,2,4) show ?case by simp
qed simp

lemma executed_fold_idle:
  "\<forall>r \<in> set rs. settled (er_slot r) (pa_proposer ag) \<Longrightarrow> foldl executed_one ag rs = ag"
  by (induction rs) (simp_all add: executed_one_settled)

lemma process_executed_leader:
  assumes "process_executed cd c ex ag = Some ((), out, ag1)" and "pr_is_leader (pa_proposer ag)"
    and "bt_ok (proposals (pa_proposer ag))"
  shows "out = [] \<and> (\<forall>r \<in> set (ex_results ex). settled (er_slot r) (pa_proposer ag1)) \<and> ex_adu ex \<le> pr_adu (pa_proposer ag1)"
proof -
  obtain ag0 where ag0: "out = []" "ag1 = (if \<not> pr_is_leader (pa_proposer ag0) then ag0 else foldl executed_one ag0 (ex_results ex))"
      "pr_is_leader (pa_proposer ag0)"
      "bt_ok (proposals (pa_proposer ag0))" "ex_adu ex \<le> pr_adu (pa_proposer ag0)"
  proof (cases "pr_adu (pa_proposer ag) < ex_adu ex")
    case True
    with assms(1) obtain p where p: "save_proposer cd c ((pa_proposer ag)\<lparr>pr_adu := ex_adu ex\<rparr>) = Some p"
        "out = []" "ag1 = (let ag0 = ag\<lparr>pa_proposer := p\<rparr> in
          if \<not> pr_is_leader (pa_proposer ag0) then ag0 else foldl executed_one ag0 (ex_results ex))"
      by (auto simp: process_executed_def step_bind_Some on_proposer_saved_def proposer_set_adu_def Let_def)
    with save_proposer_fields [OF p(1)] assms(2,3) that [of "ag\<lparr>pa_proposer := p\<rparr>"] show thesis by simp
  next
    case False
    with assms that [of ag] show thesis
      by (auto simp: process_executed_def step_bind_Some not_less)
  qed
  with executed_fold_settles [OF ag0(4)] show ?thesis by simp
qed

lemma process_executed_idle:
  assumes "\<forall>r \<in> set (ex_results ex). settled (er_slot r) (pa_proposer ag)" and "ex_adu ex \<le> pr_adu (pa_proposer ag)"
  shows "process_executed cd c ex ag = Some ((), [], ag)"
  using assms executed_fold_idle [OF assms(1)]
  by (simp add: process_executed_def leD)

section \<open>Late promises\<close>

text \<open>
  A promise that completes a quorum after the round has timed out moves the phase to
  \<open>PreparePending\<close> without a start time, and no tick leaves that phase any more.
\<close>

lemma handle_promise_start [simp]: "last_prepare_start (handle_promise pr n ag) = last_prepare_start ag"
  by (simp add: handle_promise_def split_def Let_def handle_prepare_result_def advance_phase_def split: option.split)

lemma pending_without_start:
  "pa_phase ag = PreparePending \<Longrightarrow> last_prepare_start ag = None \<Longrightarrow>
   pa_handle_tick cd net c ag = Some (None, [], ag)"
  by (simp add: pa_handle_tick_def check_prepare_timeout_def)

lemma timeout_clears_start:
  "pa_phase ag = PreparePending \<Longrightarrow> last_prepare_start ag = Some t \<Longrightarrow>
   from_millis (prepare_timeout (pa_config ag)) \<le> clk_now c - t \<Longrightarrow>
   pa_handle_tick cd net c ag = Some (None, [], ag\<lparr>pa_phase := PrepareSend, last_prepare_start := None\<rparr>)"
  by (simp add: pa_handle_tick_def check_prepare_timeout_def advance_phase_def next_phase_def)

text \<open>
  A promise that arrives after the quorum, when exactly the first slot of the round has been
  proposed, resets the current slot.
\<close>

lemma late_promise_slot:
  assumes "fst (create_proposal p) = Some pr" and "prom_slot m = prop_slot pr" and "0 < prom_slot m"
    and "fst (insert_and_check_promises m n ag) = Some (b, ps)" and "pa_proposer ag = snd (create_proposal p)"
    and "fst (process_prepare (prom_slot m) ps (pa_proposer ag)) = PrepareSuccess"
    and "fst (create_proposal (pa_proposer (handle_promise m n ag))) = Some pr'"
  shows "prop_slot pr' = prop_slot pr \<and> prop_ballot pr' = prop_ballot pr"
proof -
  let ?q = "snd (process_prepare (prom_slot m) ps (pa_proposer ag))"
  have slot: "prop_slot pr = current_slot p + 1" "prop_ballot pr = current_ballot p"
    using assms(1) by (auto simp: create_proposal_Some)
  have cur: "current_slot (pa_proposer ag) = prom_slot m" "current_ballot (pa_proposer ag) = prop_ballot pr"
    using create_proposal_state(1) [OF assms(1)] create_proposal_leader(2) slot assms(2,5) by simp_all
  have "pa_proposer (handle_promise m n ag) = ?q"
    using assms(4) by (simp add: handle_promise_def split_def Let_def handle_prepare_result_def advance_phase_def)
  moreover have "current_slot ?q = prom_slot m - 1"
    using process_prepare_queued(2) [OF assms(6)] cur(1) assms(3)
    by (simp add: saturating_sub_def word_le_nat_alt word_less_nat_alt)
  moreover have "current_ballot ?q = prop_ballot pr"
    using cur(2) by (simp add: process_prepare_def Let_def split_def collect_accepted_values_def enqueue_prioritized_fields)
  ultimately show ?thesis
    using assms(2,7) by (auto simp: create_proposal_Some)
qed

end
