(* ===== verification/Leader_Detector.thy ===== *)
theory Leader_Detector
  imports Paxos_Types
begin

text \<open>
  The leader detector (\<open>paxos-wasm/core/leader-detector/src/leader-detector.rs\<close>): the leader
  is the proposer with the highest id that is not suspected.
\<close>

record leader_detector =
  ld_proposers :: "u64 list"
  ld_suspected :: "(u64, bool) hash_map"
  last_leader :: "u64 option"

text \<open>\<open>Iterator::max\<close>\<close>

fun iter_max :: "'a::linorder list \<Rightarrow> 'a option" where
  "iter_max [] = None"
| "iter_max (x # xs) = Some (fold max xs x)"

definition is_suspected :: "leader_detector \<Rightarrow> u64 \<Rightarrow> bool" where
  "is_suspected ld i = (case hm_get (ld_suspected ld) i of Some b \<Rightarrow> b | None \<Rightarrow> False)"

definition recompute_leader :: "leader_detector \<Rightarrow> u64 option" where
  "recompute_leader ld = iter_max (filter (\<lambda>i. \<not> is_suspected ld i) (ld_proposers ld))"

definition is_proposer_role :: "node \<Rightarrow> bool" where
  "is_proposer_role n \<longleftrightarrow> role n = Coordinator \<or> role n = Proposer"

text \<open>The initial leader is found by its own loop, not by \<open>recompute_leader\<close>.\<close>

definition initial_leader :: "u64 list \<Rightarrow> u64 option" where
  "initial_leader ids =
     foldl (\<lambda>max_id i. case max_id of None \<Rightarrow> Some i
                          | Some m \<Rightarrow> if m < i then Some i else Some m) None ids"

definition ld_new :: "node list \<Rightarrow> node \<Rightarrow> leader_detector" where
  "ld_new all local =
     (let ids = map node_id (filter is_proposer_role all) in
      \<lparr>ld_proposers = ids,
       ld_suspected = foldl (\<lambda>m i. hm_insert i False m) [] ids,
       last_leader = initial_leader ids\<rparr>)"

definition ld_update :: "u64 \<Rightarrow> bool \<Rightarrow> leader_detector \<Rightarrow> u64 option \<times> leader_detector" where
  "ld_update i flag ld =
     (let ld' = ld\<lparr>ld_suspected := hm_insert i flag (ld_suspected ld)\<rparr>;
          new_leader = recompute_leader ld' in
      if new_leader \<noteq> last_leader ld'
      then (new_leader, ld'\<lparr>last_leader := new_leader\<rparr>)
      else (None, ld'))"

definition ld_suspect :: "u64 \<Rightarrow> leader_detector \<Rightarrow> u64 option \<times> leader_detector" where
  "ld_suspect i ld = (if i \<notin> set (ld_proposers ld) then (None, ld) else ld_update i True ld)"

definition ld_restore :: "u64 \<Rightarrow> leader_detector \<Rightarrow> u64 option \<times> leader_detector" where
  "ld_restore i ld = (if i \<notin> set (ld_proposers ld) then (None, ld) else ld_update i False ld)"

lemmas ld_defs [ops_def] = ld_update_def ld_suspect_def ld_restore_def

section \<open>The leader is the highest live proposer\<close>

lemma iter_max_Some: "iter_max xs = Some m \<longleftrightarrow> m \<in> set xs \<and> (\<forall>x \<in> set xs. x \<le> m)"
proof (cases xs)
  case (Cons y ys)
  then have "iter_max xs = Some (Max (set xs))" by (simp add: Max.set_eq_fold del: set_simps)
  with Cons show ?thesis
    by (metis List.finite_set Max_eqI Max_ge Max_in list.distinct(1) option.inject set_empty2)
qed simp

lemma iter_max_None: "iter_max xs = None \<longleftrightarrow> xs = []"
  by (cases xs) auto

lemma initial_leader_eq: "initial_leader ids = iter_max ids"
proof -
  have "foldl (\<lambda>max_id i. case max_id of None \<Rightarrow> Some i
      | Some m \<Rightarrow> if m < i then Some i else Some m) (Some x) xs = Some (fold max xs x)"
    for x and xs :: "u64 list"
    by (induction xs arbitrary: x) (auto simp: max_def max.commute)
  then show ?thesis by (cases ids) (simp_all add: initial_leader_def)
qed

definition ld_inv :: "leader_detector \<Rightarrow> bool" where
  "ld_inv ld \<longleftrightarrow> last_leader ld = recompute_leader ld"

lemma ld_new_unsuspected: "\<not> is_suspected (ld_new all local) i"
proof -
  have "hm_get (foldl (\<lambda>m i. hm_insert i False m) m ids) i = Some b \<Longrightarrow>
      hm_get m i = Some b \<or> \<not> b" for m ids b
    by (induction ids arbitrary: m) (fastforce simp: dict_simps split: if_splits)+
  from this [of "[]"] show ?thesis
    by (auto simp: is_suspected_def ld_new_def Let_def split: option.splits)
qed

lemma ld_new_inv: "ld_inv (ld_new all local)"
  using ld_new_unsuspected [of all local]
  by (simp add: ld_inv_def recompute_leader_def ld_new_def Let_def initial_leader_eq)

lemma ld_update_inv: "ld_inv (snd (ld_update i flag ld))"
  by (auto simp: ld_inv_def ld_update_def Let_def recompute_leader_def is_suspected_def)

lemma ld_suspect_inv: "ld_inv ld \<Longrightarrow> ld_inv (snd (ld_suspect i ld))"
  by (simp add: ld_suspect_def ld_update_inv)

lemma ld_restore_inv: "ld_inv ld \<Longrightarrow> ld_inv (snd (ld_restore i ld))"
  by (simp add: ld_restore_def ld_update_inv)

lemma ld_proposers_update [simp]:
  "ld_proposers (snd (ld_update i flag ld)) = ld_proposers ld"
  "ld_proposers (snd (ld_suspect i ld)) = ld_proposers ld"
  "ld_proposers (snd (ld_restore i ld)) = ld_proposers ld"
  by (simp_all add: ld_defs Let_def)

lemma is_suspected_update:
  "is_suspected (snd (ld_update j flag ld)) i = (if i = j then flag else is_suspected ld i)"
  by (simp add: ld_update_def Let_def is_suspected_def dict_simps)

lemma ld_leader_spec:
  "ld_inv ld \<Longrightarrow> last_leader ld = Some l \<longleftrightarrow>
     l \<in> set (ld_proposers ld) \<and> \<not> is_suspected ld l \<and>
     (\<forall>p \<in> set (ld_proposers ld). \<not> is_suspected ld p \<longrightarrow> p \<le> l)"
  by (auto simp: ld_inv_def recompute_leader_def iter_max_Some)

lemma ld_no_leader:
  "ld_inv ld \<Longrightarrow> last_leader ld = None \<longleftrightarrow> (\<forall>p \<in> set (ld_proposers ld). is_suspected ld p)"
  by (auto simp: ld_inv_def recompute_leader_def iter_max_None filter_empty_conv)

text \<open>An answer is given exactly when the leader changes to another one.\<close>

lemma ld_update_answer:
  "fst (ld_update i flag ld) = Some l \<longleftrightarrow>
     last_leader (snd (ld_update i flag ld)) = Some l \<and> last_leader ld \<noteq> Some l"
  by (auto simp: ld_update_def Let_def)

end
