(* ===== verification/Failure_Detector.thy ===== *)
theory Failure_Detector
  imports Leader_Detector
begin

text \<open>
  The failure detector (\<open>paxos-wasm/core/failure-detector/src/failure-detector.rs\<close>): a
  periodic \<open>checker\<close> that turns a node with one missed period into \<open>Suspected\<close>, with two
  into \<open>Dead\<close>, and reports deaths and restorations to its leader detector. The agents are
  given the leader the checker answers. The lemmas relate the two detectors: the leader is
  the highest proposer that the failure detector does not hold dead.
\<close>

section \<open>State and operations\<close>

datatype failure_state = Alive | Suspected | Dead

record failure_detector =
  fd_local_id :: u64
  all_nodes :: "node list"
  fd_ld :: leader_detector
  state_map :: "(u64, failure_state) hash_map"
  seen :: "(u64, bool) hash_map"

definition fd_new :: "node \<Rightarrow> node list \<Rightarrow> u64 \<Rightarrow> failure_detector" where
  "fd_new local others delta =
     (let all = others @ [local] in
      \<lparr>fd_local_id = node_id local,
       all_nodes = all,
       fd_ld = ld_new all local,
       state_map = foldl (\<lambda>m n. hm_insert (node_id n) Alive m) [] all,
       seen = []\<rparr>)"

text \<open>\<open>states.get(&id).unwrap_or(Alive)\<close> and \<open>seen.remove(&id).unwrap_or(false)\<close>\<close>

definition fd_state :: "failure_detector \<Rightarrow> u64 \<Rightarrow> failure_state" where
  "fd_state fd i = (case hm_get (state_map fd) i of Some s \<Rightarrow> s | None \<Rightarrow> Alive)"

definition fd_seen :: "failure_detector \<Rightarrow> u64 \<Rightarrow> bool" where
  "fd_seen fd i = (case hm_get (seen fd) i of Some b \<Rightarrow> b | None \<Rightarrow> False)"

definition fd_set :: "u64 \<Rightarrow> failure_state \<Rightarrow> failure_detector \<Rightarrow> failure_detector" where
  "fd_set i s fd = fd\<lparr>state_map := hm_insert i s (state_map fd)\<rparr>"

definition fd_notify ::
  "(leader_detector \<Rightarrow> u64 option \<times> leader_detector) \<Rightarrow> u64 option \<times> failure_detector \<Rightarrow>
   u64 option \<times> failure_detector" where
  "fd_notify f = (\<lambda>(new_leader, fd).
     let (answer, ld) = f (fd_ld fd) in
     (case answer of Some l \<Rightarrow> Some l | None \<Rightarrow> new_leader, fd\<lparr>fd_ld := ld\<rparr>))"

text \<open>The body of the loop of \<open>checker\<close>.\<close>

definition check_node ::
  "u64 option \<times> failure_detector \<Rightarrow> node \<Rightarrow> u64 option \<times> failure_detector" where
  "check_node = (\<lambda>(new_leader, fd) n.
     let i = node_id n;
         current = fd_state fd i;
         was_seen = fd_seen fd i;
         fd = fd\<lparr>seen := hm_remove i (seen fd)\<rparr> in
     if was_seen then
       let (new_leader, fd) =
         (if current \<noteq> Alive then fd_notify (ld_restore i) (new_leader, fd) else (new_leader, fd))
       in (new_leader, fd_set i Alive fd)
     else
       (case current of
          Alive \<Rightarrow> (new_leader, fd_set i Suspected fd)
        | Suspected \<Rightarrow> fd_notify (ld_suspect i) (new_leader, fd_set i Dead fd)
        | Dead \<Rightarrow> (new_leader, fd)))"

definition fd_checker :: "failure_detector \<Rightarrow> u64 option \<times> failure_detector" where
  "fd_checker fd =
     (let (new_leader, fd) = foldl check_node (None, fd) (all_nodes fd) in
      (new_leader, fd\<lparr>seen := []\<rparr>))"

definition fd_heartbeat :: "u64 \<Rightarrow> failure_detector \<Rightarrow> failure_detector" where
  "fd_heartbeat i fd =
     fd\<lparr>seen := hm_insert (fd_local_id fd) True (hm_insert i True (seen fd))\<rparr>"

definition fd_alive_nodes :: "failure_detector \<Rightarrow> u64 list" where
  "fd_alive_nodes fd = map node_id (filter (\<lambda>n. fd_state fd (node_id n) \<noteq> Dead) (all_nodes fd))"

lemmas fd_defs [ops_def] =
  fd_state_def fd_seen_def fd_set_def fd_notify_def check_node_def fd_heartbeat_def

section \<open>One period\<close>

text \<open>What the checker makes of a node, as a state machine of its own.\<close>

fun next_state :: "bool \<Rightarrow> failure_state \<Rightarrow> failure_state" where
  "next_state True s = Alive"
| "next_state False Alive = Suspected"
| "next_state False Suspected = Dead"
| "next_state False Dead = Dead"

definition fd_leader :: "failure_detector \<Rightarrow> u64 option" where
  "fd_leader fd = last_leader (fd_ld fd)"

definition proposer_ids :: "failure_detector \<Rightarrow> u64 list" where
  "proposer_ids fd = map node_id (filter is_proposer_role (all_nodes fd))"

text \<open>The two detectors agree: the suspected proposers are the dead ones.\<close>

definition fd_inv :: "failure_detector \<Rightarrow> bool" where
  "fd_inv fd \<longleftrightarrow> ld_inv (fd_ld fd) \<and> ld_proposers (fd_ld fd) = proposer_ids fd \<and>
     (\<forall>i \<in> set (proposer_ids fd). is_suspected (fd_ld fd) i \<longleftrightarrow> fd_state fd i = Dead)"

lemma check_node_state:
  "fd_state (snd (check_node (l, fd) n)) i =
     (if i = node_id n then next_state (fd_seen fd i) (fd_state fd i) else fd_state fd i)"
  by (cases "hm_get (state_map fd) (node_id n)"; cases "hm_get (seen fd) (node_id n)";
      cases "fd_state fd (node_id n)")
    (auto simp: fd_defs Let_def dict_simps split: prod.splits option.splits)

lemma check_node_seen:
  "i \<noteq> node_id n \<Longrightarrow> fd_seen (snd (check_node (l, fd) n)) i = fd_seen fd i"
  by (auto simp: fd_defs Let_def hm_remove_def map_of_filter_neq
      split: prod.splits option.splits failure_state.splits)

lemma check_node_nodes [simp]:
  "all_nodes (snd (check_node p n)) = all_nodes (snd p)"
  "fd_local_id (snd (check_node p n)) = fd_local_id (snd p)"
  by (auto simp: fd_defs Let_def split: prod.splits failure_state.splits)

lemma check_node_proposer_ids [simp]: "proposer_ids (snd (check_node p n)) = proposer_ids (snd p)"
  by (simp add: proposer_ids_def)

lemma check_nodes_all_nodes [simp]:
  "all_nodes (snd (foldl check_node p ns)) = all_nodes (snd p)"
  "fd_local_id (snd (foldl check_node p ns)) = fd_local_id (snd p)"
  by (induction ns arbitrary: p) (simp_all add: split_def)

lemma check_nodes_state:
  "distinct (map node_id ns) \<Longrightarrow>
   fd_state (snd (foldl check_node (l, fd) ns)) i =
     (if i \<in> node_id ` set ns then next_state (fd_seen fd i) (fd_state fd i) else fd_state fd i)"
proof (induction ns arbitrary: l fd)
  case (Cons n ns)
  obtain l' fd' where step: "check_node (l, fd) n = (l', fd')" by fastforce
  from Cons.prems have "node_id n \<notin> node_id ` set ns" by simp
  with Cons.IH [of l' fd'] Cons.prems step check_node_state [of l fd n i]
    check_node_seen [of i n l fd]
  show ?case by auto
qed simp

lemma fd_state_seen_update [simp]: "fd_state (fd\<lparr>seen := s\<rparr>) = fd_state fd"
  by (simp add: fun_eq_iff fd_state_def)

lemma fd_checker_snd: "snd (fd_checker fd) = (snd (foldl check_node (None, fd) (all_nodes fd)))\<lparr>seen := []\<rparr>"
  by (simp add: fd_checker_def split_def Let_def)

lemma fd_checker_fst: "fst (fd_checker fd) = fst (foldl check_node (None, fd) (all_nodes fd))"
  by (simp add: fd_checker_def split_def Let_def)

lemma fd_checker_state:
  assumes "distinct (map node_id (all_nodes fd))"
  shows "fd_state (snd (fd_checker fd)) i =
    (if i \<in> node_id ` set (all_nodes fd) then next_state (fd_seen fd i) (fd_state fd i)
     else fd_state fd i)"
  using check_nodes_state [OF assms] by (simp add: fd_checker_snd)

lemma fd_checker_seen: "\<not> fd_seen (snd (fd_checker fd)) i"
  by (simp add: fd_checker_snd fd_seen_def)

lemma fd_checker_nodes [simp]:
  "all_nodes (snd (fd_checker fd)) = all_nodes fd"
  "fd_local_id (snd (fd_checker fd)) = fd_local_id fd"
  by (simp_all add: fd_checker_snd)

lemma fd_heartbeat_simps [simp]:
  "all_nodes (fd_heartbeat j fd) = all_nodes fd"
  "fd_local_id (fd_heartbeat j fd) = fd_local_id fd"
  "fd_state (fd_heartbeat j fd) = fd_state fd"
  "fd_ld (fd_heartbeat j fd) = fd_ld fd"
  by (simp_all add: fd_heartbeat_def)

lemma fd_heartbeat_seen:
  "fd_seen (fd_heartbeat j fd) i \<longleftrightarrow> i = j \<or> i = fd_local_id fd \<or> fd_seen fd i"
  by (simp add: fd_heartbeat_def fd_seen_def dict_simps)

section \<open>The leader of the two detectors\<close>

lemma ld_update_eqs:
  "i \<in> set (ld_proposers ld) \<Longrightarrow> ld_suspect i ld = ld_update i True ld"
  "i \<in> set (ld_proposers ld) \<Longrightarrow> ld_restore i ld = ld_update i False ld"
  "i \<notin> set (ld_proposers ld) \<Longrightarrow> ld_suspect i ld = (None, ld)"
  "i \<notin> set (ld_proposers ld) \<Longrightarrow> ld_restore i ld = (None, ld)"
  by (simp_all add: ld_defs)

lemma check_node_ld:
  "fd_ld (snd (check_node (l, fd) n)) =
    (if fd_seen fd (node_id n)
     then (if fd_state fd (node_id n) \<noteq> Alive then snd (ld_restore (node_id n) (fd_ld fd)) else fd_ld fd)
     else (if fd_state fd (node_id n) = Suspected then snd (ld_suspect (node_id n) (fd_ld fd))
           else fd_ld fd))"
  by (auto simp: check_node_def fd_notify_def fd_set_def Let_def
      split: prod.splits failure_state.splits)

lemma is_suspected_suspect:
  "i \<in> set (ld_proposers ld) \<Longrightarrow>
   is_suspected (snd (ld_suspect j ld)) i \<longleftrightarrow> i = j \<or> is_suspected ld i"
  "i \<in> set (ld_proposers ld) \<Longrightarrow>
   is_suspected (snd (ld_restore j ld)) i \<longleftrightarrow> i \<noteq> j \<and> is_suspected ld i"
  by (cases "j \<in> set (ld_proposers ld)"; auto simp: ld_update_eqs is_suspected_update)+

lemma check_node_inv:
  assumes "fd_inv fd"
  shows "fd_inv (snd (check_node (l, fd) n))"
  unfolding fd_inv_def
proof (intro conjI ballI)
  let ?fd = "snd (check_node (l, fd) n)"
  show "ld_inv (fd_ld ?fd)"
    using assms by (simp add: fd_inv_def check_node_ld ld_suspect_inv ld_restore_inv)
  show "ld_proposers (fd_ld ?fd) = proposer_ids ?fd"
    using assms by (simp add: fd_inv_def check_node_ld)
  fix i assume "i \<in> set (proposer_ids ?fd)"
  with assms have "i \<in> set (ld_proposers (fd_ld fd))"
    and "is_suspected (fd_ld fd) i \<longleftrightarrow> fd_state fd i = Dead"
    by (simp_all add: fd_inv_def)
  then show "is_suspected (fd_ld ?fd) i \<longleftrightarrow> fd_state ?fd i = Dead"
    unfolding check_node_ld check_node_state
    by (cases "fd_state fd i"; cases "fd_seen fd i") (auto simp: is_suspected_suspect)
qed

lemma check_nodes_inv: "fd_inv (snd p) \<Longrightarrow> fd_inv (snd (foldl check_node p ns))"
proof (induction ns arbitrary: p)
  case (Cons n ns)
  then show ?case using check_node_inv [of "snd p" "fst p" n] by simp
qed simp

lemma fd_inv_seen_update [simp]: "fd_inv (fd\<lparr>seen := s\<rparr>) = fd_inv fd"
  by (simp add: fd_inv_def proposer_ids_def)

lemma fd_checker_inv: "fd_inv fd \<Longrightarrow> fd_inv (snd (fd_checker fd))"
  by (simp add: fd_checker_snd check_nodes_inv)

lemma fd_heartbeat_inv: "fd_inv fd \<Longrightarrow> fd_inv (fd_heartbeat i fd)"
  by (simp add: fd_heartbeat_def)

lemma fd_new_state: "fd_state (fd_new local others delta) i = Alive"
proof -
  have "hm_get (foldl (\<lambda>m n. hm_insert (node_id n) Alive m) m ns) i = Some s \<Longrightarrow>
      hm_get m i = Some s \<or> s = Alive" for m s and ns :: "node list"
    by (induction ns arbitrary: m) (fastforce simp: dict_simps split: if_splits)+
  from this [of "[]" "others @ [local]"] show ?thesis
    by (auto simp: fd_state_def fd_new_def Let_def split: option.splits)
qed

lemma fd_new_inv: "fd_inv (fd_new local others delta)"
proof -
  have "fd_ld (fd_new local others delta) = ld_new (others @ [local]) local"
    by (simp add: fd_new_def Let_def)
  moreover have "ld_proposers (ld_new (others @ [local]) local) = proposer_ids (fd_new local others delta)"
    by (simp add: fd_new_def ld_new_def proposer_ids_def Let_def)
  ultimately show ?thesis
    by (simp add: fd_inv_def ld_new_inv ld_new_unsuspected fd_new_state)
qed

text \<open>The runs of a failure detector: heartbeats and periods in any order.\<close>

inductive fd_reachable :: "node \<Rightarrow> node list \<Rightarrow> u64 \<Rightarrow> failure_detector \<Rightarrow> bool"
  for local others delta
  where
    fd_reachable_new: "fd_reachable local others delta (fd_new local others delta)"
  | fd_reachable_heartbeat:
      "fd_reachable local others delta fd \<Longrightarrow> fd_reachable local others delta (fd_heartbeat i fd)"
  | fd_reachable_checker:
      "fd_reachable local others delta fd \<Longrightarrow> fd_reachable local others delta (snd (fd_checker fd))"

lemma fd_reachable_inv: "fd_reachable local others delta fd \<Longrightarrow> fd_inv fd"
  by (induction rule: fd_reachable.induct) (simp_all add: fd_new_inv fd_checker_inv fd_heartbeat_inv)

lemma fd_reachable_nodes:
  "fd_reachable local others delta fd \<Longrightarrow> all_nodes fd = others @ [local] \<and> fd_local_id fd = node_id local"
  by (induction rule: fd_reachable.induct) (simp_all add: fd_new_def Let_def)

lemma fd_leader_dead:
  "fd_inv fd \<Longrightarrow> fd_leader fd = Some l \<longleftrightarrow>
     l \<in> set (proposer_ids fd) \<and> fd_state fd l \<noteq> Dead \<and>
     (\<forall>p \<in> set (proposer_ids fd). fd_state fd p \<noteq> Dead \<longrightarrow> p \<le> l)"
  using ld_leader_spec [of "fd_ld fd" l] by (auto simp: fd_inv_def fd_leader_def)

section \<open>The answer of the checker\<close>

text \<open>
  The answer is the last leader that was elected while the loop ran; a later death within
  the same period may leave no leader, which the answer does not show.
\<close>

definition answer_ok :: "u64 option \<Rightarrow> u64 option \<times> failure_detector \<Rightarrow> bool" where
  "answer_ok before p \<longleftrightarrow> fd_leader (snd p) = None \<or>
     (case fst p of None \<Rightarrow> fd_leader (snd p) = before | Some l \<Rightarrow> fd_leader (snd p) = Some l)"

lemma ld_update_leader:
  "fst (ld_update i flag ld) = None \<Longrightarrow>
     last_leader (snd (ld_update i flag ld)) = last_leader ld \<or>
     last_leader (snd (ld_update i flag ld)) = None"
  "fst (ld_update i flag ld) = Some l \<Longrightarrow> last_leader (snd (ld_update i flag ld)) = Some l"
  by (auto simp: ld_update_def Let_def split: if_splits)

definition answers :: "(leader_detector \<Rightarrow> u64 option \<times> leader_detector) \<Rightarrow> bool" where
  "answers f \<longleftrightarrow> (\<forall>ld. case fst (f ld) of
      None \<Rightarrow> last_leader (snd (f ld)) = last_leader ld \<or> last_leader (snd (f ld)) = None
    | Some l \<Rightarrow> last_leader (snd (f ld)) = Some l)"

lemma ld_answers: "answers (ld_suspect i)" "answers (ld_restore i)"
  by (auto simp: answers_def ld_suspect_def ld_restore_def split: option.splits
      dest: ld_update_leader)

lemma fd_notify_answer:
  "answers f \<Longrightarrow> answer_ok before (l, fd) \<Longrightarrow> answer_ok before (fd_notify f (l, fd))"
  unfolding answers_def by (drule spec [of _ "fd_ld fd"])
    (auto simp: answer_ok_def fd_notify_def fd_leader_def split: option.splits prod.splits)

lemma answer_ok_cong [simp]:
  "answer_ok before (l, fd\<lparr>seen := s\<rparr>) = answer_ok before (l, fd)"
  "answer_ok before (l, fd_set i t fd) = answer_ok before (l, fd)"
  by (simp_all add: answer_ok_def fd_leader_def fd_set_def split: option.splits)

lemma answer_ok_pair [simp]: "answer_ok before (fst p, fd_set i t (snd p)) = answer_ok before p"
  by (cases p) simp

lemma check_node_answer: "answer_ok before p \<Longrightarrow> answer_ok before (check_node p n)"
  by (cases p) (simp add: check_node_def split_def Let_def fd_notify_answer ld_answers
      split: failure_state.splits)

lemma check_nodes_answer: "answer_ok before p \<Longrightarrow> answer_ok before (foldl check_node p ns)"
  by (induction ns arbitrary: p) (simp_all add: check_node_answer)

lemma fd_checker_answer: "answer_ok (fd_leader fd) (fd_checker fd)"
proof -
  have "answer_ok (fd_leader fd) (None, fd)" by (simp add: answer_ok_def)
  then have "answer_ok (fd_leader fd) (foldl check_node (None, fd) (all_nodes fd))"
    by (rule check_nodes_answer)
  then show ?thesis by (simp add: fd_checker_def split_def Let_def)
qed

end
