(* ===== verification/Coordinator.thy ===== *)
theory Coordinator
  imports Proposer_Agent Learner_Agent Acceptor_Recovery Failure_Detector
begin

text \<open>
  The coordinator (\<open>paxos-wasm/runners/paxos-coordinator/src/coordinator.rs\<close>): the agents of a
  node and its failure detector. A node runs one of the three agents, or all three; then its own
  acceptor and learner answer its proposer without the network. Steps are those of the proposer
  agent, lifted to the agent that the node has.
\<close>

section \<open>State\<close>

datatype agents =
    ProposerNode proposer_agent
  | AcceptorNode acceptor_agent
  | LearnerNode learner_agent
  | CoordinatorNode proposer_agent acceptor_agent learner_agent

record coordinator =
  co_config :: run_config
  co_node :: node
  co_nodes :: "node list"
  co_agents :: agents
  co_detector :: failure_detector

text \<open>What the code takes from outside: the encodings of the blobs, the hash and the network.\<close>

record environment =
  env_proposer_codec :: proposer_codec
  env_acceptor_codec :: acceptor_codec
  env_learner_codec :: learner_codec
  env_hash :: "string \<Rightarrow> u64"
  env_net :: network

text \<open>Operations of the agents that never panic, as steps.\<close>

definition step_lift :: "('s \<Rightarrow> 'a \<times> outbox \<times> 's) \<Rightarrow> ('s, 'a) step" where
  "step_lift f s = Some (f s)"

definition step_state :: "('s \<Rightarrow> 'a \<times> 's) \<Rightarrow> ('s, 'a) step" where
  "step_state f s = (let (x, s') = f s in Some (x, [], s'))"

definition step_out :: "('s \<Rightarrow> outbox) \<Rightarrow> ('s, unit) step" where
  "step_out f s = Some ((), f s, s)"

section \<open>Access to the agents\<close>

text \<open>Using an agent that the node does not have panics.\<close>

definition with_proposer :: "(proposer_agent, 'a) step \<Rightarrow> (coordinator, 'a) step" where
  "with_proposer m co =
     (case co_agents co of
        ProposerNode p \<Rightarrow> map_option (\<lambda>(x, out, p'). (x, out, co\<lparr>co_agents := ProposerNode p'\<rparr>)) (m p)
      | CoordinatorNode p a l \<Rightarrow>
          map_option (\<lambda>(x, out, p'). (x, out, co\<lparr>co_agents := CoordinatorNode p' a l\<rparr>)) (m p)
      | _ \<Rightarrow> None)"

definition with_acceptor :: "(acceptor_agent, 'a) step \<Rightarrow> (coordinator, 'a) step" where
  "with_acceptor m co =
     (case co_agents co of
        AcceptorNode a \<Rightarrow> map_option (\<lambda>(x, out, a'). (x, out, co\<lparr>co_agents := AcceptorNode a'\<rparr>)) (m a)
      | CoordinatorNode p a l \<Rightarrow>
          map_option (\<lambda>(x, out, a'). (x, out, co\<lparr>co_agents := CoordinatorNode p a' l\<rparr>)) (m a)
      | _ \<Rightarrow> None)"

definition with_learner :: "(learner_agent, 'a) step \<Rightarrow> (coordinator, 'a) step" where
  "with_learner m co =
     (case co_agents co of
        LearnerNode l \<Rightarrow> map_option (\<lambda>(x, out, l'). (x, out, co\<lparr>co_agents := LearnerNode l'\<rparr>)) (m l)
      | CoordinatorNode p a l \<Rightarrow>
          map_option (\<lambda>(x, out, l'). (x, out, co\<lparr>co_agents := CoordinatorNode p a l'\<rparr>)) (m l)
      | _ \<Rightarrow> None)"

section \<open>Parts of a tick\<close>

definition co_maybe_retry_learn :: "environment \<Rightarrow> clock \<Rightarrow> (coordinator, unit) step" where
  "co_maybe_retry_learn env c =
     step_bind (with_learner (step_state (evaluate_retry c))) (\<lambda>r.
       case r of
         Retry slots \<Rightarrow>
           (\<lambda>co. if acceptors_send_learns (co_config co)
                 then with_acceptor (step_out (aa_retry_learns \<lparr>retry_slots = slots\<rparr>)) co
                 else with_proposer (pa_retry_learns (env_net env) \<lparr>retry_slots = slots\<rparr>) co)
       | _ \<Rightarrow> step_return ())"

definition drive_learner :: "environment \<Rightarrow> clock \<Rightarrow> (coordinator, unit) step" where
  "drive_learner env c =
     step_bind (with_learner (step_update (execute_chosen_learns (env_learner_codec env) c))) (\<lambda>_.
     step_bind (with_learner (step_state (collect_executed None False))) (\<lambda>ex.
     with_proposer (\<lambda>p.
       if pr_is_leader (pa_proposer p) \<and> ex_results ex \<noteq> []
       then process_executed (env_proposer_codec env) c ex p else step_return () p)))"

definition co_send_heartbeat :: "(coordinator, unit) step" where
  "co_send_heartbeat co =
     step_out (\<lambda>_. case co_agents co of
         ProposerNode p \<Rightarrow> pa_send_heartbeat p
       | CoordinatorNode p _ _ \<Rightarrow> pa_send_heartbeat p
       | AcceptorNode a \<Rightarrow> aa_send_heartbeat a
       | LearnerNode l \<Rightarrow> la_send_heartbeat l) co"

text \<open>The acceptor agent's \<open>maybe_flush_state\<close> is what its tick does.\<close>

definition maybe_flush_states :: "clock \<Rightarrow> (coordinator, unit) step" where
  "maybe_flush_states c co =
     (if persistent_storage (co_config co) then
        step_bind (with_proposer (step_update (pa_maybe_flush_state c))) (\<lambda>_.
        step_bind (with_acceptor (step_update (aa_handle_tick c))) (\<lambda>_.
        with_learner (step_update (la_maybe_flush_state c)))) co
      else step_return () co)"

section \<open>Construction\<close>

text \<open>
  The three agents of a node keep their files under different names, so each sees its own part of
  the disk. A node of role \<open>Client\<close> panics.
\<close>

definition agents_new ::
  "environment \<Rightarrow> clock \<Rightarrow> node \<Rightarrow> node list \<Rightarrow> bool \<Rightarrow> run_config \<Rightarrow> storage \<Rightarrow> storage \<Rightarrow> storage \<Rightarrow>
   agents option" where
  "agents_new env c n nodes leader cfg pdisk adisk ldisk =
     (let p = proposer_agent_new (env_proposer_codec env) c n nodes leader cfg pdisk;
          a = acceptor_agent_new (env_hash env) (env_acceptor_codec env) c n nodes cfg adisk;
          l = learner_agent_new (env_hash env) (env_learner_codec env) c n nodes cfg ldisk in
      case role n of
        Proposer \<Rightarrow> map_option ProposerNode p
      | Acceptor \<Rightarrow> map_option AcceptorNode a
      | Learner \<Rightarrow> map_option LearnerNode l
      | Coordinator \<Rightarrow>
          (case (p, a, l) of
             (Some p, Some a, Some l) \<Rightarrow> Some (CoordinatorNode p a l)
           | _ \<Rightarrow> None)
      | Client \<Rightarrow> None)"

definition coordinator_new ::
  "environment \<Rightarrow> clock \<Rightarrow> node \<Rightarrow> node list \<Rightarrow> bool \<Rightarrow> run_config \<Rightarrow> storage \<Rightarrow> storage \<Rightarrow> storage \<Rightarrow>
   coordinator option" where
  "coordinator_new env c n nodes leader cfg pdisk adisk ldisk =
     map_option
       (\<lambda>ags. \<lparr>co_config = cfg, co_node = n, co_nodes = nodes, co_agents = ags,
             co_detector = fd_new n nodes 10\<rparr>)
       (agents_new env c n nodes leader cfg pdisk adisk ldisk)"

section \<open>Operations\<close>

definition co_submit_client_request :: "paxos_value \<Rightarrow> (coordinator, bool) step" where
  "co_submit_client_request req co =
     (case co_agents co of
        ProposerNode _ \<Rightarrow> with_proposer (submit_client_request req) co
      | CoordinatorNode _ _ _ \<Rightarrow> with_proposer (submit_client_request req) co
      | _ \<Rightarrow> step_return False co)"

definition co_is_leader :: "coordinator \<Rightarrow> bool" where
  "co_is_leader co \<longleftrightarrow>
     (case co_agents co of
        ProposerNode p \<Rightarrow> pr_is_leader (pa_proposer p)
      | CoordinatorNode p _ _ \<Rightarrow> pr_is_leader (pa_proposer p)
      | _ \<Rightarrow> False)"

text \<open>The promise of the node's own acceptor goes along; when it is refused the node panics.\<close>

definition co_prepare_phase :: "environment \<Rightarrow> clock \<Rightarrow> (coordinator, prepare_result) step" where
  "co_prepare_phase env c =
     step_bind (with_learner (step_get (\<lambda>l. la_get_adu l + 1))) (\<lambda>s.
     step_bind (with_proposer (step_get (\<lambda>p. current_ballot (pa_proposer p)))) (\<lambda>b.
     step_bind (with_acceptor (step_state (aa_process_prepare (env_acceptor_codec env) c s b))) (\<lambda>r.
       case r of
         Promised local \<Rightarrow> with_proposer (prepare_phase (env_net env) c s b [local])
       | PromiseRejected _ \<Rightarrow> step_panic)))"

text \<open>One proposal: the own acceptor first, then the others; with learns from acceptors the own
  learner is told as well.\<close>

definition accept_one :: "environment \<Rightarrow> clock \<Rightarrow> proposal \<Rightarrow> (coordinator, unit) step" where
  "accept_one env c prop =
     step_bind (with_acceptor (step_state
         (aa_process_accept (env_acceptor_codec env) c (prop_slot prop) (prop_ballot prop) (prop_value prop)))) (\<lambda>r.
       case r of
         AcceptedRejected _ \<Rightarrow> step_panic
       | AcceptedOk acc \<Rightarrow>
           step_bind (with_proposer (accept_phase (env_net env) (prop_value prop) (prop_slot prop)
               (prop_ballot prop) [acc])) (\<lambda>res.
           step_bind (\<lambda>co.
               if acceptors_send_learns (co_config co) then
                 step_bind (with_acceptor (\<lambda>a. map_option (\<lambda>(ln, out). (ln, out, a))
                     (aa_commit_phase (prop_slot prop) (prop_value prop) a))) (\<lambda>ln.
                   case ln of
                     None \<Rightarrow> step_return ()
                   | Some ln \<Rightarrow>
                       step_bind (with_learner (step_state (la_record_learn (env_learner_codec env) c
                           (ln_slot ln) (ln_value ln) (co_node co)))) (\<lambda>_. step_return ())) co
               else step_return () co) (\<lambda>_.
           if res = AcceptIsEventDriven then step_return () else step_panic)))"

definition co_accept_phase :: "environment \<Rightarrow> clock \<Rightarrow> (coordinator, accept_result) step" where
  "co_accept_phase env c =
     step_bind (with_proposer proposals_to_accept) (\<lambda>props.
       if props = [] then step_return MissingProposal
       else step_bind (step_each (accept_one env c) props) (\<lambda>_. step_return AcceptIsEventDriven))"

definition commit_one :: "environment \<Rightarrow> clock \<Rightarrow> learn \<Rightarrow> (coordinator, unit) step" where
  "commit_one env c ln =
     step_bind (with_proposer (broadcast_learn ln)) (\<lambda>_ co.
       step_bind (with_learner (step_state (la_record_learn (env_learner_codec env) c
           (ln_slot ln) (ln_value ln) (co_node co)))) (\<lambda>_. step_return ()) co)"

definition co_commit_phase :: "environment \<Rightarrow> clock \<Rightarrow> (coordinator, client_response list option) step" where
  "co_commit_phase env c =
     step_bind (\<lambda>co.
         if \<not> acceptors_send_learns (co_config co)
         then step_bind (with_proposer (step_state learns_to_commit)) (step_each (commit_one env c)) co
         else step_return () co) (\<lambda>_.
     step_bind (with_proposer (step_state collect_client_responses)) (\<lambda>rs.
     step_return (if rs = [] then None else Some rs)))"

text \<open>The tick of the proposer in a node that has all three agents.\<close>

definition leader_tick :: "environment \<Rightarrow> clock \<Rightarrow> (coordinator, client_response list option) step" where
  "leader_tick env c =
     step_bind (with_proposer (step_get pa_phase)) (\<lambda>ph.
       case ph of
         Start \<Rightarrow> step_bind (with_proposer (step_update start_leader_loop)) (\<lambda>_. step_return None)
       | PrepareSend \<Rightarrow> step_bind (co_prepare_phase env c) (\<lambda>_. step_return None)
       | PreparePending \<Rightarrow>
           step_bind (with_proposer (step_state (check_prepare_timeout c))) (\<lambda>_. step_return None)
       | AcceptCommit \<Rightarrow> step_bind (co_accept_phase env c) (\<lambda>_. co_commit_phase env c)
       | _ \<Rightarrow> step_return None)"

definition co_handle_tick :: "environment \<Rightarrow> clock \<Rightarrow> (coordinator, client_response list option) step" where
  "co_handle_tick env c co =
     (case co_agents co of
        ProposerNode _ \<Rightarrow> with_proposer (pa_handle_tick (env_proposer_codec env) (env_net env) c) co
      | AcceptorNode _ \<Rightarrow>
          step_bind (with_acceptor (step_update (aa_handle_tick c))) (\<lambda>_. step_return None) co
      | LearnerNode _ \<Rightarrow>
          step_bind (with_learner (step_lift (\<lambda>l. ((), la_handle_tick (env_learner_codec env) c l))))
            (\<lambda>_. step_return None) co
      | CoordinatorNode _ _ _ \<Rightarrow>
          step_bind (co_maybe_retry_learn env c) (\<lambda>_.
          step_bind (drive_learner env c) (\<lambda>_.
          step_bind (maybe_flush_states c) (\<lambda>_ co.
            if \<not> co_is_leader co then step_return None co else leader_tick env c co))) co)"

section \<open>Messages\<close>

definition co_message :: "coordinator \<Rightarrow> message_payload \<Rightarrow> network_message" where
  "co_message co p = \<lparr>sender = co_node co, payload = p\<rparr>"

definition co_ignore :: "(coordinator, network_message) step" where
  "co_ignore = step_get (\<lambda>co. co_message co Ignore)"

definition co_heartbeat :: "node \<Rightarrow> (coordinator, network_message) step" where
  "co_heartbeat from =
     step_bind (step_update (\<lambda>co. co\<lparr>co_detector := fd_heartbeat (node_id from) (co_detector co)\<rparr>))
       (\<lambda>_. step_get (\<lambda>co. co_message co Heartbeat))"

definition to_proposer :: "environment \<Rightarrow> clock \<Rightarrow> network_message \<Rightarrow> (coordinator, network_message) step" where
  "to_proposer env c m = with_proposer (pa_handle_message (env_proposer_codec env) (env_net env) c m)"

definition to_acceptor :: "environment \<Rightarrow> clock \<Rightarrow> network_message \<Rightarrow> (coordinator, network_message) step" where
  "to_acceptor env c m = with_acceptor (step_lift (aa_handle_message (env_acceptor_codec env) c m))"

definition to_learner :: "environment \<Rightarrow> clock \<Rightarrow> network_message \<Rightarrow> (coordinator, network_message) step" where
  "to_learner env c m = with_learner (step_lift (la_handle_message (env_learner_codec env) c m))"

definition proposer_message :: "environment \<Rightarrow> clock \<Rightarrow> network_message \<Rightarrow> (coordinator, network_message) step" where
  "proposer_message env c m co =
     (case payload m of
        PromiseMsg _ \<Rightarrow> to_proposer env c m
      | AcceptedMsg _ \<Rightarrow> to_proposer env c m
      | AduMsg _ \<Rightarrow> to_proposer env c m
      | RetryLearnsMsg _ \<Rightarrow>
          if \<not> acceptors_send_learns (co_config co) then to_proposer env c m else co_ignore
      | ExecutedMsg _ \<Rightarrow> to_proposer env c m
      | Heartbeat \<Rightarrow> co_heartbeat (sender m)
      | _ \<Rightarrow> co_ignore) co"

definition acceptor_message :: "environment \<Rightarrow> clock \<Rightarrow> network_message \<Rightarrow> (coordinator, network_message) step" where
  "acceptor_message env c m co =
     (case payload m of
        PrepareMsg _ \<Rightarrow> to_acceptor env c m
      | AcceptMsg _ \<Rightarrow> to_acceptor env c m
      | RetryLearnsMsg _ \<Rightarrow>
          if acceptors_send_learns (co_config co) then to_acceptor env c m else co_ignore
      | Heartbeat \<Rightarrow> co_heartbeat (sender m)
      | _ \<Rightarrow> co_ignore) co"

definition learner_message :: "environment \<Rightarrow> clock \<Rightarrow> network_message \<Rightarrow> (coordinator, network_message) step" where
  "learner_message env c m =
     (case payload m of
        LearnMsg _ \<Rightarrow> to_learner env c m
      | AduMsg _ \<Rightarrow> to_learner env c m
      | Heartbeat \<Rightarrow> co_heartbeat (sender m)
      | _ \<Rightarrow> co_ignore)"

definition coordinator_message :: "environment \<Rightarrow> clock \<Rightarrow> network_message \<Rightarrow> (coordinator, network_message) step" where
  "coordinator_message env c m co =
     (case payload m of
        PromiseMsg _ \<Rightarrow> to_proposer env c m
      | AcceptedMsg _ \<Rightarrow> to_proposer env c m
      | RetryLearnsMsg _ \<Rightarrow>
          if \<not> acceptors_send_learns (co_config co) then to_proposer env c m else to_acceptor env c m
      | PrepareMsg _ \<Rightarrow> to_acceptor env c m
      | AcceptMsg _ \<Rightarrow> to_acceptor env c m
      | LearnMsg _ \<Rightarrow> to_learner env c m
      | Heartbeat \<Rightarrow> co_heartbeat (sender m)
      | _ \<Rightarrow> co_ignore) co"

definition co_handle_message :: "environment \<Rightarrow> clock \<Rightarrow> network_message \<Rightarrow> (coordinator, network_message) step" where
  "co_handle_message env c m co =
     (case co_agents co of
        ProposerNode _ \<Rightarrow> proposer_message env c m
      | AcceptorNode _ \<Rightarrow> acceptor_message env c m
      | LearnerNode _ \<Rightarrow> learner_message env c m
      | CoordinatorNode _ _ _ \<Rightarrow> coordinator_message env c m) co"

section \<open>State and leadership\<close>

record paxos_state =
  px_learned :: "learned_entry list"
  px_kv_state :: "kv_pair list"

definition co_get_state :: "(coordinator, paxos_state) step" where
  "co_get_state = with_learner (step_get (\<lambda>l.
     let (ls, kv) = la_get_state l in \<lparr>px_learned = ls_learned ls, px_kv_state = kv\<rparr>))"

text \<open>Nobody calls \<open>elect_leader\<close>: it is \<open>todo!()\<close>.\<close>

definition co_elect_leader :: "(coordinator, u64) step" where
  "co_elect_leader = step_panic"

definition follow_leader :: "environment \<Rightarrow> clock \<Rightarrow> u64 \<Rightarrow> u64 \<Rightarrow> (proposer_agent, unit) step" where
  "follow_leader env c leader own p =
     (if leader = own \<and> \<not> pr_is_leader (pa_proposer p)
      then step_bind (pa_become_leader (env_proposer_codec env) c) (\<lambda>_. step_return ()) p
      else if leader \<noteq> own \<and> pr_is_leader (pa_proposer p)
      then step_bind pa_resign_leader (\<lambda>_. step_return ()) p
      else step_return () p)"

definition co_failure_service :: "environment \<Rightarrow> clock \<Rightarrow> (coordinator, u64 option) step" where
  "co_failure_service env c =
     step_bind (\<lambda>co. let (r, fd) = fd_checker (co_detector co) in step_return r (co\<lparr>co_detector := fd\<rparr>)) (\<lambda>r.
     step_bind (\<lambda>co.
         case r of
           None \<Rightarrow> step_return () co
         | Some leader \<Rightarrow>
             if role (co_node co) = Proposer \<or> role (co_node co) = Coordinator
             then with_proposer (follow_leader env c leader (node_id (co_node co))) co
             else step_return () co) (\<lambda>_.
     step_return r))"

end
