(* ===== verification/Coordinator_Runs.thy ===== *)
theory Coordinator_Runs
  imports Coordinator
begin

text \<open>
  What a node does to its agents. Every event of a coordinator is a sequence of operations of the
  agents it has (\<open>co_run_moves\<close>), so what holds of each agent under its own operations
  holds of the agent inside a node. Then the order of the accept phase, and when a node panics.
\<close>

section \<open>Relations along a step\<close>

definition obeys :: "('s \<Rightarrow> outbox \<Rightarrow> 's \<Rightarrow> bool) \<Rightarrow> ('s, 'a) step \<Rightarrow> bool" where
  "obeys R m \<longleftrightarrow> (\<forall>s x out s'. m s = Some (x, out, s') \<longrightarrow> R s out s')"

lemma obeysD: "obeys R m \<Longrightarrow> m s = Some (x, out, s') \<Longrightarrow> R s out s'"
  by (auto simp: obeys_def)

lemma obeys_mono: "obeys R m \<Longrightarrow> (\<And>s out s'. R s out s' \<Longrightarrow> Q s out s') \<Longrightarrow> obeys Q m"
  by (auto simp: obeys_def)

lemma obeys_panic [intro]: "obeys R step_panic"
  by (simp add: obeys_def)

text \<open>A step that looks at its state before it chooses what to do.\<close>

lemma obeys_on: "(\<And>s. obeys R (f s)) \<Longrightarrow> obeys R (\<lambda>s. f s s)"
  by (auto simp: obeys_def)

lemma obeys_if:
  "obeys R m \<Longrightarrow> obeys R n \<Longrightarrow> obeys R (\<lambda>s. if P s then m s else n s)"
  "obeys R m \<Longrightarrow> obeys R n \<Longrightarrow> obeys R (\<lambda>s. (if P s then m else n) s)"
  by (auto simp: obeys_def)

lemma obeys_case:
  "(\<And>a. obeys R (m1 a)) \<Longrightarrow> (\<And>b. obeys R (m2 b)) \<Longrightarrow>
   obeys R (case r of AcceptedOk a \<Rightarrow> m1 a | AcceptedRejected b \<Rightarrow> m2 b)"
  "(\<And>p. obeys R (m3 p)) \<Longrightarrow> (\<And>b. obeys R (m2 b)) \<Longrightarrow>
   obeys R (case q of Promised p \<Rightarrow> m3 p | PromiseRejected b \<Rightarrow> m2 b)"
  "obeys R m4 \<Longrightarrow> (\<And>x. obeys R (m5 x)) \<Longrightarrow> obeys R (case y of None \<Rightarrow> m4 | Some x \<Rightarrow> m5 x)"
  by (simp_all split: accepted_result.split promise_result.split option.split)

lemma obeys_agents:
  assumes "\<And>p. obeys R (m1 p)" "\<And>a. obeys R (m2 a)" "\<And>l. obeys R (m3 l)" "\<And>p a l. obeys R (m4 p a l)"
  shows "obeys R (\<lambda>co. case co_agents co of
    ProposerNode p \<Rightarrow> m1 p co | AcceptorNode a \<Rightarrow> m2 a co | LearnerNode l \<Rightarrow> m3 l co
  | CoordinatorNode p a l \<Rightarrow> m4 p a l co)"
  using assms by (auto simp: obeys_def split: agents.splits)

locale trace_relation =
  fixes R :: "'s \<Rightarrow> outbox \<Rightarrow> 's \<Rightarrow> bool"
  assumes R_refl: "R s [] s"
    and R_trans: "R s out s1 \<Longrightarrow> R s1 out' s2 \<Longrightarrow> R s (out @ out') s2"
begin

lemma obeys_return: "obeys R (step_return x)"
  by (simp add: obeys_def R_refl)

lemma obeys_get: "obeys R (step_get f)"
  by (simp add: obeys_def R_refl)

lemma obeys_bind: "obeys R m \<Longrightarrow> (\<And>x. obeys R (f x)) \<Longrightarrow> obeys R (step_bind m f)"
  unfolding obeys_def by (auto simp: step_bind_Some) (metis R_trans)

lemma obeys_each: "(\<And>x. obeys R (f x)) \<Longrightarrow> obeys R (step_each f xs)"
  by (induction xs) (auto intro: obeys_return obeys_bind simp del: step_simps)

lemmas obeys_rules = obeys_return obeys_get obeys_bind obeys_each obeys_panic

end

interpretation closure: trace_relation "\<lambda>s out s'. r\<^sup>*\<^sup>* s s'" for r :: "'s \<Rightarrow> 's \<Rightarrow> bool"
  by unfold_locales (auto intro: rtranclp_trans)

section \<open>The operations of the agents\<close>

inductive proposer_op :: "environment \<Rightarrow> proposer_agent \<Rightarrow> proposer_agent \<Rightarrow> bool" for env where
  p_message: "pa_handle_message (env_proposer_codec env) (env_net env) c m p = Some (x, out, p') \<Longrightarrow> proposer_op env p p'"
| p_tick: "pa_handle_tick (env_proposer_codec env) (env_net env) c p = Some (y, out, p') \<Longrightarrow> proposer_op env p p'"
| p_submit: "submit_client_request v p = Some (b, out, p') \<Longrightarrow> proposer_op env p p'"
| p_become: "pa_become_leader (env_proposer_codec env) c p = Some (b, out, p') \<Longrightarrow> proposer_op env p p'"
| p_resign: "pa_resign_leader p = Some (b, out, p') \<Longrightarrow> proposer_op env p p'"
| p_retry: "pa_retry_learns (env_net env) r p = Some (u, out, p') \<Longrightarrow> proposer_op env p p'"
| p_executed: "process_executed (env_proposer_codec env) c ex p = Some (u, out, p') \<Longrightarrow> proposer_op env p p'"
| p_prepare: "prepare_phase (env_net env) c s b ps p = Some (pr, out, p') \<Longrightarrow> proposer_op env p p'"
| p_propose: "proposals_to_accept p = Some (props, out, p') \<Longrightarrow> proposer_op env p p'"
| p_accept: "accept_phase (env_net env) v s b as p = Some (ar, out, p') \<Longrightarrow> proposer_op env p p'"
| p_commit: "proposer_op env p (snd (learns_to_commit p))"
| p_answer: "proposer_op env p (snd (collect_client_responses p))"
| p_start: "proposer_op env p (start_leader_loop p)"
| p_timeout: "proposer_op env p (snd (check_prepare_timeout c p))"
| p_flush: "proposer_op env p (pa_maybe_flush_state c p)"

inductive acceptor_op :: "environment \<Rightarrow> acceptor_agent \<Rightarrow> acceptor_agent \<Rightarrow> bool" for env where
  a_message: "acceptor_op env a (snd (snd (aa_handle_message (env_acceptor_codec env) c m a)))"
| a_prepare: "acceptor_op env a (snd (aa_process_prepare (env_acceptor_codec env) c s b a))"
| a_accept: "acceptor_op env a (snd (aa_process_accept (env_acceptor_codec env) c s b v a))"
| a_flush: "acceptor_op env a (aa_handle_tick c a)"

inductive learner_op :: "environment \<Rightarrow> learner_agent \<Rightarrow> learner_agent \<Rightarrow> bool" for env where
  l_message: "learner_op env l (snd (snd (la_handle_message (env_learner_codec env) c m l)))"
| l_tick: "learner_op env l (snd (la_handle_tick (env_learner_codec env) c l))"
| l_retry: "learner_op env l (snd (evaluate_retry c l))"
| l_execute: "learner_op env l (execute_chosen_learns (env_learner_codec env) c l)"
| l_collect: "learner_op env l (snd (collect_executed b r l))"
| l_record: "learner_op env l (snd (la_record_learn (env_learner_codec env) c s v from l))"
| l_flush: "learner_op env l (la_maybe_flush_state c l)"

section \<open>A node moves by the operations of its agents\<close>

definition co_proposer :: "coordinator \<Rightarrow> proposer_agent option" where
  "co_proposer co = (case co_agents co of ProposerNode p \<Rightarrow> Some p | CoordinatorNode p _ _ \<Rightarrow> Some p | _ \<Rightarrow> None)"

definition co_acceptor :: "coordinator \<Rightarrow> acceptor_agent option" where
  "co_acceptor co = (case co_agents co of AcceptorNode a \<Rightarrow> Some a | CoordinatorNode _ a _ \<Rightarrow> Some a | _ \<Rightarrow> None)"

definition co_learner :: "coordinator \<Rightarrow> learner_agent option" where
  "co_learner co = (case co_agents co of LearnerNode l \<Rightarrow> Some l | CoordinatorNode _ _ l \<Rightarrow> Some l | _ \<Rightarrow> None)"

lemmas co_parts = co_proposer_def co_acceptor_def co_learner_def

definition node_moves :: "environment \<Rightarrow> coordinator \<Rightarrow> outbox \<Rightarrow> coordinator \<Rightarrow> bool" where
  "node_moves env co out co' \<longleftrightarrow>
     rel_option (proposer_op env)\<^sup>*\<^sup>* (co_proposer co) (co_proposer co') \<and>
     rel_option (acceptor_op env)\<^sup>*\<^sup>* (co_acceptor co) (co_acceptor co') \<and>
     rel_option (learner_op env)\<^sup>*\<^sup>* (co_learner co) (co_learner co')"

lemma rel_option_closure:
  "rel_option r\<^sup>*\<^sup>* x x"
  "rel_option r\<^sup>*\<^sup>* x y \<Longrightarrow> rel_option r\<^sup>*\<^sup>* y z \<Longrightarrow> rel_option r\<^sup>*\<^sup>* x z"
  by (cases x; simp) (cases x; cases y; cases z; simp)

interpretation node: trace_relation "node_moves env" for env
  by unfold_locales (auto simp: node_moves_def intro: rel_option_closure)

lemma node_with_proposer:
  "obeys (\<lambda>p out p'. (proposer_op env)\<^sup>*\<^sup>* p p') m \<Longrightarrow> obeys (node_moves env) (with_proposer m)"
  by (auto simp: obeys_def with_proposer_def node_moves_def co_parts rel_option_closure split: agents.splits)

lemma node_with_acceptor:
  "obeys (\<lambda>a out a'. (acceptor_op env)\<^sup>*\<^sup>* a a') m \<Longrightarrow> obeys (node_moves env) (with_acceptor m)"
  by (auto simp: obeys_def with_acceptor_def node_moves_def co_parts rel_option_closure split: agents.splits)

lemma node_with_learner:
  "obeys (\<lambda>l out l'. (learner_op env)\<^sup>*\<^sup>* l l') m \<Longrightarrow> obeys (node_moves env) (with_learner m)"
  by (auto simp: obeys_def with_learner_def node_moves_def co_parts rel_option_closure split: agents.splits)

text \<open>The steps that an operation of an agent makes.\<close>

lemma obeys_closure: "(\<And>s x out s'. m s = Some (x, out, s') \<Longrightarrow> r s s') \<Longrightarrow> obeys (\<lambda>s out s'. r\<^sup>*\<^sup>* s s') m"
  by (auto simp: obeys_def)

lemma obeys_closure_update: "(\<And>s. r s (f s)) \<Longrightarrow> obeys (\<lambda>s out s'. r\<^sup>*\<^sup>* s s') (step_update f)"
  by (auto simp: obeys_def)

lemma obeys_closure_state: "(\<And>s. r s (snd (f s))) \<Longrightarrow> obeys (\<lambda>s out s'. r\<^sup>*\<^sup>* s s') (step_state f)"
  by (auto simp: obeys_def step_state_def split_def Let_def)

lemma obeys_closure_lift: "(\<And>s. r s (snd (snd (f s)))) \<Longrightarrow> obeys (\<lambda>s out s'. r\<^sup>*\<^sup>* s s') (step_lift f)"
  unfolding obeys_def step_lift_def by (metis option.inject r_into_rtranclp snd_conv)

lemma obeys_out: "(\<And>s out. R s out s) \<Longrightarrow> obeys R (step_out f)"
  by (auto simp: obeys_def step_out_def)

named_theorems node_steps

lemma proposer_steps [node_steps]:
  "obeys (node_moves env) (with_proposer (pa_handle_message (env_proposer_codec env) (env_net env) c m))"
  "obeys (node_moves env) (with_proposer (pa_handle_tick (env_proposer_codec env) (env_net env) c))"
  "obeys (node_moves env) (with_proposer (submit_client_request v))"
  "obeys (node_moves env) (with_proposer (pa_retry_learns (env_net env) r))"
  "obeys (node_moves env) (with_proposer (prepare_phase (env_net env) c s b ps))"
  "obeys (node_moves env) (with_proposer proposals_to_accept)"
  "obeys (node_moves env) (with_proposer (accept_phase (env_net env) v s b as))"
  by (rule node_with_proposer, rule obeys_closure, erule proposer_op.intros)+

lemma proposer_updates [node_steps]:
  "obeys (node_moves env) (with_proposer (step_state learns_to_commit))"
  "obeys (node_moves env) (with_proposer (step_state collect_client_responses))"
  "obeys (node_moves env) (with_proposer (step_state (check_prepare_timeout c)))"
  "obeys (node_moves env) (with_proposer (step_update start_leader_loop))"
  "obeys (node_moves env) (with_proposer (step_update (pa_maybe_flush_state c)))"
  "obeys (node_moves env) (with_proposer (step_get g))"
  by (rule node_with_proposer, rule obeys_closure_state obeys_closure_update closure.obeys_get,
      (rule proposer_op.intros)?)+

lemma proposer_learn [node_steps]: "obeys (node_moves env) (with_proposer (broadcast_learn ln))"
  by (rule node_with_proposer) (auto simp: obeys_def broadcast_learn_def)

lemma proposer_executed [node_steps]:
  "obeys (node_moves env) (with_proposer (\<lambda>p. if pr_is_leader (pa_proposer p) \<and> b
     then process_executed (env_proposer_codec env) c ex p else step_return () p))"
  by (intro node_with_proposer obeys_if closure.obeys_return obeys_closure) (erule proposer_op.intros)

lemma proposer_follow [node_steps]:
  "obeys (node_moves env) (with_proposer (follow_leader env c leader own))"
proof (rule node_with_proposer)
  have "obeys (\<lambda>p out p'. (proposer_op env)\<^sup>*\<^sup>* p p') (pa_become_leader (env_proposer_codec env) c)"
    "obeys (\<lambda>p out p'. (proposer_op env)\<^sup>*\<^sup>* p p') pa_resign_leader"
    by (rule obeys_closure, erule proposer_op.intros)+
  then show "obeys (\<lambda>p out p'. (proposer_op env)\<^sup>*\<^sup>* p p') (follow_leader env c leader own)"
    unfolding follow_leader_def [abs_def]
    by (intro obeys_if closure.obeys_bind closure.obeys_return)
qed

lemma acceptor_steps [node_steps]:
  "obeys (node_moves env) (with_acceptor (step_state (aa_process_prepare (env_acceptor_codec env) c s b)))"
  "obeys (node_moves env) (with_acceptor (step_state (aa_process_accept (env_acceptor_codec env) c s b v)))"
  "obeys (node_moves env) (with_acceptor (step_update (aa_handle_tick c)))"
  "obeys (node_moves env) (with_acceptor (step_lift (aa_handle_message (env_acceptor_codec env) c m)))"
  by (rule node_with_acceptor, rule obeys_closure_state obeys_closure_update obeys_closure_lift,
      rule acceptor_op.intros)+

lemma acceptor_sends [node_steps]:
  "obeys (node_moves env) (with_acceptor (step_out (aa_retry_learns r)))"
  "obeys (node_moves env) (with_acceptor (\<lambda>a. map_option (\<lambda>(ln, out). (ln, out, a)) (aa_commit_phase s v a)))"
  by (rule node_with_acceptor, simp add: obeys_def step_out_def split_def)+

lemma learner_steps [node_steps]:
  "obeys (node_moves env) (with_learner (step_state (evaluate_retry c)))"
  "obeys (node_moves env) (with_learner (step_update (execute_chosen_learns (env_learner_codec env) c)))"
  "obeys (node_moves env) (with_learner (step_state (collect_executed n full)))"
  "obeys (node_moves env) (with_learner (step_update (la_maybe_flush_state c)))"
  "obeys (node_moves env) (with_learner (step_state (la_record_learn (env_learner_codec env) c s v from)))"
  "obeys (node_moves env) (with_learner (step_lift (la_handle_message (env_learner_codec env) c m)))"
  by (rule node_with_learner, rule obeys_closure_state obeys_closure_update obeys_closure_lift,
      rule learner_op.intros)+

lemma learner_tick [node_steps]:
  "obeys (node_moves env) (with_learner (step_lift (\<lambda>l. ((), la_handle_tick (env_learner_codec env) c l))))"
  "obeys (node_moves env) (with_learner (step_get g))"
  by (rule node_with_learner, rule obeys_closure_lift closure.obeys_get, (simp, rule learner_op.intros)?)+

lemma node_detector [node_steps]: "obeys (node_moves env) (co_heartbeat from)"
  unfolding co_heartbeat_def
  by (intro node.obeys_bind node.obeys_get)
    (simp add: obeys_def node_moves_def co_parts rel_option_closure)

lemma node_ignore [node_steps]: "obeys (node_moves env) co_ignore"
  unfolding co_ignore_def by (rule node.obeys_get)

lemma node_forward [node_steps]:
  "obeys (node_moves env) (to_proposer env c m)"
  "obeys (node_moves env) (to_acceptor env c m)"
  "obeys (node_moves env) (to_learner env c m)"
  unfolding to_proposer_def to_acceptor_def to_learner_def by (rule node_steps)+

lemma node_messages:
  "obeys (node_moves env) (proposer_message env c m) \<and> obeys (node_moves env) (acceptor_message env c m) \<and>
   obeys (node_moves env) (learner_message env c m) \<and> obeys (node_moves env) (coordinator_message env c m)"
  unfolding proposer_message_def [abs_def] acceptor_message_def [abs_def] learner_message_def
    coordinator_message_def [abs_def]
  by (cases "payload m") (simp_all only: message_payload.case node_steps obeys_if simp_thms)

lemma node_handle_message [node_steps]: "obeys (node_moves env) (co_handle_message env c m)"
  unfolding co_handle_message_def [abs_def]
  by (rule obeys_on [of _ "\<lambda>co. case co_agents co of
        ProposerNode _ \<Rightarrow> proposer_message env c m
      | AcceptorNode _ \<Rightarrow> acceptor_message env c m
      | LearnerNode _ \<Rightarrow> learner_message env c m
      | CoordinatorNode _ _ _ \<Rightarrow> coordinator_message env c m"])
    (simp add: node_messages split: agents.split)

lemma node_maybe_retry [node_steps]: "obeys (node_moves env) (co_maybe_retry_learn env c)"
  unfolding co_maybe_retry_learn_def
  by (intro node.obeys_bind node_steps)
    (simp add: node.obeys_return obeys_if node_steps del: step_simps split: retry_learn_result.split)

lemma node_drive [node_steps]: "obeys (node_moves env) (drive_learner env c)"
  unfolding drive_learner_def by (intro node.obeys_bind node_steps)

lemma node_flush [node_steps]: "obeys (node_moves env) (maybe_flush_states c)"
  unfolding maybe_flush_states_def [abs_def]
  by (intro obeys_if node.obeys_bind node.obeys_return node_steps)

lemma node_prepare [node_steps]: "obeys (node_moves env) (co_prepare_phase env c)"
  unfolding co_prepare_phase_def
  by (intro node.obeys_bind node_steps) (simp add: node_steps obeys_panic del: step_simps split: promise_result.split)

lemma node_record [node_steps]:
  "obeys (node_moves env) (\<lambda>co. step_bind (with_learner (step_state (la_record_learn (env_learner_codec env) c
      s v (co_node co)))) (\<lambda>_. step_return ()) co)"
  by (rule obeys_on [of _ "\<lambda>co. step_bind (with_learner (step_state (la_record_learn (env_learner_codec env) c
      s v (co_node co)))) (\<lambda>_. step_return ())"]) (intro node.obeys_bind node.obeys_return node_steps)

lemma node_told [node_steps]:
  assumes "obeys (node_moves env) m"
  shows "obeys (node_moves env) (\<lambda>co. step_bind m (case_option (step_return ())
      (\<lambda>ln. step_bind (with_learner (step_state (la_record_learn (env_learner_codec env) c
         (ln_slot ln) (ln_value ln) (co_node co)))) (\<lambda>_. step_return ()))) co)"
  by (rule obeys_on [where f = "\<lambda>co. step_bind m (case_option (step_return ())
      (\<lambda>ln. step_bind (with_learner (step_state (la_record_learn (env_learner_codec env) c
         (ln_slot ln) (ln_value ln) (co_node co)))) (\<lambda>_. step_return ())))"])
    (intro node.obeys_bind node.obeys_return obeys_case node_steps assms)

lemma node_accept_one [node_steps]: "obeys (node_moves env) (accept_one env c prop)"
proof -
  have last: "obeys (node_moves env) (if res = AcceptIsEventDriven then step_return () else step_panic)" for res
    by (simp add: node.obeys_return obeys_panic del: step_simps)
  show ?thesis
    unfolding accept_one_def
    by (intro node.obeys_bind node.obeys_return obeys_case obeys_if obeys_panic last node_steps)
qed

lemma node_accept [node_steps]: "obeys (node_moves env) (co_accept_phase env c)"
proof -
  have "obeys (node_moves env) (if props = [] then step_return MissingProposal
      else step_bind (step_each (accept_one env c) props) (\<lambda>_. step_return AcceptIsEventDriven))" for props
    by (cases props) (simp_all add: node.obeys_rules node_steps del: step_simps step_each.simps)
  then show ?thesis
    unfolding co_accept_phase_def by (intro node.obeys_bind node_steps)
qed

lemma node_commit_one [node_steps]: "obeys (node_moves env) (commit_one env c ln)"
  unfolding commit_one_def by (intro node.obeys_bind node_steps)

lemma node_commit [node_steps]: "obeys (node_moves env) (co_commit_phase env c)"
  unfolding co_commit_phase_def
  by (intro node.obeys_bind node.obeys_return node.obeys_each obeys_if node_steps)

lemma node_leader_tick [node_steps]: "obeys (node_moves env) (leader_tick env c)"
proof -
  have "obeys (node_moves env) (case ph of
         Start \<Rightarrow> step_bind (with_proposer (step_update start_leader_loop)) (\<lambda>_. step_return None)
       | PrepareSend \<Rightarrow> step_bind (co_prepare_phase env c) (\<lambda>_. step_return None)
       | PreparePending \<Rightarrow>
           step_bind (with_proposer (step_state (check_prepare_timeout c))) (\<lambda>_. step_return None)
       | AcceptCommit \<Rightarrow> step_bind (co_accept_phase env c) (\<lambda>_. co_commit_phase env c)
       | _ \<Rightarrow> step_return None)" for ph
    by (cases ph) (simp_all add: node.obeys_bind node.obeys_return node_steps del: step_simps)
  then show ?thesis
    unfolding leader_tick_def by (intro node.obeys_bind node_steps)
qed

lemma node_tick [node_steps]: "obeys (node_moves env) (co_handle_tick env c)"
  unfolding co_handle_tick_def [abs_def]
  by (rule obeys_agents)
    (simp_all add: node.obeys_bind node.obeys_return obeys_if node_steps del: step_simps)

lemma node_submit [node_steps]: "obeys (node_moves env) (co_submit_client_request req)"
  unfolding co_submit_client_request_def [abs_def]
  by (rule obeys_agents) (simp_all add: node.obeys_return node_steps del: step_simps)

lemma node_failure [node_steps]: "obeys (node_moves env) (co_failure_service env c)"
proof -
  have check: "obeys (node_moves env)
      (\<lambda>co. let (r, fd) = fd_checker (co_detector co) in step_return r (co\<lparr>co_detector := fd\<rparr>))"
    by (auto simp: obeys_def node_moves_def co_parts rel_option_closure split_def Let_def)
  have follow: "obeys (node_moves env) (\<lambda>co. with_proposer (follow_leader env c leader (node_id (co_node co))) co)"
    for leader
    by (rule obeys_on [where f = "\<lambda>co. with_proposer (follow_leader env c leader (node_id (co_node co)))"])
      (rule node_steps)
  have "obeys (node_moves env) (\<lambda>co. case r of None \<Rightarrow> step_return () co
         | Some leader \<Rightarrow>
             if role (co_node co) = Proposer \<or> role (co_node co) = Coordinator
             then with_proposer (follow_leader env c leader (node_id (co_node co))) co
             else step_return () co)" for r
    using follow by (cases r) (simp_all add: node.obeys_return obeys_if del: step_simps)
  with check show ?thesis
    unfolding co_failure_service_def by (intro node.obeys_bind node.obeys_return)
qed

section \<open>Runs\<close>

datatype coordinator_event =
    CoReceive network_message
  | CoTick
  | CoSubmit paxos_value
  | CoFailure
  | CoBeat

fun co_step :: "environment \<Rightarrow> clock \<times> coordinator_event \<Rightarrow> (coordinator, unit) step" where
  "co_step env (c, CoReceive m) = step_bind (co_handle_message env c m) (\<lambda>_. step_return ())"
| "co_step env (c, CoTick) = step_bind (co_handle_tick env c) (\<lambda>_. step_return ())"
| "co_step env (c, CoSubmit v) = step_bind (co_submit_client_request v) (\<lambda>_. step_return ())"
| "co_step env (c, CoFailure) = step_bind (co_failure_service env c) (\<lambda>_. step_return ())"
| "co_step env (c, CoBeat) = co_send_heartbeat"

definition co_run :: "environment \<Rightarrow> (clock \<times> coordinator_event) list \<Rightarrow> (coordinator, unit) step" where
  "co_run env = step_each (co_step env)"

lemma node_step: "obeys (node_moves env) (co_step env e)"
proof (cases "(env, e)" rule: co_step.cases)
  case (5 env' c)
  then show ?thesis
    by (simp add: obeys_def co_send_heartbeat_def step_out_def node_moves_def rel_option_closure)
qed (simp_all add: node.obeys_bind node.obeys_return node_steps del: step_simps)

lemma co_run_moves: "co_run env es co = Some (u, out, co') \<Longrightarrow> node_moves env co out co'"
  unfolding co_run_def by (rule obeysD [OF node.obeys_each [OF node_step]])

section \<open>What an agent keeps\<close>

lemma rel_option_keeps:
  assumes "rel_option r\<^sup>*\<^sup>* x y" and "\<And>s. x = Some s \<Longrightarrow> q s"
    and "\<And>s s'. r s s' \<Longrightarrow> q s \<Longrightarrow> q s'" and "y = Some s'"
  shows "q s'"
proof -
  from assms(1,4) obtain s where s: "x = Some s" "r\<^sup>*\<^sup>* s s'" by (cases x) auto
  from s(2) assms(2) [OF s(1)] show ?thesis by induction (auto intro: assms(3))
qed

text \<open>An acceptor in a node goes through a run of requests.\<close>

definition acceptor_from :: "environment \<Rightarrow> acceptor \<Rightarrow> acceptor_agent \<Rightarrow> bool" where
  "acceptor_from env a0 a \<longleftrightarrow> (\<exists>rs. aa_acceptor a = acceptor_run (env_acceptor_codec env) rs a0)"

lemma acceptor_run_enabled:
  "sh_enabled (acc_storage (acceptor_run cd rs a)) = sh_enabled (acc_storage a)"
  by (rule acceptor_run_keeps [where q = "\<lambda>a'. sh_enabled (acc_storage a') = sh_enabled (acc_storage a)"])
    (simp_all add: acceptor_handle_settings)

lemma acceptor_from_request:
  "acceptor_from env a0 a \<Longrightarrow>
   aa_acceptor a' = snd (acceptor_handle (env_acceptor_codec env) r (aa_acceptor a)) \<Longrightarrow> acceptor_from env a0 a'"
  unfolding acceptor_from_def
  by (elim exE) (rule_tac x = "rs @ [r]" in exI, simp add: acceptor_run_append)

lemma acceptor_op_from:
  assumes "acceptor_op env a a'" and "acceptor_from env a0 a" and "\<not> sh_enabled (acc_storage a0)"
  shows "acceptor_from env a0 a'"
  using assms(1)
proof cases
  case (a_message c m)
  with assms(2) acceptor_from_request [OF assms(2), of a' "(c, PrepareReq s b)" for s b]
    acceptor_from_request [OF assms(2), of a' "(c, AcceptReq s b v)" for s b v]
  show ?thesis
    by (cases "payload m") (simp_all add: aa_handle_message_acceptor acceptor_from_def)
next
  case (a_prepare c s b)
  then show ?thesis
    by (intro acceptor_from_request [OF assms(2), of _ "(c, PrepareReq s b)"])
      (simp add: aa_process_prepare_def split_def Let_def)
next
  case (a_accept c s b v)
  then show ?thesis
    by (intro acceptor_from_request [OF assms(2), of _ "(c, AcceptReq s b v)"])
      (simp add: aa_process_accept_def split_def Let_def)
next
  case (a_flush c)
  have "\<not> sh_enabled (acc_storage (aa_acceptor a))"
    using assms(2,3) by (auto simp: acceptor_from_def acceptor_run_enabled)
  then have "aa_handle_tick c a = a"
    by (simp add: aa_handle_tick_def acceptor_maybe_flush_def io_zoom_def io_bind_eq
        maybe_flush_current_state_def sh_maybe_flush_changes_def)
  with a_flush assms(2) show ?thesis by simp
qed

text \<open>A learner without storage in a node stays a replica, as long as no slot is the last one.\<close>

definition keeps_in_memory :: "learner_agent \<Rightarrow> bool" where
  "keeps_in_memory l \<longleftrightarrow> learner_inv (la_learner l) \<and> \<not> sh_enabled (lr_storage (la_learner l))"

definition learner_moves :: "learner_agent \<Rightarrow> learner_agent \<Rightarrow> bool" where
  "learner_moves l l' \<longleftrightarrow>
     (keeps_in_memory l \<longrightarrow> keeps_in_memory l' \<and> bt_get (learned (la_learner l)) \<subseteq>\<^sub>m bt_get (learned (la_learner l')) \<and>
       (\<forall>done. replica l done \<and> below_max (learned (la_learner l')) \<longrightarrow> (\<exists>more. replica l' (done @ more))))"

lemma below_max_mono: "bt_get m \<subseteq>\<^sub>m bt_get m' \<Longrightarrow> below_max m' \<Longrightarrow> below_max m"
  by (auto simp: below_max_def map_le_def dom_def)

lemma learner_moves_trans:
  assumes "learner_moves l l1" and "learner_moves l1 l2"
  shows "learner_moves l l2"
proof (cases "keeps_in_memory l")
  case True
  with assms have mid: "keeps_in_memory l1" "bt_get (learned (la_learner l)) \<subseteq>\<^sub>m bt_get (learned (la_learner l1))"
      "bt_get (learned (la_learner l1)) \<subseteq>\<^sub>m bt_get (learned (la_learner l2))" "keeps_in_memory l2"
    by (simp_all add: learner_moves_def)
  have "\<exists>more. replica l2 (es @ more)" if rep: "replica l es" and bm: "below_max (learned (la_learner l2))" for es
  proof -
    obtain m1 where "replica l1 (es @ m1)"
      using assms(1) True rep below_max_mono [OF mid(3) bm] by (auto simp: learner_moves_def)
    with assms(2) mid(1) bm obtain m2 where "replica l2 ((es @ m1) @ m2)"
      unfolding learner_moves_def by blast
    then show ?thesis by auto
  qed
  with mid True show ?thesis by (auto simp: learner_moves_def intro: map_le_trans)
qed (simp add: learner_moves_def)

lemma learner_moves_same:
  "la_learner l' = la_learner l \<Longrightarrow> la_kv l' = la_kv l \<Longrightarrow> learner_moves l l'"
  by (auto simp: learner_moves_def keeps_in_memory_def replica_def intro!: exI [of _ "[]"])

lemma learner_moves_record: "learner_moves l (snd (la_record_learn cd c s v from l))"
  unfolding learner_moves_def keeps_in_memory_def
proof (intro impI conjI allI; (elim conjE)?)
  assume inv: "learner_inv (la_learner l)" and dis: "\<not> sh_enabled (lr_storage (la_learner l))"
  then have ok: "bt_ok (learned (la_learner l))" by (simp add: learner_inv_def)
  show "learner_inv (la_learner (snd (la_record_learn cd c s v from l)))"
    using inv by (simp add: la_record_learn_simps learner_learn_inv learner_handle_learn_inv)
  show "\<not> sh_enabled (lr_storage (la_learner (snd (la_record_learn cd c s v from l))))"
    using dis by (simp add: la_record_learn_simps learner_learn_enabled learner_handle_learn_simps)
  show "bt_get (learned (la_learner l)) \<subseteq>\<^sub>m
      bt_get (learned (la_learner (snd (la_record_learn cd c s v from l))))"
    using ok by (simp add: la_record_learn_simps learner_learn_grows learner_handle_learn_grows)
  fix es assume "replica l es"
  from la_record_learn_replica [OF this]
  show "\<exists>more. replica (snd (la_record_learn cd c s v from l)) (es @ more)"
    by (intro exI [of _ "[]"]) simp
qed

lemma learner_moves_execute: "learner_moves l (execute_chosen_learns cd c l)"
  unfolding learner_moves_def
proof (intro impI conjI allI)
  assume p: "keeps_in_memory l"
  then have dis: "\<not> sh_enabled (lr_storage (la_learner l))" by (simp add: keeps_in_memory_def)
  note simps = execute_chosen_eq execute_entries to_be_executed_disabled_simps [OF dis]
  show "keeps_in_memory (execute_chosen_learns cd c l)"
    using p by (simp add: keeps_in_memory_def simps learner_inv_def votes_ok_def)
  show "bt_get (learned (la_learner l)) \<subseteq>\<^sub>m bt_get (learned (la_learner (execute_chosen_learns cd c l)))"
    by (simp add: simps)
  fix es assume es: "replica l es \<and> below_max (learned (la_learner (execute_chosen_learns cd c l)))"
  then have "in_range (la_learner l)"
    by (auto simp: simps replica_def intro: delivered_in_range)
  with es show "\<exists>more. replica (execute_chosen_learns cd c l) (es @ more)"
    by (blast intro: execute_chosen_replica)
qed

lemma learner_moves_flush: "learner_moves l (la_maybe_flush_state c l)"
  by (auto simp: learner_moves_def la_maybe_flush_state_def keeps_in_memory_def learner_maybe_flush_disabled
      replica_def intro!: exI [of _ "[]"])

lemma learner_moves_collect: "learner_moves l (snd (collect_executed b r l))"
  by (rule learner_moves_same) simp_all

lemma learner_moves_retry: "learner_moves l (snd (evaluate_retry c l))"
  by (rule learner_moves_same)
    (simp_all add: evaluate_retry_def Let_def split_def)

lemma learner_moves_message: "learner_moves l (snd (snd (la_handle_message cd c m l)))"
proof (cases "payload m")
  case (LearnMsg p)
  let ?r = "la_record_learn cd c (ln_slot p) (ln_value p) (sender m) l"
  have rec: "learner_moves l (snd ?r)" by (rule learner_moves_record)
  have "learner_moves (snd ?r) (execute_chosen_learns cd c (snd ?r))" by (rule learner_moves_execute)
  note exec = learner_moves_trans [OF rec this]
  note coll = learner_moves_trans [OF exec learner_moves_collect]
  show ?thesis
    using LearnMsg rec exec coll by (simp add: la_handle_message_def Let_def split_def)
qed (simp_all add: la_handle_message_def Let_def learner_moves_same)

lemma learner_moves_tick: "learner_moves l (snd (la_handle_tick cd c l))"
proof -
  let ?l1 = "snd (handle_evaluate_retry c l)"
  let ?l2 = "execute_chosen_learns cd c (?l1\<lparr>last_exec_time := clk_now c\<rparr>)"
  have retry: "learner_moves l ?l1" by (rule learner_moves_same) simp_all
  have "learner_moves l (?l1\<lparr>last_exec_time := clk_now c\<rparr>)" by (rule learner_moves_same) simp_all
  from learner_moves_trans [OF this learner_moves_execute] have exec: "learner_moves l ?l2" .
  have "learner_moves l (snd (collect_executed b r ?l2))" for b r
    by (rule learner_moves_trans [OF exec learner_moves_collect])
  note flush = learner_moves_trans [OF this learner_moves_flush] learner_moves_trans [OF exec learner_moves_flush]
  show ?thesis
    using retry flush by (simp add: la_handle_tick_def Let_def split_def)
qed

lemma learner_op_moves: "learner_op env l l' \<Longrightarrow> learner_moves l l'"
  by (induction rule: learner_op.induct)
    (simp_all add: learner_moves_message learner_moves_tick learner_moves_retry learner_moves_execute
      learner_moves_collect learner_moves_record learner_moves_flush)

section \<open>A fresh node\<close>

lemma coordinator_new_learner:
  assumes "coordinator_new env c n nodes leader cfg pdisk adisk ldisk = Some co" and "\<not> persistent_storage cfg"
    and "co_learner co = Some l"
  shows "replica l [] \<and> keeps_in_memory l"
proof -
  have "\<exists>disk. learner_agent_new (env_hash env) (env_learner_codec env) c n nodes cfg disk = Some l"
    using assms(1,3) by (auto simp: coordinator_new_def agents_new_def co_learner_def Let_def
        split: paxos_role.splits option.splits)
  with assms(2) have "replica l []" by (auto dest: learner_agent_new_ok(1))
  then show ?thesis by (simp add: keeps_in_memory_def replica_def delivered_def)
qed

text \<open>After any run the acceptor of a node has been through a run of its own.\<close>

lemma node_acceptor_from:
  assumes run: "co_run env es co = Some (u, out, co')" and a: "co_acceptor co = Some a"
    and dis: "\<not> sh_enabled (acc_storage (aa_acceptor a))"
  shows "\<exists>a'. co_acceptor co' = Some a' \<and> acceptor_from env (aa_acceptor a) a'"
proof -
  have moves: "rel_option (acceptor_op env)\<^sup>*\<^sup>* (co_acceptor co) (co_acceptor co')"
    using co_run_moves [OF run] by (simp add: node_moves_def)
  with a obtain a' where a': "co_acceptor co' = Some a'" by (cases "co_acceptor co'") auto
  have "acceptor_from env (aa_acceptor a) a'"
  proof (rule rel_option_keeps [OF moves _ _ a'])
    fix s assume "co_acceptor co = Some s"
    with a show "acceptor_from env (aa_acceptor a) s" by (auto simp: acceptor_from_def intro: exI [of _ "[]"])
  qed (use acceptor_op_from dis in blast)
  with a' show ?thesis by blast
qed

lemma node_learner_run:
  assumes new: "coordinator_new env c n nodes leader cfg pdisk adisk ldisk = Some co" "\<not> persistent_storage cfg"
    and run: "co_run env es co = Some (u, out, co')" and l': "co_learner co' = Some l'"
    and bm: "below_max (learned (la_learner l'))"
  shows "\<exists>done. replica l' done"
proof -
  have moves: "rel_option (learner_op env)\<^sup>*\<^sup>* (co_learner co) (co_learner co')"
    using co_run_moves [OF run] by (simp add: node_moves_def)
  have "keeps_in_memory l' \<and> (below_max (learned (la_learner l')) \<longrightarrow> (\<exists>done. replica l' done))"
  proof (rule rel_option_keeps [OF moves _ _ l'])
    fix s assume "co_learner co = Some s"
    with coordinator_new_learner [OF new] show "keeps_in_memory s \<and> (below_max (learned (la_learner s)) \<longrightarrow> (\<exists>done. replica s done))"
      by blast
  next
    fix s s' assume "learner_op env s s'"
      and q: "keeps_in_memory s \<and> (below_max (learned (la_learner s)) \<longrightarrow> (\<exists>done. replica s done))"
    then have "learner_moves s s'" by (simp add: learner_op_moves)
    with q below_max_mono show "keeps_in_memory s' \<and> (below_max (learned (la_learner s')) \<longrightarrow> (\<exists>done. replica s' done))"
      unfolding learner_moves_def by meson
  qed
  with bm show ?thesis by blast
qed

end
