(* ===== verification/Coordinator_Leader.thy ===== *)
theory Coordinator_Leader
  imports Coordinator_Runs
begin

text \<open>
  A coordinator that leads: what it sends in the accept phase is backed by its own acceptor, a
  promise of its acceptor to another node makes it panic, and without any other node it never
  leaves the prepare phase.
\<close>

section \<open>The own acceptor comes first\<close>

definition holds :: "acceptor \<Rightarrow> slot \<Rightarrow> paxos_value \<Rightarrow> bool" where
  "holds a s v \<longleftrightarrow> (\<exists>pv. bt_get (accepted_map a) s = Some pv \<and> pv_value pv = Some v)"

definition backed :: "acceptor \<Rightarrow> message_payload \<Rightarrow> bool" where
  "backed a m \<longleftrightarrow>
     (case m of
        AcceptMsg x \<Rightarrow> highest_promised_ballot a \<le> acc_ballot x \<and> holds a (acc_slot x) (acc_value x)
      | LearnMsg ln \<Rightarrow> holds a (ln_slot ln) (ln_value ln)
      | _ \<Rightarrow> True)"

definition later :: "acceptor \<Rightarrow> acceptor \<Rightarrow> bool" where
  "later a a' \<longleftrightarrow> acceptor_inv a' \<and> \<not> sh_enabled (acc_storage a') \<and>
     highest_promised_ballot a' = highest_promised_ballot a \<and>
     bt_get (accepted_map a) \<subseteq>\<^sub>m bt_get (accepted_map a')"

lemma backed_later: "backed a m \<Longrightarrow> later a a' \<Longrightarrow> backed a' m"
  by (force simp: backed_def later_def holds_def map_le_def dom_def split: message_payload.splits)

text \<open>Everything sent on the way is backed at the end.\<close>

definition backs :: "coordinator \<Rightarrow> outbox \<Rightarrow> coordinator \<Rightarrow> bool" where
  "backs co out co' \<longleftrightarrow>
     (\<forall>a. co_acceptor co = Some a \<and> acceptor_inv (aa_acceptor a) \<and> \<not> sh_enabled (acc_storage (aa_acceptor a)) \<longrightarrow>
        (\<exists>a'. co_acceptor co' = Some a' \<and> later (aa_acceptor a) (aa_acceptor a') \<and>
           (\<forall>(ns, m) \<in> set out. backed (aa_acceptor a') (payload m))))"

interpretation backs: trace_relation backs
proof
  show "backs s [] s" for s by (simp add: backs_def later_def)
  fix s out s1 out' s2 assume 1: "backs s out s1" and 2: "backs s1 out' s2"
  show "backs s (out @ out') s2"
    unfolding backs_def
  proof (intro allI impI)
    fix a assume a: "co_acceptor s = Some a \<and> acceptor_inv (aa_acceptor a) \<and> \<not> sh_enabled (acc_storage (aa_acceptor a))"
    with 1 obtain a1 where a1: "co_acceptor s1 = Some a1" "later (aa_acceptor a) (aa_acceptor a1)"
      "\<forall>(ns, m) \<in> set out. backed (aa_acceptor a1) (payload m)" by (auto simp: backs_def)
    with 2 obtain a2 where a2: "co_acceptor s2 = Some a2" "later (aa_acceptor a1) (aa_acceptor a2)"
      "\<forall>(ns, m) \<in> set out'. backed (aa_acceptor a2) (payload m)" by (auto simp: backs_def later_def)
    from a1(2) a2(2) have "later (aa_acceptor a) (aa_acceptor a2)" by (auto simp: later_def intro: map_le_trans)
    with a1(3) a2 show "\<exists>a'. co_acceptor s2 = Some a' \<and> later (aa_acceptor a) (aa_acceptor a') \<and>
        (\<forall>(ns, m) \<in> set (out @ out'). backed (aa_acceptor a') (payload m))"
      by (auto intro: backed_later)
  qed
qed

lemma backs_other:
  assumes "\<And>s x out s'. m s = Some (x, out, s') \<Longrightarrow> out = []"
  shows "obeys backs (with_proposer m)"
  using assms unfolding obeys_def backs_def with_proposer_def co_acceptor_def later_def
  by (fastforce split: agents.splits)

lemma backs_learner:
  assumes "\<And>s x out s'. m s = Some (x, out, s') \<Longrightarrow> out = []"
  shows "obeys backs (with_learner m)"
  using assms unfolding obeys_def backs_def with_learner_def co_acceptor_def later_def
  by (fastforce split: agents.splits)

lemma accept_loop_silent: "accept_loop n p = Some (props, out, p') \<Longrightarrow> out = []"
  by (induction n arbitrary: p props out)
    (auto simp: step_bind_Some on_proposer_def Let_def split_def split: option.splits if_splits)

lemma accept_phase_eq:
  "accept_phase net v s b as p =
     (let msg = pa_message p (AcceptMsg \<lparr>acc_slot = s, acc_ballot = b, acc_value = v\<rparr>) in
      if is_event_driven (pa_config p)
      then Some (AcceptIsEventDriven, [(pa_acceptors p, msg)],
             foldl (\<lambda>ag a. snd (insert_and_check_accepted a (pa_node ag) ag)) p as)
      else (let res = process_accept s (List.map_filter
                 (\<lambda>r. case payload r of AcceptedMsg a \<Rightarrow> Some a | _ \<Rightarrow> None) (net (pa_acceptors p) msg) @ as)
                 (pa_proposer p) in
            Some (res, [], handle_accept_result s res p)))"
  by (simp add: accept_phase_def broadcast_accept_def Let_def)

lemma accept_phase_sends:
  "accept_phase net v s b as p = Some (x, out, p') \<Longrightarrow> (ns, m) \<in> set out \<Longrightarrow>
   payload m = AcceptMsg \<lparr>acc_slot = s, acc_ballot = b, acc_value = v\<rparr>"
  by (auto simp: accept_phase_eq pa_message_def Let_def split: if_splits)

lemma acceptor_accept_later:
  assumes "acceptor_inv a" and "\<not> sh_enabled (acc_storage a)"
  shows "later a (snd (acceptor_accept cd c s b v a))"
  using assms acceptor_handle_settings(1) [of cd "(c, AcceptReq s b v)" a]
    acceptor_run_grows [OF assms, of cd "[(c, AcceptReq s b v)]"]
  by (simp add: later_def acceptor_accept_inv)

lemma acceptor_accept_backs:
  assumes "acceptor_inv a" and "\<not> sh_enabled (acc_storage a)"
    and "fst (acceptor_accept cd c s b v a) = AcceptedOk x"
  shows "backed (snd (acceptor_accept cd c s b v a)) (AcceptMsg \<lparr>acc_slot = s, acc_ballot = b, acc_value = v\<rparr>)"
    "backed (snd (acceptor_accept cd c s b v a)) (LearnMsg \<lparr>ln_slot = s, ln_value = v\<rparr>)"
  using acceptor_accept_stores [OF assms] assms(3)
  by (auto simp: backed_def holds_def acceptor_accept_reply split: if_splits)

text \<open>After the own acceptor has accepted, only that proposal and its learn are sent.\<close>

definition sends_for :: "proposal \<Rightarrow> coordinator \<Rightarrow> outbox \<Rightarrow> coordinator \<Rightarrow> bool" where
  "sends_for prop co out co' \<longleftrightarrow> co_acceptor co' = co_acceptor co \<and>
     (\<forall>(ns, m) \<in> set out. payload m \<in>
        {AcceptMsg \<lparr>acc_slot = prop_slot prop, acc_ballot = prop_ballot prop, acc_value = prop_value prop\<rparr>,
         LearnMsg \<lparr>ln_slot = prop_slot prop, ln_value = prop_value prop\<rparr>})"

interpretation sends: trace_relation "sends_for prop" for "prop"
  by unfold_locales (auto simp: sends_for_def)

lemma sends_accept: "obeys (sends_for prop) (with_proposer (accept_phase net (prop_value prop) (prop_slot prop) (prop_ballot prop) as))"
  by (auto simp: obeys_def sends_for_def with_proposer_def co_acceptor_def dest: accept_phase_sends split: agents.splits)

lemma sends_learn:
  "obeys (sends_for prop) (with_acceptor (\<lambda>a. map_option (\<lambda>(ln, out). (ln, out, a))
      (aa_commit_phase (prop_slot prop) (prop_value prop) a)))"
  by (auto simp: obeys_def sends_for_def with_acceptor_def co_acceptor_def aa_commit_phase_def Let_def
      split: agents.splits if_splits)

lemma sends_record: "obeys (sends_for prop) (with_learner (step_state f))"
  by (auto simp: obeys_def sends_for_def with_learner_def co_acceptor_def step_state_def Let_def split_def
      split: agents.splits)

text \<open>The rest of \<open>accept_one\<close>, after the own acceptor's answer.\<close>

definition accept_rest :: "environment \<Rightarrow> clock \<Rightarrow> proposal \<Rightarrow> accepted \<Rightarrow> (coordinator, unit) step" where
  "accept_rest env c prop acc =
     step_bind (with_proposer (accept_phase (env_net env) (prop_value prop) (prop_slot prop)
         (prop_ballot prop) [acc])) (\<lambda>res.
     step_bind (\<lambda>co.
         if acceptors_send_learns (co_config co) then
           step_bind (with_acceptor (\<lambda>a. map_option (\<lambda>(ln, out). (ln, out, a))
               (aa_commit_phase (prop_slot prop) (prop_value prop) a))) (\<lambda>ln.
             case ln of
               None \<Rightarrow> step_return ()
             | Some ln \<Rightarrow>
                 step_bind (with_learner (step_state (la_record_learn (env_learner_codec env) c
                     (ln_slot ln) (ln_value ln) (co_node co)))) (\<lambda>_. step_return ())) co
         else step_return () co) (\<lambda>_.
     if res = AcceptIsEventDriven then step_return () else step_panic))"

lemma accept_one_rest:
  "accept_one env c prop =
     step_bind (with_acceptor (step_state
         (aa_process_accept (env_acceptor_codec env) c (prop_slot prop) (prop_ballot prop) (prop_value prop))))
       (\<lambda>r. case r of AcceptedOk acc \<Rightarrow> accept_rest env c prop acc | AcceptedRejected _ \<Rightarrow> step_panic)"
  by (simp add: accept_one_def accept_rest_def del: step_simps cong: accepted_result.case_cong)

lemma sends_rest: "obeys (sends_for prop) (accept_rest env c prop acc)"
proof -
  have told: "obeys (sends_for prop) (\<lambda>co. step_bind m (case_option (step_return ())
      (\<lambda>ln. step_bind (with_learner (step_state (la_record_learn (env_learner_codec env) c
         (ln_slot ln) (ln_value ln) (co_node co)))) (\<lambda>_. step_return ()))) co)"
    if "obeys (sends_for prop) m" for m
    by (rule obeys_on [where f = "\<lambda>co. step_bind m (case_option (step_return ())
      (\<lambda>ln. step_bind (with_learner (step_state (la_record_learn (env_learner_codec env) c
         (ln_slot ln) (ln_value ln) (co_node co)))) (\<lambda>_. step_return ())))"])
      (intro sends.obeys_bind sends.obeys_return obeys_case sends_record that)
  have last: "obeys (sends_for prop) (if res = AcceptIsEventDriven then step_return () else step_panic)" for res
    by (simp add: sends.obeys_return obeys_panic del: step_simps)
  show ?thesis
    unfolding accept_rest_def
    by (intro sends.obeys_bind sends.obeys_return obeys_if sends_accept told sends_learn last)
qed

lemma accepted_or_panic:
  "(case r of AcceptedOk a \<Rightarrow> f a | AcceptedRejected b \<Rightarrow> step_panic) s = Some y \<longleftrightarrow>
     (\<exists>a. r = AcceptedOk a \<and> f a s = Some y)"
  by (cases r) simp_all

lemma backs_accept_one: "obeys backs (accept_one env c prop)"
  unfolding obeys_def
proof (intro allI impI)
  let ?s = "prop_slot prop" and ?b = "prop_ballot prop" and ?v = "prop_value prop"
  let ?cd = "env_acceptor_codec env"
  fix co u out co' assume "accept_one env c prop co = Some (u, out, co')"
  then obtain acc out1 co1 out2 where own: "with_acceptor (step_state (aa_process_accept ?cd c ?s ?b ?v)) co = Some (AcceptedOk acc, out1, co1)"
    and rest: "accept_rest env c prop acc co1 = Some (u, out2, co')" and out: "out = out1 @ out2"
    by (auto simp: accept_one_rest step_bind_Some accepted_or_panic)
  from obeysD [OF sends_rest rest] have sent: "sends_for prop co1 out2 co'" .
  show "backs co out co'"
    unfolding backs_def
  proof (intro allI impI; elim conjE)
    fix a assume a: "co_acceptor co = Some a" "acceptor_inv (aa_acceptor a)" "\<not> sh_enabled (acc_storage (aa_acceptor a))"
    from own a(1) have r: "fst (acceptor_accept ?cd c ?s ?b ?v (aa_acceptor a)) = AcceptedOk acc" "out1 = []"
      and co1: "co_acceptor co1 = Some (a\<lparr>aa_acceptor := snd (acceptor_accept ?cd c ?s ?b ?v (aa_acceptor a))\<rparr>)"
      by (auto simp: with_acceptor_def co_acceptor_def step_state_def aa_process_accept_def Let_def split_def
          split: agents.splits)
    with sent out acceptor_accept_later [OF a(2,3)] acceptor_accept_backs [OF a(2,3) r(1)]
    show "\<exists>a'. co_acceptor co' = Some a' \<and> later (aa_acceptor a) (aa_acceptor a') \<and>
        (\<forall>(ns, m) \<in> set out. backed (aa_acceptor a') (payload m))"
      by (auto simp: sends_for_def)
  qed
qed

lemma backs_accept_phase: "obeys backs (co_accept_phase env c)"
proof -
  have props: "obeys backs (with_proposer proposals_to_accept)"
    by (rule backs_other) (auto simp: proposals_to_accept_def dest: accept_loop_silent)
  have "obeys backs (if props = [] then step_return MissingProposal
      else step_bind (step_each (accept_one env c) props) (\<lambda>_. step_return AcceptIsEventDriven))" for props
    by (cases props) (simp_all add: backs.obeys_rules backs_accept_one del: step_simps step_each.simps)
  with props show ?thesis
    unfolding co_accept_phase_def by (intro backs.obeys_bind)
qed

section \<open>A leader whose acceptor promised another ballot\<close>

definition queued :: "proposer \<Rightarrow> paxos_value list" where
  "queued p = prioritized_values p @ pending_client_requests p"

definition same_lead :: "proposer \<Rightarrow> proposer \<Rightarrow> bool" where
  "same_lead p p' \<longleftrightarrow> pr_is_leader p' = pr_is_leader p \<and> current_ballot p' = current_ballot p \<and>
     (queued p \<noteq> [] \<longrightarrow> queued p' \<noteq> [])"

definition same_post :: "proposer_agent \<Rightarrow> outbox \<Rightarrow> proposer_agent \<Rightarrow> bool" where
  "same_post p out p' \<longleftrightarrow> pa_phase p' = pa_phase p \<and> pa_config p' = pa_config p \<and>
     same_lead (pa_proposer p) (pa_proposer p')"

lemma same_lead_refl [simp]: "same_lead p p"
  by (simp add: same_lead_def)

lemma same_lead_trans: "same_lead p q \<Longrightarrow> same_lead q r \<Longrightarrow> same_lead p r"
  by (simp add: same_lead_def)

interpretation post: trace_relation same_post
  by unfold_locales (auto simp: same_post_def intro: same_lead_trans)

lemma same_lead_marks:
  "same_lead p (snd (mark_proposal_chosen s p))" "same_lead p (snd (mark_proposal_finalized s p))"
  "same_lead p (enqueue_prioritized_request v p)"
  by (auto simp: same_lead_def queued_def mark_proposal_chosen_def mark_proposal_finalized_def
      update_proposal_status_def set_status_def enqueue_prioritized_request_def split: option.split)

lemma fold_accepted_post:
  "same_post p out (foldl (\<lambda>ag a. snd (insert_and_check_accepted a (pa_node ag) ag)) p as)"
proof (induction "as" arbitrary: p)
  case (Cons a as)
  have "same_post p out (snd (insert_and_check_accepted a (pa_node p) p))"
    by (simp add: same_post_def) (simp add: insert_and_check_accepted_def Let_def)
  from post.R_trans [OF this, of "[]"] Cons [of "snd (insert_and_check_accepted a (pa_node p) p)"] show ?case
    by (simp add: same_post_def)
qed (simp add: same_post_def)

lemma post_accept_phase: "obeys same_post (accept_phase net v s b as)"
  using fold_accepted_post
  by (auto simp: obeys_def accept_phase_eq Let_def same_post_def handle_accept_result_def same_lead_marks
      split: if_splits accept_result.splits)

lemma post_retry: "obeys same_post (pa_retry_learns net r)"
proof -
  have learn: "obeys same_post (broadcast_learn ln)" for ln
    by (auto simp: obeys_def broadcast_learn_def same_post_def)
  have again: "obeys same_post (step_bind (accept_phase net v s b as) (\<lambda>_. step_return ()))" for v s b "as"
    by (intro post.obeys_bind post.obeys_return post_accept_phase)
  have "obeys same_post (pa_retry_one net s)" for s
    unfolding obeys_def pa_retry_one_def
  proof (intro allI impI)
    fix p x out p'
    assume run: "(case get_proposal_by_status s CommitPending (pa_proposer p) of
        Some chosen \<Rightarrow> broadcast_learn \<lparr>ln_slot = s, ln_value = prop_value chosen\<rparr> p
      | None \<Rightarrow>
         (case get_proposal_by_status s InFlight (pa_proposer p) of
            Some prop \<Rightarrow>
              step_bind (accept_phase net (prop_value prop) (prop_slot prop) (prop_ballot prop) [])
                (\<lambda>_. step_return ()) p
          | None \<Rightarrow> step_return () p)) = Some (x, out, p')"
    with obeysD [OF learn] obeysD [OF again] obeysD [OF post.obeys_return] show "same_post p out p'"
      by (auto simp del: step_simps split: option.splits)
  qed
  then show ?thesis unfolding pa_retry_learns_def by (rule post.obeys_each)
qed

lemma save_proposer_same: "save_proposer cd c p = Some p' \<Longrightarrow> \<exists>h. p' = p\<lparr>pr_storage := h\<rparr>"
  by (auto simp: save_proposer_def split: prod.splits sum.splits)

lemma executed_one_post: "same_post p [] (executed_one p r)"
  using same_lead_marks(2) [of "pa_proposer p" "er_slot r"]
  by (auto simp: executed_one_def same_post_def split: prod.splits option.splits intro: same_lead_trans same_lead_marks)

lemma fold_executed_post: "same_post p [] (foldl executed_one p rs)"
proof (induction rs arbitrary: p)
  case (Cons r rs)
  from post.R_trans [OF executed_one_post Cons] show ?case by simp
qed (simp add: post.R_refl)

lemma post_executed: "obeys same_post (process_executed cd c ex)"
proof -
  have adu: "obeys same_post (on_proposer_saved (\<lambda>p. map_option (Pair ()) (proposer_set_adu cd c adu p)))" for adu
    by (auto simp: obeys_def on_proposer_saved_def same_post_def same_lead_def queued_def proposer_set_adu_def
        dest!: save_proposer_same)
  have results: "obeys same_post (step_update (\<lambda>ag.
      if \<not> pr_is_leader (pa_proposer ag) then ag else foldl executed_one ag (ex_results ex)))"
    using fold_executed_post by (auto simp: obeys_def same_post_def)
  have "obeys same_post (step_bind (if b then on_proposer_saved (\<lambda>p. map_option (Pair ()) (proposer_set_adu cd c (ex_adu ex) p))
      else step_return ()) (\<lambda>_. step_update (\<lambda>ag.
      if \<not> pr_is_leader (pa_proposer ag) then ag else foldl executed_one ag (ex_results ex))))" for b
    by (cases b) (simp_all add: post.obeys_bind post.obeys_return adu results del: step_simps)
  from obeysD [OF this] show ?thesis unfolding obeys_def process_executed_def by blast
qed

lemma post_flush: "obeys same_post (step_update (pa_maybe_flush_state c))"
  by (simp add: obeys_def same_post_def same_lead_def queued_def pa_maybe_flush_state_def proposer_maybe_flush_def
      io_zoom_def split_def Let_def)

text \<open>
  The node leads and is about to use a ballot that its own acceptor will refuse: in
  \<open>PrepareSend\<close>, or in \<open>AcceptCommit\<close> with a value to propose.
\<close>

definition about_to_use :: "proposer_agent \<Rightarrow> bool" where
  "about_to_use p \<longleftrightarrow> pr_is_leader (pa_proposer p) \<and>
     (pa_phase p = PrepareSend \<or>
      pa_phase p = AcceptCommit \<and> queued (pa_proposer p) \<noteq> [] \<and> 0 < batch_size (pa_config p))"

definition doomed :: "coordinator \<Rightarrow> bool" where
  "doomed co \<longleftrightarrow> (\<exists>p a l. co_agents co = CoordinatorNode p a l \<and> about_to_use p \<and>
     current_ballot (pa_proposer p) < highest_promised_ballot (aa_acceptor a))"

definition stays_doomed :: "coordinator \<Rightarrow> outbox \<Rightarrow> coordinator \<Rightarrow> bool" where
  "stays_doomed co out co' \<longleftrightarrow> (doomed co \<longrightarrow> doomed co')"

interpretation doomed: trace_relation stays_doomed
  by unfold_locales (auto simp: stays_doomed_def)

lemma same_post_use: "same_post p out p' \<Longrightarrow> about_to_use p \<Longrightarrow> about_to_use p'"
  by (auto simp: same_post_def same_lead_def about_to_use_def)

lemma doomed_proposer: "obeys same_post m \<Longrightarrow> obeys stays_doomed (with_proposer m)"
  unfolding obeys_def stays_doomed_def
proof (intro allI impI)
  fix co x out co' assume m: "\<forall>s x out s'. m s = Some (x, out, s') \<longrightarrow> same_post s out s'"
    and run: "with_proposer m co = Some (x, out, co')" and d: "doomed co"
  then obtain p a l where co: "co_agents co = CoordinatorNode p a l" "about_to_use p"
    "current_ballot (pa_proposer p) < highest_promised_ballot (aa_acceptor a)" by (auto simp: doomed_def)
  with run obtain p' where "m p = Some (x, out, p')" "co' = co\<lparr>co_agents := CoordinatorNode p' a l\<rparr>"
    by (auto simp: with_proposer_def)
  moreover from this m have "same_post p out p'" by blast
  ultimately show "doomed co'"
    using co same_post_use by (auto simp: doomed_def same_post_def same_lead_def)
qed

lemma doomed_learner: "obeys stays_doomed (with_learner m)"
  by (auto simp: obeys_def stays_doomed_def doomed_def with_learner_def split: agents.splits)

lemma doomed_acceptor:
  "(\<And>a x out a'. m a = Some (x, out, a') \<Longrightarrow>
      highest_promised_ballot (aa_acceptor a') = highest_promised_ballot (aa_acceptor a)) \<Longrightarrow>
   obeys stays_doomed (with_acceptor m)"
  by (auto simp: obeys_def stays_doomed_def doomed_def with_acceptor_def split: agents.splits)

lemma acceptor_flush_highest:
  "highest_promised_ballot (snd (acceptor_maybe_flush c a)) = highest_promised_ballot a"
  by (simp add: acceptor_maybe_flush_def io_zoom_def split_def Let_def highest_promised_ballot_def)

lemma doomed_retry: "obeys stays_doomed (co_maybe_retry_learn env c)"
proof -
  have retried: "obeys stays_doomed (with_acceptor (step_out (aa_retry_learns r)))" for r
    by (rule doomed_acceptor) (simp add: step_out_def)
  have "obeys stays_doomed (\<lambda>co. if acceptors_send_learns (co_config co)
                 then with_acceptor (step_out (aa_retry_learns r)) co
                 else with_proposer (pa_retry_learns (env_net env) r) co)" for r
    by (rule obeys_if(1) [OF retried doomed_proposer [OF post_retry]])
  then have "obeys stays_doomed (case r of
         Retry slots \<Rightarrow>
           (\<lambda>co. if acceptors_send_learns (co_config co)
                 then with_acceptor (step_out (aa_retry_learns \<lparr>retry_slots = slots\<rparr>)) co
                 else with_proposer (pa_retry_learns (env_net env) \<lparr>retry_slots = slots\<rparr>) co)
       | _ \<Rightarrow> step_return ())" for r
    by (cases r) (simp_all add: doomed.obeys_return del: step_simps)
  then show ?thesis
    unfolding co_maybe_retry_learn_def by (rule doomed.obeys_bind [OF doomed_learner])
qed

lemma doomed_drive: "obeys stays_doomed (drive_learner env c)"
proof -
  have "obeys stays_doomed (with_proposer (\<lambda>p.
       if pr_is_leader (pa_proposer p) \<and> ex_results ex \<noteq> []
       then process_executed (env_proposer_codec env) c ex p else step_return () p))" for ex
    by (rule doomed_proposer) (rule obeys_if(1) [OF post_executed post.obeys_return])
  then show ?thesis
    unfolding drive_learner_def by (intro doomed.obeys_bind doomed_learner)
qed

lemma doomed_flush: "obeys stays_doomed (maybe_flush_states c)"
proof -
  have "obeys stays_doomed (with_acceptor (step_update (aa_handle_tick c)))"
    by (rule doomed_acceptor) (auto simp: aa_handle_tick_def acceptor_flush_highest)
  then have "obeys stays_doomed (step_bind (with_proposer (step_update (pa_maybe_flush_state c))) (\<lambda>_.
        step_bind (with_acceptor (step_update (aa_handle_tick c))) (\<lambda>_.
        with_learner (step_update (la_maybe_flush_state c)))))"
    by (intro doomed.obeys_bind doomed_learner doomed_proposer post_flush)
  from obeys_if(1) [OF this doomed.obeys_return] show ?thesis
    unfolding maybe_flush_states_def [abs_def] .
qed

lemmas doomed_before_leading = doomed_retry doomed_drive doomed_flush

lemma doomed_prepare:
  assumes "co_agents co = CoordinatorNode p a l"
    and "current_ballot (pa_proposer p) < highest_promised_ballot (aa_acceptor a)"
  shows "co_prepare_phase env c co = None"
  using assms
  by (simp add: co_prepare_phase_def step_bind_def with_learner_def with_proposer_def with_acceptor_def step_state_def
      aa_process_prepare_def acceptor_prepare_def Let_def)

lemma accept_loop_first:
  assumes "accept_loop n p = Some (props, out, p')" and "0 < n"
    and "pr_is_leader (pa_proposer p)" and "queued (pa_proposer p) \<noteq> []"
  shows "\<exists>pr rest. props = pr # rest \<and> prop_ballot pr = current_ballot (pa_proposer p)"
proof -
  obtain m where n: "n = Suc m" using assms(2) by (cases n) auto
  let ?q = "pa_proposer p"
  define pr where "pr = \<lparr>prop_slot = current_slot ?q + 1, prop_ballot = current_ballot ?q, prop_value = hd (queued ?q)\<rparr>"
  have pr: "fst (create_proposal ?q) = Some pr"
    using assms(3,4) unfolding create_proposal_Some pr_def queued_def
    by (cases "prioritized_values ?q @ pending_client_requests ?q") auto
  then have "\<exists>rest. props = pr # rest"
    using assms(1) n by (auto simp: step_bind_Some on_proposer_def split_def Let_def split: if_splits option.splits)
  then show ?thesis by (auto simp: pr_def)
qed

lemma doomed_accept:
  assumes "co_agents co = CoordinatorNode p a l"
    and "current_ballot (pa_proposer p) < highest_promised_ballot (aa_acceptor a)"
    and "pr_is_leader (pa_proposer p)" and "queued (pa_proposer p) \<noteq> []" and "0 < batch_size (pa_config p)"
  shows "co_accept_phase env c co = None"
proof (cases "proposals_to_accept p")
  case None
  then show ?thesis using assms(1) by (simp add: co_accept_phase_def step_bind_def with_proposer_def)
next
  case (Some r)
  obtain props out p' where r: "r = (props, out, p')" by (cases r)
  with Some have "accept_loop (unat (batch_size (pa_config p))) p = Some (props, out, p')"
    by (simp add: proposals_to_accept_def)
  moreover have "0 < unat (batch_size (pa_config p))" using assms(5) by (simp add: unat_gt_0 word_neq_0_conv)
  ultimately obtain pr rest where props: "props = pr # rest" "prop_ballot pr = current_ballot (pa_proposer p)"
    using accept_loop_first assms(3,4) by blast
  have "accept_one env c pr (co\<lparr>co_agents := CoordinatorNode p' a l\<rparr>) = None"
    using props(2) assms(2)
    by (simp add: accept_one_rest step_bind_def with_acceptor_def step_state_def aa_process_accept_def
        acceptor_accept_def Let_def)
  with Some r props(1) assms(1) show ?thesis
    by (simp add: co_accept_phase_def step_bind_def with_proposer_def)
qed

lemma doomed_leader_tick: "doomed co \<Longrightarrow> leader_tick env c co = None"
  by (auto simp: doomed_def about_to_use_def leader_tick_def step_bind_def with_proposer_def
      doomed_prepare doomed_accept split: option.splits)

lemma doomed_leads: "doomed co \<Longrightarrow> co_is_leader co"
  by (auto simp: doomed_def about_to_use_def co_is_leader_def)

lemma doomed_tick:
  assumes "doomed co"
  shows "co_handle_tick env c co = None"
proof -
  have later: "step_bind m f co = None" if "obeys stays_doomed m" "doomed co"
      "\<And>x co'. doomed co' \<Longrightarrow> f x co' = None" for m :: "(coordinator, 'b) step" and f :: "'b \<Rightarrow> (coordinator, 'c) step" and co
    using that by (auto simp: step_bind_def obeys_def stays_doomed_def split: option.split)
  have "step_bind (co_maybe_retry_learn env c) (\<lambda>_.
          step_bind (drive_learner env c) (\<lambda>_.
          step_bind (maybe_flush_states c) (\<lambda>_ co.
            if \<not> co_is_leader co then step_return None co else leader_tick env c co))) co = None"
    using assms
    by (intro later doomed_before_leading) (simp_all add: doomed_leads doomed_leader_tick)
  with assms show ?thesis by (auto simp: co_handle_tick_def doomed_def)
qed

text \<open>A prepare of another node with a higher ballot makes it so.\<close>

lemma prepare_dooms:
  assumes "co_agents co = CoordinatorNode p a l" and "about_to_use p"
    and "payload m = PrepareMsg pr" and "current_ballot (pa_proposer p) < prep_ballot pr"
  shows "step_bind (co_handle_message env c m) (\<lambda>_. co_handle_tick env c') co = None"
proof -
  let ?a = "snd (snd (aa_handle_message (env_acceptor_codec env) c m a))"
  have "highest_promised_ballot (aa_acceptor ?a) = max (prep_ballot pr) (highest_promised_ballot (aa_acceptor a))"
    using assms(3) by (simp add: aa_handle_message_acceptor acceptor_prepare_highest)
  with assms(2,4) have "doomed (co\<lparr>co_agents := CoordinatorNode p ?a l\<rparr>)"
    by (auto simp: doomed_def less_max_iff_disj)
  from doomed_tick [OF this] show ?thesis
    using assms(1,3)
    by (simp add: co_handle_message_def coordinator_message_def to_acceptor_def with_acceptor_def step_lift_def
        step_bind_def split_def)
qed

section \<open>A coordinator without other nodes\<close>

definition unprepared :: "proposer_agent \<Rightarrow> bool" where
  "unprepared p \<longleftrightarrow> is_event_driven (pa_config p) \<and> pa_phase p \<noteq> AcceptCommit"

definition stays_unprepared :: "proposer_agent \<Rightarrow> outbox \<Rightarrow> proposer_agent \<Rightarrow> bool" where
  "stays_unprepared p out p' \<longleftrightarrow> (unprepared p \<longrightarrow> unprepared p')"

definition waiting :: "coordinator \<Rightarrow> bool" where
  "waiting co \<longleftrightarrow> (\<exists>p a l. co_agents co = CoordinatorNode p a l \<and> unprepared p)"

definition stays_waiting :: "coordinator \<Rightarrow> outbox \<Rightarrow> coordinator \<Rightarrow> bool" where
  "stays_waiting co out co' \<longleftrightarrow> (waiting co \<longrightarrow> waiting co')"

interpretation waiting: trace_relation stays_waiting
  by unfold_locales (auto simp: stays_waiting_def)

lemma waiting_proposer: "obeys stays_unprepared m \<Longrightarrow> obeys stays_waiting (with_proposer m)"
  by (force simp: obeys_def stays_waiting_def stays_unprepared_def waiting_def with_proposer_def split: agents.splits)

lemma waiting_others: "obeys stays_waiting (with_acceptor k)" "obeys stays_waiting (with_learner m)"
  by (auto simp: obeys_def stays_waiting_def waiting_def with_acceptor_def with_learner_def split: agents.splits)

lemma unprepared_post: "obeys same_post m \<Longrightarrow> obeys stays_unprepared m"
  by (erule obeys_mono) (auto simp: same_post_def stays_unprepared_def unprepared_def)

lemma unprepared_simple:
  "obeys stays_unprepared (step_get g)" "obeys stays_unprepared (step_update start_leader_loop)"
  "obeys stays_unprepared (step_state (check_prepare_timeout c))"
  "obeys stays_unprepared (submit_client_request v)"
  by (auto simp: obeys_def stays_unprepared_def unprepared_def start_leader_loop_def step_state_def
      check_prepare_timeout_def advance_phase_def next_phase_def submit_client_request_def on_proposer_def
      Let_def split_def split: option.splits if_splits)

lemma unprepared_prepare: "obeys stays_unprepared (prepare_phase net c s b ps)"
proof -
  have fold: "pa_config (foldl (\<lambda>ag pr. snd (insert_and_check_promises pr (pa_node ag) ag)) ag ps) = pa_config ag" for ag
    by (induction ps arbitrary: ag) (simp_all add: insert_and_check_promises_def Let_def)
  show ?thesis
    by (auto simp: obeys_def stays_unprepared_def unprepared_def prepare_phase_def broadcast_prepare_def Let_def
        fold fold_promises_phase start_prepare_round_def advance_phase_def next_phase_def split: paxos_phase.splits)
qed

lemma unprepared_follow: "obeys stays_unprepared (follow_leader env c leader own)"
  by (auto simp: obeys_def stays_unprepared_def unprepared_def follow_leader_def step_bind_Some pa_become_leader_def
      pa_resign_leader_def on_proposer_saved_def on_proposer_def Let_def split_def split: if_splits)

lemma waiting_maybe_retry: "obeys stays_waiting (co_maybe_retry_learn env c)"
proof -
  have "obeys stays_waiting (\<lambda>co. if acceptors_send_learns (co_config co)
                 then with_acceptor (step_out (aa_retry_learns r)) co
                 else with_proposer (pa_retry_learns (env_net env) r) co)" for r
    by (rule obeys_if(1) [OF waiting_others(1) waiting_proposer [OF unprepared_post [OF post_retry]]])
  then have "obeys stays_waiting (case r of
         Retry slots \<Rightarrow>
           (\<lambda>co. if acceptors_send_learns (co_config co)
                 then with_acceptor (step_out (aa_retry_learns \<lparr>retry_slots = slots\<rparr>)) co
                 else with_proposer (pa_retry_learns (env_net env) \<lparr>retry_slots = slots\<rparr>) co)
       | _ \<Rightarrow> step_return ())" for r
    by (cases r) (simp_all add: waiting.obeys_return del: step_simps)
  then show ?thesis
    unfolding co_maybe_retry_learn_def by (rule waiting.obeys_bind [OF waiting_others(2)])
qed

lemma waiting_drive: "obeys stays_waiting (drive_learner env c)"
proof -
  have "obeys stays_waiting (with_proposer (\<lambda>p.
       if pr_is_leader (pa_proposer p) \<and> ex_results ex \<noteq> []
       then process_executed (env_proposer_codec env) c ex p else step_return () p))" for ex
    by (intro waiting_proposer unprepared_post) (rule obeys_if(1) [OF post_executed post.obeys_return])
  then show ?thesis
    unfolding drive_learner_def by (intro waiting.obeys_bind waiting_others)
qed

lemma waiting_flush: "obeys stays_waiting (maybe_flush_states c)"
proof -
  have "obeys stays_waiting (step_bind (with_proposer (step_update (pa_maybe_flush_state c))) (\<lambda>_.
        step_bind (with_acceptor (step_update (aa_handle_tick c))) (\<lambda>_.
        with_learner (step_update (la_maybe_flush_state c)))))"
    by (intro waiting.obeys_bind waiting_others waiting_proposer unprepared_post post_flush)
  from obeys_if(1) [OF this waiting.obeys_return] show ?thesis
    unfolding maybe_flush_states_def [abs_def] .
qed

lemma waiting_prepare: "obeys stays_waiting (co_prepare_phase env c)"
proof -
  have "obeys stays_waiting (case r of
         Promised local \<Rightarrow> with_proposer (prepare_phase (env_net env) c s b [local])
       | PromiseRejected _ \<Rightarrow> step_panic)" for r s b
    by (rule obeys_case(2)) (intro waiting_proposer unprepared_prepare obeys_panic)+
  then show ?thesis
    unfolding co_prepare_phase_def
    by (intro waiting.obeys_bind waiting_others waiting_proposer unprepared_simple)
qed

lemma waiting_leader_tick:
  assumes "leader_tick env c co = Some (r, out, co')" and "waiting co"
  shows "waiting co' \<and> r = None"
proof -
  obtain p a l where co: "co_agents co = CoordinatorNode p a l" "unprepared p"
    using assms(2) by (auto simp: waiting_def)
  have quiet: "waiting co' \<and> r = None"
    if "obeys stays_waiting m" "step_bind m (\<lambda>_. step_return None) co = Some (r, out, co')" for m :: "(coordinator, 'b) step"
    using that assms(2) by (auto simp: step_bind_Some obeys_def stays_waiting_def)
  have phase: "with_proposer (step_get pa_phase) co = Some (pa_phase p, [], co)"
    using co(1) by (simp add: with_proposer_def)
  have stop: "step_return None co = Some (r, out, co') \<Longrightarrow> co' = co \<and> r = None" by simp
  show ?thesis
    using assms co(2) quiet [OF waiting_proposer [OF unprepared_simple(2)]] quiet [OF waiting_prepare]
      quiet [OF waiting_proposer [OF unprepared_simple(3)]]
    by (cases "pa_phase p")
      (auto simp: leader_tick_def phase unprepared_def simp del: step_simps split: option.splits dest!: stop)
qed

lemma waiting_tick:
  assumes "co_handle_tick env c co = Some (r, out, co')" and "waiting co"
  shows "waiting co' \<and> r = None"
proof -
  obtain p a l where co: "co_agents co = CoordinatorNode p a l"
    using assms(2) by (auto simp: waiting_def)
  with assms(1) obtain o1 co1 o2 co2 o3 co3 o4 where run:
    "co_maybe_retry_learn env c co = Some ((), o1, co1)" "drive_learner env c co1 = Some ((), o2, co2)"
    "maybe_flush_states c co2 = Some ((), o3, co3)"
    "(if \<not> co_is_leader co3 then step_return None co3 else leader_tick env c co3) = Some (r, o4, co')"
    by (auto simp: co_handle_tick_def step_bind_Some simp del: step_simps)
  from run(1-3) assms(2) have "waiting co3"
    using obeysD [OF waiting_maybe_retry] obeysD [OF waiting_drive] obeysD [OF waiting_flush]
    unfolding stays_waiting_def by blast
  with run(4) waiting_leader_tick show ?thesis by (auto split: if_splits)
qed

lemma waiting_failure: "obeys stays_waiting (co_failure_service env c)"
proof -
  have check: "obeys stays_waiting
      (\<lambda>co. let (r, fd) = fd_checker (co_detector co) in step_return r (co\<lparr>co_detector := fd\<rparr>))"
    by (auto simp: obeys_def stays_waiting_def waiting_def split_def Let_def)
  have follow: "obeys stays_waiting (\<lambda>co. with_proposer (follow_leader env c leader (node_id (co_node co))) co)"
    for leader
    by (rule obeys_on [where f = "\<lambda>co. with_proposer (follow_leader env c leader (node_id (co_node co)))"])
      (intro waiting_proposer unprepared_follow)
  have "obeys stays_waiting (\<lambda>co. case r of None \<Rightarrow> step_return () co
         | Some leader \<Rightarrow>
             if role (co_node co) = Proposer \<or> role (co_node co) = Coordinator
             then with_proposer (follow_leader env c leader (node_id (co_node co))) co
             else step_return () co)" for r
    using obeys_if(1) [OF follow waiting.obeys_return] by (cases r) (simp_all add: waiting.obeys_return del: step_simps)
  with check show ?thesis
    unfolding co_failure_service_def by (intro waiting.obeys_bind waiting.obeys_return)
qed

lemma waiting_step:
  assumes "co_step env e co = Some (u, out, co')" and "\<not> (\<exists>c m. e = (c, CoReceive m))" and "waiting co"
  shows "waiting co'"
proof (cases "(env, e)" rule: co_step.cases)
  case (2 env' c)
  with assms waiting_tick show ?thesis by (auto simp: step_bind_Some)
next
  case (3 env' c v)
  have "obeys stays_waiting (co_submit_client_request v)"
    unfolding co_submit_client_request_def [abs_def]
    by (rule obeys_agents) (simp_all add: waiting.obeys_return waiting_proposer unprepared_simple del: step_simps)
  with assms 3 show ?thesis by (auto simp: step_bind_Some obeys_def stays_waiting_def)
next
  case (4 env' c)
  with assms obeysD [OF waiting_failure] show ?thesis
    by (auto simp: step_bind_Some stays_waiting_def)
qed (use assms in \<open>auto simp: co_send_heartbeat_def step_out_def\<close>)

lemma waiting_run:
  "co_run env es co = Some (u, out, co') \<Longrightarrow> \<forall>(c, e) \<in> set es. \<forall>m. e \<noteq> CoReceive m \<Longrightarrow> waiting co \<Longrightarrow> waiting co'"
proof (induction es arbitrary: co out)
  case (Cons e es)
  then obtain out1 co1 out2 where "co_step env e co = Some ((), out1, co1)" "co_run env es co1 = Some (u, out2, co')"
    by (auto simp: co_run_def step_bind_Some)
  with Cons waiting_step [of env e co "()" out1 co1] show ?case by fastforce
qed (simp add: co_run_def)

end
