(* ===== verification/Node_Safety.thy ===== *)
theory Node_Safety
  imports Consensus Coordinator_Leader
begin

text \<open>
  An event of a node, seen from the consensus protocol. In the configuration where acceptors send
  the learns, and without storage, every event but the answer to a retry moves the node's acceptor
  and learner along the invariant of the theory \<open>Consensus\<close>: learns are sent by the acceptor
  for values it holds, and the learner counts only such learns.
\<close>

section \<open>What is sent besides learns\<close>

definition no_learn :: "outbox \<Rightarrow> bool" where
  "no_learn out \<longleftrightarrow> (\<forall>(ns, m) \<in> set out. \<not> is_learn m)"

lemma no_learn_simps [simp]: "no_learn []" "no_learn (a @ b) \<longleftrightarrow> no_learn a \<and> no_learn b"
  "no_learn ((ns, m) # out) \<longleftrightarrow> \<not> is_learn m \<and> no_learn out"
  by (auto simp: no_learn_def)

lemma is_learn_simps [simp]:
  "is_learn \<lparr>sender = n, payload = p\<rparr> \<longleftrightarrow> (case p of LearnMsg _ \<Rightarrow> True | _ \<Rightarrow> False)"
  by (simp add: is_learn_def)

lemma no_learn_message: "no_learn out \<Longrightarrow> m \<in> snd ` set out \<Longrightarrow> payload m \<noteq> LearnMsg ln"
  by (auto simp: no_learn_def is_learn_def)

text \<open>A proposer agent in a configuration where the acceptors send the learns.\<close>

definition learnless :: "proposer_agent \<Rightarrow> outbox \<Rightarrow> proposer_agent \<Rightarrow> bool" where
  "learnless p out p' \<longleftrightarrow>
     (acceptors_send_learns (pa_config p) \<longrightarrow> pa_config p' = pa_config p \<and> no_learn out)"

interpretation learnless: trace_relation learnless
  by unfold_locales (auto simp: learnless_def)

lemma learnless_update: "(\<And>p. pa_config (f p) = pa_config p) \<Longrightarrow> obeys learnless (step_update f)"
  by (simp add: obeys_def learnless_def)

lemma learnless_state: "(\<And>p. pa_config (snd (f p)) = pa_config p) \<Longrightarrow> obeys learnless (step_state f)"
  by (simp add: obeys_def learnless_def step_state_def split_def Let_def)

lemma learnless_core:
  "obeys learnless (on_proposer f)" "obeys learnless (on_proposer_saved g)"
  by (auto simp: obeys_def learnless_def on_proposer_def on_proposer_saved_def split_def Let_def)

lemma learnless_send: "\<not> is_learn m \<Longrightarrow> obeys learnless (step_send ns m)"
  by (simp add: obeys_def learnless_def)

lemma insert_checks_config [simp]:
  "pa_config (snd (insert_and_check_promises pr n p)) = pa_config p"
  "pa_config (snd (insert_and_check_accepted a n p)) = pa_config p"
  by (simp_all add: insert_and_check_promises_def insert_and_check_accepted_def Let_def)

lemma fold_config:
  "pa_config (foldl (\<lambda>p pr. snd (insert_and_check_promises pr (pa_node p) p)) q prs) = pa_config q"
  "pa_config (foldl (\<lambda>p a. snd (insert_and_check_accepted a (pa_node p) p)) q as) = pa_config q"
proof -
  show "pa_config (foldl (\<lambda>p pr. snd (insert_and_check_promises pr (pa_node p) p)) q prs) = pa_config q"
    by (induction prs arbitrary: q) simp_all
  show "pa_config (foldl (\<lambda>p a. snd (insert_and_check_accepted a (pa_node p) p)) q as) = pa_config q"
    by (induction as arbitrary: q) simp_all
qed

lemma executed_config: "pa_config (foldl executed_one p rs) = pa_config p"
proof (induction rs arbitrary: p)
  case (Cons r rs)
  have "pa_config (executed_one p r) = pa_config p"
    by (simp add: executed_one_def split: prod.split option.split)
  with Cons show ?case by simp
qed simp

lemma handle_results_config [simp]:
  "pa_config (handle_prepare_result r p) = pa_config p"
  "pa_config (handle_accept_result s x p) = pa_config p"
  by (simp_all add: handle_prepare_result_def handle_accept_result_def advance_phase_def
      split: accept_result.split)

lemma handle_replies_config:
  "pa_config (handle_promise pr n p) = pa_config p" "pa_config (handle_accepted a n p) = pa_config p"
  by (simp_all add: handle_promise_def handle_accepted_def split_def Let_def split: option.split)

lemma timer_config:
  "pa_config (start_leader_loop p) = pa_config p" "pa_config (snd (check_prepare_timeout c p)) = pa_config p"
  "pa_config (start_prepare_round c p) = pa_config p" "pa_config (pa_maybe_flush_state c p) = pa_config p"
  "pa_config (snd (collect_client_responses p)) = pa_config p"
  by (simp_all add: start_leader_loop_def check_prepare_timeout_def start_prepare_round_def
      pa_maybe_flush_state_def collect_client_responses_def advance_phase_def Let_def split: option.split)

lemma learnless_accept_phase: "obeys learnless (accept_phase net v s b as)"
  by (auto simp: obeys_def learnless_def accept_phase_eq pa_message_def fold_config Let_def split: if_splits)

lemma learnless_prepare_phase: "obeys learnless (prepare_phase net c s b ps)"
proof -
  have sent: "obeys learnless (broadcast_prepare net s b)"
    by (auto simp: obeys_def learnless_def broadcast_prepare_def pa_message_def Let_def split: if_splits)
  have "obeys learnless (case r of
         EventDriven res \<Rightarrow>
           step_bind (step_update (start_prepare_round c)) (\<lambda>_.
           step_bind (step_update (\<lambda>ag. foldl (\<lambda>ag pr. snd (insert_and_check_promises pr (pa_node ag) ag)) ag ps)) (\<lambda>_.
           step_return res))
       | Synchronous responses \<Rightarrow>
           step_bind (on_proposer (process_prepare s (responses @ ps))) (\<lambda>res.
           step_bind (step_update (handle_prepare_result res)) (\<lambda>_.
           step_return res)))" for r
    by (cases r)
      (simp_all add: learnless.obeys_bind learnless.obeys_return learnless_update learnless_core
        timer_config fold_config del: step_simps)
  with sent show ?thesis unfolding prepare_phase_def by (intro learnless.obeys_bind)
qed

lemma learnless_propose: "obeys learnless proposals_to_accept"
proof -
  have "obeys learnless (accept_loop n)" for n
  proof (induction n)
    case (Suc n)
    have "obeys learnless (if b then step_panic
        else step_bind (accept_loop n) (\<lambda>props. step_return (x # props)))" for b x
      using Suc by (simp add: obeys_panic learnless.obeys_bind learnless.obeys_return del: step_simps)
    then show ?case
      by (auto intro!: learnless.obeys_bind learnless.obeys_rules learnless_core simp del: step_simps
          split: option.split)
  qed (simp add: learnless.obeys_return del: step_simps)
  then show ?thesis by (simp add: obeys_def proposals_to_accept_def)
qed

lemma learnless_accept_commit: "obeys learnless (accept_commit net)"
proof -
  have one: "obeys learnless (if r = AcceptIsEventDriven then step_return () else step_panic)" for r
    by (simp add: learnless.obeys_rules del: step_simps)
  have learns: "obeys learnless (\<lambda>ag. if \<not> acceptors_send_learns (pa_config ag)
      then (let (ls, ag1) = learns_to_commit ag in step_each broadcast_learn ls ag1) else step_return () ag)"
    by (simp add: obeys_def learnless_def)
  have answers: "obeys learnless (\<lambda>ag. let (rs, ag1) = collect_client_responses ag in
      step_return (if rs = [] then None else Some rs) ag1)"
    using timer_config(5) by (simp add: obeys_def learnless_def split_def Let_def)
  show ?thesis
    unfolding accept_commit_def
    by (intro learnless.obeys_bind learnless.obeys_each learnless_propose learnless_accept_phase one learns answers)
qed

lemma learnless_executed: "obeys learnless (process_executed cd c ex)"
proof -
  have step: "obeys learnless (step_bind
      (if b then on_proposer_saved k else step_return ())
      (\<lambda>_. step_update (\<lambda>ag. if \<not> pr_is_leader (pa_proposer ag) then ag else foldl executed_one ag (ex_results ex))))" for b k
    by (cases b) (simp_all add: learnless.obeys_bind learnless.obeys_return learnless_core learnless_update
        executed_config del: step_simps)
  show ?thesis
    unfolding process_executed_def [abs_def]
    by (rule obeys_on [where f = "\<lambda>ag. step_bind
       (if pr_adu (pa_proposer ag) < ex_adu ex
        then on_proposer_saved (\<lambda>p. map_option (Pair ()) (proposer_set_adu cd c (ex_adu ex) p))
        else step_return ())
       (\<lambda>_. step_update (\<lambda>ag.
         if \<not> pr_is_leader (pa_proposer ag) then ag else foldl executed_one ag (ex_results ex)))"]) (rule step)
qed

lemma learnless_message:
  assumes "\<not> is_retry m"
  shows "obeys learnless (pa_handle_message cd net c m)"
proof -
  have "obeys learnless (case payload m of
          PromiseMsg pr \<Rightarrow> step_update (handle_promise pr (sender m))
        | AcceptedMsg a \<Rightarrow> step_update (handle_accepted a (sender m))
        | RetryLearnsMsg r \<Rightarrow>
            (\<lambda>ag. if \<not> pr_is_leader (pa_proposer ag) then step_return () ag else pa_retry_learns net r ag)
        | ExecutedMsg ex \<Rightarrow> process_executed cd c ex
        | AduMsg adu \<Rightarrow>
            step_bind (on_proposer_saved (\<lambda>p. map_option (Pair ()) (proposer_set_adu cd c adu p)))
              (\<lambda>_. step_update (\<lambda>ag. ag\<lparr>has_received_adu := True\<rparr>))
        | _ \<Rightarrow> step_return ())"
    using assms by (cases "payload m")
      (simp_all add: is_retry_def learnless.obeys_bind learnless.obeys_return learnless_update learnless_core
        learnless_executed handle_replies_config del: step_simps)
  then show ?thesis
    unfolding pa_handle_message_def by (intro learnless.obeys_bind learnless.obeys_get)
qed

lemma learnless_tick: "obeys learnless (pa_handle_tick cd net c)"
proof -
  have adu: "obeys learnless (get_learner_adu c)"
    by (auto simp: obeys_def learnless_def get_learner_adu_def pa_message_def step_bind_Some split: if_splits)
  have start: "obeys learnless (step_bind (if b then (if d then get_learner_adu c else step_update start_leader_loop)
      else step_return ()) (\<lambda>_. step_return None))" for b d
    using adu by (cases b; cases d)
      (simp_all add: learnless.obeys_bind learnless.obeys_return learnless_update timer_config del: step_simps)
  have send: "obeys learnless (step_bind (on_proposer_saved k) (\<lambda>b. step_bind (prepare_phase net c s b [])
      (\<lambda>r. if r = PrepareIsEventDriven then step_return None else step_panic)))" for k s
    by (auto intro!: learnless.obeys_bind learnless_core learnless_prepare_phase learnless.obeys_return obeys_panic
        simp del: step_simps)
  have wait: "obeys learnless (step_bind (step_update (\<lambda>ag. snd (check_prepare_timeout c ag))) (\<lambda>_. step_return None))"
    by (intro learnless.obeys_bind learnless.obeys_return learnless_update timer_config)
  show ?thesis
    unfolding obeys_def
  proof (intro allI impI)
    fix p x out p' assume "pa_handle_tick cd net c p = Some (x, out, p')"
    then show "learnless p out p'"
      using obeysD [OF start] obeysD [OF send] obeysD [OF wait] obeysD [OF learnless_accept_commit]
        obeysD [OF learnless.obeys_return [of "None"]]
      unfolding pa_handle_tick_def Let_def
      by (cases "pa_phase p") (simp_all only: paxos_phase.case not_not if_True if_False, blast+)
  qed
qed

section \<open>Moves that keep the invariant\<close>

text \<open>
  Node \<open>i\<close> in a system with acceptors \<open>A\<close>: its own acceptor and learner keep the
  invariant, the network has the messages \<open>M\<close>, and its acceptor has accepted the pairs \<open>H\<close>.
\<close>

definition node_ok ::
  "u64 set \<Rightarrow> u64 \<Rightarrow> network_message set \<Rightarrow> (slot \<times> paxos_value) set \<Rightarrow> system \<Rightarrow> coordinator \<Rightarrow> bool" where
  "node_ok A i M H sys co \<longleftrightarrow>
     finite A \<and> acceptor_side A sys \<and> net_inv A sys \<and> M \<subseteq> sys_net sys \<and>
     (\<forall>(s, v) \<in> H. i \<in> acceptances A sys s v) \<and>
     acceptors_send_learns (co_config co) \<and> node_id (co_node co) = i \<and>
     (\<forall>p. co_proposer co = Some p \<longrightarrow> acceptors_send_learns (pa_config p)) \<and>
     (\<forall>a. co_acceptor co = Some a \<longrightarrow> i \<in> A \<and> sys_acceptor sys i = a) \<and>
     (\<forall>l. co_learner co = Some l \<longrightarrow> learner_ok A sys l)"

definition system_moves :: "u64 set \<Rightarrow> u64 \<Rightarrow> outbox \<Rightarrow> system \<Rightarrow> system \<Rightarrow> bool" where
  "system_moves A i out sys sys' \<longleftrightarrow>
     grows A sys sys' \<and> sys_net sys' = sys_net sys \<union> snd ` set out \<and>
     (\<forall>j. j \<noteq> i \<longrightarrow> sys_acceptor sys' j = sys_acceptor sys j)"

definition safe ::
  "u64 set \<Rightarrow> u64 \<Rightarrow> network_message set \<Rightarrow> (slot \<times> paxos_value) set \<Rightarrow>
   coordinator \<Rightarrow> outbox \<Rightarrow> coordinator \<Rightarrow> bool" where
  "safe A i M H co out co' \<longleftrightarrow>
     (\<forall>sys. node_ok A i M H sys co \<longrightarrow>
        (\<exists>sys'. node_ok A i M H sys' co' \<and> system_moves A i out sys sys'))"

lemma system_moves_trans:
  "system_moves A i out sys sys1 \<Longrightarrow> system_moves A i out' sys1 sys2 \<Longrightarrow> system_moves A i (out @ out') sys sys2"
  by (simp add: system_moves_def grows_def image_Un Un_assoc) (meson order_trans)

interpretation safe: trace_relation "safe A i M H" for A i M H
proof
  show "safe A i M H s [] s" for s
    by (auto simp: safe_def system_moves_def grows_refl)
  show "safe A i M H s (out @ out') s2" if "safe A i M H s out s1" "safe A i M H s1 out' s2" for s out s1 out' s2
    using that unfolding safe_def by (metis system_moves_trans)
qed

text \<open>Messages that are no learns can be added to the network.\<close>

definition posts :: "outbox \<Rightarrow> system \<Rightarrow> system" where
  "posts out sys = sys\<lparr>sys_net := sys_net sys \<union> snd ` set out\<rparr>"

lemma posts_simps [simp]:
  "sys_acceptor (posts out sys) = sys_acceptor sys" "sys_net (posts out sys) = sys_net sys \<union> snd ` set out"
  "acceptances A (posts out sys) = acceptances A sys" "acceptor_side A (posts out sys) = acceptor_side A sys"
  "learner_ok A (posts out sys) = learner_ok A sys"
  by (simp_all add: posts_def acceptances_def has_accepted_def acceptor_side_def learner_ok_def fun_eq_iff)

lemma posts_moves: "system_moves A i out sys (posts out sys)"
  by (simp add: system_moves_def grows_def)

lemma posts_net: "net_inv A sys \<Longrightarrow> no_learn out \<Longrightarrow> net_inv A (posts out sys)"
  by (auto simp: net_inv_def dest: no_learn_message)

lemma safe_posts:
  assumes "\<And>sys. node_ok A i M H sys co \<Longrightarrow> no_learn out \<and> node_ok A i M H sys co'"
  shows "safe A i M H co out co'"
  unfolding safe_def
proof (intro allI impI)
  fix sys assume "node_ok A i M H sys co"
  with assms have "no_learn out" "node_ok A i M H sys co'" by blast+
  then have "node_ok A i M H (posts out sys) co'"
    by (auto simp: node_ok_def posts_net)
  with posts_moves show "\<exists>sys'. node_ok A i M H sys' co' \<and> system_moves A i out sys sys'" by blast
qed

section \<open>The agents of a node\<close>

lemma safe_proposer:
  assumes "obeys learnless m"
  shows "obeys (safe A i M H) (with_proposer m)"
  unfolding obeys_def
proof (intro allI impI safe_posts)
  fix co x out co' sys
  assume run: "with_proposer m co = Some (x, out, co')" and ok: "node_ok A i M H sys co"
  from run obtain p p' where p: "co_proposer co = Some p" "m p = Some (x, out, p')" "co_proposer co' = Some p'"
    and same: "co_acceptor co' = co_acceptor co" "co_learner co' = co_learner co"
      "co_config co' = co_config co" "co_node co' = co_node co"
    by (auto simp: with_proposer_def co_parts split: agents.splits)
  have "learnless p out p'" by (rule obeysD [OF assms p(2)])
  with ok p(1,3) same show "no_learn out \<and> node_ok A i M H sys co'"
    by (simp add: node_ok_def learnless_def)
qed

text \<open>What a learner does with learns that acceptors stand behind.\<close>

definition counts :: "u64 set \<Rightarrow> u64 \<Rightarrow> network_message set \<Rightarrow> (slot \<times> paxos_value) set \<Rightarrow>
    learner_agent \<Rightarrow> outbox \<Rightarrow> learner_agent \<Rightarrow> bool" where
  "counts A i M H l out l' \<longleftrightarrow>
     (\<forall>sys. finite A \<and> net_inv A sys \<and> M \<subseteq> sys_net sys \<and> (\<forall>(s, v) \<in> H. i \<in> acceptances A sys s v) \<and>
        learner_ok A sys l \<longrightarrow> no_learn out \<and> learner_ok A sys l')"

interpretation counts: trace_relation "counts A i M H" for A i M H
  by unfold_locales (auto simp: counts_def)

lemma safe_learner:
  assumes "obeys (counts A i M H) m"
  shows "obeys (safe A i M H) (with_learner m)"
  unfolding obeys_def
proof (intro allI impI safe_posts)
  fix co x out co' sys
  assume run: "with_learner m co = Some (x, out, co')" and ok: "node_ok A i M H sys co"
  from run obtain l l' where l: "co_learner co = Some l" "m l = Some (x, out, l')" "co_learner co' = Some l'"
    and same: "co_acceptor co' = co_acceptor co" "co_proposer co' = co_proposer co"
      "co_config co' = co_config co" "co_node co' = co_node co"
    by (auto simp: with_learner_def co_parts split: agents.splits)
  have "counts A i M H l out l'" by (rule obeysD [OF assms l(2)])
  moreover have "finite A" "net_inv A sys" "M \<subseteq> sys_net sys" "\<forall>(s, v) \<in> H. i \<in> acceptances A sys s v"
    "learner_ok A sys l"
    using ok l(1) by (simp_all add: node_ok_def)
  ultimately have "no_learn out \<and> learner_ok A sys l'" unfolding counts_def by blast
  with ok l(3) same show "no_learn out \<and> node_ok A i M H sys co'"
    by (simp add: node_ok_def)
qed

lemma counts_state:
  "(\<And>l sys. learner_ok A sys l \<Longrightarrow> learner_ok A sys (snd (f l))) \<Longrightarrow> obeys (counts A i M H) (step_state f)"
  "(\<And>l sys. learner_ok A sys l \<Longrightarrow> learner_ok A sys (g l)) \<Longrightarrow> obeys (counts A i M H) (step_update g)"
  by (simp_all add: obeys_def counts_def step_state_def split_def Let_def)

lemma learner_ok_collect: "learner_ok A sys (snd (collect_executed b r l)) = learner_ok A sys l"
  by (rule learner_ok_cong) simp_all

lemma learner_ok_evaluate: "learner_ok A sys (snd (evaluate_retry c l)) = learner_ok A sys l"
  by (rule learner_ok_cong) (simp_all add: evaluate_retry_def Let_def split_def)

lemma learner_ok_flush:
  assumes "learner_ok A sys l"
  shows "learner_ok A sys (la_maybe_flush_state c l)"
proof -
  have "\<not> sh_enabled (lr_storage (la_learner l))" using assms by (simp add: learner_ok_def)
  then have "learner_ok A sys (la_maybe_flush_state c l) = learner_ok A sys l"
    by (intro learner_ok_cong) (simp_all add: la_maybe_flush_state_def learner_maybe_flush_disabled)
  with assms show ?thesis by simp
qed

lemma learner_ok_own:
  assumes "learner_ok A sys l" and "finite A" and "node_id from \<in> acceptances A sys s v"
  shows "learner_ok A sys (snd (la_record_learn cd c s v from l))"
proof -
  let ?l = "l\<lparr>la_learner := snd (learner_handle_learn cd c \<lparr>ln_slot = s, ln_value = v\<rparr> from (la_learner l))\<rparr>"
  have "learner_ok A sys ?l" using assms by (intro learner_ok_record) simp_all
  moreover have "learner_ok A sys (snd (la_record_learn cd c s v from l)) = learner_ok A sys ?l"
    using assms(1) by (intro learner_ok_cong) (simp_all add: la_record_learn_simps learner_ok_def)
  ultimately show ?thesis by simp
qed

lemma dispatch_no_learn: "no_learn (snd (dispatch_executed ex l))"
  by (simp add: dispatch_executed_def la_message_def Let_def)

lemma la_sends_no_learn:
  "no_learn (fst (snd (la_handle_message cd c m l)))" "no_learn (fst (la_handle_tick cd c l))"
  using dispatch_no_learn
  by (simp_all add: la_handle_message_def la_handle_tick_def handle_evaluate_retry_def la_message_def Let_def split_def
      split: message_payload.split retry_learn_result.split)

lemma counts_message:
  assumes "is_learn m \<longrightarrow> m \<in> M"
  shows "obeys (counts A i M H) (step_lift (la_handle_message cd c m))"
  unfolding obeys_def counts_def step_lift_def
proof (intro allI impI; elim conjE)
  fix l x out l' sys assume run: "Some (la_handle_message cd c m l) = Some (x, out, l')"
    and ok: "finite A" "net_inv A sys" "M \<subseteq> sys_net sys" "learner_ok A sys l"
  have "node_id (sender m) \<in> acceptances A sys (ln_slot ln) (ln_value ln)" if "payload m = LearnMsg ln" for ln
    using that ok(2,3) assms by (auto simp: net_inv_def is_learn_def)
  then have "learner_ok A sys (la_step cd (c, Receive m) l)" by (intro learner_ok_message ok)
  moreover have "no_learn (fst (snd (la_handle_message cd c m l)))" by (rule la_sends_no_learn)
  ultimately show "no_learn out \<and> learner_ok A sys l'"
    using run by simp
qed

lemma counts_tick: "obeys (counts A i M H) (step_lift (\<lambda>l. ((), la_handle_tick cd c l)))"
  unfolding obeys_def counts_def step_lift_def
proof (intro allI impI; elim conjE)
  fix l x out l' sys assume run: "Some ((), la_handle_tick cd c l) = Some (x, out, l')"
    and ok: "learner_ok A sys l"
  have "learner_ok A sys (la_step cd (c, Tick) l)" by (intro learner_ok_tick ok)
  moreover have "no_learn (fst (la_handle_tick cd c l))" by (rule la_sends_no_learn)
  ultimately show "no_learn out \<and> learner_ok A sys l'"
    using run by simp
qed

section \<open>The acceptor\<close>

lemma node_ok_moved:
  assumes "node_ok A i M H sys co" and "acceptor_side A sys'" and "net_inv A sys'"
    and "system_moves A i out sys sys'" and "i \<in> A"
    and "\<forall>a. co_acceptor co' = Some a \<longrightarrow> sys_acceptor sys' i = a"
    and "co_proposer co' = co_proposer co" "co_learner co' = co_learner co"
      "co_config co' = co_config co" "co_node co' = co_node co"
  shows "node_ok A i M H sys' co'"
proof -
  have g: "grows A sys sys'" and net: "sys_net sys \<subseteq> sys_net sys'"
    using assms(4) by (auto simp: system_moves_def)
  have "learner_ok A sys' l" if "learner_ok A sys l" for l
    using that g assms(1) by (auto simp: node_ok_def intro: learner_ok_grows)
  moreover have "\<forall>(s, v) \<in> H. i \<in> acceptances A sys' s v"
    using g assms(1) unfolding node_ok_def grows_def by fast
  moreover have "M \<subseteq> sys_net sys'" using net assms(1) unfolding node_ok_def by blast
  ultimately show ?thesis
    using assms by (simp add: node_ok_def)
qed

text \<open>The acceptor of node \<open>i\<close> is replaced by what one of its requests makes of it.\<close>

definition system_accepts :: "u64 \<Rightarrow> acceptor_agent \<Rightarrow> system \<Rightarrow> system" where
  "system_accepts i a sys = sys\<lparr>sys_acceptor := (sys_acceptor sys)(i := a)\<rparr>"

lemma accepts_ok:
  assumes "acceptor_side A sys" and "net_inv A sys" and "i \<in> A" and "sys_acceptor sys i = a"
    and "aa_acceptor a' = snd (acceptor_handle cd r (aa_acceptor a))" and "aa_node a' = aa_node a"
  shows "acceptor_side A (system_accepts i a' sys)" "net_inv A (system_accepts i a' sys)"
    "system_moves A i [] sys (system_accepts i a' sys)"
proof -
  have inv: "acceptor_inv (aa_acceptor a)" "\<not> sh_enabled (acc_storage (aa_acceptor a))" "node_id (aa_node a) = i"
    using assms(1,3,4) by (auto simp: acceptor_side_def)
  show "acceptor_side A (system_accepts i a' sys)"
    using assms inv by (simp add: acceptor_side_def system_accepts_def acceptor_handle_inv acceptor_handle_settings)
  have "bt_get (accepted_map (aa_acceptor a)) \<subseteq>\<^sub>m bt_get (accepted_map (aa_acceptor a'))"
    using acceptor_handle_grows [OF inv(1,2)] assms(5) by simp
  then have g: "grows A sys (system_accepts i a' sys)"
    using assms(4) by (auto simp: grows_def acceptances_def has_accepted_def system_accepts_def map_le_def dom_def)
  then show "system_moves A i [] sys (system_accepts i a' sys)"
    by (simp add: system_moves_def system_accepts_def)
  show "net_inv A (system_accepts i a' sys)"
    by (rule net_inv_grows [OF assms(2) g]) (simp add: system_accepts_def)
qed

lemma safe_request:
  assumes "\<And>a. \<exists>r. aa_acceptor (snd (f a)) = snd (acceptor_handle cd r (aa_acceptor a))"
    and "\<And>a. aa_node (snd (f a)) = aa_node a"
  shows "obeys (safe A i M H) (with_acceptor (step_state f))"
  unfolding obeys_def safe_def
proof (intro allI impI)
  fix co x out co' sys
  assume run: "with_acceptor (step_state f) co = Some (x, out, co')" and ok: "node_ok A i M H sys co"
  from run obtain a where a: "co_acceptor co = Some a" "co_acceptor co' = Some (snd (f a))" "out = []"
    and same: "co_proposer co' = co_proposer co" "co_learner co' = co_learner co"
      "co_config co' = co_config co" "co_node co' = co_node co"
    by (auto simp: with_acceptor_def step_state_def co_parts split_def Let_def split: agents.splits)
  from ok a(1) have i: "i \<in> A" "sys_acceptor sys i = a" "acceptor_side A sys" "net_inv A sys"
    by (simp_all add: node_ok_def)
  obtain r where r: "aa_acceptor (snd (f a)) = snd (acceptor_handle cd r (aa_acceptor a))"
    using assms(1) by blast
  note moved = accepts_ok [OF i(3,4,1,2) r assms(2)]
  have "node_ok A i M H (system_accepts i (snd (f a)) sys) co'"
    by (rule node_ok_moved [OF ok moved i(1) _ same]) (use a(2) in \<open>simp add: system_accepts_def\<close>)
  with moved(3) a(3) show "\<exists>sys'. node_ok A i M H sys' co' \<and> system_moves A i out sys sys'" by blast
qed

lemma safe_own_requests:
  "obeys (safe A i M H) (with_acceptor (step_state (aa_process_prepare cd c s b)))"
  "obeys (safe A i M H) (with_acceptor (step_state (aa_process_accept cd c s b v)))"
proof -
  have "aa_acceptor (snd (aa_process_prepare cd c s b a)) = snd (acceptor_handle cd (c, PrepareReq s b) (aa_acceptor a))"
    "aa_acceptor (snd (aa_process_accept cd c s b v a)) = snd (acceptor_handle cd (c, AcceptReq s b v) (aa_acceptor a))" for a
    by (simp_all add: aa_process_prepare_def aa_process_accept_def split_def Let_def)
  then have "\<exists>r. aa_acceptor (snd (aa_process_prepare cd c s b a)) = snd (acceptor_handle cd r (aa_acceptor a))"
    "\<exists>r. aa_acceptor (snd (aa_process_accept cd c s b v a)) = snd (acceptor_handle cd r (aa_acceptor a))" for a
    by blast+
  then show "obeys (safe A i M H) (with_acceptor (step_state (aa_process_prepare cd c s b)))"
    "obeys (safe A i M H) (with_acceptor (step_state (aa_process_accept cd c s b v)))"
    by (auto intro!: safe_request simp: aa_process_prepare_def aa_process_accept_def split_def Let_def)
qed

lemma safe_acceptor_message:
  assumes "\<not> is_retry m"
  shows "obeys (safe A i M H) (with_acceptor (step_lift (aa_handle_message cd c m)))"
  unfolding obeys_def safe_def
proof (intro allI impI)
  fix co x out co' sys
  assume run: "with_acceptor (step_lift (aa_handle_message cd c m)) co = Some (x, out, co')"
    and ok: "node_ok A i M H sys co"
  from run obtain a where a: "co_acceptor co = Some a"
    and a': "co_acceptor co' = Some (snd (snd (aa_handle_message cd c m a)))"
    and out: "out = fst (snd (aa_handle_message cd c m a))"
    and same: "co_proposer co' = co_proposer co" "co_learner co' = co_learner co"
      "co_config co' = co_config co" "co_node co' = co_node co"
    by (auto simp: with_acceptor_def step_lift_def co_parts split: agents.splits prod.splits)
  from ok a have i: "i \<in> A" "sys_acceptor sys i = a" "acceptor_side A sys" "net_inv A sys"
    by (simp_all add: node_ok_def)
  let ?sys = "acceptor_receives cd c i m sys"
  have moves: "system_moves A i out sys ?sys"
    using i out by (simp add: system_moves_def acceptor_receives_simps acceptor_receives_grows)
  have "node_ok A i M H ?sys co'"
    by (rule node_ok_moved [OF ok _ _ moves i(1) _ same])
      (use i a' assms in \<open>simp_all add: acceptor_receives_simps acceptor_receives_side acceptor_receives_net\<close>)
  with moves show "\<exists>sys'. node_ok A i M H sys' co' \<and> system_moves A i out sys sys'" by blast
qed

lemma safe_acceptor_tick: "obeys (safe A i M H) (with_acceptor (step_update (aa_handle_tick c)))"
  unfolding obeys_def
proof (intro allI impI safe_posts)
  fix co x out co' sys
  assume run: "with_acceptor (step_update (aa_handle_tick c)) co = Some (x, out, co')" and ok: "node_ok A i M H sys co"
  from run obtain a where a: "co_acceptor co = Some a" "out = []" by (auto simp: with_acceptor_def co_parts split: agents.splits)
  with ok have "\<not> sh_enabled (acc_storage (aa_acceptor a))" by (auto simp: node_ok_def acceptor_side_def)
  then have "aa_handle_tick c a = a"
    by (simp add: aa_handle_tick_def acceptor_maybe_flush_def io_zoom_def io_bind_eq
        maybe_flush_current_state_def sh_maybe_flush_changes_def)
  with run a have "co' = co" by (cases co) (auto simp: with_acceptor_def co_parts split: agents.splits)
  with ok a(2) show "no_learn out \<and> node_ok A i M H sys co'" by simp
qed

text \<open>The learn of a value that the acceptor holds.\<close>

lemma safe_commit:
  assumes "(s, v) \<in> H"
  shows "obeys (safe A i M H) (with_acceptor (\<lambda>a. map_option (\<lambda>(ln, out). (ln, out, a)) (aa_commit_phase s v a)))"
  unfolding obeys_def safe_def
proof (intro allI impI)
  fix co x out co' sys
  assume run: "with_acceptor (\<lambda>a. map_option (\<lambda>(ln, out). (ln, out, a)) (aa_commit_phase s v a)) co = Some (x, out, co')"
    and ok: "node_ok A i M H sys co"
  from run obtain a where a: "co_acceptor co = Some a"
    and out: "out = [(aa_learners a, aa_message a (LearnMsg \<lparr>ln_slot = s, ln_value = v\<rparr>))]" and co': "co' = co"
    by (cases co) (auto simp: with_acceptor_def co_parts aa_commit_phase_def Let_def split: agents.splits if_splits)
  from ok a have i: "i \<in> A" "sys_acceptor sys i = a" "acceptor_side A sys" "net_inv A sys" "i \<in> acceptances A sys s v"
    using assms by (auto simp: node_ok_def)
  then have "node_id (aa_node a) = i" by (auto simp: acceptor_side_def)
  with i out have "net_inv A (posts out sys)"
    by (auto simp: net_inv_def)
  moreover have "acceptor_side A (posts out sys)" using i by simp
  ultimately have "node_ok A i M H (posts out sys) co'"
    using ok by (auto simp: node_ok_def co')
  with posts_moves show "\<exists>sys'. node_ok A i M H sys' co' \<and> system_moves A i out sys sys'" by blast
qed

text \<open>The own learner counts the own acceptor.\<close>

lemma safe_record:
  assumes "(s, v) \<in> H"
  shows "obeys (safe A i M H) (\<lambda>co. with_learner (step_state (la_record_learn cd c s v (co_node co))) co)"
  unfolding obeys_def
proof (intro allI impI)
  fix co x out co' assume run: "with_learner (step_state (la_record_learn cd c s v (co_node co))) co = Some (x, out, co')"
  show "safe A i M H co out co'"
  proof (cases "node_id (co_node co) = i")
    case True
    have "obeys (counts A i M H) (step_state (la_record_learn cd c s v (co_node co)))"
      using assms True by (auto simp: obeys_def counts_def step_state_def split_def Let_def intro!: learner_ok_own)
    from obeysD [OF safe_learner [OF this] run] show ?thesis .
  qed (simp add: safe_def node_ok_def)
qed

section \<open>Every event of a node\<close>

named_theorems safe_steps

lemma safe_proposer_steps [safe_steps]:
  "obeys (safe A i M H) (with_proposer (pa_handle_tick cd net c))"
  "obeys (safe A i M H) (with_proposer (submit_client_request v))"
  "obeys (safe A i M H) (with_proposer (prepare_phase net c s b ps))"
  "obeys (safe A i M H) (with_proposer proposals_to_accept)"
  "obeys (safe A i M H) (with_proposer (accept_phase net v s b as))"
  "obeys (safe A i M H) (with_proposer (step_state collect_client_responses))"
  "obeys (safe A i M H) (with_proposer (step_state (check_prepare_timeout c)))"
  "obeys (safe A i M H) (with_proposer (step_update start_leader_loop))"
  "obeys (safe A i M H) (with_proposer (step_update (pa_maybe_flush_state c)))"
  "obeys (safe A i M H) (with_proposer (step_get g))"
  by (intro safe_proposer learnless_tick learnless_prepare_phase learnless_propose learnless_accept_phase
      learnless_state learnless_update learnless.obeys_get timer_config,
      (simp add: submit_client_request_def learnless_core)?)+

lemma safe_proposer_executed [safe_steps]:
  "obeys (safe A i M H) (with_proposer (\<lambda>p. if pr_is_leader (pa_proposer p) \<and> b
     then process_executed cd c ex p else step_return () p))"
  by (intro safe_proposer obeys_if learnless_executed learnless.obeys_return)

lemma safe_follow [safe_steps]: "obeys (safe A i M H) (with_proposer (follow_leader env c leader own))"
proof (rule safe_proposer)
  have "obeys learnless (pa_become_leader cd c)" "obeys learnless pa_resign_leader" for cd
    by (simp_all add: pa_become_leader_def pa_resign_leader_def learnless_core)
  then show "obeys learnless (follow_leader env c leader own)"
    unfolding follow_leader_def [abs_def]
    by (intro obeys_if learnless.obeys_bind learnless.obeys_return)
qed

lemma safe_learner_steps [safe_steps]:
  "obeys (safe A i M H) (with_learner (step_state (evaluate_retry c)))"
  "obeys (safe A i M H) (with_learner (step_update (execute_chosen_learns cd c)))"
  "obeys (safe A i M H) (with_learner (step_state (collect_executed n full)))"
  "obeys (safe A i M H) (with_learner (step_update (la_maybe_flush_state c)))"
  "obeys (safe A i M H) (with_learner (step_lift (\<lambda>l. ((), la_handle_tick cd c l))))"
  "obeys (safe A i M H) (with_learner (step_get g))"
  by (intro safe_learner counts_state counts_tick counts.obeys_get,
      (simp add: learner_ok_evaluate learner_ok_collect learner_ok_execute learner_ok_flush)?)+

lemmas [safe_steps] = safe_own_requests safe_acceptor_tick

text \<open>After its acceptor has accepted, a node may send the learn and count it.\<close>

lemma safe_told:
  assumes "(s, v) \<in> H"
  shows "obeys (safe A i M H) (\<lambda>co. step_bind (with_acceptor (\<lambda>a. map_option (\<lambda>(ln, out). (ln, out, a))
      (aa_commit_phase s v a))) (case_option (step_return ())
      (\<lambda>ln. step_bind (with_learner (step_state (la_record_learn cd c (ln_slot ln) (ln_value ln) (co_node co))))
         (\<lambda>_. step_return ()))) co)"
  unfolding obeys_def
proof (intro allI impI)
  let ?commit = "with_acceptor (\<lambda>a. map_option (\<lambda>(ln, out). (ln, out, a)) (aa_commit_phase s v a))"
  let ?rec = "\<lambda>co. step_bind (\<lambda>co. with_learner (step_state (la_record_learn cd c s v (co_node co))) co) (\<lambda>_. step_return ()) co"
  fix co u out co'
  assume "step_bind ?commit (case_option (step_return ())
      (\<lambda>ln. step_bind (with_learner (step_state (la_record_learn cd c (ln_slot ln) (ln_value ln) (co_node co))))
         (\<lambda>_. step_return ()))) co = Some (u, out, co')"
  then obtain ln out1 co1 out2 where 1: "?commit co = Some (ln, out1, co1)" and out: "out = out1 @ out2"
    and 2: "(case ln of None \<Rightarrow> step_return () | Some ln \<Rightarrow>
        step_bind (with_learner (step_state (la_record_learn cd c (ln_slot ln) (ln_value ln) (co_node co))))
         (\<lambda>_. step_return ())) co1 = Some (u, out2, co')"
    by (auto simp: step_bind_Some)
  from 1 have ln: "ln = Some \<lparr>ln_slot = s, ln_value = v\<rparr>" "co_node co1 = co_node co"
    by (auto simp: with_acceptor_def aa_commit_phase_def Let_def split: agents.splits if_splits)
  have "obeys (safe A i M H) ?rec"
    by (intro safe.obeys_bind safe.obeys_return safe_record assms)
  moreover have "?rec co1 = Some (u, out2, co')"
    using 2 ln by (simp add: step_bind_def)
  ultimately have "safe A i M H co1 out2 co'" by (rule obeysD)
  moreover have "safe A i M H co out1 co1" by (rule obeysD [OF safe_commit [OF assms] 1])
  ultimately show "safe A i M H co out co'"
    unfolding out by (rule safe.R_trans [rotated])
qed

lemma safe_rest:
  assumes "(prop_slot prop, prop_value prop) \<in> H"
  shows "obeys (safe A i M H) (accept_rest env c prop acc)"
proof -
  have end_: "obeys (safe A i M H) (if res = AcceptIsEventDriven then step_return () else step_panic)" for res
    by (simp add: safe.obeys_rules del: step_simps)
  show ?thesis
    unfolding accept_rest_def
    by (intro safe.obeys_bind safe.obeys_return obeys_if safe_steps safe_told assms end_)
qed

lemma node_ok_held: "node_ok A i M (insert sv H) sys co \<Longrightarrow> node_ok A i M H sys co"
  by (simp add: node_ok_def)

lemma safe_accept_one [safe_steps]: "obeys (safe A i M H) (accept_one env c prop)"
  unfolding obeys_def safe_def
proof (intro allI impI)
  let ?s = "prop_slot prop" and ?v = "prop_value prop"
  let ?own = "with_acceptor (step_state (aa_process_accept (env_acceptor_codec env) c ?s (prop_ballot prop) ?v))"
  fix co u out co' sys
  assume run: "accept_one env c prop co = Some (u, out, co')" and ok: "node_ok A i M H sys co"
  from run obtain acc out1 co1 out2 where own: "?own co = Some (AcceptedOk acc, out1, co1)"
    and rest: "accept_rest env c prop acc co1 = Some (u, out2, co')" and out: "out = out1 @ out2"
    by (auto simp: accept_one_rest step_bind_Some accepted_or_panic)
  from own obtain a where a: "co_acceptor co = Some a"
    and r: "fst (acceptor_accept (env_acceptor_codec env) c ?s (prop_ballot prop) ?v (aa_acceptor a)) = AcceptedOk acc"
    and a1: "co_acceptor co1 = Some (a\<lparr>aa_acceptor :=
        snd (acceptor_accept (env_acceptor_codec env) c ?s (prop_ballot prop) ?v (aa_acceptor a))\<rparr>)"
    by (auto simp: with_acceptor_def co_acceptor_def step_state_def aa_process_accept_def Let_def split_def
        split: agents.splits)
  have inv: "acceptor_inv (aa_acceptor a)" "\<not> sh_enabled (acc_storage (aa_acceptor a))"
    using ok a by (auto simp: node_ok_def acceptor_side_def)
  have "safe A i M H co out1 co1" by (rule obeysD [OF safe_own_requests(2) own])
  then obtain sys1 where 1: "node_ok A i M H sys1 co1" "system_moves A i out1 sys sys1"
    using ok unfolding safe_def by blast
  have "i \<in> acceptances A sys1 ?s ?v"
    using 1(1) a1 acceptor_accept_stores [OF inv r] by (auto simp: node_ok_def acceptances_def has_accepted_def)
  with 1(1) have "node_ok A i M (insert (?s, ?v) H) sys1 co1" by (simp add: node_ok_def)
  moreover have "safe A i M (insert (?s, ?v) H) co1 out2 co'"
    by (rule obeysD [OF safe_rest rest]) simp
  ultimately obtain sys2 where "node_ok A i M (insert (?s, ?v) H) sys2 co'" "system_moves A i out2 sys1 sys2"
    unfolding safe_def by blast
  with 1(2) out show "\<exists>sys'. node_ok A i M H sys' co' \<and> system_moves A i out sys sys'"
    by (blast intro: node_ok_held system_moves_trans)
qed

lemma safe_accept_phase [safe_steps]: "obeys (safe A i M H) (co_accept_phase env c)"
proof -
  have "obeys (safe A i M H) (if props = [] then step_return MissingProposal
      else step_bind (step_each (accept_one env c) props) (\<lambda>_. step_return AcceptIsEventDriven))" for props
    by (cases props) (simp_all add: safe.obeys_rules safe_steps del: step_simps step_each.simps)
  then show ?thesis
    unfolding co_accept_phase_def by (intro safe.obeys_bind safe_steps)
qed

lemma safe_prepare [safe_steps]: "obeys (safe A i M H) (co_prepare_phase env c)"
  unfolding co_prepare_phase_def
  by (intro safe.obeys_bind safe_steps) (simp add: safe_steps obeys_panic del: step_simps split: promise_result.split)

text \<open>Only a node that does not leave the learns to the acceptors commits by itself.\<close>

lemma safe_unless_commits: "obeys (safe A i M H) (\<lambda>co. if \<not> acceptors_send_learns (co_config co) then m co else step_return () co)"
  by (auto simp: obeys_def safe_def node_ok_def system_moves_def grows_refl)

lemma safe_commit_phase [safe_steps]: "obeys (safe A i M H) (co_commit_phase env c)"
  unfolding co_commit_phase_def
  by (intro safe.obeys_bind safe.obeys_return safe_unless_commits safe_steps)

lemma safe_leader_tick [safe_steps]: "obeys (safe A i M H) (leader_tick env c)"
proof -
  have "obeys (safe A i M H) (case ph of
         Start \<Rightarrow> step_bind (with_proposer (step_update start_leader_loop)) (\<lambda>_. step_return None)
       | PrepareSend \<Rightarrow> step_bind (co_prepare_phase env c) (\<lambda>_. step_return None)
       | PreparePending \<Rightarrow>
           step_bind (with_proposer (step_state (check_prepare_timeout c))) (\<lambda>_. step_return None)
       | AcceptCommit \<Rightarrow> step_bind (co_accept_phase env c) (\<lambda>_. co_commit_phase env c)
       | _ \<Rightarrow> step_return None)" for ph
    by (cases ph) (simp_all add: safe.obeys_bind safe.obeys_return safe_steps del: step_simps)
  then show ?thesis
    unfolding leader_tick_def by (intro safe.obeys_bind safe_steps)
qed

lemma safe_drive [safe_steps]: "obeys (safe A i M H) (drive_learner env c)"
  unfolding drive_learner_def by (intro safe.obeys_bind safe_steps)

lemma safe_flush [safe_steps]: "obeys (safe A i M H) (maybe_flush_states c)"
  unfolding maybe_flush_states_def [abs_def]
  by (intro obeys_if safe.obeys_bind safe.obeys_return safe_steps)

section \<open>What may happen\<close>

text \<open>
  A node may be given any message but a learn that was never sent, and but a request to retry; and
  it ticks at times when its own learner does not ask its own acceptor to retry. What the answers
  to retries do is a property of the root theory.
\<close>

fun may_happen :: "network_message set \<Rightarrow> coordinator \<Rightarrow> clock \<times> coordinator_event \<Rightarrow> bool" where
  "may_happen M co (c, CoReceive m) \<longleftrightarrow> \<not> is_retry m \<and> (is_learn m \<longrightarrow> m \<in> M)"
| "may_happen M co (c, CoTick) \<longleftrightarrow>
     (case co_agents co of
        CoordinatorNode p a l \<Rightarrow> (case fst (evaluate_retry c l) of Retry _ \<Rightarrow> False | _ \<Rightarrow> True)
      | _ \<Rightarrow> True)"
| "may_happen M co (c, CoSubmit v) \<longleftrightarrow> True"
| "may_happen M co (c, CoFailure) \<longleftrightarrow> True"
| "may_happen M co (c, CoBeat) \<longleftrightarrow> True"

lemma node_ok_detector [simp]:
  "node_ok A i M H sys (co\<lparr>co_detector := fd\<rparr>) = node_ok A i M H sys co"
  by (simp add: node_ok_def co_parts)

lemma safe_detector [safe_steps]: "obeys (safe A i M H) (co_heartbeat from)" "obeys (safe A i M H) co_ignore"
  unfolding obeys_def
  by (auto simp: co_heartbeat_def co_ignore_def step_bind_def intro: safe_posts)

lemma safe_forward:
  assumes "\<not> is_retry m" and "is_learn m \<longrightarrow> m \<in> M"
  shows "obeys (safe A i M H) (to_proposer env c m)" "obeys (safe A i M H) (to_acceptor env c m)"
    "obeys (safe A i M H) (to_learner env c m)"
  unfolding to_proposer_def to_acceptor_def to_learner_def using assms
  by (simp_all add: safe_proposer learnless_message safe_acceptor_message safe_learner counts_message)

lemma safe_messages:
  assumes "\<not> is_retry m" and "is_learn m \<longrightarrow> m \<in> M"
  shows "obeys (safe A i M H) (proposer_message env c m)" "obeys (safe A i M H) (acceptor_message env c m)"
    "obeys (safe A i M H) (learner_message env c m)" "obeys (safe A i M H) (coordinator_message env c m)"
proof -
  have "obeys (safe A i M H) (proposer_message env c m) \<and> obeys (safe A i M H) (acceptor_message env c m) \<and>
    obeys (safe A i M H) (learner_message env c m) \<and> obeys (safe A i M H) (coordinator_message env c m)"
    unfolding proposer_message_def [abs_def] acceptor_message_def [abs_def] learner_message_def
      coordinator_message_def [abs_def]
    by (cases "payload m")
      (simp_all only: message_payload.case safe_forward [OF assms] safe_detector obeys_if simp_thms)
  then show "obeys (safe A i M H) (proposer_message env c m)" "obeys (safe A i M H) (acceptor_message env c m)"
    "obeys (safe A i M H) (learner_message env c m)" "obeys (safe A i M H) (coordinator_message env c m)"
    by blast+
qed

lemma safe_message:
  assumes "\<not> is_retry m" and "is_learn m \<longrightarrow> m \<in> M"
  shows "obeys (safe A i M H) (co_handle_message env c m)"
  unfolding co_handle_message_def [abs_def]
  by (rule obeys_on [of _ "\<lambda>co. case co_agents co of
        ProposerNode _ \<Rightarrow> proposer_message env c m
      | AcceptorNode _ \<Rightarrow> acceptor_message env c m
      | LearnerNode _ \<Rightarrow> learner_message env c m
      | CoordinatorNode _ _ _ \<Rightarrow> coordinator_message env c m"])
    (simp add: safe_messages [OF assms] split: agents.split)

text \<open>A tick that does not retry.\<close>

lemma retry_quiet:
  assumes "co_agents co = CoordinatorNode p a l" and "\<nexists>ss. fst (evaluate_retry c l) = Retry ss"
  shows "co_maybe_retry_learn env c co =
    step_bind (with_learner (step_state (evaluate_retry c))) (\<lambda>_. step_return ()) co"
  using assms
  by (simp add: co_maybe_retry_learn_def step_bind_def with_learner_def step_state_def split_def Let_def
      split: retry_learn_result.split)

lemma safe_tick:
  assumes "may_happen M co (c, CoTick)" and "co_handle_tick env c co = Some (x, out, co')"
  shows "safe A i M H co out co'"
proof (cases "co_agents co")
  case (CoordinatorNode p a l)
  let ?rest = "\<lambda>_. step_bind (drive_learner env c) (\<lambda>_.
          step_bind (maybe_flush_states c) (\<lambda>_ co.
            if \<not> co_is_leader co then step_return None co else leader_tick env c co))"
  have obs: "obeys (safe A i M H) (step_bind (step_bind (with_learner (step_state (evaluate_retry c))) (\<lambda>_. step_return ())) ?rest)"
    by (intro safe.obeys_bind safe.obeys_return obeys_if safe_steps)
  have "\<nexists>ss. fst (evaluate_retry c l) = Retry ss"
    using assms(1) CoordinatorNode by auto
  from retry_quiet [OF CoordinatorNode this, of env] have eq:
    "co_handle_tick env c co =
       step_bind (step_bind (with_learner (step_state (evaluate_retry c))) (\<lambda>_. step_return ())) ?rest co"
    using CoordinatorNode unfolding co_handle_tick_def by (simp add: step_bind_def del: step_simps)
  show ?thesis by (rule obeysD [OF obs]) (simp only: eq [symmetric] assms(2))
next
  case (AcceptorNode a)
  have "obeys (safe A i M H) (step_bind (with_acceptor (step_update (aa_handle_tick c))) (\<lambda>_. step_return None))"
    by (intro safe.obeys_bind safe.obeys_return safe_steps)
  from obeysD [OF this] AcceptorNode assms(2) show ?thesis by (simp add: co_handle_tick_def del: step_simps)
next
  case (LearnerNode l)
  have "obeys (safe A i M H) (step_bind (with_learner (step_lift (\<lambda>l. ((), la_handle_tick (env_learner_codec env) c l))))
      (\<lambda>_. step_return None))"
    by (intro safe.obeys_bind safe.obeys_return safe_steps)
  from obeysD [OF this] LearnerNode assms(2) show ?thesis by (simp add: co_handle_tick_def del: step_simps)
next
  case (ProposerNode p)
  with obeysD [OF safe_proposer_steps(1)] assms(2) show ?thesis by (simp add: co_handle_tick_def)
qed

lemma safe_failure: "obeys (safe A i M H) (co_failure_service env c)"
proof -
  have check: "obeys (safe A i M H)
      (\<lambda>co. let (r, fd) = fd_checker (co_detector co) in step_return r (co\<lparr>co_detector := fd\<rparr>))"
    unfolding obeys_def by (auto simp: split_def Let_def intro: safe_posts)
  have follow: "obeys (safe A i M H) (\<lambda>co. with_proposer (follow_leader env c leader (node_id (co_node co))) co)"
    for leader
    by (rule obeys_on [where f = "\<lambda>co. with_proposer (follow_leader env c leader (node_id (co_node co)))"])
      (rule safe_steps)
  have "obeys (safe A i M H) (\<lambda>co. case r of None \<Rightarrow> step_return () co
         | Some leader \<Rightarrow>
             if role (co_node co) = Proposer \<or> role (co_node co) = Coordinator
             then with_proposer (follow_leader env c leader (node_id (co_node co))) co
             else step_return () co)" for r
    using follow by (cases r) (simp_all add: safe.obeys_return obeys_if del: step_simps)
  with check show ?thesis
    unfolding co_failure_service_def by (intro safe.obeys_bind safe.obeys_return)
qed

lemma safe_submit: "obeys (safe A i M H) (co_submit_client_request req)"
  unfolding co_submit_client_request_def [abs_def]
  by (rule obeys_agents) (simp_all add: safe.obeys_return safe_steps del: step_simps)

lemma safe_beat:
  assumes "co_send_heartbeat co = Some (u, out, co')"
  shows "safe A i M H co out co'"
  using assms
  by (intro safe_posts)
    (auto simp: co_send_heartbeat_def step_out_def pa_send_heartbeat_def aa_send_heartbeat_def la_send_heartbeat_def
      pa_message_def aa_message_def la_message_def split: agents.splits)

theorem node_event_safe:
  assumes "may_happen M co e" and "co_step env e co = Some (u, out, co')"
  shows "safe A i M H co out co'"
  using assms
proof (cases "(env, e)" rule: co_step.cases)
  case (1 env' c m)
  with assms(1) have "obeys (safe A i M H) (step_bind (co_handle_message env c m) (\<lambda>_. step_return ()))"
    by (intro safe.obeys_bind safe.obeys_return safe_message) simp_all
  with assms(2) 1 show ?thesis by (simp add: obeysD del: step_simps)
next
  case (2 env' c)
  with assms(2) obtain x out1 co1 where "co_handle_tick env c co = Some (x, out1, co1)" "out = out1" "co' = co1"
    by (auto simp: step_bind_Some)
  with assms(1) 2 show ?thesis by (simp add: safe_tick del: may_happen.simps)
next
  case (3 env' c v)
  have "obeys (safe A i M H) (step_bind (co_submit_client_request v) (\<lambda>_. step_return ()))"
    by (intro safe.obeys_bind safe.obeys_return safe_submit)
  with assms(2) 3 show ?thesis by (simp add: obeysD del: step_simps)
next
  case (4 env' c)
  have "obeys (safe A i M H) (step_bind (co_failure_service env c) (\<lambda>_. step_return ()))"
    by (intro safe.obeys_bind safe.obeys_return safe_failure)
  with assms(2) 4 show ?thesis by (simp add: obeysD del: step_simps)
next
  case (5 env' c)
  with assms(2) show ?thesis by (simp add: safe_beat)
qed

end
