(* ===== verification/Cluster.thy ===== *)
theory Cluster
  imports Node_Safety
begin

text \<open>
  Whole nodes on a network. A cluster is a set of coordinators of any role, in the configuration
  where acceptors send the learns, without storage. The network delivers what was sent late,
  twice, out of order or never, and may deliver any other message than a learn, sent or not. The
  nodes agree on what they learn, and the store of a node is the store of any other node that has
  executed as far.
\<close>

section \<open>The nodes and the network\<close>

record cluster =
  cl_nodes :: "u64 \<Rightarrow> coordinator option"
  cl_net :: "network_message set"

text \<open>The start: every node is given the other ones, and one of them is the leader.\<close>

definition other_nodes :: "u64 \<Rightarrow> node list \<Rightarrow> node list" where
  "other_nodes i ns = filter (\<lambda>m. node_id m \<noteq> i) ns"

definition cluster_new ::
  "environment \<Rightarrow> clock \<Rightarrow> run_config \<Rightarrow> (node \<Rightarrow> storage \<times> storage \<times> storage) \<Rightarrow> u64 \<Rightarrow> node list \<Rightarrow> cluster" where
  "cluster_new env c cfg disks leader ns =
     \<lparr>cl_nodes = (\<lambda>i. case find (\<lambda>n. node_id n = i) ns of
          None \<Rightarrow> None
        | Some n \<Rightarrow> (case disks n of (pdisk, adisk, ldisk) \<Rightarrow>
            coordinator_new env c n (other_nodes i ns) (i = leader) cfg pdisk adisk ldisk)),
      cl_net = {}\<rparr>"

text \<open>One node has an event. A node that panics has no step.\<close>

inductive cluster_step :: "environment \<Rightarrow> cluster \<Rightarrow> cluster \<Rightarrow> bool" for env where
  node_event:
    "cl_nodes cl i = Some co \<Longrightarrow> may_happen (cl_net cl) co e \<Longrightarrow> co_step env e co = Some (u, out, co') \<Longrightarrow>
     cluster_step env cl (cl\<lparr>cl_nodes := (cl_nodes cl)(i \<mapsto> co'), cl_net := cl_net cl \<union> snd ` set out\<rparr>)"

definition acceptor_ids :: "node list \<Rightarrow> u64 set" where
  "acceptor_ids ns = node_id ` set (filter la_is_acceptor_role ns)"

section \<open>The invariant of the cluster\<close>

definition cluster_inv :: "u64 set \<Rightarrow> cluster \<Rightarrow> bool" where
  "cluster_inv A cl \<longleftrightarrow> finite A \<and> card A < 2 ^ 32 \<and>
     (\<exists>sys. sys_net sys = cl_net cl \<and> acceptor_side A sys \<and> net_inv A sys \<and>
        (\<forall>i co. cl_nodes cl i = Some co \<longrightarrow> node_ok A i {} {} sys co))"

lemma node_ok_elsewhere:
  assumes "node_ok A j {} {} sys co" and "system_moves A i out sys sys'" and "j \<noteq> i"
    and "acceptor_side A sys'" and "net_inv A sys'"
  shows "node_ok A j {} {} sys' co"
proof -
  have "learner_ok A sys' l" if "learner_ok A sys l" for l
    using that assms(1,2) by (auto simp: node_ok_def system_moves_def intro: learner_ok_grows)
  with assms show ?thesis by (simp add: node_ok_def system_moves_def)
qed

lemma cluster_step_inv:
  assumes "cluster_step env cl cl'" and "cluster_inv A cl"
  shows "cluster_inv A cl'"
  using assms(1)
proof cases
  case (node_event i co e u out co')
  from assms(2) obtain sys where sys: "sys_net sys = cl_net cl"
    and nodes: "\<And>j x. cl_nodes cl j = Some x \<Longrightarrow> node_ok A j {} {} sys x"
    by (auto simp: cluster_inv_def)
  have "node_ok A i (cl_net cl) {} sys co"
    using nodes [OF node_event(2)] sys by (simp add: node_ok_def)
  with node_event_safe [OF node_event(3,4), of A i "{}"] obtain sys' where
    sys': "node_ok A i (cl_net cl) {} sys' co'" "system_moves A i out sys sys'"
    unfolding safe_def by blast
  then have ok: "acceptor_side A sys'" "net_inv A sys'" "node_ok A i {} {} sys' co'"
    by (simp_all add: node_ok_def)
  have "node_ok A j {} {} sys' x" if "j \<noteq> i" "cl_nodes cl j = Some x" for j x
    by (rule node_ok_elsewhere [OF nodes [OF that(2)] sys'(2) that(1) ok(1,2)])
  with ok assms(2) sys sys'(2) show ?thesis
    unfolding cluster_inv_def node_event(1)
    by (intro conjI exI [of _ sys']) (auto simp: system_moves_def)
qed

lemma cluster_run_inv: "(cluster_step env)\<^sup>*\<^sup>* cl cl' \<Longrightarrow> cluster_inv A cl \<Longrightarrow> cluster_inv A cl'"
  by (induction rule: rtranclp_induct) (auto intro: cluster_step_inv)

section \<open>The start\<close>

text \<open>The configuration; a snapshot interval of 0 makes the agents panic at the start.\<close>

definition cluster_config :: "run_config \<Rightarrow> bool" where
  "cluster_config cfg \<longleftrightarrow> acceptors_send_learns cfg \<and> \<not> persistent_storage cfg \<and>
     storage_snapshot_slot_interval cfg \<noteq> 0"

lemma acceptor_agent_new_works:
  "cluster_config cfg \<Longrightarrow> \<exists>a. acceptor_agent_new hash cd c n nodes cfg disk = Some a"
  by (simp add: cluster_config_def acceptor_agent_new_def acceptor_new_def acceptor_helper_new_def sh_new_def)

lemma fresh_acceptor:
  assumes "acceptor_agent_new hash cd c n nodes cfg disk = Some a" and "\<not> persistent_storage cfg"
  shows "acceptor_inv (aa_acceptor a)" "\<not> sh_enabled (acc_storage (aa_acceptor a))" "node_id (aa_node a) = node_id n"
  using initial_acceptor_new [OF assms] by (auto simp: initial_acceptor_def acceptor_inv_def)

lemma other_acceptors:
  assumes "distinct (map node_id ns)" and "n \<in> set ns"
  shows "length (filter la_is_acceptor_role (other_nodes (node_id n) ns)) + (if la_is_acceptor_role n then 1 else 0) =
    card (acceptor_ids ns)"
proof -
  let ?fs = "filter la_is_acceptor_role ns"
  have inj: "inj_on node_id (set ns)" using assms(1) by (simp add: distinct_map)
  have "card (acceptor_ids ns) = card (set ?fs)"
    unfolding acceptor_ids_def by (rule card_image) (rule inj_on_subset [OF inj], auto)
  also have "\<dots> = length ?fs"
    using assms(1) by (intro distinct_card) (simp add: distinct_map)
  also have "\<dots> = length (filter (\<lambda>m. m \<noteq> n) ?fs) + length (filter (\<lambda>m. m = n) ?fs)"
    using sum_length_filter_compl [of "\<lambda>m. m \<noteq> n" ?fs] by simp
  also have "filter (\<lambda>m. m \<noteq> n) ?fs = filter la_is_acceptor_role (other_nodes (node_id n) ns)"
    using inj assms(2) by (auto simp: other_nodes_def inj_on_def intro!: filter_cong)
  also have "length (filter (\<lambda>m. m = n) ?fs) = (if la_is_acceptor_role n then 1 else 0)"
  proof -
    have "distinct ns" using assms(1) by (simp add: distinct_map)
    then have "length (filter (\<lambda>m. m = n) ?fs) = card (set (filter (\<lambda>m. m = n) ?fs))"
      using distinct_card [of "filter (\<lambda>m. m = n) ?fs"] by (simp del: filter_filter set_filter)
    also have "set (filter (\<lambda>m. m = n) ?fs) = (if la_is_acceptor_role n then {n} else {})"
      using assms(2) by auto
    finally show ?thesis by simp
  qed
  finally show ?thesis by simp
qed

lemma acceptor_ids_card: "card (acceptor_ids ns) \<le> length ns"
proof -
  have "card (acceptor_ids ns) \<le> length (filter la_is_acceptor_role ns)"
    unfolding acceptor_ids_def by (metis card_image_le card_length finite_set order_trans)
  also have "\<dots> \<le> length ns" by simp
  finally show ?thesis .
qed

lemma fresh_learner:
  assumes "learner_agent_new hash cd c n (other_nodes (node_id n) ns) cfg disk = Some l" and "cluster_config cfg"
    and "distinct (map node_id ns)" and "n \<in> set ns" and "length ns < 2 ^ 32" and "role n = Learner \<or> role n = Coordinator"
  shows "learner_ok (acceptor_ids ns) sys l"
proof -
  have cfg: "\<not> persistent_storage cfg" "acceptors_send_learns cfg" using assms(2) by (simp_all add: cluster_config_def)
  have fresh: "learner_inv (la_learner l)" "learned (la_learner l) = []" "slot_learns (la_learner l) = []"
    "\<not> sh_enabled (lr_storage (la_learner l))" "acceptors_send_learns (la_config l)"
    using assms(1) learner_agent_new_ok(1) [OF assms(1) cfg(1)] cfg
    by (auto simp: replica_def delivered_def learner_agent_new_def Let_def learner_new_def sh_new_def
        learner_load_state_def load_and_replay_state_def split: if_splits)
  have "lr_num_acceptors (la_learner l) =
      of_nat (length (filter la_is_acceptor_role (other_nodes (node_id n) ns)) + (if la_is_acceptor_role n then 1 else 0))"
    using assms(1,6) cfg
    by (auto simp: learner_agent_new_def Let_def learner_new_def sh_new_def la_is_acceptor_role_def
        learner_load_state_def load_and_replay_state_def split: if_splits)
  then have num: "lr_num_acceptors (la_learner l) = of_nat (card (acceptor_ids ns))"
    by (simp only: other_acceptors [OF assms(3,4)])
  have "card (acceptor_ids ns) < 2 ^ 64" using acceptor_ids_card [of ns] assms(5) by simp
  then have "unat (lr_num_acceptors (la_learner l)) = card (acceptor_ids ns)"
    by (simp add: num unat_of_nat take_bit_nat_eq_self)
  with fresh show ?thesis by (simp add: learner_ok_def voters_def)
qed

lemma cluster_new_nodes:
  assumes "cl_nodes (cluster_new env c cfg disks leader ns) i = Some co"
  obtains n pdisk adisk ldisk where "n \<in> set ns" "node_id n = i"
    "coordinator_new env c n (other_nodes (node_id n) ns) (i = leader) cfg pdisk adisk ldisk = Some co"
proof -
  from assms obtain n where n: "find (\<lambda>n. node_id n = i) ns = Some n"
    by (auto simp: cluster_new_def split: option.splits)
  then have "n \<in> set ns" "node_id n = i" by (auto simp: find_Some_iff)
  with assms n that show thesis by (cases "disks n") (auto simp: cluster_new_def)
qed

lemma proposer_agent_new_config:
  "proposer_agent_new cd c n nodes leader cfg disk = Some p \<Longrightarrow> pa_config p = cfg"
  by (auto simp: proposer_agent_new_def Let_def split: option.splits if_splits)

lemma coordinator_new_parts:
  assumes "coordinator_new env c n nodes leader cfg pdisk adisk ldisk = Some co"
  shows "co_config co = cfg" "co_node co = n"
    "co_proposer co = Some p \<Longrightarrow> pa_config p = cfg"
    "co_acceptor co = Some a \<Longrightarrow> la_is_acceptor_role n \<and>
       acceptor_agent_new (env_hash env) (env_acceptor_codec env) c n nodes cfg adisk = Some a"
    "co_learner co = Some l \<Longrightarrow> (role n = Learner \<or> role n = Coordinator) \<and>
       learner_agent_new (env_hash env) (env_learner_codec env) c n nodes cfg ldisk = Some l"
  using assms
  by (auto simp: coordinator_new_def agents_new_def co_parts Let_def la_is_acceptor_role_def
      dest: proposer_agent_new_config split: paxos_role.splits option.splits)

lemma cluster_new_inv:
  assumes cfg: "cluster_config cfg" and ns: "distinct (map node_id ns)" "length ns < 2 ^ 32"
  shows "cluster_inv (acceptor_ids ns) (cluster_new env c cfg disks leader ns)"
proof -
  let ?cl = "cluster_new env c cfg disks leader ns" and ?A = "acceptor_ids ns"
  define own where "own i = Option.bind (cl_nodes ?cl i) co_acceptor" for i
  define spare where "spare i = the (acceptor_agent_new (env_hash env) (env_acceptor_codec env) c
      \<lparr>node_id = i, address = '''', role = Acceptor\<rparr> [] cfg (fst (disks \<lparr>node_id = i, address = '''', role = Acceptor\<rparr>)))" for i
  define sys where "sys = \<lparr>sys_acceptor = (\<lambda>i. case own i of Some a \<Rightarrow> a | None \<Rightarrow> spare i),
      sys_learner = (\<lambda>_. undefined), sys_net = {}\<rparr>"
  have np: "\<not> persistent_storage cfg" using cfg by (simp add: cluster_config_def)
  have fin: "finite ?A" by (simp add: acceptor_ids_def)
  have card: "card ?A < 2 ^ 32" using acceptor_ids_card [of ns] ns(2) by simp
  have sp: "acceptor_agent_new (env_hash env) (env_acceptor_codec env) c
      \<lparr>node_id = i, address = '''', role = Acceptor\<rparr> [] cfg (fst (disks \<lparr>node_id = i, address = '''', role = Acceptor\<rparr>)) = Some (spare i)" for i
    unfolding spare_def using acceptor_agent_new_works [OF cfg] by (metis option.sel)
  have side: "acceptor_side ?A sys"
    unfolding acceptor_side_def
  proof (intro ballI)
    fix i
    show "acceptor_inv (aa_acceptor (sys_acceptor sys i)) \<and> \<not> sh_enabled (acc_storage (aa_acceptor (sys_acceptor sys i))) \<and>
        node_id (aa_node (sys_acceptor sys i)) = i"
    proof (cases "own i")
      case None
      then show ?thesis using fresh_acceptor [OF sp np, of i] by (simp add: sys_def)
    next
      case (Some a)
      then obtain co where co: "cl_nodes ?cl i = Some co" "co_acceptor co = Some a"
        by (auto simp: own_def bind_eq_Some_conv)
      from co(1) obtain n pd ad ld where n: "n \<in> set ns" "node_id n = i"
        "coordinator_new env c n (other_nodes (node_id n) ns) (i = leader) cfg pd ad ld = Some co"
        by (rule cluster_new_nodes)
      from coordinator_new_parts(4) [OF n(3) co(2)] fresh_acceptor [OF _ np] n(2) Some show ?thesis
        by (auto simp: sys_def)
    qed
  qed
  have net: "net_inv ?A sys" by (simp add: net_inv_def sys_def)
  have "node_ok ?A i {} {} sys co" if co: "cl_nodes ?cl i = Some co" for i co
  proof -
    from co obtain n pd ad ld where n: "n \<in> set ns" "node_id n = i"
      "coordinator_new env c n (other_nodes (node_id n) ns) (i = leader) cfg pd ad ld = Some co"
      by (rule cluster_new_nodes)
    note parts = coordinator_new_parts [OF n(3)]
    have "learner_ok ?A sys l" if "co_learner co = Some l" for l
      using parts(5) [OF that] fresh_learner [OF _ cfg ns(1) n(1) ns(2)] by blast
    moreover have "i \<in> ?A \<and> sys_acceptor sys i = a" if "co_acceptor co = Some a" for a
      using parts(4) [OF that] that co n(1,2) by (auto simp: sys_def own_def acceptor_ids_def)
    ultimately show ?thesis
      using fin side net parts(1-3) n(2) cfg by (auto simp: node_ok_def cluster_config_def)
  qed
  with fin card side net show ?thesis
    unfolding cluster_inv_def by (intro conjI exI [of _ sys]) (auto simp: sys_def cluster_new_def)
qed

section \<open>Agreement\<close>

lemma cluster_inv_agreement:
  assumes "cluster_inv A cl"
    and "cl_nodes cl i = Some ci" "co_learner ci = Some li"
    and "cl_nodes cl j = Some cj" "co_learner cj = Some lj"
  shows "\<exists>sys. system_inv A sys \<and> sys_learner sys 0 = li \<and> sys_learner sys 1 = lj"
proof -
  from assms(1) obtain sys where sys: "acceptor_side A sys" "net_inv A sys" "finite A" "card A < 2 ^ 32"
    and nodes: "\<And>k x. cl_nodes cl k = Some x \<Longrightarrow> node_ok A k {} {} sys x"
    by (auto simp: cluster_inv_def)
  have ok: "learner_ok A sys li" "learner_ok A sys lj"
    using nodes [OF assms(2)] nodes [OF assms(4)] assms(3,5) by (simp_all add: node_ok_def)
  let ?sys = "sys\<lparr>sys_learner := (\<lambda>k. if k = 0 then li else lj)\<rparr>"
  have same: "acceptances A ?sys = acceptances A sys" "sys_acceptor ?sys = sys_acceptor sys" "sys_net ?sys = sys_net sys"
    by (simp_all add: acceptances_def has_accepted_def fun_eq_iff)
  have "system_inv A ?sys"
    using sys ok by (simp add: system_inv_def acceptor_side_def net_inv_def learner_ok_def same)
  then show ?thesis by (intro exI [of _ ?sys]) simp
qed

section \<open>Replicas\<close>

text \<open>Each learner has executed the log, as long as no slot is the last one.\<close>

definition replicates :: "learner_agent \<Rightarrow> bool" where
  "replicates l \<longleftrightarrow> keeps_in_memory l \<and> (below_max (learned (la_learner l)) \<longrightarrow> (\<exists>done. replica l done))"

lemma replicates_moves: "learner_moves l l' \<Longrightarrow> replicates l \<Longrightarrow> replicates l'"
  unfolding replicates_def learner_moves_def using below_max_mono by meson

definition all_replicate :: "cluster \<Rightarrow> bool" where
  "all_replicate cl \<longleftrightarrow> (\<forall>i co l. cl_nodes cl i = Some co \<longrightarrow> co_learner co = Some l \<longrightarrow> replicates l)"

lemma cluster_step_replicate:
  assumes "cluster_step env cl cl'" and "all_replicate cl"
  shows "all_replicate cl'"
  using assms(1)
proof cases
  case (node_event i co e u out co')
  have moves: "rel_option (learner_op env)\<^sup>*\<^sup>* (co_learner co) (co_learner co')"
    using obeysD [OF node_step node_event(4)] by (simp add: node_moves_def)
  have "replicates l'" if "co_learner co' = Some l'" for l'
  proof (rule rel_option_keeps [OF moves _ _ that])
    show "replicates s" if "co_learner co = Some s" for s
      using assms(2) node_event(2) that by (auto simp: all_replicate_def)
  qed (blast intro: replicates_moves learner_op_moves)
  with assms(2) show ?thesis
    unfolding node_event(1) by (auto simp: all_replicate_def)
qed

lemma cluster_new_replicate:
  assumes "cluster_config cfg"
  shows "all_replicate (cluster_new env c cfg disks leader ns)"
  unfolding all_replicate_def
proof (intro allI impI)
  fix i co l assume "cl_nodes (cluster_new env c cfg disks leader ns) i = Some co" and l: "co_learner co = Some l"
  then obtain n pd ad ld where
    "coordinator_new env c n (other_nodes (node_id n) ns) (i = leader) cfg pd ad ld = Some co"
    by (auto elim: cluster_new_nodes)
  from coordinator_new_learner [OF this _ l] assms show "replicates l"
    by (auto simp: replicates_def cluster_config_def)
qed

lemma cluster_run_replicate: "(cluster_step env)\<^sup>*\<^sup>* cl cl' \<Longrightarrow> all_replicate cl \<Longrightarrow> all_replicate cl'"
  by (induction rule: rtranclp_induct) (auto intro: cluster_step_replicate)

text \<open>What every reachable cluster has.\<close>

lemma cluster_reachable:
  assumes "cluster_config cfg" and "distinct (map node_id ns)" and "length ns < 2 ^ 32"
    and "(cluster_step env)\<^sup>*\<^sup>* (cluster_new env c cfg disks leader ns) cl"
  shows "cluster_inv (acceptor_ids ns) cl" "all_replicate cl"
  using cluster_run_inv [OF assms(4) cluster_new_inv [OF assms(1-3)]]
    cluster_run_replicate [OF assms(4) cluster_new_replicate [OF assms(1)]] by blast+

lemma cluster_prefix:
  assumes "cluster_inv A cl" and "all_replicate cl"
    and "cl_nodes cl i = Some ci" "co_learner ci = Some li" "below_max (learned (la_learner li))"
    and "cl_nodes cl j = Some cj" "co_learner cj = Some lj" "below_max (learned (la_learner lj))"
    and "lr_adu (la_learner li) \<le> lr_adu (la_learner lj)"
  shows "\<exists>done rest. replica li done \<and> replica lj (done @ rest)"
proof -
  obtain sys where sys: "system_inv A sys" "sys_learner sys 0 = li" "sys_learner sys 1 = lj"
    using cluster_inv_agreement [OF assms(1,3,4,6,7)] by blast
  have rep: "\<exists>es. replica l es" if "cl_nodes cl k = Some co" "co_learner co = Some l" "below_max (learned (la_learner l))"
    for k co l
    using assms(2) that unfolding all_replicate_def replicates_def by blast
  obtain di where di: "replica li di" using rep [OF assms(3-5)] by blast
  obtain dj where dj: "replica lj dj" using rep [OF assms(6-8)] by blast
  obtain es where "dj = di @ es"
    using replicas_prefix [of A sys 0 di 1 dj] sys di dj assms(9) by auto
  with di dj show ?thesis by blast
qed

lemma replicas_as_far:
  assumes "replica li done" and "replica lj (done @ rest)" and "lr_adu (la_learner li) = lr_adu (la_learner lj)"
  shows "la_kv li = la_kv lj"
proof -
  have "length done = length (done @ rest)"
    using assms by (simp add: replica_def delivered_def entries_upto_def del: length_append)
  with assms(1,2) show ?thesis by (simp add: replica_def)
qed

end
