(* ===== verification/Host_Config.thy ===== *)
theory Host_Config
  imports Cluster
begin

text \<open>
  The configuration of the host (\<open>runner-ws/src/config.rs\<close>) and how \<open>run_cluster\<close>
  (\<open>runner-ws/src/run.rs\<close>) starts its nodes from it. The document is given by what the
  accessors of the YAML library return, \<open>None\<close> where a value is missing or of another type.
  A result \<open>None\<close> is a panic, \<open>Inl\<close> an error that ends the host.
\<close>

section \<open>Reading the document\<close>

datatype log_level = LevelDebug | LevelInfo | LevelWarn | LevelError

record config_doc =
  doc_log_level :: "string option"
  doc_nodes :: "(int option \<times> string option \<times> string option) list option"
  doc_clusters :: "(int option \<times> int option list option) list option"
  doc_bool :: "string \<Rightarrow> bool option"
  doc_int :: "string \<Rightarrow> int option"
  doc_crashes :: "int option list option list option"

record host_config =
  active_nodes :: "node list"
  hc_cluster_nodes :: "node list"
  leader_id :: u64
  hc_run_config :: run_config
  hc_log_level :: log_level

definition parse_log_level :: "string option \<Rightarrow> log_level result" where
  "parse_log_level s =
     (let l = (case s of Some l \<Rightarrow> l | None \<Rightarrow> ''info'') in
      if l = ''debug'' then Inr LevelDebug
      else if l = ''info'' then Inr LevelInfo
      else if l = ''warning'' then Inr LevelWarn
      else if l = ''error'' then Inr LevelError
      else Inl (''bad log_level `'' @ l @ ''`''))"

definition config_role :: "string \<Rightarrow> paxos_role option" where
  "config_role s =
     (if s = ''proposer'' then Some Proposer
      else if s = ''acceptor'' then Some Acceptor
      else if s = ''learner'' then Some Learner
      else if s = ''coordinator'' then Some Coordinator
      else None)"

definition parse_node :: "int option \<times> string option \<times> string option \<Rightarrow> node option" where
  "parse_node e =
     (case e of
        (Some i, Some a, Some r) \<Rightarrow> map_option (\<lambda>role. \<lparr>node_id = of_int i, address = a, role = role\<rparr>) (config_role r)
      | _ \<Rightarrow> None)"

definition parse_cluster :: "int option \<times> int option list option \<Rightarrow> (u64 \<times> u64 list) option" where
  "parse_cluster e =
     (case e of
        (Some k, Some ids) \<Rightarrow> map_option (\<lambda>ids. (of_int k, map of_int ids)) (those ids)
      | _ \<Rightarrow> None)"

text \<open>A cluster that is there twice counts once, as it is there last.\<close>

definition parse_clusters :: "(int option \<times> int option list option) list option \<Rightarrow> (u64, u64 list) hash_map option" where
  "parse_clusters es =
     map_option (foldl (\<lambda>m (k, ids). hm_insert k ids m) []) (Option.bind es (\<lambda>es. those (map parse_cluster es)))"

definition parse_crashes :: "int option list option list option \<Rightarrow> u64 list list option" where
  "parse_crashes es =
     (let entries = (case es of Some es \<Rightarrow> es | None \<Rightarrow> []) in
      those (map (\<lambda>e. Option.bind e (\<lambda>vs. map_option (map of_int) (those vs))) entries))"

definition bool_fields :: "string list" where
  "bool_fields = [''is_event_driven'', ''acceptors_send_learns'', ''learners_send_executed'', ''demo_client'',
     ''persistent_storage'', ''heartbeats'']"

definition int_fields :: "string list" where
  "int_fields = [''prepare_timeout'', ''demo_client_requests'', ''batch_size'', ''tick_micros'', ''exec_interval_ms'',
     ''retry_interval_ms'', ''learn_max_gap'', ''message_batch_size'', ''client_server_port'', ''heartbeat_interval_ms'',
     ''storage_load_snapshots'', ''storage_max_snapshots'', ''storage_flush_state_count'',
     ''storage_flush_state_interval_ms'', ''storage_flush_change_count'', ''storage_flush_change_interval_ms'',
     ''storage_snapshot_slot_interval'']"

text \<open>Every field is unwrapped; \<open>as u64\<close> and \<open>as u16\<close> keep the low bits.\<close>

definition parse_run_config :: "config_doc \<Rightarrow> run_config option" where
  "parse_run_config doc =
     (let b = (\<lambda>k. the (doc_bool doc k)); n = (\<lambda>k. of_int (the (doc_int doc k)) :: u64) in
      if list_all (\<lambda>k. doc_bool doc k \<noteq> None) bool_fields \<and> list_all (\<lambda>k. doc_int doc k \<noteq> None) int_fields
      then map_option (\<lambda>crashes.
        \<lparr>is_event_driven = b ''is_event_driven'', acceptors_send_learns = b ''acceptors_send_learns'',
         learners_send_executed = b ''learners_send_executed'', prepare_timeout = n ''prepare_timeout'',
         demo_client = b ''demo_client'', demo_client_requests = n ''demo_client_requests'',
         batch_size = n ''batch_size'', tick_micros = n ''tick_micros'', exec_interval_ms = n ''exec_interval_ms'',
         retry_interval_ms = n ''retry_interval_ms'', learn_max_gap = n ''learn_max_gap'',
         message_batch_size = n ''message_batch_size'',
         client_server_port = of_int (the (doc_int doc ''client_server_port'')),
         persistent_storage = b ''persistent_storage'', heartbeats = b ''heartbeats'',
         heartbeat_interval_ms = n ''heartbeat_interval_ms'', crashes = crashes,
         storage_load_snapshots = n ''storage_load_snapshots'', storage_max_snapshots = n ''storage_max_snapshots'',
         storage_flush_state_count = n ''storage_flush_state_count'',
         storage_flush_state_interval_ms = n ''storage_flush_state_interval_ms'',
         storage_flush_change_count = n ''storage_flush_change_count'',
         storage_flush_change_interval_ms = n ''storage_flush_change_interval_ms'',
         storage_snapshot_slot_interval = n ''storage_snapshot_slot_interval''\<rparr>) (parse_crashes (doc_crashes doc))
      else None)"

definition active_ids :: "(u64, u64 list) hash_map \<Rightarrow> u64 list" where
  "active_ids clusters = concat (map snd clusters)"

definition config_load :: "config_doc \<Rightarrow> u64 \<Rightarrow> host_config result option" where
  "config_load doc cluster =
     (case parse_log_level (doc_log_level doc) of
        Inl e \<Rightarrow> Some (Inl e)
      | Inr level \<Rightarrow>
          Option.bind (Option.bind (doc_nodes doc) (\<lambda>ns. those (map parse_node ns))) (\<lambda>all_nodes.
          Option.bind (parse_clusters (doc_clusters doc)) (\<lambda>clusters.
          let active = filter (\<lambda>n. node_id n \<in> set (active_ids clusters)) all_nodes in
          Option.bind (iter_max (map node_id active)) (\<lambda>leader.
          case hm_get clusters cluster of
            None \<Rightarrow> Some (Inl (''no cluster '' @ show_u64 cluster @ '' in config''))
          | Some ids \<Rightarrow>
              map_option (\<lambda>rc. Inr \<lparr>active_nodes = active,
                  hc_cluster_nodes = filter (\<lambda>n. node_id n \<in> set ids) active,
                  leader_id = leader, hc_run_config = rc, hc_log_level = level\<rparr>)
                (parse_run_config doc)))))"

section \<open>Starting the nodes\<close>

text \<open>What a node of the cluster is started with, and again after every failure.\<close>

definition other_active :: "host_config \<Rightarrow> node \<Rightarrow> node list" where
  "other_active cfg n = filter (\<lambda>n2. node_id n2 \<noteq> node_id n) (active_nodes cfg)"

definition start_node ::
  "environment \<Rightarrow> clock \<Rightarrow> host_config \<Rightarrow> node \<Rightarrow> storage \<Rightarrow> storage \<Rightarrow> storage \<Rightarrow> coordinator option" where
  "start_node env c cfg n pdisk adisk ldisk =
     coordinator_new env c n (other_active cfg n) (node_id n = leader_id cfg) (hc_run_config cfg) pdisk adisk ldisk"

section \<open>What the hosts agree on\<close>

lemma config_load_parts:
  assumes "config_load doc k = Some (Inr cfg)"
  shows "\<exists>ns clusters ids. Option.bind (doc_nodes doc) (\<lambda>ns. those (map parse_node ns)) = Some ns \<and>
    parse_clusters (doc_clusters doc) = Some clusters \<and>
    active_nodes cfg = filter (\<lambda>n. node_id n \<in> set (active_ids clusters)) ns \<and>
    iter_max (map node_id (active_nodes cfg)) = Some (leader_id cfg) \<and>
    hm_get clusters k = Some ids \<and> hc_cluster_nodes cfg = filter (\<lambda>n. node_id n \<in> set ids) (active_nodes cfg) \<and>
    parse_run_config doc = Some (hc_run_config cfg)"
  using assms
  by (auto simp: config_load_def Let_def bind_eq_Some_conv split: sum.splits option.splits)

lemma config_load_same:
  assumes "config_load doc k = Some (Inr cfg)" and "config_load doc k' = Some (Inr cfg')"
  shows "active_nodes cfg' = active_nodes cfg \<and> leader_id cfg' = leader_id cfg \<and> hc_run_config cfg' = hc_run_config cfg"
  using config_load_parts [OF assms(1)] config_load_parts [OF assms(2)] by auto

lemma find_distinct:
  "distinct (map node_id ns) \<Longrightarrow> n \<in> set ns \<Longrightarrow> find (\<lambda>m. node_id m = node_id n) ns = Some n"
  by (induction ns) (auto simp: image_iff)

lemma start_node_cluster:
  assumes "config_load doc k = Some (Inr cfg)" and "distinct (map node_id (active_nodes cfg))" and "n \<in> set (active_nodes cfg)"
  shows "cl_nodes (cluster_new env c (hc_run_config cfg) disks (leader_id cfg) (active_nodes cfg)) (node_id n) =
    (case disks n of (pdisk, adisk, ldisk) \<Rightarrow> start_node env c cfg n pdisk adisk ldisk)"
  using find_distinct [OF assms(2,3)]
  by (simp add: cluster_new_def start_node_def other_active_def other_nodes_def)

text \<open>Every node of a cluster is an active one, and the leader is the highest of them.\<close>

lemma config_load_cluster:
  assumes "config_load doc k = Some (Inr cfg)"
  shows "set (hc_cluster_nodes cfg) \<subseteq> set (active_nodes cfg)"
  using config_load_parts [OF assms] by auto

end
