(* ===== verification/Host_Storage.thy ===== *)
theory Host_Storage
  imports Storage
begin

text \<open>
  The storage that the host offers to the components (\<open>runner-ws/src/host_storage.rs\<close>, and the
  storage resource of \<open>runner-ws/src/paxos_wasm.rs\<close>): the same files as the storage component,
  but every write is a request in a queue that a background task serves, and no error of a write
  is reported. The disk is that of the theory \<open>Storage\<close>, one for each key; the buffer of its
  changelog stays empty here. The files are those of \<open>tokio\<close>: a write hands its bytes to another
  thread and returns, the next write of the same file waits for it and reports its error, and
  without a flush nothing waits for the last one. A request that appends a change may so be done
  while its last write is under way; how many bytes that write has is an argument (\<open>late\<close>), and
  the bytes are kept with the directory (\<open>hd_late\<close>) until they land (\<open>land\<close>). The other requests end
  with calls that wait. The host has a \<open>usize\<close> of 64 bits.
\<close>

section \<open>Requests\<close>

datatype storage_request =
    SaveState string bytes
  | SaveChange string bytes
  | Checkpoint string bytes string u64

text \<open>
  The directory of a key, whether \<open>current-state.bin\<close> is there, and the writes to the changelog
  that are still under way, the oldest first.
\<close>

record host_dir =
  hd_disk :: storage
  hd_state_file :: bool
  hd_late :: "bytes list"

definition fs_create_dir :: "unit io" where
  "fs_create_dir = syscall (\<lambda>s. s\<lparr>linked := True\<rparr>) (\<lambda>_ s. s)"

definition append_file :: "bytes \<Rightarrow> unit io" where
  "append_file data = syscall (\<lambda>s. s\<lparr>changelog_file := changelog_file s @ data\<rparr>)
     (\<lambda>k s. s\<lparr>changelog_file := changelog_file s @ take k data\<rparr>)"

text \<open>\<open>fs::write\<close> truncates, then writes.\<close>

definition host_save_state :: "bytes \<Rightarrow> host_dir \<Rightarrow> host_dir" where
  "host_save_state data d =
     (let s1 = snd (fs_create_dir (hd_disk d)) in
      if \<not> linked s1 then d\<lparr>hd_disk := s1\<rparr>
      else case syscall (\<lambda>s. s\<lparr>state_data := []\<rparr>) (\<lambda>_ s. s) s1 of
        (Inl _, s2) \<Rightarrow> d\<lparr>hd_disk := s2\<rparr>
      | (Inr _, s2) \<Rightarrow> d\<lparr>hd_disk := snd (syscall (\<lambda>s. s\<lparr>state_data := data\<rparr>) (\<lambda>k s. s\<lparr>state_data := take k data\<rparr>) s2),
            hd_state_file := True\<rparr>)"

text \<open>
  The last writes of a request: of the bytes all but the last \<open>late\<close> are in the file when the request
  is done, the rest is under way.
\<close>

definition append_late :: "nat \<Rightarrow> bytes \<Rightarrow> host_dir \<Rightarrow> host_dir" where
  "append_late late data d =
     (let k = length data - late in
      case (if k = 0 then (Inr (), hd_disk d) else append_file (take k data) (hd_disk d)) of
        (Inl _, s) \<Rightarrow> d\<lparr>hd_disk := s\<rparr>
      | (Inr _, s) \<Rightarrow> d\<lparr>hd_disk := s, hd_late := hd_late d @ (if drop k data = [] then [] else [drop k data])\<rparr>)"

text \<open>
  The write of the length has no error of its own: it comes up in the write of the data, which is
  then not done. A change without data has the length as its last write.
\<close>

definition host_save_change :: "nat \<Rightarrow> bytes \<Rightarrow> host_dir \<Rightarrow> host_dir" where
  "host_save_change late data d =
     (let len = u32_to_be_bytes (as_u32 (length data)); s1 = snd (fs_create_dir (hd_disk d)) in
      if \<not> linked s1 then d\<lparr>hd_disk := s1\<rparr>
      else case syscall (\<lambda>s. s) (\<lambda>_ s. s) s1 of
        (Inl _, s2) \<Rightarrow> d\<lparr>hd_disk := s2\<rparr>
      | (Inr _, s2) \<Rightarrow>
          if data = [] then append_late late len (d\<lparr>hd_disk := s2\<rparr>)
          else case append_file len s2 of
            (Inl _, s3) \<Rightarrow> d\<lparr>hd_disk := s3\<rparr>
          | (Inr _, s3) \<Rightarrow> append_late late data (d\<lparr>hd_disk := s3\<rparr>))"

text \<open>The \<open>k\<close>-th write that is under way is done, or all of them in their order.\<close>

definition land :: "nat \<Rightarrow> host_dir \<Rightarrow> host_dir" where
  "land k d =
     (if k < length (hd_late d)
      then d\<lparr>hd_disk := snd (append_file (hd_late d ! k) (hd_disk d)), hd_late := take k (hd_late d) @ drop (Suc k) (hd_late d)\<rparr>
      else d)"

definition land_all :: "host_dir \<Rightarrow> host_dir" where
  "land_all d = (land 0 ^^ length (hd_late d)) d"

definition host_write_snapshot :: "bytes \<Rightarrow> string \<Rightarrow> storage \<Rightarrow> storage" where
  "host_write_snapshot data ts s =
     (let tmp = ''snapshot-'' @ ts @ ''.tmp'';
          s1 = snd (fs_create_dir s) in
      if \<not> linked s1 then s1
      else case syscall (\<lambda>s. s\<lparr>snapshot_files := hm_insert tmp [] (snapshot_files s)\<rparr>) (\<lambda>_ s. s) s1 of
        (Inl _, s2) \<Rightarrow> s2
      | (Inr _, s2) \<Rightarrow>
          (let s3 = snd (syscall (\<lambda>s. s\<lparr>snapshot_files := hm_insert tmp data (snapshot_files s)\<rparr>)
                 (\<lambda>k s. s\<lparr>snapshot_files := hm_insert tmp (take k data) (snapshot_files s)\<rparr>) s2);
               s4 = snd (syscall (\<lambda>s. s) (\<lambda>_ s. s) s3) in
           snd (rename_file tmp (snapshot_name ts) s4)))"

definition host_truncate :: "storage \<Rightarrow> storage" where
  "host_truncate s =
     (if \<not> linked s then s else snd (syscall (\<lambda>s. s\<lparr>changelog_file := []\<rparr>) (\<lambda>_ s. s) s))"

text \<open>The listing stops at the first entry that cannot be read.\<close>

definition host_list_snapshots :: "storage \<Rightarrow> string list \<times> storage" where
  "host_list_snapshots s =
     (if \<not> linked s then ([], s)
      else case syscall (\<lambda>s. s) (\<lambda>_ s. s) s of
        (Inl _, s1) \<Rightarrow> ([], s1)
      | (Inr _, s1) \<Rightarrow>
          (let (seen, s2) = (case faults s1 of
               Some (e, k) # fs \<Rightarrow> (take k (map fst (snapshot_files s1)), s1\<lparr>faults := fs\<rparr>)
             | fs \<Rightarrow> (map fst (snapshot_files s1), s1\<lparr>faults := tl fs\<rparr>)) in
           (sort (filter is_snapshot_name seen), s2)))"

fun host_prune_loop :: "u64 \<Rightarrow> string list \<Rightarrow> storage \<Rightarrow> storage" where
  "host_prune_loop retain [] s = s"
| "host_prune_loop retain (oldest # files) s =
     (if unat retain < length (oldest # files)
      then host_prune_loop retain files
        (snd (syscall (\<lambda>s. s\<lparr>snapshot_files := hm_remove oldest (snapshot_files s)\<rparr>) (\<lambda>_ s. s) s))
      else s)"

definition host_prune_snapshots :: "u64 \<Rightarrow> unit io" where
  "host_prune_snapshots retain s =
     (let (files, s1) = host_list_snapshots s in (Inr (), host_prune_loop retain files s1))"

definition host_checkpoint :: "bytes \<Rightarrow> string \<Rightarrow> u64 \<Rightarrow> storage \<Rightarrow> storage" where
  "host_checkpoint data ts max_snapshots s =
     snd (host_prune_snapshots max_snapshots (host_truncate (host_write_snapshot data ts s)))"

definition on_disk :: "(storage \<Rightarrow> storage) \<Rightarrow> host_dir \<Rightarrow> host_dir" where
  "on_disk f d = d\<lparr>hd_disk := f (hd_disk d)\<rparr>"

fun handle_request :: "nat \<Rightarrow> storage_request \<Rightarrow> (string \<Rightarrow> host_dir) \<Rightarrow> string \<Rightarrow> host_dir" where
  "handle_request late (SaveState key data) dirs = dirs(key := host_save_state data (dirs key))"
| "handle_request late (SaveChange key data) dirs = dirs(key := host_save_change late data (dirs key))"
| "handle_request late (Checkpoint key data ts max_snapshots) dirs =
     dirs(key := on_disk (host_checkpoint data ts max_snapshots) (dirs key))"

section \<open>Reading back\<close>

definition host_enoent :: string where
  "host_enoent = ''No such file or directory (os error 2)''"

definition host_eof :: string where
  "host_eof = ''early eof''"

definition load_current_state :: "host_dir \<Rightarrow> bytes result \<times> host_dir" where
  "load_current_state d =
     (if \<not> linked (hd_disk d) \<or> \<not> hd_state_file d then (Inl host_enoent, d)
      else case syscall (\<lambda>s. s) (\<lambda>_ s. s) (hd_disk d) of
        (Inl e, s) \<Rightarrow> (Inl e, d\<lparr>hd_disk := s\<rparr>)
      | (Inr _, s) \<Rightarrow> (Inr (state_data s), d\<lparr>hd_disk := s\<rparr>))"

fun host_read_files :: "string list \<Rightarrow> bytes list io" where
  "host_read_files [] = io_return []"
| "host_read_files (n # ns) =
     io_bind (syscall (\<lambda>s. s) (\<lambda>_ s. s)) (\<lambda>_ s.
       case hm_get (snapshot_files s) n of
         None \<Rightarrow> (Inl host_enoent, s)
       | Some b \<Rightarrow> io_bind (host_read_files ns) (\<lambda>bs. io_return (b # bs)) s)"

text \<open>Any error while the length is read ends the changelog.\<close>

function host_read_changes :: "bytes \<Rightarrow> bytes list \<Rightarrow> bytes list io" where
  "host_read_changes f changes s =
     (case syscall (\<lambda>s. s) (\<lambda>_ s. s) s of
        (Inl _, s1) \<Rightarrow> (Inr changes, s1)
      | (Inr _, s1) \<Rightarrow>
          if length f < 4 then (Inr changes, s1)
          else
            (let len = u32_from_be_bytes (take 4 f); rest = drop 4 f in
             case syscall (\<lambda>s. s) (\<lambda>_ s. s) s1 of
               (Inl e, s2) \<Rightarrow> (Inl e, s2)
             | (Inr _, s2) \<Rightarrow>
                 if length rest < len then (Inl host_eof, s2)
                 else host_read_changes (drop len rest) (changes @ [take len rest]) s2))"
  by pat_completeness auto
termination
  by (relation "measure (\<lambda>(f, changes, s). length f)") auto

declare host_read_changes.simps [simp del]

definition host_load_changes :: "bytes list io" where
  "host_load_changes s =
     (if \<not> linked s then (Inr [], s)
      else case syscall (\<lambda>s. s) (\<lambda>_ s. s) s of
        (Inl _, s1) \<Rightarrow> (Inr [], s1)
      | (Inr _, s1) \<Rightarrow> host_read_changes (changelog_file s1) [] s1)"

definition host_load_state_and_changes :: "u64 \<Rightarrow> (bytes list \<times> bytes list) io" where
  "host_load_state_and_changes num_snapshots s =
     (case host_list_snapshots s of (all, s1) \<Rightarrow>
        io_bind (host_read_files (drop (length all - unat num_snapshots) all)) (\<lambda>snaps.
        io_bind host_load_changes (\<lambda>changes. io_return (snaps, changes))) s1)"

text \<open>Writes to a file that was removed are lost.\<close>

definition host_delete :: "host_dir \<Rightarrow> bool \<times> host_dir" where
  "host_delete d =
     (if \<not> linked (hd_disk d) then (False, d)
      else case syscall (\<lambda>s. s\<lparr>linked := False, snapshot_files := [], changelog_file := [], state_data := []\<rparr>)
          (\<lambda>_ s. s) (hd_disk d) of
        (Inl _, s) \<Rightarrow> (False, d\<lparr>hd_disk := s\<rparr>)
      | (Inr _, s) \<Rightarrow> (True, d\<lparr>hd_disk := s, hd_state_file := False, hd_late := []\<rparr>))"

section \<open>The resource\<close>

record host_storage =
  hs_key :: string
  hs_max_snapshots :: u64
  hs_queue :: "storage_request list"
  hs_dirs :: "string \<Rightarrow> host_dir"

definition hs_new :: "string \<Rightarrow> u64 \<Rightarrow> (string \<Rightarrow> host_dir) \<Rightarrow> host_storage" where
  "hs_new key max_snapshots dirs = \<lparr>hs_key = key, hs_max_snapshots = max_snapshots, hs_queue = [], hs_dirs = dirs\<rparr>"

definition enqueue :: "storage_request \<Rightarrow> host_storage \<Rightarrow> host_storage" where
  "enqueue req h = h\<lparr>hs_queue := hs_queue h @ [req]\<rparr>"

definition hs_save_state :: "bytes \<Rightarrow> host_storage \<Rightarrow> unit result \<times> host_storage" where
  "hs_save_state data h = (Inr (), enqueue (SaveState (hs_key h) data) h)"

definition hs_save_change :: "bytes \<Rightarrow> host_storage \<Rightarrow> unit result \<times> host_storage" where
  "hs_save_change change h = (Inr (), enqueue (SaveChange (hs_key h) change) h)"

definition hs_checkpoint :: "bytes \<Rightarrow> string \<Rightarrow> host_storage \<Rightarrow> unit result \<times> host_storage" where
  "hs_checkpoint state ts h = (Inr (), enqueue (Checkpoint (hs_key h) state ts (hs_max_snapshots h)) h)"

definition hs_flush_state :: "host_storage \<Rightarrow> unit result \<times> host_storage" where
  "hs_flush_state h = (Inr (), h)"

definition hs_flush_changes :: "host_storage \<Rightarrow> unit result \<times> host_storage" where
  "hs_flush_changes h = (Inr (), h)"

definition in_dir :: "(host_dir \<Rightarrow> 'a \<times> host_dir) \<Rightarrow> host_storage \<Rightarrow> 'a \<times> host_storage" where
  "in_dir f h = (let (r, d) = f (hs_dirs h (hs_key h)) in (r, h\<lparr>hs_dirs := (hs_dirs h)(hs_key h := d)\<rparr>))"

definition with_disk :: "(storage \<Rightarrow> 'a \<times> storage) \<Rightarrow> host_dir \<Rightarrow> 'a \<times> host_dir" where
  "with_disk f d = (let (r, s) = f (hd_disk d) in (r, d\<lparr>hd_disk := s\<rparr>))"

definition hs_load_state :: "host_storage \<Rightarrow> bytes result \<times> host_storage" where
  "hs_load_state = in_dir load_current_state"

definition hs_list_snapshots :: "host_storage \<Rightarrow> string list \<times> host_storage" where
  "hs_list_snapshots = in_dir (with_disk host_list_snapshots)"

definition hs_prune_snapshots :: "u64 \<Rightarrow> host_storage \<Rightarrow> unit result \<times> host_storage" where
  "hs_prune_snapshots retain = in_dir (with_disk (host_prune_snapshots retain))"

definition hs_load_state_and_changes ::
  "u64 \<Rightarrow> host_storage \<Rightarrow> (bytes list \<times> bytes list) result \<times> host_storage" where
  "hs_load_state_and_changes num_snapshots = in_dir (with_disk (host_load_state_and_changes num_snapshots))"

definition hs_delete :: "host_storage \<Rightarrow> bool \<times> host_storage" where
  "hs_delete = in_dir host_delete"

text \<open>
  The background task serves the next request; writes land at any time. Of the schedules,
  \<open>drain\<close> is the one in which the writes of each request have landed before the next one is served.
\<close>

definition serve_next :: "nat \<Rightarrow> host_storage \<Rightarrow> host_storage" where
  "serve_next late h =
     (case hs_queue h of
        [] \<Rightarrow> h
      | req # reqs \<Rightarrow> h\<lparr>hs_queue := reqs, hs_dirs := handle_request late req (hs_dirs h)\<rparr>)"

definition settle :: "(string \<Rightarrow> host_dir) \<Rightarrow> string \<Rightarrow> host_dir" where
  "settle dirs = (\<lambda>key. land_all (dirs key))"

fun serve_all :: "(nat \<Rightarrow> nat) \<Rightarrow> storage_request list \<Rightarrow> (string \<Rightarrow> host_dir) \<Rightarrow> string \<Rightarrow> host_dir" where
  "serve_all lates [] dirs = dirs"
| "serve_all lates (req # reqs) dirs = serve_all (\<lambda>n. lates (Suc n)) reqs (settle (handle_request (lates 0) req dirs))"

definition drain :: "(nat \<Rightarrow> nat) \<Rightarrow> host_storage \<Rightarrow> host_storage" where
  "drain lates h = h\<lparr>hs_queue := [], hs_dirs := serve_all lates (hs_queue h) (hs_dirs h)\<rparr>"

lemma drain_serves:
  "hs_queue h \<noteq> [] \<Longrightarrow> h' = serve_next (lates 0) h \<Longrightarrow>
   drain lates h = drain (\<lambda>n. lates (Suc n)) (h'\<lparr>hs_dirs := settle (hs_dirs h')\<rparr>)"
  by (cases "hs_queue h") (simp_all add: drain_def serve_next_def)

lemma serve_all_snoc:
  "serve_all lates (reqs @ [req]) dirs = settle (handle_request (lates (length reqs)) req (serve_all lates reqs dirs))"
  by (induction reqs arbitrary: lates dirs) simp_all

section \<open>A disk that works\<close>

lemma host_list_works: "faults s = [] \<Longrightarrow> linked s \<Longrightarrow> host_list_snapshots s = (snapshot_names s, s)"
  by (simp add: host_list_snapshots_def snapshot_names_def)

lemma host_prune_loop_works: "faults s = [] \<Longrightarrow> host_prune_loop retain ns s = snd (prune_loop retain ns s)"
  by (induction ns arbitrary: s) simp_all

lemma host_prune_works:
  assumes "faults s = []" and "linked s"
  shows "host_prune_snapshots retain s = (Inr (), snd (prune_snapshots retain s))"
  using assms by (simp add: host_prune_snapshots_def prune_snapshots_def host_list_works list_snapshots_works
      host_prune_loop_works)

lemma host_read_files_works: "faults s = [] \<Longrightarrow> set ns \<subseteq> fst ` set (snapshot_files s) \<Longrightarrow>
   host_read_files ns s = (Inr (map (\<lambda>n. the (hm_get (snapshot_files s) n)) ns), s) \<and>
   read_files ns s = (Inr (map (\<lambda>n. the (hm_get (snapshot_files s) n)) ns), s)"
proof (induction ns)
  case (Cons n ns)
  then obtain b where "hm_get (snapshot_files s) n = Some b"
    by (metis insert_subset list.simps(15) map_of_eq_None_iff not_Some_eq)
  with Cons show ?case by simp
qed simp

lemma host_read_changes_frames:
  "faults s = [] \<Longrightarrow> \<forall>b \<in> set bs. length b < 2 ^ 32 \<Longrightarrow>
     host_read_changes (concat (map frame bs)) acc s = (Inr (acc @ bs), s)"
proof (induction bs arbitrary: acc)
  case Nil
  then show ?case by (simp add: host_read_changes.simps [of "[]"])
next
  case (Cons b bs)
  let ?f = "frame b @ concat (map frame bs)"
  have "u32_from_be_bytes (take 4 ?f) = length b"
    using Cons.prems by (intro frame_header) simp
  moreover have "drop 4 ?f = b @ concat (map frame bs)"
    by (rule drop_4_frame)
  ultimately have "host_read_changes ?f acc s = host_read_changes (concat (map frame bs)) (acc @ [b]) s"
    using Cons.prems by (subst host_read_changes.simps) (simp add: Let_def)
  with Cons show ?case by simp
qed

section \<open>The changelog as a sequence of records\<close>

text \<open>
  What an append-only log promises holds when the log is flushed by draining the queue; the
  operation of the host that is called so does nothing.
\<close>

definition host_disk :: "host_storage \<Rightarrow> storage" where
  "host_disk h = hd_disk (hs_dirs h (hs_key h))"

definition host_late :: "host_storage \<Rightarrow> bytes list" where
  "host_late h = hd_late (hs_dirs h (hs_key h))"

definition host_log_holds :: "(nat \<Rightarrow> nat) \<Rightarrow> host_storage \<Rightarrow> bytes list \<Rightarrow> bool" where
  "host_log_holds lates h bs \<longleftrightarrow> faults (host_disk (drain lates h)) = [] \<and> host_late (drain lates h) = [] \<and>
     changelog_file (host_disk (drain lates h)) = concat (map frame bs) \<and>
     (linked (host_disk (drain lates h)) \<or> bs = []) \<and> (\<forall>b \<in> set bs. length b < 2 ^ 32)"

definition host_log_durable :: "host_storage \<Rightarrow> bool" where
  "host_log_durable h \<longleftrightarrow> hs_queue h = []"

definition hs_load_changes :: "host_storage \<Rightarrow> bytes list result \<times> host_storage" where
  "hs_load_changes = in_dir (with_disk host_load_changes)"

lemma drain_key [simp]: "hs_key (drain lates h) = hs_key h" "hs_queue (drain lates h) = []"
  by (simp_all add: drain_def)

lemma drain_idle [simp]: "hs_queue h = [] \<Longrightarrow> drain lates h = h"
  by (simp add: drain_def)

lemma drain_enqueue:
  "hs_dirs (drain lates (enqueue req h)) = settle (handle_request (lates (length (hs_queue h))) req (hs_dirs (drain lates h)))"
  "hs_key (enqueue req h) = hs_key h" "hs_max_snapshots (enqueue req h) = hs_max_snapshots h"
  by (simp_all add: drain_def enqueue_def serve_all_snoc)

lemma land_all_idle [simp]: "hd_late d = [] \<Longrightarrow> land_all d = d"
  by (simp add: land_all_def)

text \<open>However much of a change is under way when its request is done, it is there once it has landed.\<close>

lemma append_landed:
  "faults (hd_disk d) = [] \<Longrightarrow> hd_late d = [] \<Longrightarrow> land_all (append_late late data d) =
     d\<lparr>hd_disk := (hd_disk d)\<lparr>changelog_file := changelog_file (hd_disk d) @ data\<rparr>\<rparr>"
  by (cases d) (auto simp: append_late_def land_all_def land_def append_file_def Let_def)

lemma host_save_change_landed:
  assumes "faults (hd_disk d) = []" and "hd_late d = []"
  shows "land_all (host_save_change late b d) =
    d\<lparr>hd_disk := (hd_disk d)\<lparr>linked := True, changelog_file := changelog_file (hd_disk d) @ frame b\<rparr>\<rparr>"
  using assms by (simp add: host_save_change_def fs_create_dir_def append_file_def frame_def append_landed Let_def)

interpretation host_log: record_log hs_save_change "\<lambda>h. (Inr (), drain lates h)" hs_load_changes
  "host_log_holds lates" host_log_durable for lates
proof unfold_locales
  show "fst (hs_save_change b h) = Inr () \<and> host_log_holds lates (snd (hs_save_change b h)) (bs @ [b])"
    if "host_log_holds lates h bs" "length b < 2 ^ 32" for h bs b
    using that
    by (auto simp: hs_save_change_def host_log_holds_def host_disk_def host_late_def drain_enqueue settle_def
        host_save_change_landed)
  show "fst (Inr (), drain lates h) = Inr () \<and> host_log_holds lates (snd (Inr (), drain lates h)) bs \<and>
      host_log_durable (snd (Inr (), drain lates h))"
    if "host_log_holds lates h bs" for h bs
    using that by (simp add: host_log_holds_def host_log_durable_def)
  show "hs_load_changes h = (Inr bs, h)" if "host_log_holds lates h bs" "host_log_durable h" for h bs
    using that host_read_changes_frames [of "host_disk h" bs "[]"]
    by (auto simp: host_log_holds_def host_log_durable_def hs_load_changes_def in_dir_def with_disk_def
        host_load_changes_def host_disk_def Let_def split_def)
qed

section \<open>The host's storage and the component's\<close>

datatype storage_op =
    OpState bytes
  | OpChange bytes
  | OpCheckpoint bytes string

fun guest_op :: "storage_op \<Rightarrow> storage \<Rightarrow> storage" where
  "guest_op (OpState b) s = snd (save_state b s)"
| "guest_op (OpChange b) s = snd (save_change b s)"
| "guest_op (OpCheckpoint b ts) s = snd (checkpoint b ts s)"

fun host_op :: "storage_op \<Rightarrow> host_storage \<Rightarrow> host_storage" where
  "host_op (OpState b) h = snd (hs_save_state b h)"
| "host_op (OpChange b) h = snd (hs_save_change b h)"
| "host_op (OpCheckpoint b ts) h = snd (hs_checkpoint b ts h)"

fun op_fits :: "storage_op \<Rightarrow> bool" where
  "op_fits (OpChange b) \<longleftrightarrow> length b < 2 ^ 32"
| "op_fits _ \<longleftrightarrow> True"

text \<open>Two disks that work and hold the same snapshots and changes.\<close>

definition twin :: "storage \<Rightarrow> storage \<Rightarrow> bytes list \<Rightarrow> bool" where
  "twin g d bs \<longleftrightarrow> changelog_holds g bs \<and> faults d = [] \<and> snapshot_files d = snapshot_files g \<and>
     hm_ok (snapshot_files g) \<and> (\<forall>n \<in> fst ` set (snapshot_files g). is_snapshot_name n) \<and>
     changelog_file d = concat (map frame bs) \<and> (linked d \<or> snapshot_files d = [] \<and> bs = [])"

lemma twin_load:
  assumes "twin g d bs" and "unat num < 2 ^ 32"
  shows "fst (load_state_and_changes num (snd (flush_changes g))) = fst (host_load_state_and_changes num d)"
proof -
  let ?g = "snd (flush_changes g)"
  have g: "changelog_holds g bs" "faults g = []" "linked g" using assms(1) by (simp_all add: twin_def changelog_holds_def)
  have f: "changelog_holds ?g bs" "changelog_durable ?g" using changelog.flush_holds [OF g(1)] by simp_all
  have files: "snapshot_files ?g = snapshot_files g" "faults ?g = []" "linked ?g" "snapshot_names ?g = snapshot_names g"
    using g by (simp_all add: flush_changes_def bw_flush_buf_works snapshot_names_def)
  have num: "as_usize num = unat num" using assms(2) by (rule as_usize_small)
  let ?ns = "drop (length (snapshot_names g) - unat num) (snapshot_names g)"
  have sub: "set ?ns \<subseteq> fst ` set (snapshot_files g)"
    by (auto simp: snapshot_names_def dest!: in_set_dropD)
  have guest: "load_state_and_changes num ?g = (Inr (map (\<lambda>n. the (hm_get (snapshot_files g) n)) ?ns, bs), ?g)"
    using host_read_files_works [of ?g ?ns] files sub changelog.load_holds [OF f]
    by (simp add: load_state_and_changes_def list_snapshots_works num)
  show ?thesis
  proof (cases "linked d")
    case True
    with assms(1) have d: "snapshot_names d = snapshot_names g" "faults d = []" "snapshot_files d = snapshot_files g"
      "changelog_file d = concat (map frame bs)" "\<forall>b \<in> set bs. length b < 2 ^ 32"
      by (simp_all add: twin_def snapshot_names_def changelog_holds_def)
    have "host_load_state_and_changes num d = (Inr (map (\<lambda>n. the (hm_get (snapshot_files g) n)) ?ns, bs), d)"
      using host_read_files_works [of d ?ns] d sub host_read_changes_frames [of d bs "[]"] True
      by (simp add: host_load_state_and_changes_def host_list_works host_load_changes_def)
    with guest show ?thesis by simp
  next
    case False
    with assms(1) have "snapshot_files g = []" "bs = []" by (auto simp: twin_def)
    then have "snapshot_names g = []" by (simp add: snapshot_names_def)
    with guest False \<open>bs = []\<close> show ?thesis
      by (simp add: host_load_state_and_changes_def host_list_snapshots_def host_load_changes_def)
  qed
qed

lemma twin_state:
  assumes "twin g d bs"
  shows "twin (snd (save_state b g)) (hd_disk (host_save_state b (x\<lparr>hd_disk := d\<rparr>))) bs \<and>
    hd_late (host_save_state b (x\<lparr>hd_disk := d\<rparr>)) = hd_late x"
  using assms
  by (simp add: twin_def changelog_holds_def save_state_def host_save_state_def fs_create_dir_def)

lemma save_change_fields:
  assumes "faults s = []"
  shows "snapshot_files (snd (save_change b s)) = snapshot_files s \<and>
    st_max_snapshots (snd (save_change b s)) = st_max_snapshots s"
proof -
  have same: "snapshot_files s2 = snapshot_files s1 \<and> st_max_snapshots s2 = st_max_snapshots s1 \<and> faults s2 = faults s1"
    if "log_extended s1 s2 e" for s1 s2 e
    using that by (cases s1; cases s2) (simp add: log_extended_def)
  obtain s1 where 1: "bw_write_all (u32_to_be_bytes (as_u32 (length b))) s = (Inr (), s1)"
    "log_extended s s1 (u32_to_be_bytes (as_u32 (length b)))" using bw_write_all_extends [OF assms] by blast
  then obtain s2 where 2: "bw_write_all b s1 = (Inr (), s2)" "log_extended s1 s2 b"
    using bw_write_all_extends [of s1 b] same [OF 1(2)] assms by auto
  with 1(1) same [OF 1(2)] same [OF 2(2)] show ?thesis by (simp add: save_change_def)
qed

lemma twin_change:
  assumes "twin g (hd_disk d) bs" and "hd_late d = []" and "length b < 2 ^ 32"
  shows "twin (snd (save_change b g)) (hd_disk (land_all (host_save_change late b d))) (bs @ [b]) \<and>
    hd_late (land_all (host_save_change late b d)) = []"
proof -
  have ok: "faults g = []" using assms(1) by (simp add: twin_def changelog_holds_def)
  have holds: "changelog_holds (snd (save_change b g)) (bs @ [b])"
    using changelog.append_holds [of g bs b] assms by (simp add: twin_def)
  have same: "snapshot_files (snd (save_change b g)) = snapshot_files g"
    using save_change_fields [OF ok] by simp
  show ?thesis
    using assms holds same by (simp add: twin_def host_save_change_landed)
qed

lemma temporary_file_gone:
  assumes "tmp \<notin> fst ` set fs"
  shows "hm_remove tmp (hm_insert tmp y (hm_insert tmp x fs)) = fs"
proof -
  have "hm_insert tmp z fs = fs @ [(tmp, z)]" for z
    using assms by (induction fs) (auto simp: hm_insert_def)
  moreover have "hm_insert tmp y (fs @ [(tmp, x)]) = fs @ [(tmp, y)]"
    using assms by (induction fs) (auto simp: hm_insert_def)
  moreover have "hm_remove tmp (fs @ [(tmp, y)]) = fs"
    using assms by (induction fs) (auto simp: hm_remove_def)
  ultimately show ?thesis by simp
qed

lemma not_a_snapshot:
  "\<not> is_snapshot_name (snapshot_name ts @ ''.tmp'')" "\<not> is_snapshot_name (''snapshot-'' @ ts @ ''.tmp'')"
  by (simp_all add: is_snapshot_name_def snapshot_name_def)

lemma snapshot_name_ok: "is_snapshot_name (snapshot_name ts)"
  by (simp add: is_snapshot_name_def snapshot_name_def)

text \<open>What is left of the snapshots after one more.\<close>

definition kept_snapshots :: "u64 \<Rightarrow> (string, bytes) hash_map \<Rightarrow> (string, bytes) hash_map" where
  "kept_snapshots retain fs =
     (let ns = sort (filter is_snapshot_name (map fst fs)) in
      filter (\<lambda>e. fst e \<notin> set (take (length ns - unat retain) ns)) fs)"

lemma prune_snapshots_exact:
  "faults s = [] \<Longrightarrow> linked s \<Longrightarrow>
   prune_snapshots retain s = (Inr (), s\<lparr>snapshot_files := kept_snapshots retain (snapshot_files s)\<rparr>)"
  by (simp add: prune_snapshots_def list_snapshots_works prune_loop_keeps_suffix kept_snapshots_def
      snapshot_names_def Let_def)

lemma checkpoint_exact:
  assumes "faults s = []" and "linked s" and "\<forall>n \<in> fst ` set (snapshot_files s). is_snapshot_name n"
  shows "checkpoint b ts s = (Inr (), s\<lparr>snapshot_files :=
      kept_snapshots (st_max_snapshots s) (hm_insert (snapshot_name ts) b (snapshot_files s)),
      changelog_file := [], changelog_buf := []\<rparr>)"
proof -
  let ?tmp = "snapshot_name ts @ ''.tmp''"
  have "?tmp \<notin> fst ` set (snapshot_files s)" using assms(3) not_a_snapshot(1) by blast
  then show ?thesis
    using assms(1,2) by (simp add: checkpoint_def Let_def write_tmp_def rename_file_def dict_simps
        truncate_changelog_works temporary_file_gone prune_snapshots_exact)
qed

lemma host_checkpoint_exact:
  assumes "faults s = []" and "\<forall>n \<in> fst ` set (snapshot_files s). is_snapshot_name n"
  shows "host_checkpoint b ts retain s = s\<lparr>linked := True, snapshot_files :=
      kept_snapshots retain (hm_insert (snapshot_name ts) b (snapshot_files s)), changelog_file := []\<rparr>"
proof -
  let ?tmp = "''snapshot-'' @ ts @ ''.tmp''"
  have "?tmp \<notin> fst ` set (snapshot_files s)" using assms(2) not_a_snapshot(2) by blast
  then have "host_write_snapshot b ts s =
      s\<lparr>linked := True, snapshot_files := hm_insert (snapshot_name ts) b (snapshot_files s)\<rparr>"
    using assms(1) temporary_file_gone [of ?tmp "snapshot_files s" b "[]"]
    by (simp add: host_write_snapshot_def fs_create_dir_def Let_def rename_file_def dict_simps)
  then show ?thesis
    using assms(1) by (simp add: host_checkpoint_def host_truncate_def host_prune_works prune_snapshots_exact)
qed

lemma twin_checkpoint:
  assumes "twin g d bs"
  shows "twin (snd (checkpoint b ts g)) (host_checkpoint b ts (st_max_snapshots g) d) []"
proof -
  let ?fs = "hm_insert (snapshot_name ts) b (snapshot_files g)"
  have t: "faults g = []" "linked g" "faults d = []" "snapshot_files d = snapshot_files g" "hm_ok (snapshot_files g)"
    "\<forall>n \<in> fst ` set (snapshot_files g). is_snapshot_name n"
    using assms by (simp_all add: twin_def changelog_holds_def)
  have sub: "set (kept_snapshots (st_max_snapshots g) ?fs) \<subseteq> set ?fs"
    by (auto simp: kept_snapshots_def Let_def)
  have names: "\<forall>n \<in> fst ` set ?fs. is_snapshot_name n"
    using t(6) by (auto simp only: hm_insert_keys snapshot_name_ok)
  have "hm_ok ?fs" using t(5) by (simp add: hm.ok_ins)
  then have "hm_ok (kept_snapshots (st_max_snapshots g) ?fs)"
    by (simp add: hm_ok_def kept_snapshots_def Let_def distinct_map_filter)
  moreover have "\<forall>n \<in> fst ` set (kept_snapshots (st_max_snapshots g) ?fs). is_snapshot_name n"
    using names sub by blast
  ultimately show ?thesis
    using t checkpoint_exact [OF t(1,2,6), of b ts] host_checkpoint_exact [of d b ts "st_max_snapshots g"]
    by (simp add: twin_def changelog_holds_def)
qed

text \<open>All operations, and then the queue is drained.\<close>

lemma host_op_key [simp]: "hs_key (host_op x h) = hs_key h" "hs_max_snapshots (host_op x h) = hs_max_snapshots h"
  by (cases x; simp add: hs_save_state_def hs_save_change_def hs_checkpoint_def enqueue_def)+

lemma guest_op_max:
  assumes "twin g d bs"
  shows "st_max_snapshots (guest_op x g) = st_max_snapshots g"
proof (cases x)
  case (OpChange b)
  with assms save_change_fields [of g b] show ?thesis by (simp add: twin_def changelog_holds_def)
next
  case (OpCheckpoint b ts)
  with assms checkpoint_exact [of g b ts] show ?thesis by (simp add: twin_def changelog_holds_def)
qed (use assms in \<open>simp add: save_state_def twin_def changelog_holds_def\<close>)

lemma twin_op:
  assumes "twin g (host_disk (drain lates h)) bs" and "host_late (drain lates h) = []" and "op_fits x"
    and "hs_max_snapshots h = st_max_snapshots g"
  shows "\<exists>cs. twin (guest_op x g) (host_disk (drain lates (host_op x h))) cs \<and>
    host_late (drain lates (host_op x h)) = [] \<and> hs_max_snapshots (host_op x h) = st_max_snapshots (guest_op x g)"
proof -
  have max: "st_max_snapshots (guest_op x g) = st_max_snapshots g"
    by (rule guest_op_max [OF assms(1)])
  let ?d = "hs_dirs (drain lates h) (hs_key h)"
  have d: "twin g (hd_disk ?d) bs" "hd_late ?d = []" using assms(1,2) by (simp_all add: host_disk_def host_late_def)
  show ?thesis
  proof (cases x)
    case (OpState b)
    with twin_state [OF d(1), of b ?d] d(2) max assms(4) show ?thesis
      by (auto simp: hs_save_state_def host_disk_def host_late_def drain_enqueue settle_def)
  next
    case (OpChange b)
    with twin_change [OF d, of b] assms(3,4) max show ?thesis
      by (auto simp: hs_save_change_def host_disk_def host_late_def drain_enqueue settle_def)
  next
    case (OpCheckpoint b ts)
    with twin_checkpoint [OF d(1), of b ts] d(2) assms(4) max show ?thesis
      by (auto simp: hs_checkpoint_def host_disk_def host_late_def drain_enqueue settle_def on_disk_def)
  qed
qed

lemma twin_ops:
  assumes "twin g (host_disk (drain lates h)) bs" and "host_late (drain lates h) = []" and "\<forall>x \<in> set xs. op_fits x"
    and "hs_max_snapshots h = st_max_snapshots g"
  shows "\<exists>cs. twin (fold guest_op xs g) (host_disk (drain lates (fold host_op xs h))) cs"
  using assms
proof (induction xs arbitrary: g h bs)
  case (Cons x xs)
  then obtain cs where "twin (guest_op x g) (host_disk (drain lates (host_op x h))) cs"
    "host_late (drain lates (host_op x h)) = []" "hs_max_snapshots (host_op x h) = st_max_snapshots (guest_op x g)"
    using twin_op [OF Cons.prems(1,2), of x] by auto
  with Cons show ?case by simp
qed auto

section \<open>What the queue and a failing disk do\<close>

text \<open>No operation that writes has touched the disk when it returns.\<close>

lemma writes_are_queued:
  "fst (hs_save_change b h) = Inr ()" "hs_dirs (snd (hs_save_change b h)) = hs_dirs h"
  "fst (hs_save_state b h) = Inr ()" "hs_dirs (snd (hs_save_state b h)) = hs_dirs h"
  "fst (hs_checkpoint b ts h) = Inr ()" "hs_dirs (snd (hs_checkpoint b ts h)) = hs_dirs h"
  "hs_flush_changes h = (Inr (), h)" "hs_flush_state h = (Inr (), h)"
  by (simp_all add: hs_save_change_def hs_save_state_def hs_checkpoint_def hs_flush_changes_def hs_flush_state_def enqueue_def)

lemma load_ignores_queue:
  assumes "hs_dirs h' = hs_dirs h" and "hs_key h' = hs_key h"
  shows "fst (hs_load_state_and_changes num h') = fst (hs_load_state_and_changes num h)"
    "fst (hs_load_state h') = fst (hs_load_state h)"
  using assms by (simp_all add: hs_load_state_and_changes_def hs_load_state_def in_dir_def Let_def split_def)

text \<open>A load that comes before the last write of a change has landed finds a record cut off.\<close>

lemma host_read_changes_torn:
  assumes "faults s = []" and "\<forall>b \<in> set bs. length b < 2 ^ 32" and "length data < 2 ^ 32" and "k < length data"
  shows "host_read_changes (concat (map frame bs) @ u32_to_be_bytes (as_u32 (length data)) @ take k data) acc s = (Inl host_eof, s)"
  using assms(2)
proof (induction bs arbitrary: acc)
  case Nil
  have "take 4 (frame data) = u32_to_be_bytes (as_u32 (length data))" by (simp add: frame_def u32_to_be_bytes_def)
  then show ?case
    using assms frame_header [of data "[]"]
    by (subst host_read_changes.simps) (simp add: Let_def frame_def u32_to_be_bytes_def)
next
  case (Cons b bs)
  let ?f = "frame b @ concat (map frame bs) @ u32_to_be_bytes (as_u32 (length data)) @ take k data"
  have "u32_from_be_bytes (take 4 ?f) = length b" using Cons.prems by (intro frame_header) simp
  moreover have "drop 4 ?f = b @ concat (map frame bs) @ u32_to_be_bytes (as_u32 (length data)) @ take k data"
    by (rule drop_4_frame)
  ultimately have "host_read_changes ?f acc s =
      host_read_changes (concat (map frame bs) @ u32_to_be_bytes (as_u32 (length data)) @ take k data) (acc @ [b]) s"
    using Cons.prems assms(1) by (subst host_read_changes.simps) (simp add: Let_def)
  with Cons show ?case by simp
qed

lemma host_load_torn:
  assumes "faults (hd_disk d) = []" and "linked (hd_disk d)" and "changelog_file (hd_disk d) = concat (map frame bs)"
    and "\<forall>b \<in> set bs. length b < 2 ^ 32" and "data \<noteq> []" and "length data < 2 ^ 32" and "0 < late"
  shows "fst (host_load_changes (hd_disk (host_save_change late data d))) = Inl host_eof"
proof -
  let ?s = "(hd_disk d)\<lparr>changelog_file := changelog_file (hd_disk d) @ u32_to_be_bytes (as_u32 (length data)) @
      take (length data - late) data\<rparr>"
  have "hd_disk (host_save_change late data d) = ?s"
    using assms(1,2,5) by (cases "hd_disk d") (auto simp: host_save_change_def fs_create_dir_def append_file_def append_late_def Let_def)
  with assms host_read_changes_torn [of ?s bs data "length data - late" "[]"] show ?thesis
    by (simp add: host_load_changes_def)
qed

text \<open>A snapshot that cannot be created, after which the changelog is truncated all the same.\<close>

lemma host_write_snapshot_refused:
  assumes "linked s" and "faults s = [None, Some (e, k)]"
  shows "host_write_snapshot b ts s = s\<lparr>faults := []\<rparr>"
  using assms by (cases s) (simp add: host_write_snapshot_def fs_create_dir_def Let_def syscall_def)

lemma host_checkpoint_drops:
  assumes "linked s" and "faults s = [None, Some (e, k)]"
  shows "host_checkpoint b ts retain s =
    s\<lparr>faults := [], changelog_file := [], snapshot_files := kept_snapshots retain (snapshot_files s)\<rparr>"
  using assms
  by (simp add: host_checkpoint_def host_write_snapshot_refused host_truncate_def host_prune_works prune_snapshots_exact)

lemma kept_snapshots_names:
  "set (sort (filter is_snapshot_name (map fst (kept_snapshots retain fs)))) \<subseteq>
   set (sort (filter is_snapshot_name (map fst fs)))"
  by (auto simp: kept_snapshots_def Let_def)

end
