(* ===== verification/Text.thy ===== *)
theory Text
  imports Prelude
begin

text \<open>
  The operations of \<open>str\<close> and \<open>FromStr\<close> that the serializer uses, on the UTF-8 bytes of
  a string, and their laws for pieces that are free of the delimiters. Splitting at an ASCII
  character and comparing with ASCII literals mean the same on the bytes as on the characters.
\<close>

section \<open>Splitting\<close>

text \<open>\<open>s.split(c)\<close>\<close>

fun split_on :: "char \<Rightarrow> string \<Rightarrow> string list" where
  "split_on c [] = [[]]"
| "split_on c (x # xs) =
     (if x = c then [] # split_on c xs
      else case split_on c xs of [] \<Rightarrow> [[x]] | p # ps \<Rightarrow> (x # p) # ps)"

text \<open>\<open>s.splitn(2, c)\<close>: the first two answers of the iterator.\<close>

fun splitn2 :: "char \<Rightarrow> string \<Rightarrow> string \<times> string option" where
  "splitn2 c [] = ([], None)"
| "splitn2 c (x # xs) =
     (if x = c then ([], Some xs) else (case splitn2 c xs of (p, r) \<Rightarrow> (x # p, r)))"

text \<open>\<open>s.strip_prefix(p)\<close> and \<open>s.strip_suffix(p)\<close>\<close>

definition strip_prefix :: "string \<Rightarrow> string \<Rightarrow> string option" where
  "strip_prefix p s = (if take (length p) s = p then Some (drop (length p) s) else None)"

definition strip_suffix :: "string \<Rightarrow> string \<Rightarrow> string option" where
  "strip_suffix p s =
     (if length p \<le> length s \<and> drop (length s - length p) s = p
      then Some (take (length s - length p) s) else None)"

text \<open>\<open>s.find(p)\<close>: where the first match starts.\<close>

fun find_str :: "string \<Rightarrow> string \<Rightarrow> nat option" where
  "find_str p [] = (if p = [] then Some 0 else None)"
| "find_str p (x # xs) =
     (if take (length p) (x # xs) = p then Some 0 else map_option Suc (find_str p xs))"

lemma find_str_bound: "find_str p s = Some i \<Longrightarrow> i + length p \<le> length s"
proof (induction s arbitrary: i)
  case Nil
  then show ?case by (simp split: if_splits)
next
  case (Cons x xs)
  then show ?case
    by (cases "take (length p) (x # xs) = p") (auto dest: arg_cong [of _ p length])
qed

text \<open>\<open>s.split(p)\<close> for a pattern that is not empty.\<close>

function split_str :: "string \<Rightarrow> string \<Rightarrow> string list" where
  "split_str p s =
     (case find_str p s of
        Some i \<Rightarrow> if p = [] then [s] else take i s # split_str p (drop (i + length p) s)
      | None \<Rightarrow> [s])"
  by pat_completeness auto

termination
proof (relation "measure (\<lambda>(p, s). length s)"; clarsimp)
  fix p s :: string and i
  assume "find_str p s = Some i" and "p \<noteq> []"
  then show "length s - (i + length p) < length s"
    using find_str_bound [of p s i] by (cases p) auto
qed

declare split_str.simps [simp del]

text \<open>\<open>parts.join(sep)\<close>\<close>

fun join :: "string \<Rightarrow> string list \<Rightarrow> string" where
  "join sep [] = []"
| "join sep [p] = p"
| "join sep (p # q # ps) = p @ sep @ join sep (q # ps)"

section \<open>Numbers and booleans\<close>

text \<open>\<open>parse::<u64>\<close>: an optional plus sign, then decimal digits, at least one, no overflow.\<close>

definition is_digit :: "char \<Rightarrow> bool" where
  "is_digit c \<longleftrightarrow> 48 \<le> (of_char c :: nat) \<and> (of_char c :: nat) \<le> 57"

definition digits_value :: "string \<Rightarrow> nat" where
  "digits_value s = foldl (\<lambda>n c. n * 10 + (of_char c - 48)) 0 s"

definition parse_u64 :: "string \<Rightarrow> u64 option" where
  "parse_u64 s =
     (let ds = (case s of c # cs \<Rightarrow> if c = CHR ''+'' then cs else s | [] \<Rightarrow> s) in
      if ds \<noteq> [] \<and> list_all is_digit ds \<and> digits_value ds < 2 ^ 64
      then Some (of_nat (digits_value ds)) else None)"

definition show_bool :: "bool \<Rightarrow> string" where
  "show_bool b = (if b then ''true'' else ''false'')"

definition parse_bool :: "string \<Rightarrow> bool option" where
  "parse_bool s = (if s = ''true'' then Some True else if s = ''false'' then Some False else None)"

section \<open>UTF-8\<close>

text \<open>
  \<open>String::from_utf8\<close> accepts well-formed UTF-8 only: no overlong forms, no surrogates,
  nothing above U+10FFFF. \<open>utf8_step\<close> is the length of the first character, 0 when the bytes
  do not start with one.
\<close>

definition byte_in :: "nat \<Rightarrow> nat \<Rightarrow> char \<Rightarrow> bool" where
  "byte_in lo hi c \<longleftrightarrow> lo \<le> (of_char c :: nat) \<and> (of_char c :: nat) \<le> hi"

definition tail_ok :: "nat \<Rightarrow> nat \<Rightarrow> nat \<Rightarrow> string \<Rightarrow> bool" where
  "tail_ok n lo hi s \<longleftrightarrow>
     n \<le> length s \<and> byte_in lo hi (hd s) \<and> list_all (byte_in 0x80 0xBF) (take (n - 1) (tl s))"

text \<open>What follows a first byte: how many bytes, and the range of the first of them.\<close>

definition utf8_lead :: "char \<Rightarrow> (nat \<times> nat \<times> nat) option" where
  "utf8_lead c =
     (if byte_in 0 0x7F c then Some (0, 0, 0)
      else if byte_in 0xC2 0xDF c then Some (1, 0x80, 0xBF)
      else if byte_in 0xE0 0xE0 c then Some (2, 0xA0, 0xBF)
      else if byte_in 0xED 0xED c then Some (2, 0x80, 0x9F)
      else if byte_in 0xE1 0xEF c then Some (2, 0x80, 0xBF)
      else if byte_in 0xF0 0xF0 c then Some (3, 0x90, 0xBF)
      else if byte_in 0xF1 0xF3 c then Some (3, 0x80, 0xBF)
      else if byte_in 0xF4 0xF4 c then Some (3, 0x80, 0x8F)
      else None)"

definition utf8_step :: "string \<Rightarrow> nat" where
  "utf8_step s = (case s of [] \<Rightarrow> 0 | c # cs \<Rightarrow>
     (case utf8_lead c of
        None \<Rightarrow> 0
      | Some (n, lo, hi) \<Rightarrow> if n = 0 \<or> tail_ok n lo hi cs then Suc n else 0))"

function utf8_ok :: "string \<Rightarrow> bool" where
  "utf8_ok s =
     (if s = [] then True
      else if utf8_step s = 0 then False
      else utf8_ok (drop (utf8_step s) s))"
  by pat_completeness auto
termination
  by (relation "measure length") auto

declare utf8_ok.simps [simp del]

section \<open>Laws of splitting\<close>

lemma split_on_nonempty [simp]: "split_on c s \<noteq> []"
  by (cases s) (auto split: list.splits)

lemma split_on_free: "c \<notin> set s \<Longrightarrow> split_on c s = [s]"
  by (induction s) auto

lemma split_on_step: "c \<notin> set a \<Longrightarrow> split_on c (a @ c # b) = a # split_on c b"
  by (induction a) auto

lemma split_on_join:
  "ps \<noteq> [] \<Longrightarrow> \<forall>p \<in> set ps. c \<notin> set p \<Longrightarrow> split_on c (join [c] ps) = ps"
  by (induction "[c]" ps rule: join.induct) (auto simp: split_on_free split_on_step)

lemma splitn2_free: "c \<notin> set s \<Longrightarrow> splitn2 c s = (s, None)"
  by (induction s) auto

lemma splitn2_step: "c \<notin> set a \<Longrightarrow> splitn2 c (a @ c # b) = (a, Some b)"
  by (induction a) auto

lemma strip_prefix_append [simp]: "strip_prefix p (p @ s) = Some s"
  by (simp add: strip_prefix_def)

lemma strip_suffix_append [simp]: "strip_suffix p (s @ p) = Some s"
  by (simp add: strip_suffix_def)

lemma set_join: "set (join sep ps) \<subseteq> \<Union> (set ` set ps) \<union> set sep"
  by (induction sep ps rule: join.induct) auto

lemma find_str_at:
  assumes "p = q @ [d]" and "d \<notin> set q" and "d \<notin> set a"
  shows "find_str p (a @ p @ b) = Some (length a)"
  using assms(3)
proof (induction a)
  case Nil
  obtain y ys where "p = y # ys" using assms(1) by (metis list.exhaust snoc_eq_iff_butlast)
  then show ?case by simp
next
  case (Cons x a)
  have "take (length p) ((x # a) @ p @ b) \<noteq> p"
  proof
    assume eq: "take (length p) ((x # a) @ p @ b) = p"
    have "((x # a) @ p @ b) ! length q = p ! length q"
      by (metis eq nth_take assms(1) length_append_singleton lessI)
    then have "((x # a) @ p @ b) ! length q = d" using assms(1) by simp
    moreover have "((x # a) @ p @ b) ! length q \<in> set (x # a) \<union> set q"
    proof (cases "length q < length (x # a)")
      case True
      then show ?thesis by (metis nth_append nth_mem UnI1)
    next
      case False
      then have lt: "length q - length (x # a) < length q" by (cases q) auto
      have "((x # a) @ p @ b) ! length q = (q @ [d] @ b) ! (length q - length (x # a))"
        using False assms(1) by (simp only: nth_append if_False append_assoc)
      also have "\<dots> = q ! (length q - length (x # a))" using lt by (simp only: nth_append if_True)
      finally have "((x # a) @ p @ b) ! length q = q ! (length q - length (x # a))" .
      moreover note lt
      ultimately show ?thesis by (metis nth_mem UnI2)
    qed
    ultimately show False using Cons.prems assms(2) by auto
  qed
  then show ?case using Cons by simp
qed

lemma find_str_absent: "d \<in> set p \<Longrightarrow> d \<notin> set s \<Longrightarrow> find_str p s = None"
proof (induction s)
  case (Cons x s)
  then have "take (length p) (x # s) \<noteq> p" by (metis in_set_takeD)
  with Cons show ?case by simp
qed auto

lemma find_str_char: "d \<notin> set a \<Longrightarrow> find_str [d] (a @ d # b) = Some (length a)"
  using find_str_at [of "[d]" "[]" d a b] by simp

lemma split_str_at:
  assumes "find_str p (a @ p @ b) = Some (length a)" and "p \<noteq> []"
  shows "split_str p (a @ p @ b) = a # split_str p b"
  using assms by (subst split_str.simps) simp

lemma split_str_absent: "find_str p s = None \<Longrightarrow> split_str p s = [s]"
  by (subst split_str.simps) simp

section \<open>Laws of numbers\<close>

lemma of_char_digit [simp]: "d < 10 \<Longrightarrow> (of_char (digit_char d) :: nat) = 48 + d"
  by (simp add: digit_char_def)

lemma digits_value_snoc [simp]: "digits_value (s @ [c]) = digits_value s * 10 + (of_char c - 48)"
  by (simp add: digits_value_def)

lemma show_nat_digits: "list_all is_digit (show_nat n) \<and> show_nat n \<noteq> [] \<and> digits_value (show_nat n) = n"
proof (induction n rule: show_nat.induct)
  case (1 n)
  show ?case
  proof (cases "n < 10")
    case True
    then have "show_nat n = [digit_char n]" by (simp add: show_nat.simps)
    with True show ?thesis by (simp add: is_digit_def digits_value_def)
  next
    case False
    then have "show_nat n = show_nat (n div 10) @ [digit_char (n mod 10)]" by (simp add: show_nat.simps)
    moreover have "is_digit (digit_char (n mod 10))" by (simp add: is_digit_def)
    ultimately show ?thesis using 1 [OF False] by simp
  qed
qed

lemmas show_nat_facts = show_nat_digits [THEN conjunct1] show_nat_digits [THEN conjunct2, THEN conjunct1]
  show_nat_digits [THEN conjunct2, THEN conjunct2]

lemma not_digit_show: "\<not> is_digit c \<Longrightarrow> c \<notin> set (show_u64 w)"
  using show_nat_facts(1) [of "unat w"] by (auto simp: show_u64_def list_all_iff)

lemma show_u64_nonempty [simp]: "show_u64 w \<noteq> []"
  by (simp add: show_u64_def show_nat_facts)

lemma parse_show_u64 [simp]: "parse_u64 (show_u64 w) = Some w"
proof -
  have "CHR ''+'' \<notin> set (show_u64 w)" by (rule not_digit_show) (simp add: is_digit_def)
  then have "(case show_nat (unat w) of c # cs \<Rightarrow> if c = CHR ''+'' then cs else show_nat (unat w)
      | [] \<Rightarrow> show_nat (unat w)) = show_nat (unat w)"
    by (cases "show_nat (unat w)") (auto simp: show_u64_def)
  moreover have "unat w < 2 ^ 64" using unsigned_less [of w, where ?'a = nat] by simp
  ultimately show ?thesis
    by (simp only: parse_u64_def show_u64_def Let_def) (simp add: show_nat_facts)
qed

lemma parse_show_bool [simp]: "parse_bool (show_bool b) = Some b"
  by (simp add: parse_bool_def show_bool_def)

section \<open>Laws of UTF-8\<close>

lemma tail_ok_append: "tail_ok n lo hi s \<Longrightarrow> 0 < n \<Longrightarrow> tail_ok n lo hi (s @ t)"
  by (cases s) (auto simp: tail_ok_def)

lemma tail_ok_length: "tail_ok n lo hi s \<Longrightarrow> n \<le> length s"
  by (simp add: tail_ok_def)

lemma utf8_step_append:
  assumes "utf8_step s \<noteq> 0"
  shows "utf8_step (s @ t) = utf8_step s \<and> utf8_step s \<le> length s"
  using assms
  by (cases s) (auto simp: utf8_step_def tail_ok_append dest: tail_ok_length split: option.splits if_splits)

lemma utf8_ok_append: "utf8_ok s \<Longrightarrow> utf8_ok t \<Longrightarrow> utf8_ok (s @ t)"
proof (induction s rule: utf8_ok.induct)
  case (1 s)
  show ?case
  proof (cases "s = []")
    case True
    with 1 show ?thesis by simp
  next
    case False
    with 1(2) have step: "utf8_step s \<noteq> 0" and rest: "utf8_ok (drop (utf8_step s) s)"
      using utf8_ok.simps [of s] by (auto split: if_splits)
    have "utf8_ok (drop (utf8_step s) s @ t)" using 1(1) [OF False step rest 1(3)] .
    with utf8_step_append [OF step, of t] step False show ?thesis
      using utf8_ok.simps [of "s @ t"] by simp
  qed
qed

lemma utf8_ok_Nil [simp]: "utf8_ok []"
  by (simp add: utf8_ok.simps)

lemma utf8_ok_ascii: "list_all (\<lambda>c. (of_char c :: nat) < 128) s \<Longrightarrow> utf8_ok s"
proof (induction s)
  case (Cons c s)
  then have "utf8_step (c # s) = 1" by (simp add: utf8_step_def utf8_lead_def byte_in_def)
  with Cons show ?case by (subst utf8_ok.simps) simp
qed simp

lemma utf8_ok_show [simp]: "utf8_ok (show_u64 w)"
  using show_nat_facts(1) [of "unat w"]
  by (intro utf8_ok_ascii) (auto simp: show_u64_def is_digit_def list_all_iff)

lemma utf8_ok_show_bool [simp]: "utf8_ok (show_bool b)"
  by (intro utf8_ok_ascii) (simp add: show_bool_def)

lemma utf8_ok_join: "utf8_ok sep \<Longrightarrow> \<forall>p \<in> set ps. utf8_ok p \<Longrightarrow> utf8_ok (join sep ps)"
  by (induction sep ps rule: join.induct) (auto intro!: utf8_ok_append)

end
