(* ===== verification/Serializer.thy ===== *)
theory Serializer
  imports Paxos_Types Bytes Text
begin

text \<open>
  The text format of the messages, \<open>network-ws/serializer/src/serializer.rs\<close> (and the same code
  in \<open>runner-ws/src/host_serializer.rs\<close>): a four-byte length, then
  \<open>sender=...||payload=...\<close>, both lists of \<open>key:value\<close> parts that commas separate. A format
  string \<open>tag,k1:{},k2:{}\<close> of the source is written here as the list of its parts.
\<close>

definition res_bind :: "'a result \<Rightarrow> ('a \<Rightarrow> 'b result) \<Rightarrow> 'b result" where
  "res_bind r f = (case r of Inl e \<Rightarrow> Inl e | Inr x \<Rightarrow> f x)"

lemma res_bind_simps [simp]: "res_bind (Inl e) f = Inl e" "res_bind (Inr x) f = f x"
  by (simp_all add: res_bind_def)

definition kv :: "string \<Rightarrow> string \<Rightarrow> string" where
  "kv k v = k @ '':'' @ v"

text \<open>
  The loops over the parts. Each variable of such a loop belongs to one key and is assigned at
  every part with that key, so after the loop it holds what the last of them gave.
\<close>

definition field :: "string \<Rightarrow> string list \<Rightarrow> string option" where
  "field k parts =
     foldl (\<lambda>acc part. case splitn2 CHR '':'' part of
         (k', Some v) \<Rightarrow> if k' = k then Some v else acc
       | _ \<Rightarrow> acc) None parts"

definition field_u64 :: "string \<Rightarrow> string list \<Rightarrow> u64 option" where
  "field_u64 k parts = Option.bind (field k parts) parse_u64"

definition field_bool :: "string \<Rightarrow> string list \<Rightarrow> bool option" where
  "field_bool k parts = Option.bind (field k parts) parse_bool"

section \<open>Nodes\<close>

fun role_str :: "paxos_role \<Rightarrow> string" where
  "role_str Proposer = ''proposer''"
| "role_str Acceptor = ''acceptor''"
| "role_str Learner = ''learner''"
| "role_str Client = ''client''"
| "role_str Coordinator = ''coordinator''"

definition serialize_node :: "node \<Rightarrow> string" where
  "serialize_node n =
     join '','' [kv ''node_id'' (show_u64 (node_id n)), kv ''address'' (address n),
       kv ''role'' (role_str (role n))]"

definition parse_role :: "string \<Rightarrow> paxos_role option" where
  "parse_role v =
     (if v = ''proposer'' then Some Proposer
      else if v = ''acceptor'' then Some Acceptor
      else if v = ''learner'' then Some Learner
      else if v = ''client'' then Some Client
      else if v = ''coordinator'' then Some Coordinator
      else None)"

text \<open>An unknown role is an error at once, whatever parts follow.\<close>

definition bad_role :: "string list \<Rightarrow> bool" where
  "bad_role parts \<longleftrightarrow>
     list_ex (\<lambda>part. case splitn2 CHR '':'' part of
         (k, Some v) \<Rightarrow> k = ''role'' \<and> parse_role v = None
       | _ \<Rightarrow> False) parts"

definition deserialize_node :: "string \<Rightarrow> node result" where
  "deserialize_node s =
     (let parts = split_on CHR '','' s in
      if bad_role parts then Inl ''unknown role''
      else case (field_u64 ''node_id'' parts, field ''address'' parts,
                 Option.bind (field ''role'' parts) parse_role) of
        (Some i, Some a, Some r) \<Rightarrow> Inr \<lparr>node_id = i, address = a, role = r\<rparr>
      | _ \<Rightarrow> Inl ''missing node_id, address, or role'')"

section \<open>Operations and results\<close>

fun serialize_operation :: "operation \<Rightarrow> string" where
  "serialize_operation (Get key) = ''get(\"'' @ key @ ''\")''"
| "serialize_operation (Remove key) = ''remove(\"'' @ key @ ''\")''"
| "serialize_operation (Set p) = ''set(\"'' @ kv_key p @ ''\",\"'' @ kv_value p @ ''\")''"
| "serialize_operation Clear = ''clear''"
| "serialize_operation Demo = ''demo''"

definition between :: "string \<Rightarrow> string \<Rightarrow> string \<Rightarrow> string option" where
  "between p q s = Option.bind (strip_prefix p s) (strip_suffix q)"

text \<open>The branch for \<open>set("key","value")\<close>; what does not fit falls through.\<close>

definition parse_set :: "string \<Rightarrow> operation option" where
  "parse_set op_str =
     (case between ''set('' '')'' op_str of
        None \<Rightarrow> None
      | Some inner \<Rightarrow>
         (case between ''\"'' ''\"'' inner of
            None \<Rightarrow> None
          | Some stripped \<Rightarrow>
             (case split_str ''\",\"'' stripped of
                [k, v] \<Rightarrow> Some (Set \<lparr>kv_key = k, kv_value = v\<rparr>)
              | _ \<Rightarrow> None)))"

definition deserialize_operation :: "string \<Rightarrow> operation result" where
  "deserialize_operation op_str =
     (if op_str = ''none'' then Inl ''none''
      else case between ''get(\"'' ''\")'' op_str of
        Some arg \<Rightarrow> Inr (Get arg)
      | None \<Rightarrow>
     (case between ''remove(\"'' ''\")'' op_str of
        Some arg \<Rightarrow> Inr (Remove arg)
      | None \<Rightarrow>
     (case parse_set op_str of
        Some op \<Rightarrow> Inr op
      | None \<Rightarrow>
         if op_str = ''clear'' then Inr Clear
         else if op_str = ''demo'' then Inr Demo
         else Inl ''unknown op'')))"

fun serialize_cmd_result :: "cmd_result \<Rightarrow> string" where
  "serialize_cmd_result NoOp = ''no-op''"
| "serialize_cmd_result (CmdValue None) = ''cmd-value:none''"
| "serialize_cmd_result (CmdValue (Some v)) = ''cmd-value:'' @ v"

definition deserialize_cmd_result :: "string \<Rightarrow> cmd_result result" where
  "deserialize_cmd_result s =
     (if s = ''no-op'' then Inr NoOp
      else case strip_prefix ''cmd-value:'' s of
        Some rest \<Rightarrow> if rest = ''none'' then Inr (CmdValue None) else Inr (CmdValue (Some rest))
      | None \<Rightarrow> Inl ''bad cmd-result'')"

text \<open>The command of a value, \<open>none\<close> for a no-op.\<close>

definition show_cmd :: "cmd \<Rightarrow> string" where
  "show_cmd c = (case c of None \<Rightarrow> ''none'' | Some op \<Rightarrow> serialize_operation op)"

definition parse_cmd :: "string \<Rightarrow> string \<Rightarrow> cmd result" where
  "parse_cmd err op =
     (if op = ''none'' then Inr None
      else case deserialize_operation op of Inl _ \<Rightarrow> Inl err | Inr x \<Rightarrow> Inr (Some x))"

section \<open>Payloads to text\<close>

definition value_parts :: "paxos_value \<Rightarrow> string list" where
  "value_parts v =
     [kv ''client_id'' (client_id v), kv ''client_seq'' (show_u64 (client_seq v)),
      kv ''op'' (show_cmd (command v))]"

text \<open>No accepted value is written like a no-op of an unknown client.\<close>

definition serialize_p_value :: "p_value \<Rightarrow> string" where
  "serialize_p_value pv =
     join '','' ([kv ''slot'' (show_u64 (pv_slot pv)), kv ''ballot'' (show_u64 (pv_ballot pv))] @
       value_parts (case pv_value pv of
           Some v \<Rightarrow> v
         | None \<Rightarrow> \<lparr>command = None, client_id = ''unknown'', client_seq = 0\<rparr>))"

definition serialize_promise :: "promise \<Rightarrow> string" where
  "serialize_promise pr =
     (let entries = join ''|'' (map serialize_p_value (prom_accepted pr));
          hdr = [''promise'', kv ''slot'' (show_u64 (prom_slot pr)), kv ''ballot'' (show_u64 (prom_ballot pr))] in
      if entries = [] then join '','' hdr
      else join '','' (hdr @ [kv ''accepted'' (''['' @ entries @ '']'')]))"

definition serialize_execute_result :: "execute_result \<Rightarrow> string" where
  "serialize_execute_result r =
     join '','' ([kv ''slot'' (show_u64 (er_slot r))] @ value_parts (er_value r) @
       [kv ''success'' (show_bool (er_success r)), kv ''result'' (serialize_cmd_result (er_cmd_result r))])"

definition serialize_executed :: "executed \<Rightarrow> string" where
  "serialize_executed ex =
     join '','' [''executed'', kv ''adu'' (show_u64 (ex_adu ex)),
       kv ''results'' (''['' @ join ''|'' (map serialize_execute_result (ex_results ex)) @ '']'')]"

fun serialize_message_payload :: "message_payload \<Rightarrow> string" where
  "serialize_message_payload Ignore = ''ignore''"
| "serialize_message_payload (ClientRequest v) = join '','' (''client-request'' # value_parts v)"
| "serialize_message_payload (ClientResponse cr) =
     join '','' [''client-response'', kv ''client_id'' (resp_client_id cr),
       kv ''client_seq'' (show_u64 (resp_client_seq cr)), kv ''success'' (show_bool (resp_success cr)),
       kv ''result'' (serialize_cmd_result (command_result cr))]"
| "serialize_message_payload (PrepareMsg p) =
     join '','' [''prepare'', kv ''slot'' (show_u64 (prep_slot p)), kv ''ballot'' (show_u64 (prep_ballot p))]"
| "serialize_message_payload (PromiseMsg pr) = serialize_promise pr"
| "serialize_message_payload (AcceptMsg a) =
     join '','' ([''accept'', kv ''slot'' (show_u64 (acc_slot a)), kv ''ballot'' (show_u64 (acc_ballot a))] @
       value_parts (acc_value a))"
| "serialize_message_payload (AcceptedMsg a) =
     join '','' [''accepted'', kv ''slot'' (show_u64 (ad_slot a)), kv ''ballot'' (show_u64 (ad_ballot a)),
       kv ''success'' (show_bool (ad_success a))]"
| "serialize_message_payload (LearnMsg l) =
     join '','' ([''learn'', kv ''slot'' (show_u64 (ln_slot l))] @ value_parts (ln_value l))"
| "serialize_message_payload Heartbeat = ''heartbeat''"
| "serialize_message_payload (RetryLearnsMsg r) =
     join '','' [''retry-learns'', kv ''slots'' (join ''|'' (map show_u64 (retry_slots r)))]"
| "serialize_message_payload (ExecutedMsg ex) = serialize_executed ex"
| "serialize_message_payload (BenchmarkMsg b) =
     join '','' [''benchmark'', kv ''send_timestamp'' (show_u64 (send_timestamp b)), kv ''payload'' (bm_payload b)]"
| "serialize_message_payload (AduMsg adu) = join '','' [''adu'', show_u64 adu]"

section \<open>Text to payloads\<close>

definition de_client_request :: "string list \<Rightarrow> message_payload result" where
  "de_client_request parts =
     (case (field ''client_id'' parts, field_u64 ''client_seq'' parts, field ''op'' parts) of
        (Some cid, Some cseq, Some op) \<Rightarrow>
          res_bind (parse_cmd ''bad op'' op)
            (\<lambda>cmd. Inr (ClientRequest \<lparr>command = cmd, client_id = cid, client_seq = cseq\<rparr>))
      | _ \<Rightarrow> Inl ''bad client-request'')"

definition de_client_response :: "string list \<Rightarrow> message_payload result" where
  "de_client_response parts =
     (case (field ''client_id'' parts, field_u64 ''client_seq'' parts, field_bool ''success'' parts,
            field ''result'' parts) of
        (Some cid, Some cseq, Some suc, Some res_s) \<Rightarrow>
          res_bind (deserialize_cmd_result res_s)
            (\<lambda>res. Inr (ClientResponse \<lparr>resp_client_id = cid, resp_client_seq = cseq,
               resp_success = suc, command_result = res\<rparr>))
      | _ \<Rightarrow> Inl ''bad client-response'')"

definition de_prepare :: "string list \<Rightarrow> message_payload result" where
  "de_prepare parts =
     (case (field_u64 ''slot'' parts, field_u64 ''ballot'' parts) of
        (Some s, Some b) \<Rightarrow> Inr (PrepareMsg \<lparr>prep_slot = s, prep_ballot = b\<rparr>)
      | _ \<Rightarrow> Inl ''bad prepare'')"

text \<open>
  The bracketed list of a promise or an executed message: what comes before it, and what is
  between the tag and the next closing bracket.
\<close>

definition cut_list :: "string \<Rightarrow> string \<Rightarrow> string \<Rightarrow> (string \<times> string option) result" where
  "cut_list tag err raw =
     (case find_str tag raw of
        None \<Rightarrow> Inr (raw, None)
      | Some start \<Rightarrow>
         (let inner = drop (start + length tag) raw in
          case find_str '']'' inner of
            None \<Rightarrow> Inl err
          | Some i \<Rightarrow> Inr (take start raw, Some (take i inner))))"

text \<open>The entries of such a list: one that lacks a field is skipped, a bad one is an error.\<close>

fun de_entries :: "(string list \<Rightarrow> 'a option result) \<Rightarrow> string list \<Rightarrow> 'a list result" where
  "de_entries f [] = Inr []"
| "de_entries f (e # es) =
     res_bind (f (split_on CHR '','' e)) (\<lambda>x.
     res_bind (de_entries f es) (\<lambda>xs. Inr (case x of None \<Rightarrow> xs | Some y \<Rightarrow> y # xs)))"

definition de_p_value :: "string list \<Rightarrow> p_value option result" where
  "de_p_value fs =
     (case (field_u64 ''slot'' fs, field_u64 ''ballot'' fs, field ''client_id'' fs,
            field_u64 ''client_seq'' fs, field ''op'' fs) of
        (Some es, Some eb, Some cid, Some cseq, Some op) \<Rightarrow>
          res_bind (parse_cmd ''bad op in promise.accepted'' op)
            (\<lambda>cmd. Inr (Some \<lparr>pv_slot = es, pv_ballot = eb,
               pv_value = (case cmd of None \<Rightarrow> None
                 | Some c \<Rightarrow> Some \<lparr>command = Some c, client_id = cid, client_seq = cseq\<rparr>)\<rparr>))
      | _ \<Rightarrow> Inr None)"

definition de_promise :: "string \<Rightarrow> message_payload result" where
  "de_promise raw =
     res_bind (cut_list ''accepted:['' ''malformed promise accepted list'' raw) (\<lambda>(hdr, list_str).
      let parts = tl (split_on CHR '','' hdr) in
      res_bind (case list_str of None \<Rightarrow> Inr [] | Some l \<Rightarrow> de_entries de_p_value (split_on CHR ''|'' l))
        (\<lambda>accepted.
          case (field_u64 ''slot'' parts, field_u64 ''ballot'' parts) of
            (Some s, Some b) \<Rightarrow> Inr (PromiseMsg \<lparr>prom_slot = s, prom_ballot = b, prom_accepted = accepted\<rparr>)
          | _ \<Rightarrow> Inl ''bad promise''))"

definition de_accept :: "string list \<Rightarrow> message_payload result" where
  "de_accept parts =
     (case (field_u64 ''slot'' parts, field_u64 ''ballot'' parts, field ''client_id'' parts,
            field_u64 ''client_seq'' parts, field ''op'' parts) of
        (Some s, Some b, Some cid, Some cseq, Some op) \<Rightarrow>
          res_bind (parse_cmd ''bad op'' op)
            (\<lambda>cmd. Inr (AcceptMsg \<lparr>acc_slot = s, acc_ballot = b,
               acc_value = \<lparr>command = cmd, client_id = cid, client_seq = cseq\<rparr>\<rparr>))
      | _ \<Rightarrow> Inl ''bad accept'')"

definition de_accepted :: "string list \<Rightarrow> message_payload result" where
  "de_accepted parts =
     (case (field_u64 ''slot'' parts, field_u64 ''ballot'' parts, field_bool ''success'' parts) of
        (Some s, Some b, Some suc) \<Rightarrow> Inr (AcceptedMsg \<lparr>ad_slot = s, ad_ballot = b, ad_success = suc\<rparr>)
      | _ \<Rightarrow> Inl ''bad accepted'')"

definition de_learn :: "string list \<Rightarrow> message_payload result" where
  "de_learn parts =
     (case (field_u64 ''slot'' parts, field ''client_id'' parts, field_u64 ''client_seq'' parts,
            field ''op'' parts) of
        (Some s, Some cid, Some cseq, Some op) \<Rightarrow>
          res_bind (parse_cmd ''bad op'' op)
            (\<lambda>cmd. Inr (LearnMsg \<lparr>ln_slot = s,
               ln_value = \<lparr>command = cmd, client_id = cid, client_seq = cseq\<rparr>\<rparr>))
      | _ \<Rightarrow> Inl ''bad learn'')"

fun parse_slots :: "string list \<Rightarrow> u64 list option" where
  "parse_slots [] = Some []"
| "parse_slots (t # ts) =
     (case parse_u64 t of None \<Rightarrow> None | Some s \<Rightarrow> map_option (\<lambda>ss. s # ss) (parse_slots ts))"

definition de_retry_learns :: "string list \<Rightarrow> message_payload result" where
  "de_retry_learns parts =
     (case parts of
        [p] \<Rightarrow>
         (case strip_prefix ''slots:'' p of
            None \<Rightarrow> Inl ''bad retry-learns''
          | Some l \<Rightarrow>
             (case parse_slots (split_on CHR ''|'' l) of
                None \<Rightarrow> Inl ''bad slot''
              | Some slots \<Rightarrow> Inr (RetryLearnsMsg \<lparr>retry_slots = slots\<rparr>)))
      | _ \<Rightarrow> Inl ''bad retry-learns'')"

definition de_execute_result :: "string list \<Rightarrow> execute_result option result" where
  "de_execute_result fs =
     (case (field_u64 ''slot'' fs, field ''client_id'' fs, field_u64 ''client_seq'' fs,
            field ''op'' fs, field_bool ''success'' fs, field ''result'' fs) of
        (Some s, Some cid, Some cseq, Some op, Some suc, Some res_s) \<Rightarrow>
          res_bind (parse_cmd ''bad op'' op) (\<lambda>cmd.
          res_bind (deserialize_cmd_result res_s) (\<lambda>res.
            Inr (Some \<lparr>er_value = \<lparr>command = cmd, client_id = cid, client_seq = cseq\<rparr>, er_slot = s,
              er_success = suc, er_cmd_result = res\<rparr>)))
      | _ \<Rightarrow> Inr None)"

definition de_executed :: "string \<Rightarrow> message_payload result" where
  "de_executed raw =
     res_bind (cut_list ''results:['' ''malformed executed results list'' raw) (\<lambda>(hdr, list_str).
      res_bind (case list_str of None \<Rightarrow> Inr [] | Some l \<Rightarrow> de_entries de_execute_result (split_on CHR ''|'' l))
        (\<lambda>results.
          case field_u64 ''adu'' (tl (split_on CHR '','' hdr)) of
            Some adu \<Rightarrow> Inr (ExecutedMsg \<lparr>ex_results = results, ex_adu = adu\<rparr>)
          | None \<Rightarrow> Inl ''bad executed payload''))"

definition de_benchmark :: "string list \<Rightarrow> message_payload result" where
  "de_benchmark parts =
     (case (field_u64 ''send_timestamp'' parts, field ''payload'' parts) of
        (Some ts, Some p) \<Rightarrow> Inr (BenchmarkMsg \<lparr>send_timestamp = ts, bm_payload = p\<rparr>)
      | _ \<Rightarrow> Inl ''bad benchmark message'')"

definition de_adu :: "string list \<Rightarrow> message_payload result" where
  "de_adu parts =
     (case parts of
        [p] \<Rightarrow> (case parse_u64 p of Some adu \<Rightarrow> Inr (AduMsg adu) | None \<Rightarrow> Inl ''invalid adu value'')
      | _ \<Rightarrow> Inl ''bad adu payload'')"

definition deserialize_message_payload :: "string \<Rightarrow> message_payload result" where
  "deserialize_message_payload s =
     (case split_on CHR '','' s of
        [] \<Rightarrow> Inl ''empty payload''
      | tag # parts \<Rightarrow>
          if tag = ''ignore'' then Inr Ignore
          else if tag = ''client-request'' then de_client_request parts
          else if tag = ''client-response'' then de_client_response parts
          else if tag = ''prepare'' then de_prepare parts
          else if tag = ''promise'' then de_promise s
          else if tag = ''accept'' then de_accept parts
          else if tag = ''accepted'' then de_accepted parts
          else if tag = ''learn'' then de_learn parts
          else if tag = ''heartbeat'' then Inr Heartbeat
          else if tag = ''retry-learns'' then de_retry_learns parts
          else if tag = ''executed'' then de_executed s
          else if tag = ''benchmark'' then de_benchmark parts
          else if tag = ''adu'' then de_adu parts
          else Inl ''unknown payload'')"

section \<open>Messages\<close>

definition message_text :: "network_message \<Rightarrow> string" where
  "message_text m =
     ''sender='' @ serialize_node (sender m) @ ''||payload='' @ serialize_message_payload (payload m)"

text \<open>\<open>None\<close> is the panic of \<open>expect("Message too long")\<close>.\<close>

definition serialize :: "network_message \<Rightarrow> bytes option" where
  "serialize m =
     (if length (message_text m) < 2 ^ 32
      then Some (u32_to_be_bytes (length (message_text m)) @ message_text m) else None)"

definition try_deserialize :: "bytes \<Rightarrow> network_message result" where
  "try_deserialize bs =
     (if length bs < 4 then Inl ''Serialized message too short to contain length prefix''
      else
        (let expected_len = u32_from_be_bytes (take 4 bs); payload_bytes = drop 4 bs in
         if length payload_bytes \<noteq> expected_len
         then Inl (''Expected message length '' @ show_nat expected_len @ '', but got '' @
                show_nat (length payload_bytes))
         else if \<not> utf8_ok payload_bytes then Inl ''Invalid UTF-8 sequence in payload''
         else case split_str ''||'' payload_bytes of
           [p0, p1] \<Rightarrow>
            (case strip_prefix ''sender='' p0 of
               None \<Rightarrow> Inl ''Missing sender prefix''
             | Some sender_str \<Rightarrow>
            (case strip_prefix ''payload='' p1 of
               None \<Rightarrow> Inl ''Missing payload prefix''
             | Some payload_str \<Rightarrow>
            (case deserialize_node sender_str of
               Inl _ \<Rightarrow> Inl ''Failed to deserialize node''
             | Inr n \<Rightarrow>
            (case deserialize_message_payload payload_str of
               Inl e \<Rightarrow> Inl (''Failed to deserialize payload: '' @ e)
             | Inr p \<Rightarrow> Inr \<lparr>sender = n, payload = p\<rparr>))))
         | _ \<Rightarrow> Inl ''Invalid serialized message format''))"

text \<open>\<open>deserialize\<close> of the component panics on an error; the host's returns it.\<close>

definition deserialize :: "bytes \<Rightarrow> network_message option" where
  "deserialize bs = (case try_deserialize bs of Inr m \<Rightarrow> Some m | Inl _ \<Rightarrow> None)"

end
