(* ===== verification/Wire.thy ===== *)
theory Wire
  imports Serializer
begin

text \<open>
  What the text format keeps: which messages come back as they were sent, what the others turn
  into, and which byte strings are rejected.
\<close>

section \<open>Texts free of delimiters\<close>

definition plain :: "string \<Rightarrow> bool" where
  "plain s \<longleftrightarrow> utf8_ok s \<and> CHR '','' \<notin> set s \<and> CHR ''|'' \<notin> set s \<and> CHR '']'' \<notin> set s"

lemma plain_Nil [simp]: "plain []"
  by (simp add: plain_def)

lemma plain_append: "plain a \<Longrightarrow> plain b \<Longrightarrow> plain (a @ b)"
  by (auto simp: plain_def utf8_ok_append)

lemma utf8_ok_Cons: "(of_char c :: nat) < 128 \<Longrightarrow> utf8_ok s \<Longrightarrow> utf8_ok (c # s)"
  using utf8_ok_append [of "[c]" s] utf8_ok_ascii [of "[c]"] by simp

lemma plain_Cons [simp]:
  "(of_char c :: nat) < 128 \<Longrightarrow> c \<notin> {CHR '','', CHR ''|'', CHR '']''} \<Longrightarrow> plain s \<Longrightarrow> plain (c # s)"
  by (auto simp: plain_def utf8_ok_Cons)

lemma show_u64_free [simp]:
  "CHR '','' \<notin> set (show_u64 w)" "CHR ''|'' \<notin> set (show_u64 w)" "CHR '']'' \<notin> set (show_u64 w)"
  "CHR ''['' \<notin> set (show_u64 w)"
  by (rule not_digit_show, simp add: is_digit_def)+

lemma plain_show [simp]: "plain (show_u64 w)"
  by (simp add: plain_def)

lemma plain_show_bool [simp]: "plain (show_bool b)"
  by (cases b) (simp_all add: show_bool_def)

lemma plain_kv [simp]: "plain k \<Longrightarrow> plain v \<Longrightarrow> plain (kv k v)"
  by (simp add: kv_def plain_append)

lemma plain_role [simp]: "plain (role_str r)"
  by (cases r) simp_all

lemma splitn2_kv [simp]: "CHR '':'' \<notin> set k \<Longrightarrow> splitn2 CHR '':'' (kv k v) = (k, Some v)"
  by (simp add: kv_def splitn2_step)

lemma split_parts:
  "ps \<noteq> [] \<Longrightarrow> list_all plain ps \<Longrightarrow> split_on CHR '','' (join '','' ps) = ps"
  by (rule split_on_join) (auto simp: plain_def list_all_iff)

section \<open>Messages that survive\<close>

fun cmd_safe :: "cmd \<Rightarrow> bool" where
  "cmd_safe (Some (Get k)) = plain k"
| "cmd_safe (Some (Remove k)) = plain k"
| "cmd_safe (Some (Set p)) = False"
| "cmd_safe _ = True"

definition value_safe :: "paxos_value \<Rightarrow> bool" where
  "value_safe v \<longleftrightarrow> plain (client_id v) \<and> cmd_safe (command v)"

fun result_safe :: "cmd_result \<Rightarrow> bool" where
  "result_safe (CmdValue (Some s)) = plain s"
| "result_safe _ = True"

fun payload_safe :: "message_payload \<Rightarrow> bool" where
  "payload_safe (ClientRequest v) = value_safe v"
| "payload_safe (ClientResponse r) = (plain (resp_client_id r) \<and> result_safe (command_result r))"
| "payload_safe (PromiseMsg p) =
     list_all (\<lambda>pv. case pv_value pv of None \<Rightarrow> True | Some v \<Rightarrow> value_safe v) (prom_accepted p)"
| "payload_safe (AcceptMsg a) = value_safe (acc_value a)"
| "payload_safe (LearnMsg l) = value_safe (ln_value l)"
| "payload_safe (RetryLearnsMsg r) = (retry_slots r \<noteq> [])"
| "payload_safe (ExecutedMsg ex) =
     list_all (\<lambda>r. value_safe (er_value r) \<and> result_safe (er_cmd_result r)) (ex_results ex)"
| "payload_safe (BenchmarkMsg b) = plain (bm_payload b)"
| "payload_safe _ = True"

definition message_safe :: "network_message \<Rightarrow> bool" where
  "message_safe m \<longleftrightarrow> plain (address (sender m)) \<and> payload_safe (payload m)"

text \<open>
  What arrives: in a promise an accepted no-op becomes no value, and the result \<open>none\<close> becomes
  no result.
\<close>

fun norm_result :: "cmd_result \<Rightarrow> cmd_result" where
  "norm_result (CmdValue (Some v)) = (if v = ''none'' then CmdValue None else CmdValue (Some v))"
| "norm_result r = r"

definition norm_p_value :: "p_value \<Rightarrow> p_value" where
  "norm_p_value pv =
     pv\<lparr>pv_value := (case pv_value pv of
         Some v \<Rightarrow> if command v = None then None else Some v | None \<Rightarrow> None)\<rparr>"

fun norm_payload :: "message_payload \<Rightarrow> message_payload" where
  "norm_payload (ClientResponse r) = ClientResponse (r\<lparr>command_result := norm_result (command_result r)\<rparr>)"
| "norm_payload (PromiseMsg p) = PromiseMsg (p\<lparr>prom_accepted := map norm_p_value (prom_accepted p)\<rparr>)"
| "norm_payload (ExecutedMsg ex) =
     ExecutedMsg (ex\<lparr>ex_results :=
       map (\<lambda>r. r\<lparr>er_cmd_result := norm_result (er_cmd_result r)\<rparr>) (ex_results ex)\<rparr>)"
| "norm_payload p = p"

definition norm_message :: "network_message \<Rightarrow> network_message" where
  "norm_message m = m\<lparr>payload := norm_payload (payload m)\<rparr>"

section \<open>The pieces\<close>

lemma between_append [simp]: "between p q (p @ s @ q) = Some s"
  by (simp add: between_def)

lemma between_literals [simp]:
  "between ''get(\"'' ''\")'' (''get(\"'' @ s @ ''\")'') = Some s"
  "between ''remove(\"'' ''\")'' (''remove(\"'' @ s @ ''\")'') = Some s"
  using between_append [of "''get(\"''" "''\")''" s] between_append [of "''remove(\"''" "''\")''" s]
  by simp_all

lemma deserialize_safe_operation:
  "cmd_safe (Some op) \<Longrightarrow> deserialize_operation (serialize_operation op) = Inr op"
  using between_literals
  by (cases op) (simp_all add: deserialize_operation_def between_def strip_prefix_def parse_set_def)

lemma serialize_operation_not_none: "serialize_operation op \<noteq> ''none''"
  by (cases op) auto

lemma parse_show_cmd: "cmd_safe c \<Longrightarrow> parse_cmd err (show_cmd c) = Inr c"
  by (cases c)
    (simp_all add: parse_cmd_def show_cmd_def deserialize_safe_operation serialize_operation_not_none)

lemma plain_show_cmd: "cmd_safe c \<Longrightarrow> plain (show_cmd c)"
  by (cases c rule: cmd_safe.cases) (simp_all add: show_cmd_def plain_append)

lemma value_safe_facts:
  assumes "value_safe v"
  shows "plain (client_id v)" and "plain (show_cmd (command v))"
    and "parse_cmd err (show_cmd (command v)) = Inr (command v)"
  using assms by (simp_all add: value_safe_def plain_show_cmd parse_show_cmd)

lemma deserialize_result: "deserialize_cmd_result (serialize_cmd_result r) = Inr (norm_result r)"
  by (cases r rule: norm_result.cases)
    (auto simp: deserialize_cmd_result_def strip_prefix_def)

lemma plain_result: "result_safe r \<Longrightarrow> plain (serialize_cmd_result r)"
  by (cases r rule: result_safe.cases) simp_all

lemma parse_role_str: "parse_role (role_str r) = Some r"
  by (cases r) (simp_all add: parse_role_def)

lemma deserialize_safe_node:
  assumes "plain (address n)"
  shows "deserialize_node (serialize_node n) = Inr n"
proof -
  let ?ps = "[kv ''node_id'' (show_u64 (node_id n)), kv ''address'' (address n), kv ''role'' (role_str (role n))]"
  have "split_on CHR '','' (join '','' ?ps) = ?ps"
    by (rule split_parts) (simp_all add: assms)
  then show ?thesis
    by (simp add: deserialize_node_def serialize_node_def bad_role_def field_def field_u64_def parse_role_str
        del: join.simps)
qed

lemma join_free: "\<forall>p \<in> set ps. c \<notin> set p \<Longrightarrow> c \<notin> set sep \<Longrightarrow> c \<notin> set (join sep ps)"
  using set_join [of sep ps] by auto

lemma join_plain:
  assumes "list_all plain ps"
  shows "utf8_ok (join '','' ps) \<and> CHR ''|'' \<notin> set (join '','' ps) \<and> CHR '']'' \<notin> set (join '','' ps)"
  using assms
  by (intro conjI join_free utf8_ok_join utf8_ok_Cons) (auto simp: list_all_iff plain_def)

text \<open>The parts of each kind of text are plain.\<close>

lemma plain_value_parts: "value_safe v \<Longrightarrow> list_all plain (value_parts v)"
  by (simp add: value_parts_def value_safe_facts)

lemma plain_node_parts:
  "plain a \<Longrightarrow> list_all plain [kv ''node_id'' (show_u64 i), kv ''address'' a, kv ''role'' (role_str r)]"
  by simp

lemma plain_node:
  "plain (address n) \<Longrightarrow> utf8_ok (serialize_node n) \<and> CHR ''|'' \<notin> set (serialize_node n)"
  using join_plain [OF plain_node_parts, of "address n" "node_id n" "role n"]
  by (simp add: serialize_node_def del: join.simps)

section \<open>Lists of entries\<close>

lemma split_entries:
  assumes "\<forall>x \<in> set xs. CHR ''|'' \<notin> set (g x)" and "xs \<noteq> []"
  shows "split_on CHR ''|'' (join ''|'' (map g xs)) = map g xs"
  by (rule split_on_join) (use assms in auto)

lemma de_entries_map:
  "\<forall>x \<in> set xs. f (split_on CHR '','' (g x)) = Inr (Some (h x)) \<Longrightarrow>
   de_entries f (map g xs) = Inr (map h xs)"
  by (induction xs) simp_all

lemma cut_list_present:
  assumes "tag = q @ ''[''" and "CHR ''['' \<notin> set q" and "CHR ''['' \<notin> set hdr" and "CHR '']'' \<notin> set l"
  shows "cut_list tag err (hdr @ tag @ l @ '']'') = Inr (hdr, Some l)"
proof -
  have "find_str tag (hdr @ tag @ l @ '']'') = Some (length hdr)"
    by (rule find_str_at) (use assms in auto)
  moreover have "find_str '']'' (l @ '']'') = Some (length l)"
    by (rule find_str_char) (rule assms(4))
  ultimately show ?thesis by (simp add: cut_list_def Let_def)
qed

lemma cut_list_absent: "CHR ''['' \<in> set tag \<Longrightarrow> CHR ''['' \<notin> set raw \<Longrightarrow> cut_list tag err raw = Inr (raw, None)"
  by (simp add: cut_list_def find_str_absent)

section \<open>Payloads come back\<close>

lemmas field_simps = field_def field_u64_def field_bool_def value_parts_def

text \<open>A payload that is a list of plain parts.\<close>

lemma payload_split:
  "list_all plain (tag # parts) \<Longrightarrow> split_on CHR '','' (join '','' (tag # parts)) = tag # parts"
  by (rule split_parts) simp_all

lemma de_value_payloads:
  assumes "value_safe v"
  shows "deserialize_message_payload (serialize_message_payload (ClientRequest v)) = Inr (ClientRequest v)"
    and "acc_value a = v \<Longrightarrow>
      deserialize_message_payload (serialize_message_payload (AcceptMsg a)) = Inr (AcceptMsg a)"
    and "ln_value l = v \<Longrightarrow>
      deserialize_message_payload (serialize_message_payload (LearnMsg l)) = Inr (LearnMsg l)"
proof -
  note safe = plain_value_parts [OF assms] value_safe_facts [OF assms]
  have "list_all plain (''client-request'' # value_parts v)" using safe by simp
  from payload_split [OF this]
  show "deserialize_message_payload (serialize_message_payload (ClientRequest v)) = Inr (ClientRequest v)"
    by (simp add: deserialize_message_payload_def de_client_request_def field_simps safe del: join.simps)
  let ?a = "[kv ''slot'' (show_u64 (acc_slot a)), kv ''ballot'' (show_u64 (acc_ballot a))]"
  assume a: "acc_value a = v"
  have "list_all plain (''accept'' # ?a @ value_parts v)" using safe by simp
  from payload_split [OF this]
  show "deserialize_message_payload (serialize_message_payload (AcceptMsg a)) = Inr (AcceptMsg a)"
    by (simp add: deserialize_message_payload_def de_accept_def field_simps safe a del: join.simps)
next
  note safe = plain_value_parts [OF assms] value_safe_facts [OF assms]
  assume l: "ln_value l = v"
  have "list_all plain (''learn'' # [kv ''slot'' (show_u64 (ln_slot l))] @ value_parts v)" using safe by simp
  from payload_split [OF this]
  show "deserialize_message_payload (serialize_message_payload (LearnMsg l)) = Inr (LearnMsg l)"
    by (simp add: deserialize_message_payload_def de_learn_def field_simps safe l del: join.simps)
qed

lemma de_client_response_payload:
  assumes "payload_safe (ClientResponse r)"
  shows "deserialize_message_payload (serialize_message_payload (ClientResponse r)) =
    Inr (norm_payload (ClientResponse r))"
proof -
  let ?ps = "[kv ''client_id'' (resp_client_id r), kv ''client_seq'' (show_u64 (resp_client_seq r)),
    kv ''success'' (show_bool (resp_success r)), kv ''result'' (serialize_cmd_result (command_result r))]"
  have "list_all plain (''client-response'' # ?ps)" using assms by (simp add: plain_result)
  from payload_split [OF this] show ?thesis
    by (simp add: deserialize_message_payload_def de_client_response_def field_simps deserialize_result
        del: join.simps)
qed

lemma de_plain_payloads:
  "deserialize_message_payload (serialize_message_payload Ignore) = Inr Ignore"
  "deserialize_message_payload (serialize_message_payload Heartbeat) = Inr Heartbeat"
  "deserialize_message_payload (serialize_message_payload (PrepareMsg p)) = Inr (PrepareMsg p)"
  "deserialize_message_payload (serialize_message_payload (AcceptedMsg a)) = Inr (AcceptedMsg a)"
  "deserialize_message_payload (serialize_message_payload (AduMsg n)) = Inr (AduMsg n)"
  "plain (bm_payload b) \<Longrightarrow>
    deserialize_message_payload (serialize_message_payload (BenchmarkMsg b)) = Inr (BenchmarkMsg b)"
proof -
  show "deserialize_message_payload (serialize_message_payload Ignore) = Inr Ignore"
    and "deserialize_message_payload (serialize_message_payload Heartbeat) = Inr Heartbeat"
    by (simp_all add: deserialize_message_payload_def)
  show "deserialize_message_payload (serialize_message_payload (PrepareMsg p)) = Inr (PrepareMsg p)"
    using payload_split [of "''prepare''" "[kv ''slot'' (show_u64 (prep_slot p)), kv ''ballot'' (show_u64 (prep_ballot p))]"]
    by (simp add: deserialize_message_payload_def de_prepare_def field_simps del: join.simps)
  show "deserialize_message_payload (serialize_message_payload (AcceptedMsg a)) = Inr (AcceptedMsg a)"
    using payload_split [of "''accepted''" "[kv ''slot'' (show_u64 (ad_slot a)),
      kv ''ballot'' (show_u64 (ad_ballot a)), kv ''success'' (show_bool (ad_success a))]"]
    by (simp add: deserialize_message_payload_def de_accepted_def field_simps del: join.simps)
  show "deserialize_message_payload (serialize_message_payload (AduMsg n)) = Inr (AduMsg n)"
    using payload_split [of "''adu''" "[show_u64 n]"]
    by (simp add: deserialize_message_payload_def de_adu_def del: join.simps)
  show "deserialize_message_payload (serialize_message_payload (BenchmarkMsg b)) = Inr (BenchmarkMsg b)"
    if "plain (bm_payload b)"
    using payload_split [of "''benchmark''" "[kv ''send_timestamp'' (show_u64 (send_timestamp b)), kv ''payload'' (bm_payload b)]"] that
    by (simp add: deserialize_message_payload_def de_benchmark_def field_simps del: join.simps)
qed

lemma parse_slots_show: "parse_slots (map show_u64 ss) = Some ss"
  by (induction ss) simp_all

lemma de_retry_payload:
  assumes "retry_slots r \<noteq> []"
  shows "deserialize_message_payload (serialize_message_payload (RetryLearnsMsg r)) = Inr (RetryLearnsMsg r)"
proof -
  let ?l = "join ''|'' (map show_u64 (retry_slots r))"
  have comma: "CHR '','' \<notin> set ?l" by (rule join_free) auto
  have "split_on CHR '','' (join '','' [''retry-learns'', kv ''slots'' ?l]) = [''retry-learns'', kv ''slots'' ?l]"
    by (rule split_on_join) (use comma in \<open>auto simp: kv_def\<close>)
  moreover have "strip_prefix ''slots:'' (kv ''slots'' ?l) = Some ?l" by (simp add: kv_def strip_prefix_def)
  moreover have "split_on CHR ''|'' ?l = map show_u64 (retry_slots r)"
    by (rule split_entries) (use assms in auto)
  ultimately show ?thesis
    by (simp add: deserialize_message_payload_def de_retry_learns_def parse_slots_show del: join.simps)
qed

section \<open>Promises and executed messages\<close>

definition p_value_parts :: "p_value \<Rightarrow> string list" where
  "p_value_parts pv =
     [kv ''slot'' (show_u64 (pv_slot pv)), kv ''ballot'' (show_u64 (pv_ballot pv))] @
       value_parts (case pv_value pv of
           Some v \<Rightarrow> v
         | None \<Rightarrow> \<lparr>command = None, client_id = ''unknown'', client_seq = 0\<rparr>)"

definition result_parts :: "execute_result \<Rightarrow> string list" where
  "result_parts r = [kv ''slot'' (show_u64 (er_slot r))] @ value_parts (er_value r) @
     [kv ''success'' (show_bool (er_success r)), kv ''result'' (serialize_cmd_result (er_cmd_result r))]"

lemma serialize_entries:
  "serialize_p_value pv = join '','' (p_value_parts pv)"
  "serialize_execute_result r = join '','' (result_parts r)"
  by (simp_all add: serialize_p_value_def p_value_parts_def serialize_execute_result_def result_parts_def)

lemma plain_p_value_parts:
  "(case pv_value pv of None \<Rightarrow> True | Some v \<Rightarrow> value_safe v) \<Longrightarrow> list_all plain (p_value_parts pv)"
  by (auto simp: p_value_parts_def plain_value_parts split: option.splits)
    (simp add: value_parts_def show_cmd_def)

lemma plain_result_parts:
  "value_safe (er_value r) \<Longrightarrow> result_safe (er_cmd_result r) \<Longrightarrow> list_all plain (result_parts r)"
  by (simp add: result_parts_def plain_value_parts plain_result)

lemma de_p_value_entry:
  assumes "case pv_value pv of None \<Rightarrow> True | Some v \<Rightarrow> value_safe v"
  shows "de_p_value (split_on CHR '','' (serialize_p_value pv)) = Inr (Some (norm_p_value pv))"
proof -
  have "split_on CHR '','' (serialize_p_value pv) = p_value_parts pv"
    unfolding serialize_entries
    by (rule split_parts [OF _ plain_p_value_parts [OF assms]]) (simp add: p_value_parts_def)
  then show ?thesis
    using assms
    by (auto simp: p_value_parts_def de_p_value_def field_simps norm_p_value_def value_safe_facts
        parse_cmd_def [of _ "''none''"] show_cmd_def [of None] split: option.splits)
qed

lemma de_result_entry:
  assumes "value_safe (er_value r)" and "result_safe (er_cmd_result r)"
  shows "de_execute_result (split_on CHR '','' (serialize_execute_result r)) =
    Inr (Some (r\<lparr>er_cmd_result := norm_result (er_cmd_result r)\<rparr>))"
proof -
  have "split_on CHR '','' (serialize_execute_result r) = result_parts r"
    unfolding serialize_entries
    by (rule split_parts [OF _ plain_result_parts [OF assms]]) (simp add: result_parts_def)
  then show ?thesis
    by (simp add: result_parts_def de_execute_result_def field_simps value_safe_facts assms deserialize_result)
qed

text \<open>The text of a list of entries: nothing but single bars between them.\<close>

lemma entries_free:
  assumes "\<forall>x \<in> set xs. \<exists>ps. g x = join '','' ps \<and> list_all plain ps"
  shows "CHR '']'' \<notin> set (join ''|'' (map g xs))" and "\<forall>x \<in> set xs. CHR ''|'' \<notin> set (g x)"
    and "utf8_ok (join ''|'' (map g xs))"
proof -
  have each: "utf8_ok (g x) \<and> CHR ''|'' \<notin> set (g x) \<and> CHR '']'' \<notin> set (g x)" if "x \<in> set xs" for x
    using assms that join_plain by metis
  then show "CHR '']'' \<notin> set (join ''|'' (map g xs))" by (intro join_free) auto
  show "\<forall>x \<in> set xs. CHR ''|'' \<notin> set (g x)" using each by blast
  show "utf8_ok (join ''|'' (map g xs))" using each by (intro utf8_ok_join) (auto intro: utf8_ok_Cons)
qed

lemma promise_entries:
  assumes "payload_safe (PromiseMsg p)"
  shows "\<forall>pv \<in> set (prom_accepted p). \<exists>ps. serialize_p_value pv = join '','' ps \<and> list_all plain ps"
  using assms plain_p_value_parts serialize_entries(1) by (auto simp: list_all_iff)

lemma executed_entries:
  assumes "payload_safe (ExecutedMsg ex)"
  shows "\<forall>r \<in> set (ex_results ex). \<exists>ps. serialize_execute_result r = join '','' ps \<and> list_all plain ps"
  using assms plain_result_parts serialize_entries(2) by (auto simp: list_all_iff)

lemma header_free [simp]: "CHR ''['' \<notin> set (kv k v) \<longleftrightarrow> CHR ''['' \<notin> set k \<and> CHR ''['' \<notin> set v"
  by (auto simp: kv_def)

lemma split_header:
  "list_all plain (tag # parts) \<Longrightarrow>
   tl (split_on CHR '','' (join '','' ((tag # parts) @ [[]]))) = parts @ [[]]"
  by (subst split_parts) simp_all

lemma first_part: "CHR '','' \<notin> set tag \<Longrightarrow> split_on CHR '','' (join '','' (tag # p # ps)) = tag # split_on CHR '','' (join '','' (p # ps))"
  by (simp add: split_on_step)

lemma de_promise_payload:
  assumes "payload_safe (PromiseMsg p)"
  shows "deserialize_message_payload (serialize_message_payload (PromiseMsg p)) = Inr (norm_payload (PromiseMsg p))"
proof -
  let ?parts = "[kv ''slot'' (show_u64 (prom_slot p)), kv ''ballot'' (show_u64 (prom_ballot p))]"
  let ?l = "join ''|'' (map serialize_p_value (prom_accepted p))"
  let ?s = "serialize_promise p"
  note entries = entries_free [OF promise_entries [OF assms]]
  have tag: "\<exists>rest. split_on CHR '','' ?s = ''promise'' # rest"
    by (auto simp: serialize_promise_def Let_def first_part simp del: join.simps(3))
  have "de_promise ?s = Inr (norm_payload (PromiseMsg p))"
  proof (cases "prom_accepted p = []")
    case True
    then have "?s = join '','' (''promise'' # ?parts)" by (simp add: serialize_promise_def)
    moreover have "tl (split_on CHR '','' (join '','' (''promise'' # ?parts))) = ?parts"
      by (subst split_parts) simp_all
    moreover have "cut_list ''accepted:['' err (join '','' (''promise'' # ?parts)) = Inr (join '','' (''promise'' # ?parts), None)" for err
      by (rule cut_list_absent) simp_all
    ultimately show ?thesis
      using True by (simp add: de_promise_def field_simps Let_def del: join.simps)
  next
    case False
    let ?hdr = "join '','' ((''promise'' # ?parts) @ [[]])"
    have "?l \<noteq> []"
      using False by (cases "prom_accepted p"; cases "tl (prom_accepted p)") (simp_all add: serialize_entries p_value_parts_def kv_def)
    then have s: "?s = ?hdr @ ''accepted:['' @ ?l @ '']''"
      by (simp add: serialize_promise_def Let_def kv_def)
    have cut: "cut_list ''accepted:['' err ?s = Inr (?hdr, Some ?l)" for err
      unfolding s by (rule cut_list_present [where q = "''accepted:''"]) (simp_all add: entries(1))
    have "split_on CHR ''|'' ?l = map serialize_p_value (prom_accepted p)"
      by (rule split_entries [OF entries(2) False])
    moreover have "de_entries de_p_value (map serialize_p_value (prom_accepted p)) = Inr (map norm_p_value (prom_accepted p))"
      using assms by (intro de_entries_map) (auto simp: list_all_iff de_p_value_entry)
    moreover have "tl (split_on CHR '','' ?hdr) = ?parts @ [[]]" by (rule split_header) simp
    ultimately show ?thesis
      using cut by (simp add: de_promise_def field_simps Let_def del: join.simps)
  qed
  with tag show ?thesis by (auto simp: deserialize_message_payload_def simp del: norm_payload.simps)
qed

lemma de_executed_payload:
  assumes "payload_safe (ExecutedMsg ex)"
  shows "deserialize_message_payload (serialize_message_payload (ExecutedMsg ex)) = Inr (norm_payload (ExecutedMsg ex))"
proof -
  let ?parts = "[kv ''adu'' (show_u64 (ex_adu ex))]"
  let ?l = "join ''|'' (map serialize_execute_result (ex_results ex))"
  let ?s = "serialize_executed ex"
  let ?hdr = "join '','' ((''executed'' # ?parts) @ [[]])"
  note entries = entries_free [OF executed_entries [OF assms]]
  have tag: "\<exists>rest. split_on CHR '','' ?s = ''executed'' # rest"
    by (auto simp: serialize_executed_def first_part simp del: join.simps(3))
  have s: "?s = ?hdr @ ''results:['' @ ?l @ '']''" by (simp add: serialize_executed_def kv_def)
  have cut: "cut_list ''results:['' err ?s = Inr (?hdr, Some ?l)" for err
    unfolding s by (rule cut_list_present [where q = "''results:''"]) (simp_all add: entries(1))
  have list: "de_entries de_execute_result (split_on CHR ''|'' ?l) =
    Inr (map (\<lambda>r. r\<lparr>er_cmd_result := norm_result (er_cmd_result r)\<rparr>) (ex_results ex))"
  proof (cases "ex_results ex = []")
    case True
    then show ?thesis by (simp add: de_execute_result_def field_simps)
  next
    case False
    then show ?thesis
      using assms split_entries [OF entries(2) False]
      by (simp add: de_entries_map de_result_entry list_all_iff)
  qed
  have "tl (split_on CHR '','' ?hdr) = ?parts @ [[]]" by (rule split_header) simp
  with cut list have "de_executed ?s = Inr (norm_payload (ExecutedMsg ex))"
    by (simp add: de_executed_def field_simps del: join.simps)
  with tag show ?thesis by (auto simp: deserialize_message_payload_def simp del: norm_payload.simps)
qed

lemma payload_roundtrip:
  "payload_safe p \<Longrightarrow> deserialize_message_payload (serialize_message_payload p) = Inr (norm_payload p)"
  by (cases p)
    (simp_all add: de_value_payloads de_plain_payloads de_retry_payload de_client_response_payload
      de_promise_payload de_executed_payload del: serialize_message_payload.simps)

section \<open>Whole messages\<close>

text \<open>Texts that have no two bars in a row, and none at either end.\<close>

fun single_bars :: "string \<Rightarrow> bool" where
  "single_bars [] \<longleftrightarrow> True"
| "single_bars [x] \<longleftrightarrow> True"
| "single_bars (x # y # s) \<longleftrightarrow> \<not> (x = CHR ''|'' \<and> y = CHR ''|'') \<and> single_bars (y # s)"

definition barred :: "string \<Rightarrow> bool" where
  "barred s \<longleftrightarrow> single_bars s \<and> s \<noteq> [] \<and> hd s \<noteq> CHR ''|'' \<and> last s \<noteq> CHR ''|''"

lemma single_bars_append:
  "single_bars a \<Longrightarrow> single_bars b \<Longrightarrow> a = [] \<or> b = [] \<or> last a \<noteq> CHR ''|'' \<or> hd b \<noteq> CHR ''|'' \<Longrightarrow>
   single_bars (a @ b)"
proof (induction a rule: single_bars.induct)
  case (2 x)
  then show ?case by (cases b) auto
qed (auto split: if_splits)

lemma single_bars_free: "CHR ''|'' \<notin> set s \<Longrightarrow> single_bars s"
  by (induction s rule: single_bars.induct) auto

lemma barred_append: "barred a \<Longrightarrow> barred b \<Longrightarrow> barred (a @ b)"
  by (auto simp: barred_def intro: single_bars_append)

lemma barred_sep:
  assumes "barred a" and "barred b"
  shows "barred (a @ ''|'' @ b)"
proof -
  have "single_bars (''|'' @ b)" using assms(2) by (cases b) (auto simp: barred_def)
  with assms show ?thesis by (auto simp: barred_def intro: single_bars_append)
qed

lemma barred_free: "CHR ''|'' \<notin> set s \<Longrightarrow> s \<noteq> [] \<Longrightarrow> barred s"
  using hd_in_set last_in_set by (fastforce simp: barred_def single_bars_free)

lemma barred_join: "\<forall>p \<in> set ps. barred p \<Longrightarrow> ps \<noteq> [] \<Longrightarrow> barred (join ''|'' ps)"
  by (induction "''|''" ps rule: join.induct) (use barred_sep in auto)

lemma find_bars: "single_bars s \<Longrightarrow> find_str ''||'' s = None"
  by (induction s rule: single_bars.induct) auto

lemma join_nonempty: "p \<noteq> [] \<Longrightarrow> join sep (p # ps) \<noteq> []"
  by (cases ps) auto

lemma barred_parts: "list_all plain (p # ps) \<Longrightarrow> p \<noteq> [] \<Longrightarrow> barred (join '','' (p # ps))"
  using join_plain join_nonempty by (blast intro: barred_free)

text \<open>Every payload text is well-formed UTF-8 and has single bars only.\<close>

definition text_ok :: "string \<Rightarrow> bool" where
  "text_ok s \<longleftrightarrow> utf8_ok s \<and> barred s"

lemma text_ok_parts: "list_all plain (p # ps) \<Longrightarrow> p \<noteq> [] \<Longrightarrow> text_ok (join '','' (p # ps))"
  using join_plain barred_parts unfolding text_ok_def by blast

lemma text_ok_append: "text_ok a \<Longrightarrow> text_ok b \<Longrightarrow> text_ok (a @ b)"
  by (simp add: text_ok_def utf8_ok_append barred_append)

lemma text_ok_entries:
  assumes "\<forall>x \<in> set xs. \<exists>p ps. g x = join '','' (p # ps) \<and> list_all plain (p # ps) \<and> p \<noteq> []" and "xs \<noteq> []"
  shows "text_ok (join ''|'' (map g xs))"
proof -
  have "text_ok (g x)" if "x \<in> set xs" for x
    using assms(1) that text_ok_parts by metis
  then show ?thesis
    using assms(2) by (auto simp: text_ok_def intro!: utf8_ok_join utf8_ok_Cons barred_join)
qed

lemma text_ok_list:
  assumes "text_ok a" and "text_ok l \<or> l = []" and "list_all (\<lambda>c. (of_char c :: nat) < 128 \<and> c \<noteq> CHR ''|'') t" and "t \<noteq> []"
  shows "text_ok (a @ t @ l @ '']'')"
proof -
  have t: "text_ok t"
    using assms(3,4) unfolding text_ok_def by (intro conjI utf8_ok_ascii barred_free) (auto simp: list_all_iff)
  have r: "text_ok '']''" unfolding text_ok_def by (intro conjI utf8_ok_ascii barred_free) auto
  have at: "text_ok (a @ t)" by (rule text_ok_append [OF assms(1) t])
  show ?thesis
  proof (cases "l = []")
    case True
    with text_ok_append [OF at r] show ?thesis by simp
  next
    case False
    with assms(2) text_ok_append [OF at text_ok_append [OF _ r]] show ?thesis by simp
  qed
qed

lemma promise_text_ok:
  assumes "payload_safe (PromiseMsg p)"
  shows "text_ok (serialize_promise p)"
proof -
  let ?hdr = "join '','' [''promise'', kv ''slot'' (show_u64 (prom_slot p)), kv ''ballot'' (show_u64 (prom_ballot p))]"
  let ?l = "join ''|'' (map serialize_p_value (prom_accepted p))"
  have hdr: "text_ok ?hdr" by (rule text_ok_parts) simp_all
  have "text_ok ?l" if "?l \<noteq> []"
  proof (rule text_ok_entries)
    show "prom_accepted p \<noteq> []" using that by auto
    show "\<forall>pv \<in> set (prom_accepted p). \<exists>q ps. serialize_p_value pv = join '','' (q # ps) \<and> list_all plain (q # ps) \<and> q \<noteq> []"
    proof
      fix pv assume "pv \<in> set (prom_accepted p)"
      then have "list_all plain (p_value_parts pv)"
        using assms by (intro plain_p_value_parts) (simp add: list_all_iff)
      moreover have "p_value_parts pv = hd (p_value_parts pv) # tl (p_value_parts pv) \<and> hd (p_value_parts pv) \<noteq> []"
        by (simp add: p_value_parts_def kv_def)
      ultimately show "\<exists>q ps. serialize_p_value pv = join '','' (q # ps) \<and> list_all plain (q # ps) \<and> q \<noteq> []"
        using serialize_entries(1) by metis
    qed
  qed
  then have "?l \<noteq> [] \<Longrightarrow> text_ok (?hdr @ '',accepted:['' @ ?l @ '']'')"
    by (intro text_ok_list hdr) auto
  then show ?thesis using hdr by (auto simp: serialize_promise_def Let_def kv_def)
qed

lemma executed_text_ok:
  assumes "payload_safe (ExecutedMsg ex)"
  shows "text_ok (serialize_executed ex)"
proof -
  let ?hdr = "join '','' [''executed'', kv ''adu'' (show_u64 (ex_adu ex))]"
  let ?l = "join ''|'' (map serialize_execute_result (ex_results ex))"
  have hdr: "text_ok ?hdr" by (rule text_ok_parts) simp_all
  have "text_ok ?l \<or> ?l = []"
  proof (cases "ex_results ex = []")
    case False
    have "\<forall>r \<in> set (ex_results ex). \<exists>q ps. serialize_execute_result r = join '','' (q # ps) \<and> list_all plain (q # ps) \<and> q \<noteq> []"
    proof
      fix r assume "r \<in> set (ex_results ex)"
      then have "list_all plain (result_parts r)"
        using assms by (intro plain_result_parts) (simp_all add: list_all_iff)
      moreover have "result_parts r = hd (result_parts r) # tl (result_parts r) \<and> hd (result_parts r) \<noteq> []"
        by (simp add: result_parts_def kv_def)
      ultimately show "\<exists>q ps. serialize_execute_result r = join '','' (q # ps) \<and> list_all plain (q # ps) \<and> q \<noteq> []"
        using serialize_entries(2) by metis
    qed
    then show ?thesis using text_ok_entries False by blast
  qed simp
  then have "text_ok (?hdr @ '',results:['' @ ?l @ '']'')" by (intro text_ok_list hdr) auto
  then show ?thesis by (simp add: serialize_executed_def kv_def)
qed

lemma retry_text_ok:
  assumes "retry_slots r \<noteq> []"
  shows "text_ok (serialize_message_payload (RetryLearnsMsg r))"
proof -
  have "text_ok (join ''|'' (map show_u64 (retry_slots r)))"
  proof (rule text_ok_entries [OF _ assms], rule ballI)
    fix s
    show "\<exists>p ps. show_u64 s = join '','' (p # ps) \<and> list_all plain (p # ps) \<and> p \<noteq> []"
      by (rule exI [of _ "show_u64 s"], rule exI [of _ "[]"]) simp
  qed
  moreover have "text_ok ''retry-learns,slots:''"
    unfolding text_ok_def by (intro conjI utf8_ok_ascii barred_free) auto
  ultimately have "text_ok (''retry-learns,slots:'' @ join ''|'' (map show_u64 (retry_slots r)))"
    by (rule text_ok_append [rotated])
  then show ?thesis by (simp add: kv_def)
qed

lemma payload_text_ok: "payload_safe p \<Longrightarrow> text_ok (serialize_message_payload p)"
proof (cases p)
  case (RetryLearnsMsg r)
  then show "payload_safe p \<Longrightarrow> ?thesis" by (simp add: retry_text_ok del: serialize_message_payload.simps)
qed (auto simp: promise_text_ok executed_text_ok plain_result plain_value_parts
    text_ok_parts [where ps = "[]", simplified] simp del: join.simps intro!: text_ok_parts)

lemma find_str_hd: "d \<notin> set a \<Longrightarrow> find_str (d # q) (a @ (d # q) @ b) = Some (length a)"
proof (induction a)
  case Nil
  then show ?case by simp
qed auto

text \<open>Below the payload everything is read back; the rest is up to the payload.\<close>

lemma try_deserialize_message:
  assumes "plain (address (sender m))" and "text_ok (serialize_message_payload (payload m))"
    and "serialize m = Some bs"
  shows "try_deserialize bs =
    (case deserialize_message_payload (serialize_message_payload (payload m)) of
       Inl e \<Rightarrow> Inl (''Failed to deserialize payload: '' @ e)
     | Inr p \<Rightarrow> Inr \<lparr>sender = sender m, payload = p\<rparr>)"
proof -
  let ?node = "serialize_node (sender m)" and ?pay = "serialize_message_payload (payload m)"
  have bs: "bs = u32_to_be_bytes (length (message_text m)) @ message_text m" "length (message_text m) < 2 ^ 32"
    using assms(3) by (auto simp: serialize_def split: if_splits)
  have msg: "message_text m = (''sender='' @ ?node) @ ''||'' @ ''payload='' @ ?pay"
    by (simp add: message_text_def)
  have utf8: "utf8_ok (message_text m)"
    unfolding msg using plain_node [OF assms(1)] assms(2)
    by (intro utf8_ok_append) (auto simp: text_ok_def intro!: utf8_ok_ascii)
  have "barred (''payload='' @ ?pay)"
    using assms(2) by (intro barred_append [OF barred_free]) (auto simp: text_ok_def)
  then have "find_str ''||'' (''payload='' @ ?pay) = None" by (intro find_bars) (simp add: barred_def)
  moreover have "find_str ''||'' ((''sender='' @ ?node) @ ''||'' @ ''payload='' @ ?pay) = Some (length (''sender='' @ ?node))"
    using plain_node [OF assms(1)] by (intro find_str_hd) auto
  ultimately have "split_str ''||'' (message_text m) = [''sender='' @ ?node, ''payload='' @ ?pay]"
    unfolding msg by (simp only: split_str_at split_str_absent list.simps simp_thms)
  moreover have "strip_prefix ''sender='' (''sender='' @ ?node) = Some ?node"
    "strip_prefix ''payload='' (''payload='' @ ?pay) = Some ?pay"
    by (rule strip_prefix_append)+
  moreover have "take 4 bs = u32_to_be_bytes (length (message_text m))" "drop 4 bs = message_text m"
    "length bs = 4 + length (message_text m)" using bs(1) by simp_all
  ultimately show ?thesis
    using bs(2) utf8 deserialize_safe_node [OF assms(1)]
    by (simp only: try_deserialize_def Let_def u32_be_roundtrip list.case option.case sum.case)
      (simp split: sum.split)
qed

lemma message_roundtrip:
  "message_safe m \<Longrightarrow> serialize m = Some bs \<Longrightarrow> deserialize bs = Some (norm_message m)"
  using try_deserialize_message [of m bs]
  by (simp add: message_safe_def payload_text_ok payload_roundtrip deserialize_def norm_message_def)

text \<open>A frame that is cut or has bytes appended is refused.\<close>

lemma wrong_length_rejected:
  assumes "serialize m = Some bs" and "4 \<le> k" and "length (take k bs @ xs) \<noteq> length bs"
  shows "\<exists>e. try_deserialize (take k bs @ xs) = Inl e"
proof -
  have bs: "bs = u32_to_be_bytes (length (message_text m)) @ message_text m" "length (message_text m) < 2 ^ 32"
    using assms(1) by (auto simp: serialize_def split: if_splits)
  then have "take 4 (take k bs @ xs) = u32_to_be_bytes (length (message_text m))"
    using assms(2) by (simp add: min_def)
  with bs have "u32_from_be_bytes (take 4 (take k bs @ xs)) = length bs - 4" by (simp add: u32_be_roundtrip)
  moreover have "length bs = 4 + length (message_text m)" using bs(1) by simp
  ultimately show ?thesis using assms(2,3) by (auto simp: try_deserialize_def Let_def)
qed

lemma too_short_rejected: "length bs < 4 \<Longrightarrow> \<exists>e. try_deserialize bs = Inl e"
  by (simp add: try_deserialize_def)

section \<open>Messages that do not survive\<close>

text \<open>The parts of a value with a \<open>Set\<close>: the comma between key and value splits the operation.\<close>

lemma set_parts:
  assumes "command v = Some (Set p)"
  shows "join '','' (hdr @ value_parts v) = join '','' (hdr @
    [kv ''client_id'' (client_id v), kv ''client_seq'' (show_u64 (client_seq v)),
     kv ''op'' (''set(\"'' @ kv_key p @ ''\"''), ''\"'' @ kv_value p @ ''\")''])"
  using assms
  by (induction "'',''" hdr rule: join.induct) (simp_all add: value_parts_def show_cmd_def kv_def)

lemma half_set_rejected: "parse_cmd err (''set(\"'' @ k @ ''\"'') = Inl err"
  by (simp add: parse_cmd_def deserialize_operation_def parse_set_def between_def strip_prefix_def
      strip_suffix_def drop_append)

lemma field_quote:
  "k \<noteq> [] \<Longrightarrow> hd k \<noteq> CHR 0x22 \<Longrightarrow> field k (ps @ [''\"'' @ s]) = field k ps"
  by (auto simp: field_def split: prod.split option.split)

lemma set_value_parts:
  assumes "command v = Some (Set p)" and "plain (client_id v)" and "plain (kv_key p)" and "plain (kv_value p)"
  obtains w opr where
    "\<And>tag hdr. list_all plain (tag # hdr) \<Longrightarrow>
       split_on CHR '','' (join '','' (tag # hdr @ value_parts v)) = tag # hdr @ w"
    and "\<And>tag hdr. list_all plain (tag # hdr) \<Longrightarrow> tag \<noteq> [] \<Longrightarrow>
       text_ok (join '','' (tag # hdr @ value_parts v))"
    and "\<And>hdr. field ''client_id'' (hdr @ w) = Some (client_id v)"
    and "\<And>hdr. field_u64 ''client_seq'' (hdr @ w) = Some (client_seq v)"
    and "\<And>hdr. field ''op'' (hdr @ w) = Some opr"
    and "\<And>hdr. field_u64 ''slot'' (hdr @ w) = field_u64 ''slot'' hdr"
    and "\<And>hdr. field_u64 ''ballot'' (hdr @ w) = field_u64 ''ballot'' hdr"
    and "\<And>err. parse_cmd err opr = Inl err"
proof -
  obtain opr q where opr: "opr = ''set(\"'' @ kv_key p @ ''\"''" and q: "q = ''\"'' @ kv_value p @ ''\")''"
    by simp
  let ?vs = "[kv ''client_id'' (client_id v), kv ''client_seq'' (show_u64 (client_seq v)), kv ''op'' opr]"
  have plain: "list_all plain (?vs @ [q])" using assms(2-4) by (simp add: plain_append opr q)
  have bad: "parse_cmd err opr = Inl err" for err unfolding opr by (rule half_set_rejected)
  have skip: "field k (ps @ [q]) = field k ps" if "k \<noteq> []" "hd k \<noteq> CHR 0x22" for k ps
    unfolding q by (rule field_quote) (use that in auto)
  have fs: "field k (hdr @ ?vs @ [q]) = field k (hdr @ ?vs)" if "k \<noteq> []" "hd k \<noteq> CHR 0x22" for k hdr
    using skip [OF that, of "hdr @ ?vs"] by simp
  have vals: "field ''client_id'' (hdr @ ?vs @ [q]) = Some (client_id v)"
      "field_u64 ''client_seq'' (hdr @ ?vs @ [q]) = Some (client_seq v)"
      "field ''op'' (hdr @ ?vs @ [q]) = Some opr"
      "field_u64 ''slot'' (hdr @ ?vs @ [q]) = field_u64 ''slot'' hdr"
      "field_u64 ''ballot'' (hdr @ ?vs @ [q]) = field_u64 ''ballot'' hdr" for hdr
    unfolding field_u64_def by (simp_all only: fs simp_thms list.distinct list.sel char.inject) (simp_all add: field_def)
  have join: "join '','' (hdr @ value_parts v) = join '','' (hdr @ ?vs @ [q])" for hdr
    using set_parts [OF assms(1), of hdr] by (simp add: opr q)
  have split: "split_on CHR '','' (join '','' (tag # hdr @ ?vs @ [q])) = tag # hdr @ ?vs @ [q]"
    if "list_all plain (tag # hdr)" for tag hdr
    by (rule payload_split) (use that plain in simp)
  have ok: "text_ok (join '','' (tag # hdr @ ?vs @ [q]))" if "list_all plain (tag # hdr)" "tag \<noteq> []" for tag hdr
    by (rule text_ok_parts) (use that plain in simp_all)
  have join': "join '','' (tag # hdr @ value_parts v) = join '','' (tag # hdr @ ?vs @ [q])" for tag hdr
    using join [of "tag # hdr"] by (simp only: append_Cons)
  show thesis
  proof (rule that [of "?vs @ [q]" opr])
    fix tag hdr assume t: "list_all plain (tag # hdr)"
    show "split_on CHR '','' (join '','' (tag # hdr @ value_parts v)) = tag # hdr @ ?vs @ [q]"
      unfolding join' by (rule split [OF t])
    show "text_ok (join '','' (tag # hdr @ value_parts v))" if "tag \<noteq> []"
      unfolding join' by (rule ok [OF t that])
  qed (rule vals bad)+
qed

lemma set_payloads_rejected:
  assumes "command v = Some (Set p)" and "plain (client_id v)" and "plain (kv_key p)" and "plain (kv_value p)"
    and m: "m = ClientRequest v \<or> m = AcceptMsg \<lparr>acc_slot = s, acc_ballot = b, acc_value = v\<rparr> \<or>
      m = LearnMsg \<lparr>ln_slot = s, ln_value = v\<rparr>"
  shows "deserialize_message_payload (serialize_message_payload m) = Inl ''bad op'' \<and>
    text_ok (serialize_message_payload m)"
proof (rule set_value_parts [OF assms(1-4)])
  fix w opr
  let ?a = "[kv ''slot'' (show_u64 s), kv ''ballot'' (show_u64 b)]" and ?l = "[kv ''slot'' (show_u64 s)]"
  assume split: "\<And>tag hdr. list_all plain (tag # hdr) \<Longrightarrow>
       split_on CHR '','' (join '','' (tag # hdr @ value_parts v)) = tag # hdr @ w"
    and ok: "\<And>tag hdr. list_all plain (tag # hdr) \<Longrightarrow> tag \<noteq> [] \<Longrightarrow>
       text_ok (join '','' (tag # hdr @ value_parts v))"
    and vals: "\<And>hdr. field ''client_id'' (hdr @ w) = Some (client_id v)"
      "\<And>hdr. field_u64 ''client_seq'' (hdr @ w) = Some (client_seq v)"
      "\<And>hdr. field ''op'' (hdr @ w) = Some opr"
      "\<And>hdr. field_u64 ''slot'' (hdr @ w) = field_u64 ''slot'' hdr"
      "\<And>hdr. field_u64 ''ballot'' (hdr @ w) = field_u64 ''ballot'' hdr"
    and bad: "\<And>err. parse_cmd err opr = Inl err"
  have slot: "field_u64 ''slot'' ?a = Some s" "field_u64 ''ballot'' ?a = Some b" "field_u64 ''slot'' ?l = Some s"
    by (simp_all add: field_def field_u64_def)
  have "list_all plain (''client-request'' # [])" "list_all plain (''accept'' # ?a)" "list_all plain (''learn'' # ?l)"
    by simp_all
  note splits = this [THEN split] and oks = this [THEN ok]
  show ?thesis
    using m splits oks vals [of "[]"] vals [of ?a] vals [of ?l] slot
    by (elim disjE)
      (simp_all add: deserialize_message_payload_def de_client_request_def de_accept_def de_learn_def bad del: join.simps)
qed

lemma empty_retry_rejected:
  "deserialize_message_payload (serialize_message_payload (RetryLearnsMsg \<lparr>retry_slots = []\<rparr>)) = Inl ''bad slot'' \<and>
   text_ok (serialize_message_payload (RetryLearnsMsg \<lparr>retry_slots = []\<rparr>))"
proof
  have parts: "list_all plain [''retry-learns'', kv ''slots'' []]" by simp
  from payload_split [OF parts]
  show "deserialize_message_payload (serialize_message_payload (RetryLearnsMsg \<lparr>retry_slots = []\<rparr>)) = Inl ''bad slot''"
    by (simp add: deserialize_message_payload_def de_retry_learns_def kv_def strip_prefix_def parse_u64_def)
  show "text_ok (serialize_message_payload (RetryLearnsMsg \<lparr>retry_slots = []\<rparr>))"
    using text_ok_parts [OF parts] by simp
qed

text \<open>A key may carry an operation of its own: the last part with the key \<open>op\<close> wins.\<close>

lemma smuggled_operation:
  assumes "command (acc_value a) = Some (Get ''x,op:clear,'')" and "plain (client_id (acc_value a))"
  shows "deserialize_message_payload (serialize_message_payload (AcceptMsg a)) =
      Inr (AcceptMsg (a\<lparr>acc_value := (acc_value a)\<lparr>command := Some Clear\<rparr>\<rparr>)) \<and>
    text_ok (serialize_message_payload (AcceptMsg a))"
proof
  let ?ps = "[kv ''slot'' (show_u64 (acc_slot a)), kv ''ballot'' (show_u64 (acc_ballot a)),
    kv ''client_id'' (client_id (acc_value a)), kv ''client_seq'' (show_u64 (client_seq (acc_value a))),
    kv ''op'' ''get(\"x'', kv ''op'' ''clear'', ''\")'']"
  have plain: "list_all plain (''accept'' # ?ps)" using assms(2) by simp
  have s: "serialize_message_payload (AcceptMsg a) = join '','' (''accept'' # ?ps)"
    using assms(1) by (simp add: value_parts_def show_cmd_def kv_def)
  have "parse_cmd err ''clear'' = Inr (Some Clear)" for err
    by (simp add: parse_cmd_def deserialize_operation_def between_def strip_prefix_def parse_set_def)
  with payload_split [OF plain]
  show "deserialize_message_payload (serialize_message_payload (AcceptMsg a)) =
      Inr (AcceptMsg (a\<lparr>acc_value := (acc_value a)\<lparr>command := Some Clear\<rparr>\<rparr>))"
    unfolding s
    by (cases a; cases "acc_value a")
      (simp add: deserialize_message_payload_def de_accept_def field_def field_u64_def del: join.simps)
  show "text_ok (serialize_message_payload (AcceptMsg a))" unfolding s by (rule text_ok_parts [OF plain]) simp
qed

end
