(* ===== verification/Transport.thy ===== *)
theory Transport
  imports Wire
begin

text \<open>
  The TCP components (\<open>paxos-wasm/network-ws\<close>): the server that receives messages of other
  nodes (\<open>network-server\<close>), the server for clients (\<open>client-server\<close>) and the client that
  sends messages (\<open>tcp-client\<close>). Sockets are the outside: how many connections are
  accepted, what a read returns and whether a write succeeds are arguments of a call. A result
  \<open>None\<close> is a panic. A \<open>usize\<close> has 32 bits.
\<close>

section \<open>Frames in a buffer\<close>

definition usize :: "nat \<Rightarrow> nat" where
  "usize n = n mod 2 ^ 32"

text \<open>
  The loop that cuts complete frames off a buffer and reads them, from \<open>offset\<close> on. The
  servers compare in two ways to find out whether the frame is still incomplete; a slice whose
  end lies before its start panics.
\<close>

function frames :: "(nat \<Rightarrow> nat \<Rightarrow> nat \<Rightarrow> bool) \<Rightarrow> nat \<Rightarrow> bytes \<Rightarrow> (network_message list \<times> nat) option" where
  "frames incomplete offset buf =
     (if length buf - offset < 4 then Some ([], offset)
      else
        (let len = u32_from_be_bytes (take 4 (drop offset buf)); stop = usize (offset + 4 + len) in
         if incomplete (length buf) offset len then Some ([], offset)
         else if stop < offset + 4 \<or> length buf < stop then None
         else
           (case deserialize (u32_to_be_bytes len @ take (stop - (offset + 4)) (drop (offset + 4) buf)) of
              None \<Rightarrow> None
            | Some m \<Rightarrow> map_option (apfst (Cons m)) (frames incomplete stop buf))))"
  by pat_completeness auto
termination
  by (relation "measure (\<lambda>(incomplete, offset, buf). length buf - offset)") auto

declare frames.simps [simp del]

definition server_incomplete :: "nat \<Rightarrow> nat \<Rightarrow> nat \<Rightarrow> bool" where
  "server_incomplete n offset len \<longleftrightarrow> n < usize (offset + 4 + len)"

definition client_incomplete :: "nat \<Rightarrow> nat \<Rightarrow> nat \<Rightarrow> bool" where
  "client_incomplete n offset len \<longleftrightarrow> n - offset < usize (4 + len)"

section \<open>The server for other nodes\<close>

record net_server =
  listening :: bool
  next_chan :: u64
  conns :: "u64 list"
  buffers :: "(u64, bytes) hash_map"

definition net_server_new :: net_server where
  "net_server_new = \<lparr>listening = False, next_chan = 1, conns = [], buffers = []\<rparr>"

text \<open>
  \<open>ok\<close>: the address is an IPv4 one and the socket calls succeed; they are unwrapped.
\<close>

definition setup_listener :: "bool \<Rightarrow> 'a net_server_scheme \<Rightarrow> 'a net_server_scheme option" where
  "setup_listener ok s = (if ok then Some (s\<lparr>listening := True\<rparr>) else None)"

definition accept_one_conn :: "'a net_server_scheme \<Rightarrow> 'a net_server_scheme" where
  "accept_one_conn s =
     s\<lparr>next_chan := next_chan s + 1,
       conns := (if next_chan s \<in> set (conns s) then conns s else conns s @ [next_chan s]),
       buffers := hm_insert (next_chan s) [] (buffers s)\<rparr>"

text \<open>The loop ends when no connection waits, or with an error that is logged.\<close>

definition accept_conns :: "nat \<Rightarrow> 'a net_server_scheme \<Rightarrow> 'a net_server_scheme" where
  "accept_conns n s = (if listening s then (accept_one_conn ^^ n) s else s)"

text \<open>
  One pass over the connections, in the order of the hash map. \<open>read\<close> gives the bytes that
  a connection has, none when there are none, \<open>None\<close> when it is broken.
\<close>

fun read_conns ::
  "nat \<Rightarrow> (u64 \<Rightarrow> bytes option) \<Rightarrow> u64 list \<Rightarrow> network_message list \<Rightarrow> (u64, bytes) hash_map \<Rightarrow>
   (network_message list \<times> u64 list \<times> (u64, bytes) hash_map) option" where
  "read_conns limit read [] out bufs = Some (out, [], bufs)"
| "read_conns limit read (ch # chs) out bufs =
     (case read ch of
        None \<Rightarrow> map_option (\<lambda>(out', dropped, bufs'). (out', ch # dropped, bufs')) (read_conns limit read chs out bufs)
      | Some chunk \<Rightarrow>
          if chunk = [] then read_conns limit read chs out bufs
          else
            (case hm_get bufs ch of
               None \<Rightarrow> None
             | Some b \<Rightarrow>
                 (case frames server_incomplete 0 (b @ chunk) of
                    None \<Rightarrow> None
                  | Some (ms, offset) \<Rightarrow>
                      (let bufs' = hm_insert ch (drop offset (b @ chunk)) bufs in
                       if limit \<le> length (out @ ms) then Some (out @ ms, [], bufs')
                       else read_conns limit read chs (out @ ms) bufs'))))"

text \<open>\<open>order\<close> is the order in which the hash map gives its connections.\<close>

definition get_messages ::
  "u64 \<Rightarrow> nat \<Rightarrow> u64 list \<Rightarrow> (u64 \<Rightarrow> bytes option) \<Rightarrow> net_server \<Rightarrow> (network_message list \<times> net_server) option" where
  "get_messages limit accepted order read s =
     (let s1 = accept_conns accepted s in
      map_option
        (\<lambda>(out, dropped, bufs).
           (out, s1\<lparr>conns := filter (\<lambda>c. c \<notin> set dropped) (conns s1),
                    buffers := foldl (\<lambda>m c. hm_remove c m) bufs dropped\<rparr>))
        (read_conns (as_usize limit) read order [] (buffers s1)))"

definition get_message ::
  "nat \<Rightarrow> u64 list \<Rightarrow> (u64 \<Rightarrow> bytes option) \<Rightarrow> net_server \<Rightarrow> (network_message option \<times> net_server) option" where
  "get_message accepted order read s =
     map_option (\<lambda>(ms, s'). (case ms of m # _ \<Rightarrow> Some m | [] \<Rightarrow> None, s')) (get_messages 1 accepted order read s)"

section \<open>The server for clients\<close>

record client_server = net_server +
  req_chan :: "(string \<times> u64, u64) hash_map"

definition client_server_new :: client_server where
  "client_server_new = \<lparr>listening = False, next_chan = 1, conns = [], buffers = [], req_chan = []\<rparr>"

text \<open>A request is noted with the connection that carried it; other messages are ignored.\<close>

definition note_request ::
  "u64 \<Rightarrow> paxos_value list \<times> (string \<times> u64, u64) hash_map \<Rightarrow> network_message \<Rightarrow>
   paxos_value list \<times> (string \<times> u64, u64) hash_map" where
  "note_request ch rm m =
     (case payload m of
        ClientRequest v \<Rightarrow> (fst rm @ [v], hm_insert (client_id v, client_seq v) ch (snd rm))
      | _ \<Rightarrow> rm)"

fun read_clients ::
  "nat \<Rightarrow> (u64 \<Rightarrow> bytes option) \<Rightarrow> u64 list \<Rightarrow> paxos_value list \<times> (string \<times> u64, u64) hash_map \<Rightarrow>
   (u64, bytes) hash_map \<Rightarrow>
   ((paxos_value list \<times> (string \<times> u64, u64) hash_map) \<times> u64 list \<times> (u64, bytes) hash_map) option" where
  "read_clients limit read [] acc bufs = Some (acc, [], bufs)"
| "read_clients limit read (ch # chs) acc bufs =
     (case read ch of
        None \<Rightarrow> map_option (\<lambda>(acc', dropped, bufs'). (acc', ch # dropped, bufs')) (read_clients limit read chs acc bufs)
      | Some chunk \<Rightarrow>
          if chunk = [] then read_clients limit read chs acc bufs
          else
            (case hm_get bufs ch of
               None \<Rightarrow> None
             | Some b \<Rightarrow>
                 (case frames client_incomplete 0 (b @ chunk) of
                    None \<Rightarrow> None
                  | Some (ms, offset) \<Rightarrow>
                      (let bufs' = hm_insert ch (drop offset (b @ chunk)) bufs;
                           acc' = foldl (note_request ch) acc ms in
                       if limit \<le> length (fst acc') then Some (acc', [], bufs')
                       else read_clients limit read chs acc' bufs'))))"

definition forget_chan :: "u64 \<Rightarrow> (string \<times> u64, u64) hash_map \<Rightarrow> (string \<times> u64, u64) hash_map" where
  "forget_chan ch m = filter (\<lambda>e. snd e \<noteq> ch) m"

text \<open>A broken connection is dropped with what was noted for it; its buffer stays.\<close>

definition get_requests ::
  "u64 \<Rightarrow> nat \<Rightarrow> u64 list \<Rightarrow> (u64 \<Rightarrow> bytes option) \<Rightarrow> client_server \<Rightarrow> (paxos_value list \<times> client_server) option" where
  "get_requests limit accepted order read s =
     (let s1 = accept_conns accepted s in
      map_option
        (\<lambda>((out, noted), dropped, bufs).
           (out, s1\<lparr>conns := filter (\<lambda>c. c \<notin> set dropped) (conns s1), buffers := bufs,
                    req_chan := foldl (\<lambda>m c. forget_chan c m) noted dropped\<rparr>))
        (read_clients (as_usize limit) read order ([], req_chan s1) (buffers s1)))"

definition get_request ::
  "nat \<Rightarrow> u64 list \<Rightarrow> (u64 \<Rightarrow> bytes option) \<Rightarrow> client_server \<Rightarrow> (paxos_value option \<times> client_server) option" where
  "get_request accepted order read s =
     map_option (\<lambda>(vs, s'). (case vs of v # _ \<Rightarrow> Some v | [] \<Rightarrow> None, s')) (get_requests 1 accepted order read s)"

text \<open>
  One answer: the connection that carried the request, the bytes written and whether the write
  (\<open>write\<close>) succeeded.
\<close>

fun answer_all ::
  "node \<Rightarrow> (u64 \<Rightarrow> bytes \<Rightarrow> bool) \<Rightarrow> u64 list \<Rightarrow> client_response list \<Rightarrow> (string \<times> u64, u64) hash_map \<Rightarrow>
   ((u64 \<times> bytes) list \<times> u64 list \<times> (string \<times> u64, u64) hash_map) option" where
  "answer_all me write live [] noted = Some ([], [], noted)"
| "answer_all me write live (r # rs) noted =
     (let key = (resp_client_id r, resp_client_seq r) in
      case hm_get noted key of
        None \<Rightarrow> answer_all me write live rs noted
      | Some ch \<Rightarrow>
          if ch \<in> set live then
            (case serialize \<lparr>sender = me, payload = ClientResponse r\<rparr> of
               None \<Rightarrow> None
             | Some bs \<Rightarrow>
                 map_option
                   (\<lambda>(sent, broken, noted').
                      (if write ch bs then (ch, bs) # sent else sent, if write ch bs then broken else ch # broken, noted'))
                   (answer_all me write live rs (hm_remove key noted)))
          else answer_all me write live rs (hm_remove key noted))"

text \<open>
  When a write has failed, the connection should be dropped, but the function still holds its
  borrows of both maps, and borrowing them again panics.
\<close>

definition send_responses ::
  "(u64 \<Rightarrow> bytes \<Rightarrow> bool) \<Rightarrow> node \<Rightarrow> client_response list \<Rightarrow> client_server \<Rightarrow> ((u64 \<times> bytes) list \<times> client_server) option" where
  "send_responses write me replies s =
     (case answer_all me write (conns s) replies (req_chan s) of
        None \<Rightarrow> None
      | Some (sent, broken, noted) \<Rightarrow> if broken = [] then Some (sent, s\<lparr>req_chan := noted\<rparr>) else None)"

section \<open>The client\<close>

record tcp_client =
  peer_conns :: "string list"
  peer_bufs :: "(string, bytes) hash_map"

definition tcp_client_new :: tcp_client where
  "tcp_client_new = \<lparr>peer_conns = [], peer_bufs = []\<rparr>"

text \<open>Opening a connection: an address that does not parse or is not IPv4 panics.\<close>

datatype connect_result = Connected | ConnectFailed | BadAddress

definition ensure_conn :: "(string \<Rightarrow> connect_result) \<Rightarrow> string \<Rightarrow> tcp_client \<Rightarrow> (bool \<times> tcp_client) option" where
  "ensure_conn connect addr c =
     (if addr \<in> set (peer_conns c) then Some (True, c)
      else case connect addr of
        Connected \<Rightarrow> Some (True, c\<lparr>peer_conns := peer_conns c @ [addr], peer_bufs := hm_insert addr [] (peer_bufs c)\<rparr>)
      | ConnectFailed \<Rightarrow> Some (False, c)
      | BadAddress \<Rightarrow> None)"

definition max_wasi_chunk :: nat where
  "max_wasi_chunk = 4096"

text \<open>
  \<open>accept\<close> is the number of chunks the stream takes before a write fails. The result is what
  was written and whether all of it was.
\<close>

function write_all_in_chunks :: "nat \<Rightarrow> bytes \<Rightarrow> bytes list \<times> bool" where
  "write_all_in_chunks accept buf =
     (if buf = [] then ([], True)
      else
        (let chunk = take (min (length buf) max_wasi_chunk) buf in
         case accept of
           0 \<Rightarrow> ([], False)
         | Suc n \<Rightarrow> apfst (Cons chunk) (write_all_in_chunks n (drop (length chunk) buf))))"
  by pat_completeness auto
termination
  by (relation "measure fst") auto

declare write_all_in_chunks.simps [simp del]

definition evict :: "string \<Rightarrow> tcp_client \<Rightarrow> tcp_client" where
  "evict addr c = c\<lparr>peer_conns := filter (\<lambda>a. a \<noteq> addr) (peer_conns c), peer_bufs := hm_remove addr (peer_bufs c)\<rparr>"

fun forget_to ::
  "(string \<Rightarrow> connect_result) \<Rightarrow> (string \<Rightarrow> nat) \<Rightarrow> bytes \<Rightarrow> node list \<Rightarrow> tcp_client \<Rightarrow>
   ((string \<times> bytes list) list \<times> tcp_client) option" where
  "forget_to connect accept bs [] c = Some ([], c)"
| "forget_to connect accept bs (n # ns) c =
     (case ensure_conn connect (address n) c of
        None \<Rightarrow> None
      | Some (False, c1) \<Rightarrow> forget_to connect accept bs ns c1
      | Some (True, c1) \<Rightarrow>
          (let (written, ok) = write_all_in_chunks (accept (address n)) bs;
               c2 = (if ok then c1 else evict (address n) c1) in
           map_option (apfst (Cons (address n, written))) (forget_to connect accept bs ns c2)))"

definition send_message_forget ::
  "(string \<Rightarrow> connect_result) \<Rightarrow> (string \<Rightarrow> nat) \<Rightarrow> node list \<Rightarrow> network_message \<Rightarrow> tcp_client \<Rightarrow>
   ((string \<times> bytes list) list \<times> tcp_client) option" where
  "send_message_forget connect accept nodes m c =
     (case serialize m of None \<Rightarrow> None | Some bs \<Rightarrow> forget_to connect accept bs nodes c)"

text \<open>The synchronous variant writes the message at once, whatever its length, and logs a failure.\<close>

fun connect_all :: "(string \<Rightarrow> connect_result) \<Rightarrow> node list \<Rightarrow> tcp_client \<Rightarrow> (string list \<times> tcp_client) option" where
  "connect_all connect [] c = Some ([], c)"
| "connect_all connect (n # ns) c =
     (case ensure_conn connect (address n) c of
        None \<Rightarrow> None
      | Some (ok, c1) \<Rightarrow>
          map_option (apfst (\<lambda>as. if ok then address n # as else as)) (connect_all connect ns c1))"

fun collect_replies ::
  "(string \<Rightarrow> bytes option) \<Rightarrow> node list \<Rightarrow> tcp_client \<Rightarrow> (network_message list \<times> tcp_client) option" where
  "collect_replies read [] c = Some ([], c)"
| "collect_replies read (n # ns) c =
     (if address n \<notin> set (peer_conns c) then collect_replies read ns c
      else case read (address n) of
        None \<Rightarrow> collect_replies read ns c
      | Some chunk \<Rightarrow>
          if chunk = [] then collect_replies read ns c
          else case hm_get (peer_bufs c) (address n) of
            None \<Rightarrow> None
          | Some b \<Rightarrow>
              (case frames server_incomplete 0 (b @ chunk) of
                 None \<Rightarrow> None
               | Some (ms, offset) \<Rightarrow>
                   map_option (apfst (append ms))
                     (collect_replies read ns
                        (c\<lparr>peer_bufs := hm_insert (address n) (drop offset (b @ chunk)) (peer_bufs c)\<rparr>))))"

definition send_message ::
  "(string \<Rightarrow> connect_result) \<Rightarrow> (string \<Rightarrow> bytes option) \<Rightarrow> node list \<Rightarrow> network_message \<Rightarrow> tcp_client \<Rightarrow>
   ((string \<times> bytes) list \<times> network_message list \<times> tcp_client) option" where
  "send_message connect read nodes m c =
     (case serialize m of
        None \<Rightarrow> None
      | Some bs \<Rightarrow>
          (case connect_all connect nodes c of
             None \<Rightarrow> None
           | Some (addrs, c1) \<Rightarrow>
               map_option (\<lambda>(replies, c2). (map (\<lambda>a. (a, bs)) addrs, replies, c2)) (collect_replies read nodes c1)))"

end
