(* ===== verification/Delivery.thy ===== *)
theory Delivery
  imports Transport
begin

text \<open>
  Delivery over a connection: a stream of frames is reassembled however the reads split it
  (\<open>feeds_stream\<close>), the writes of the client are such a stream, and what a server does with
  a length that wraps and with answers.
\<close>

section \<open>Cutting frames off\<close>

text \<open>A frame that the deserialiser reads as \<open>m\<close>.\<close>

definition framed :: "bytes \<Rightarrow> network_message \<Rightarrow> bool" where
  "framed bs m \<longleftrightarrow> (\<exists>body. bs = u32_to_be_bytes (length body) @ body \<and> length body < 2 ^ 32) \<and> deserialize bs = Some m"

lemma framed_length: "framed bs m \<Longrightarrow> 4 \<le> length bs"
  by (auto simp: framed_def)

lemma serialize_framed: "message_safe m \<Longrightarrow> serialize m = Some bs \<Longrightarrow> framed bs (norm_message m)"
  using message_roundtrip [of m bs] by (auto simp: framed_def serialize_def split: if_splits)

lemma usize_small: "n < 2 ^ 32 \<Longrightarrow> usize n = n"
  by (simp add: usize_def)

lemma frames_short: "length buf - offset < 4 \<Longrightarrow> frames inc offset buf = Some ([], offset)"
  by (simp add: frames.simps [of inc])

text \<open>What the test of a server must tell, when no sum overflows.\<close>

locale frame_test =
  fixes incomplete :: "nat \<Rightarrow> nat \<Rightarrow> nat \<Rightarrow> bool"
  assumes incomplete_iff:
    "k \<le> n \<Longrightarrow> k + 4 + len < 2 ^ 32 \<Longrightarrow> incomplete n k len \<longleftrightarrow> n < k + 4 + len"
begin

lemma frames_whole:
  assumes "framed f m" and "length pre + length f < 2 ^ 32"
  shows "frames incomplete (length pre) (pre @ f @ tail) =
    map_option (apfst (Cons m)) (frames incomplete (length pre + length f) (pre @ f @ tail))"
proof -
  obtain body where body: "f = u32_to_be_bytes (length body) @ body" "length body < 2 ^ 32" "deserialize f = Some m"
    using assms(1) by (auto simp: framed_def)
  let ?buf = "pre @ f @ tail"
  have len: "u32_from_be_bytes (take 4 (drop (length pre) ?buf)) = length body"
    using body(1,2) by (simp add: u32_be_roundtrip)
  have stop: "usize (length pre + 4 + length body) = length pre + length f"
    using assms(2) body(1) by (simp add: usize_small)
  have "\<not> incomplete (length ?buf) (length pre) (length body)"
    using incomplete_iff [of "length pre" "length ?buf" "length body"] assms(2) body(1) by simp
  moreover have "take (length f - 4) (drop (length pre + 4) ?buf) = body" using body(1) by simp
  ultimately show ?thesis
    using len stop body by (subst frames.simps) (simp add: Let_def)
qed

lemma frames_part:
  assumes "framed (x @ y) m" and "y \<noteq> []" and "length pre + length (x @ y) < 2 ^ 32"
  shows "frames incomplete (length pre) (pre @ x) = Some ([], length pre)"
proof (cases "length x < 4")
  case True
  then show ?thesis by (simp add: frames_short)
next
  case False
  obtain body where body: "x @ y = u32_to_be_bytes (length body) @ body" "length body < 2 ^ 32"
    using assms(1) by (auto simp: framed_def)
  then have "take 4 (x @ y) = u32_to_be_bytes (length body)" by simp
  with False have "take 4 x = u32_to_be_bytes (length body)" by simp
  then have len: "u32_from_be_bytes (take 4 (drop (length pre) (pre @ x))) = length body"
    using body(2) by (simp add: u32_be_roundtrip)
  have sum: "length x + length y = 4 + length body" using arg_cong [OF body(1), of length] by simp
  have "length x < 4 + length body" using sum assms(2) by (cases y) simp_all
  with sum have "incomplete (length (pre @ x)) (length pre) (length body)"
    using incomplete_iff [of "length pre" "length (pre @ x)" "length body"] assms(3) by simp
  with len show ?thesis by (subst frames.simps) (simp add: Let_def)
qed

text \<open>Of a buffer that is the beginning of a stream of frames, the whole frames are read.\<close>

lemma frames_stream:
  assumes "list_all2 framed fs ms" and "buf @ rest = concat fs" and "length pre + length (concat fs) < 2 ^ 32"
  shows "\<exists>j \<le> length fs. frames incomplete (length pre) (pre @ buf) =
      Some (take j ms, length pre + length (concat (take j fs))) \<and>
    drop (length (concat (take j fs))) buf @ rest = concat (drop j fs) \<and> length (concat (take j fs)) \<le> length buf \<and>
    (rest = [] \<longrightarrow> j = length fs)"
  using assms
proof (induction fs arbitrary: ms pre buf)
  case Nil
  then show ?case by (auto simp: frames_short)
next
  case (Cons f fs)
  then obtain m ms' where ms: "ms = m # ms'" "framed f m" "list_all2 framed fs ms'" by (auto simp: list_all2_Cons1)
  show ?case
  proof (cases "length f \<le> length buf")
    case True
    define buf' where "buf' = drop (length f) buf"
    have buf: "buf = f @ buf'"
      using Cons.prems(2) True by (metis append_eq_append_conv_if append_take_drop_id buf'_def concat.simps(2))
    with Cons.prems(2) have rest: "buf' @ rest = concat fs" by simp
    have small: "length (pre @ f) + length (concat fs) < 2 ^ 32" using Cons.prems(3) by simp
    from Cons.IH [OF ms(3) rest small] obtain j where j: "j \<le> length fs"
      "frames incomplete (length (pre @ f)) ((pre @ f) @ buf') =
        Some (take j ms', length (pre @ f) + length (concat (take j fs)))"
      "drop (length (concat (take j fs))) buf' @ rest = concat (drop j fs)"
      "length (concat (take j fs)) \<le> length buf'" "rest = [] \<longrightarrow> j = length fs" by blast
    have "frames incomplete (length pre) (pre @ buf) =
        map_option (apfst (Cons m)) (frames incomplete (length (pre @ f)) ((pre @ f) @ buf'))"
      using frames_whole [OF ms(2), of pre buf'] Cons.prems(3) buf by simp
    with j buf ms(1) show ?thesis by (intro exI [of _ "Suc j"]) simp
  next
    case False
    then obtain y where y: "f = buf @ y" "y \<noteq> []"
      using Cons.prems(2) by (auto simp: append_eq_append_conv2)
    with Cons.prems(2) have "rest \<noteq> []" by auto
    moreover have "frames incomplete (length pre) (pre @ buf) = Some ([], length pre)"
      using frames_part [of buf y m pre] ms(2) y Cons.prems(3) by simp
    ultimately show ?thesis using Cons.prems(2) by (intro exI [of _ 0]) simp
  qed
qed

end

interpretation server: frame_test server_incomplete
  by unfold_locales (simp add: server_incomplete_def usize_small)

interpretation client: frame_test client_incomplete
  by unfold_locales (auto simp: client_incomplete_def usize_small)

section \<open>A stream in any number of reads\<close>

text \<open>What a server makes of the reads of one connection.\<close>

fun feeds :: "(nat \<Rightarrow> nat \<Rightarrow> nat \<Rightarrow> bool) \<Rightarrow> bytes list \<Rightarrow> bytes \<Rightarrow> (network_message list \<times> bytes) option" where
  "feeds inc [] b = Some ([], b)"
| "feeds inc (c # cs) b =
     (case frames inc 0 (b @ c) of
        None \<Rightarrow> None
      | Some (ms, offset) \<Rightarrow> map_option (apfst (append ms)) (feeds inc cs (drop offset (b @ c))))"

context frame_test
begin

lemma feeds_stream:
  assumes "list_all2 framed fs ms" and "b @ concat cs = concat fs" and "length (concat fs) < 2 ^ 32"
    and "cs = [] \<longrightarrow> b = []"
  shows "feeds incomplete cs b = Some (ms, [])"
  using assms
proof (induction cs arbitrary: b fs ms)
  case Nil
  then have "concat fs = []" by simp
  with Nil.prems(1) have "fs = []"
    by (cases fs) (auto simp: list_all2_Cons1 dest: framed_length)
  with Nil show ?case by simp
next
  case (Cons c cs)
  have "(b @ c) @ concat cs = concat fs" using Cons.prems(2) by simp
  from frames_stream [OF Cons.prems(1) this, of "[]"] Cons.prems(3)
  obtain j where j: "j \<le> length fs" "frames incomplete 0 (b @ c) = Some (take j ms, length (concat (take j fs)))"
    "drop (length (concat (take j fs))) (b @ c) @ concat cs = concat (drop j fs)" "concat cs = [] \<longrightarrow> j = length fs"
    by auto
  let ?b = "drop (length (concat (take j fs))) (b @ c)"
  have "list_all2 framed (drop j fs) (drop j ms)" using Cons.prems(1) by (rule list_all2_dropI)
  moreover have "length (concat (drop j fs)) < 2 ^ 32"
    using Cons.prems(3) by (metis add_leE append_take_drop_id concat_append length_append order.strict_trans1 le_add2)
  moreover have "cs = [] \<longrightarrow> ?b = []" using j(3,4) by auto
  ultimately have "feeds incomplete cs ?b = Some (drop j ms, [])" using Cons.IH j(3) by blast
  with j(2) show ?case by simp
qed

end

text \<open>Calls of the server in which only connection \<open>ch\<close> has anything to read.\<close>

fun serve :: "u64 \<Rightarrow> u64 \<Rightarrow> (u64 list \<times> bytes) list \<Rightarrow> net_server \<Rightarrow> (network_message list \<times> net_server) option" where
  "serve limit ch [] s = Some ([], s)"
| "serve limit ch ((order, chunk) # calls) s =
     (case get_messages limit 0 order (\<lambda>c. Some (if c = ch then chunk else [])) s of
        None \<Rightarrow> None
      | Some (ms, s') \<Rightarrow> map_option (apfst (append ms)) (serve limit ch calls s'))"

lemma read_conns_idle: "ch \<notin> set order \<Longrightarrow>
  read_conns limit (\<lambda>c. Some (if c = ch then chunk else [])) order out bufs = Some (out, [], bufs)"
  by (induction order) auto

lemma read_conns_one:
  assumes "ch \<in> set order" and "distinct order" and "hm_get bufs ch = Some b" and "chunk \<noteq> []"
  shows "read_conns limit (\<lambda>c. Some (if c = ch then chunk else [])) order [] bufs =
    map_option (\<lambda>(ms, offset). (ms, [], hm_insert ch (drop offset (b @ chunk)) bufs))
      (frames server_incomplete 0 (b @ chunk))"
  using assms(1,2)
proof (induction order)
  case (Cons c order)
  show ?case
  proof (cases "c = ch")
    case True
    with Cons.prems have "ch \<notin> set order" by simp
    with True assms(3,4) show ?thesis
      by (auto simp: read_conns_idle Let_def split: option.splits)
  next
    case False
    with Cons show ?thesis by simp
  qed
qed simp

lemma get_messages_one:
  assumes "ch \<in> set order" and "distinct order" and "hm_get (buffers s) ch = Some b" and "chunk \<noteq> []"
  shows "get_messages limit 0 order (\<lambda>c. Some (if c = ch then chunk else [])) s =
    map_option (\<lambda>(ms, offset). (ms, s\<lparr>buffers := hm_insert ch (drop offset (b @ chunk)) (buffers s)\<rparr>))
      (frames server_incomplete 0 (b @ chunk))"
  using read_conns_one [OF assms]
  by (auto simp: get_messages_def accept_conns_def Let_def split_def map_option_case split: option.splits)

lemma serve_feeds:
  assumes "\<forall>(order, chunk) \<in> set calls. ch \<in> set order \<and> distinct order \<and> chunk \<noteq> []"
    and "hm_get (buffers s) ch = Some b"
  shows "(case feeds server_incomplete (map snd calls) b of
      None \<Rightarrow> serve limit ch calls s = None
    | Some (ms, b') \<Rightarrow> \<exists>s'. serve limit ch calls s = Some (ms, s') \<and> hm_get (buffers s') ch = Some b')"
  using assms
proof (induction calls arbitrary: s b)
  case Nil
  then show ?case by simp
next
  case (Cons call calls)
  obtain order chunk where call: "call = (order, chunk)" by fastforce
  with Cons.prems have one: "get_messages limit 0 order (\<lambda>c. Some (if c = ch then chunk else [])) s =
      map_option (\<lambda>(ms, offset). (ms, s\<lparr>buffers := hm_insert ch (drop offset (b @ chunk)) (buffers s)\<rparr>))
        (frames server_incomplete 0 (b @ chunk))"
    by (intro get_messages_one) auto
  show ?case
  proof (cases "frames server_incomplete 0 (b @ chunk)")
    case None
    with one call show ?thesis by simp
  next
    case (Some r)
    obtain ms offset where r: "r = (ms, offset)" by fastforce
    let ?s = "s\<lparr>buffers := hm_insert ch (drop offset (b @ chunk)) (buffers s)\<rparr>"
    have "hm_get (buffers ?s) ch = Some (drop offset (b @ chunk))" by (simp add: dict_simps)
    from Cons.IH [OF _ this] Cons.prems(1) one Some r call show ?thesis
      by (auto split: option.splits)
  qed
qed

section \<open>The writes of the client\<close>

lemma write_chunks_simps [simp]:
  "write_all_in_chunks accept [] = ([], True)"
  "buf \<noteq> [] \<Longrightarrow> write_all_in_chunks 0 buf = ([], False)"
  by (simp_all add: write_all_in_chunks.simps)

lemma write_chunks_Suc:
  assumes "buf \<noteq> []"
  shows "write_all_in_chunks (Suc n) buf =
    apfst (Cons (take max_wasi_chunk buf)) (write_all_in_chunks n (drop max_wasi_chunk buf))"
proof -
  have "take (min (length buf) max_wasi_chunk) buf = take max_wasi_chunk buf"
    "drop (length (take max_wasi_chunk buf)) buf = drop max_wasi_chunk buf"
    by (cases "length buf \<le> max_wasi_chunk", simp_all)+
  with assms show ?thesis by (subst write_all_in_chunks.simps) (simp add: Let_def)
qed

text \<open>
  What was written is a beginning of the message, in pieces that WASI takes; all of it when
  the stream takes enough pieces.
\<close>

lemma write_chunks_prefix:
  "\<exists>rest. concat (fst (write_all_in_chunks accept buf)) @ rest = buf \<and>
    (snd (write_all_in_chunks accept buf) \<longleftrightarrow> rest = [])"
proof (induction accept arbitrary: buf)
  case 0
  show ?case by (cases "buf = []") auto
next
  case (Suc n)
  show ?case
  proof (cases "buf = []")
    case False
    from Suc [of "drop max_wasi_chunk buf"] obtain rest where
      "concat (fst (write_all_in_chunks n (drop max_wasi_chunk buf))) @ rest = drop max_wasi_chunk buf"
      "snd (write_all_in_chunks n (drop max_wasi_chunk buf)) \<longleftrightarrow> rest = []" by blast
    with False show ?thesis by (intro exI [of _ rest]) (simp add: write_chunks_Suc)
  qed simp
qed

lemma write_chunks_small:
  "\<forall>chunk \<in> set (fst (write_all_in_chunks accept buf)). chunk \<noteq> [] \<and> length chunk \<le> max_wasi_chunk"
proof (induction accept arbitrary: buf)
  case 0
  show ?case by (cases "buf = []") auto
next
  case (Suc n)
  from Suc [of "drop max_wasi_chunk buf"] show ?case
    by (cases "buf = []") (auto simp: write_chunks_Suc max_wasi_chunk_def)
qed

lemma write_chunks_whole:
  "length buf \<le> accept * max_wasi_chunk \<Longrightarrow>
   snd (write_all_in_chunks accept buf) \<and> concat (fst (write_all_in_chunks accept buf)) = buf"
proof (induction accept arbitrary: buf)
  case (Suc n)
  then show ?case by (cases "buf = []") (simp_all add: write_chunks_Suc)
qed simp

text \<open>Successive messages to one node; the number is how many pieces the stream takes for each.\<close>

fun post ::
  "(string \<Rightarrow> connect_result) \<Rightarrow> node \<Rightarrow> (nat \<times> network_message) list \<Rightarrow> tcp_client \<Rightarrow>
   (bytes list \<times> tcp_client) option" where
  "post connect n [] c = Some ([], c)"
| "post connect n ((accept, m) # sends) c =
     (case send_message_forget connect (\<lambda>a. accept) [n] m c of
        None \<Rightarrow> None
      | Some (out, c') \<Rightarrow> map_option (apfst (append (concat (map snd out)))) (post connect n sends c'))"

definition deliverable :: "nat \<times> network_message \<Rightarrow> bool" where
  "deliverable = (\<lambda>(accept, m). message_safe m \<and> (\<exists>bs. serialize m = Some bs \<and> length bs \<le> accept * max_wasi_chunk))"

lemma send_forget_one:
  assumes "address n \<in> set (peer_conns c)" and "serialize m = Some bs" and "length bs \<le> accept * max_wasi_chunk"
  shows "send_message_forget connect (\<lambda>a. accept) [n] m c = Some ([(address n, fst (write_all_in_chunks accept bs))], c)"
  using assms write_chunks_whole [OF assms(3)]
  by (simp add: send_message_forget_def ensure_conn_def split_def)

lemma post_stream:
  assumes "address n \<in> set (peer_conns c)" and "\<forall>x \<in> set sends. deliverable x"
  shows "\<exists>out fs. post connect n sends c = Some (out, c) \<and> concat out = concat fs \<and>
    list_all2 framed fs (map (\<lambda>x. norm_message (snd x)) sends)"
  using assms(2)
proof (induction sends)
  case Nil
  then show ?case by simp
next
  case (Cons x sends)
  obtain accept m bs where x: "x = (accept, m)" "message_safe m" "serialize m = Some bs" "length bs \<le> accept * max_wasi_chunk"
    using Cons.prems by (cases x) (auto simp: deliverable_def)
  from Cons.IH Cons.prems obtain out fs where rest: "post connect n sends c = Some (out, c)" "concat out = concat fs"
    "list_all2 framed fs (map (\<lambda>x. norm_message (snd x)) sends)" by (meson list.set_intros(2))
  have "post connect n (x # sends) c = Some (fst (write_all_in_chunks accept bs) @ out, c)"
    using send_forget_one [OF assms(1) x(3,4)] rest(1) x(1) by simp
  moreover have "concat (fst (write_all_in_chunks accept bs) @ out) = concat (bs # fs)"
    using write_chunks_whole [OF x(4)] rest(2) by simp
  moreover have "list_all2 framed (bs # fs) (map (\<lambda>x. norm_message (snd x)) (x # sends))"
    using serialize_framed [OF x(2,3)] rest(3) x(1) by simp
  ultimately show ?case by blast
qed

text \<open>
  From the client to the server: the messages arrive once each and in order, however the
  stream is cut into reads.
\<close>

lemma post_serve:
  assumes "address n \<in> set (peer_conns c)" and "\<forall>x \<in> set sends. deliverable x"
    and "post connect n sends c = Some (out, c')" and "length (concat out) < 2 ^ 32"
    and "concat (map snd calls) = concat out"
    and "\<forall>(order, chunk) \<in> set calls. ch \<in> set order \<and> distinct order \<and> chunk \<noteq> []"
    and "hm_get (buffers s) ch = Some []"
  shows "\<exists>s'. serve limit ch calls s = Some (map (\<lambda>x. norm_message (snd x)) sends, s') \<and> hm_get (buffers s') ch = Some []"
proof -
  from post_stream [OF assms(1,2), of connect] assms(3) obtain fs where fs: "concat out = concat fs"
    "list_all2 framed fs (map (\<lambda>x. norm_message (snd x)) sends)" by auto
  have "feeds server_incomplete (map snd calls) [] = Some (map (\<lambda>x. norm_message (snd x)) sends, [])"
    by (rule server.feeds_stream [OF fs(2)]) (use fs(1) assms(4,5) in auto)
  with serve_feeds [OF assms(6,7), of limit] show ?thesis by simp
qed

lemma post_small:
  "post connect n sends c = Some (out, c') \<Longrightarrow> chunk \<in> set out \<Longrightarrow> chunk \<noteq> [] \<and> length chunk \<le> max_wasi_chunk"
proof (induction sends arbitrary: c out)
  case (Cons x sends)
  obtain accept m where x: "x = (accept, m)" by fastforce
  with Cons.prems obtain now later c1 where now: "send_message_forget connect (\<lambda>a. accept) [n] m c = Some (now, c1)"
    "post connect n sends c1 = Some (later, c')" "out = concat (map snd now) @ later"
    by (auto split: option.splits)
  moreover have "\<forall>chunk \<in> set (concat (map snd now)). chunk \<noteq> [] \<and> length chunk \<le> max_wasi_chunk"
    using now(1)
    by (auto simp: send_message_forget_def Let_def split_def split: option.splits bool.splits
        dest: write_chunks_small [THEN bspec])
  ultimately show ?case using Cons by auto
qed simp

lemma post_length:
  "\<forall>x \<in> set sends. deliverable x \<Longrightarrow> post connect n sends c = Some (out, c') \<Longrightarrow>
   length (concat out) \<le> sum_list (map fst sends) * max_wasi_chunk"
proof (induction sends arbitrary: c out)
  case (Cons x sends)
  obtain accept m bs where x: "x = (accept, m)" "serialize m = Some bs" "length bs \<le> accept * max_wasi_chunk"
    using Cons.prems(1) by (cases x) (auto simp: deliverable_def)
  with Cons.prems obtain now later c1 where now: "send_message_forget connect (\<lambda>a. accept) [n] m c = Some (now, c1)"
    "post connect n sends c1 = Some (later, c')" "out = concat (map snd now) @ later"
    by (auto split: option.splits)
  have "length (concat (concat (map snd now))) \<le> length bs"
    using now(1) x write_chunks_whole [OF x(3)]
    by (auto simp: send_message_forget_def Let_def split_def split: option.splits bool.splits)
  with Cons.IH [OF _ now(2)] Cons.prems(1) now(3) x show ?case by (simp add: algebra_simps)
qed simp

lemma post_bounds:
  assumes "address n \<in> set (peer_conns c)" and "\<forall>x \<in> set sends. deliverable x"
  shows "\<exists>out. post connect n sends c = Some (out, c) \<and> 4 * length sends \<le> length (concat out) \<and>
    length (concat out) \<le> sum_list (map fst sends) * max_wasi_chunk"
proof -
  from post_stream [OF assms] obtain out fs where out: "post connect n sends c = Some (out, c)" "concat out = concat fs"
    "list_all2 framed fs (map (\<lambda>x. norm_message (snd x)) sends)" by metis
  have "list_all2 framed fs ms \<Longrightarrow> 4 * length ms \<le> length (concat fs)" for fs ms
    by (induction rule: list_all2_induct) (auto dest: framed_length)
  from this [OF out(3)] out(1,2) post_length [OF assms(2) out(1)] show ?thesis by auto
qed

section \<open>Hostile lengths\<close>

text \<open>A length for which the end of the frame wraps around.\<close>

definition wrapping :: "bytes \<Rightarrow> bool" where
  "wrapping bs \<longleftrightarrow> 4 \<le> length bs \<and> 2 ^ 32 \<le> 4 + u32_from_be_bytes (take 4 bs)"

lemma u32_fold_bound: "foldl (\<lambda>n c. n * 256 + (of_char c :: nat)) k bs < (k + 1) * 256 ^ length bs"
proof (induction bs arbitrary: k)
  case (Cons c bs k)
  have "of_char c \<le> (255 :: nat)" using nat_of_char_less_256 [of c] by linarith
  then have "k * 256 + of_char c + 1 \<le> (k + 1) * 256" by simp
  then have "(k * 256 + of_char c + 1) * 256 ^ length bs \<le> (k + 1) * 256 * 256 ^ length bs"
    by (rule mult_le_mono1)
  with Cons [of "k * 256 + of_char c"] have
    "foldl (\<lambda>n c. n * 256 + (of_char c :: nat)) (k * 256 + of_char c) bs < (k + 1) * 256 * 256 ^ length bs"
    by (rule less_le_trans)
  then show ?case by (simp add: algebra_simps)
qed simp

lemma u32_bytes_bound: "length bs = 4 \<Longrightarrow> u32_from_be_bytes bs < 2 ^ 32"
  using u32_fold_bound [of 0 bs] by (simp add: u32_from_be_bytes_def)

lemma wrapping_stop:
  assumes "wrapping bs"
  shows "usize (4 + u32_from_be_bytes (take 4 bs)) < 4"
proof -
  let ?len = "u32_from_be_bytes (take 4 bs)"
  have "?len < 2 ^ 32" using assms by (intro u32_bytes_bound) (simp add: wrapping_def)
  moreover from this assms have "(4 + ?len) mod 2 ^ 32 = 4 + ?len - 2 ^ 32"
    by (subst le_mod_geq) (auto simp: wrapping_def)
  ultimately show ?thesis using assms by (simp add: usize_def wrapping_def)
qed

lemma wrapping_frames:
  assumes "wrapping bs" and "inc = server_incomplete \<or> inc = client_incomplete"
  shows "frames inc 0 bs = None"
proof -
  have "4 \<le> length bs" using assms(1) by (simp add: wrapping_def)
  moreover have "\<not> inc (length bs) 0 (u32_from_be_bytes (take 4 bs))"
    using assms wrapping_stop [OF assms(1)] by (auto simp: server_incomplete_def client_incomplete_def wrapping_def)
  ultimately show ?thesis using wrapping_stop [OF assms(1)] by (subst frames.simps) (simp add: Let_def)
qed

text \<open>The connections before the hostile one, in the order of the map, have nothing to read.\<close>

lemma read_conns_panic:
  assumes "\<forall>c \<in> set idle. read c = Some [] \<or> read c = None" and "read ch = Some chunk" and "chunk \<noteq> []"
    and "hm_get bufs ch = Some b" and "frames server_incomplete 0 (b @ chunk) = None"
  shows "read_conns limit read (idle @ ch # rest) out bufs = None"
  using assms(1) by (induction idle) (use assms(2-5) in auto)

lemma read_clients_panic:
  assumes "\<forall>c \<in> set idle. read c = Some [] \<or> read c = None" and "read ch = Some chunk" and "chunk \<noteq> []"
    and "hm_get bufs ch = Some b" and "frames client_incomplete 0 (b @ chunk) = None"
  shows "read_clients limit read (idle @ ch # rest) acc bufs = None"
  using assms(1) by (induction idle) (use assms(2-5) in auto)

lemma wrapping_append: "wrapping bs \<Longrightarrow> wrapping (bs @ xs)"
  by (simp add: wrapping_def)

lemma wrapping_not_Nil: "wrapping bs \<Longrightarrow> bs \<noteq> []"
  by (auto simp: wrapping_def)

section \<open>Answers\<close>

lemma hm_get_remove_at [dict_simps]: "hm_get (hm_remove k m) k' = (if k' = k then None else hm_get m k')"
  unfolding hm_remove_def by (induction m) auto

abbreviation response_key :: "client_response \<Rightarrow> string \<times> u64" where
  "response_key r \<equiv> (resp_client_id r, resp_client_seq r)"

lemma answer_broken:
  assumes "answer_all me write live rs noted = Some (sent, broken, noted')"
    and "r \<in> set rs" and "hm_get noted (response_key r) = Some ch" and "ch \<in> set live" and "\<forall>bs. \<not> write ch bs"
  shows "ch \<in> set broken"
  using assms(1-3)
proof (induction rs arbitrary: noted sent broken noted')
  case (Cons x rs)
  show ?case
  proof (cases "response_key x = response_key r")
    case True
    with Cons.prems assms(4,5) show ?thesis by (auto split: option.splits)
  next
    case False
    with Cons.prems have "r \<in> set rs" "hm_get (hm_remove (response_key x) noted) (response_key r) = Some ch"
      by (auto simp: dict_simps)
    with Cons.IH Cons.prems show ?thesis
      by (auto simp: Let_def split: option.splits if_splits)
  qed
qed simp

text \<open>An answer that was sent was asked for on that connection.\<close>

lemma answer_sent:
  assumes "answer_all me write live rs noted = Some (sent, broken, noted')" and "(ch, bs) \<in> set sent"
  shows "\<exists>r \<in> set rs. hm_get noted (response_key r) = Some ch \<and> ch \<in> set live \<and> write ch bs \<and>
    serialize \<lparr>sender = me, payload = ClientResponse r\<rparr> = Some bs"
  using assms
proof (induction rs arbitrary: noted sent broken noted')
  case (Cons x rs)
  show ?case
  proof (cases "hm_get noted (response_key x)")
    case None
    with Cons show ?thesis by (fastforce simp: Let_def)
  next
    case (Some c)
    have later: "hm_get (hm_remove (response_key x) noted) k = Some d \<Longrightarrow> hm_get noted k = Some d" for k d
      by (auto simp: dict_simps split: if_splits)
    obtain sent' broken' where rest: "answer_all me write live rs (hm_remove (response_key x) noted) = Some (sent', broken', noted')"
      "(ch, bs) \<in> set sent' \<or> ch = c \<and> ch \<in> set live \<and> write ch bs \<and> serialize \<lparr>sender = me, payload = ClientResponse x\<rparr> = Some bs"
      using Cons.prems Some by (auto simp: Let_def split: option.splits if_splits)
    from Cons.IH [OF rest(1)] rest(2) later Some show ?thesis by fastforce
  qed
qed simp

lemma answer_noted:
  "answer_all me write live rs noted = Some (sent, broken, noted') \<Longrightarrow>
   hm_get noted' k = (if k \<in> response_key ` set rs then None else hm_get noted k)"
proof (induction rs arbitrary: noted sent broken noted')
  case (Cons x rs)
  show ?case
  proof (cases "hm_get noted (response_key x)")
    case None
    with Cons show ?thesis by (auto simp: Let_def)
  next
    case (Some c)
    then obtain sent' broken' where
      "answer_all me write live rs (hm_remove (response_key x) noted) = Some (sent', broken', noted')"
      using Cons.prems by (auto simp: Let_def split: option.splits if_splits)
    from Cons.IH [OF this] show ?thesis by (auto simp: dict_simps)
  qed
qed simp

lemma answer_none: "\<forall>r \<in> set rs. hm_get noted (response_key r) = None \<Longrightarrow> answer_all me write live rs noted = Some ([], [], noted)"
  by (induction rs) auto

text \<open>The requests among the messages of a read, and the connection noted for each.\<close>

definition requests :: "network_message list \<Rightarrow> paxos_value list" where
  "requests ms = concat (map (\<lambda>m. case payload m of ClientRequest v \<Rightarrow> [v] | _ \<Rightarrow> []) ms)"

lemma requests_simps [simp]:
  "requests [] = []"
  "requests (m # ms) = (case payload m of ClientRequest v \<Rightarrow> v # requests ms | _ \<Rightarrow> requests ms)"
  by (simp_all add: requests_def split: message_payload.split)

lemma note_requests:
  "fst (foldl (note_request ch) acc ms) = fst acc @ requests ms \<and>
   hm_get (snd (foldl (note_request ch) acc ms)) k =
     (if k \<in> (\<lambda>v. (client_id v, client_seq v)) ` set (requests ms) then Some ch else hm_get (snd acc) k)"
proof (induction ms arbitrary: acc)
  case (Cons m ms)
  show ?case
  proof (cases "payload m")
    case (ClientRequest v)
    with Cons [of "note_request ch acc m"] show ?thesis by (auto simp: note_request_def dict_simps)
  qed (use Cons [of acc] in \<open>simp_all add: note_request_def\<close>)
qed simp

lemma read_clients_idle: "ch \<notin> set order \<Longrightarrow>
  read_clients limit (\<lambda>c. Some (if c = ch then chunk else [])) order acc bufs = Some (acc, [], bufs)"
  by (induction order) auto

lemma read_clients_one:
  assumes "ch \<in> set order" and "distinct order" and "hm_get bufs ch = Some b" and "chunk \<noteq> []"
  shows "read_clients limit (\<lambda>c. Some (if c = ch then chunk else [])) order acc bufs =
    map_option (\<lambda>(ms, offset). (foldl (note_request ch) acc ms, [], hm_insert ch (drop offset (b @ chunk)) bufs))
      (frames client_incomplete 0 (b @ chunk))"
  using assms(1,2)
proof (induction order)
  case (Cons c order)
  show ?case
  proof (cases "c = ch")
    case True
    with Cons.prems have "ch \<notin> set order" by simp
    with True assms(3,4) show ?thesis by (auto simp: read_clients_idle Let_def split: option.splits)
  next
    case False
    with Cons show ?thesis by simp
  qed
qed simp

lemma get_requests_one:
  assumes "list_all2 framed fs ms" and "b @ chunk = concat fs" and "length (concat fs) < 2 ^ 32"
    and "ch \<in> set order" and "distinct order" and "hm_get (buffers s) ch = Some b" and "chunk \<noteq> []"
  shows "\<exists>s'. get_requests limit 0 order (\<lambda>c. Some (if c = ch then chunk else [])) s = Some (requests ms, s') \<and>
    conns s' = conns s \<and> hm_get (buffers s') ch = Some [] \<and>
    (\<forall>k. hm_get (req_chan s') k =
      (if k \<in> (\<lambda>v. (client_id v, client_seq v)) ` set (requests ms) then Some ch else hm_get (req_chan s) k))"
proof -
  have "(b @ chunk) @ [] = concat fs" using assms(2) by simp
  from client.frames_stream [OF assms(1) this, of "[]"] assms(1-3)
  have "frames client_incomplete 0 (b @ chunk) = Some (ms, length (b @ chunk))"
    by (auto simp: list_all2_lengthD)
  moreover define noted where "noted = snd (foldl (note_request ch) ([], req_chan s) ms)"
  moreover from note_requests [of ch "([], req_chan s)" ms]
  have "foldl (note_request ch) ([], req_chan s) ms = (requests ms, noted)" by (simp add: noted_def prod_eq_iff)
  ultimately have "get_requests limit 0 order (\<lambda>c. Some (if c = ch then chunk else [])) s =
      Some (requests ms, s\<lparr>buffers := hm_insert ch [] (buffers s), req_chan := noted\<rparr>)"
    using read_clients_one [OF assms(4-7)] by (simp add: get_requests_def accept_conns_def Let_def)
  with note_requests [of ch "([], req_chan s)" ms] show ?thesis by (simp add: noted_def dict_simps)
qed

lemma answer_one:
  assumes "hm_get (req_chan s) (response_key r) = Some ch" and "ch \<in> set (conns s)"
    and "serialize \<lparr>sender = me, payload = ClientResponse r\<rparr> = Some bs"
  shows "send_responses write me [r] s =
    (if write ch bs then Some ([(ch, bs)], s\<lparr>req_chan := hm_remove (response_key r) (req_chan s)\<rparr>) else None)"
  using assms by (simp add: send_responses_def)

lemma send_responses_safe:
  assumes "send_responses write me replies s = Some (sent, s')"
  shows "(ch, bs) \<in> set sent \<Longrightarrow> \<exists>r \<in> set replies. hm_get (req_chan s) (response_key r) = Some ch \<and> ch \<in> set (conns s) \<and>
      write ch bs \<and> serialize \<lparr>sender = me, payload = ClientResponse r\<rparr> = Some bs"
    and "r \<in> set replies \<Longrightarrow> hm_get (req_chan s) (response_key r) = Some ch \<Longrightarrow> ch \<in> set (conns s) \<Longrightarrow> \<exists>bs. write ch bs"
    and "response_key ` set replies' \<subseteq> response_key ` set replies \<Longrightarrow> send_responses write' me replies' s' = Some ([], s')"
proof -
  obtain noted where answer: "answer_all me write (conns s) replies (req_chan s) = Some (sent, [], noted)"
    "s' = s\<lparr>req_chan := noted\<rparr>"
    using assms by (auto simp: send_responses_def split: option.splits if_splits)
  show "(ch, bs) \<in> set sent \<Longrightarrow> \<exists>r \<in> set replies. hm_get (req_chan s) (response_key r) = Some ch \<and> ch \<in> set (conns s) \<and>
      write ch bs \<and> serialize \<lparr>sender = me, payload = ClientResponse r\<rparr> = Some bs"
    by (rule answer_sent [OF answer(1)])
  show "r \<in> set replies \<Longrightarrow> hm_get (req_chan s) (response_key r) = Some ch \<Longrightarrow> ch \<in> set (conns s) \<Longrightarrow> \<exists>bs. write ch bs"
    using answer_broken [OF answer(1)] by fastforce
  assume "response_key ` set replies' \<subseteq> response_key ` set replies"
  then have "\<forall>r \<in> set replies'. hm_get noted (response_key r) = None" using answer_noted [OF answer(1)] by auto
  from answer_none [OF this] show "send_responses write' me replies' s' = Some ([], s')"
    by (simp add: send_responses_def answer(2))
qed

end
