(* ===== verification/Host_Network.thy ===== *)
theory Host_Network
  imports Delivery
begin

text \<open>
  The network that the host offers to the components: the server of
  \<open>runner-ws/src/host_network_server.rs\<close>, whose thread reads all connections and puts the
  messages into a queue, and the client of \<open>runner-ws/src/host_network_client.rs\<close>, whose thread
  writes what the calls put into a channel. The formats are those of the theory
  \<open>Serializer\<close>, but a message that cannot be read is an error here and no panic. The host
  has a \<open>usize\<close> of 64 bits.
\<close>

section \<open>The serialiser of the host\<close>

definition host_serialize :: "network_message \<Rightarrow> bytes option" where
  "host_serialize m =
     (let payload_bytes = message_text m in
      if length payload_bytes < 2 ^ 32 then Some (u32_to_be_bytes (length payload_bytes) @ payload_bytes) else None)"

definition host_deserialize :: "bytes \<Rightarrow> network_message result" where
  "host_deserialize = try_deserialize"

section \<open>The server\<close>

record native_server =
  nv_next_id :: u64
  nv_conns :: "u64 list"
  nv_buffers :: "(u64, bytes) hash_map"
  nv_messages :: "network_message list"

definition native_server_new :: native_server where
  "native_server_new = \<lparr>nv_next_id = 1, nv_conns = [], nv_buffers = [], nv_messages = []\<rparr>"

text \<open>The frames of a buffer from \<open>offset\<close> on: the messages and where the rest begins.\<close>

function native_frames :: "nat \<Rightarrow> bytes \<Rightarrow> network_message list \<times> nat" where
  "native_frames offset b =
     (if length b < offset + 4 then ([], offset)
      else
        (let len = u32_from_be_bytes (take 4 (drop offset b)) in
         if length b < offset + 4 + len then ([], offset)
         else
           (let frame = u32_to_be_bytes len @ take len (drop (offset + 4) b);
                (ms, stop) = native_frames (offset + 4 + len) b in
            (case host_deserialize frame of Inr m \<Rightarrow> m # ms | Inl _ \<Rightarrow> ms, stop))))"
  by pat_completeness auto
termination
  by (relation "measure (\<lambda>(offset, b). length b - offset)") auto

declare native_frames.simps [simp del]

datatype native_read = Bytes bytes | WouldBlock | ReadError

text \<open>One connection: zero bytes are a closed connection.\<close>

definition native_read_conn :: "(u64 \<Rightarrow> native_read) \<Rightarrow> u64 \<Rightarrow> native_server \<Rightarrow> (bool \<times> native_server) option" where
  "native_read_conn read i s =
     (case read i of
        Bytes chunk \<Rightarrow>
          if chunk = [] then Some (True, s)
          else
            (case hm_get (nv_buffers s) i of
               None \<Rightarrow> None
             | Some b \<Rightarrow>
                 (let (ms, offset) = native_frames 0 (b @ chunk) in
                  Some (False, s\<lparr>nv_buffers := hm_insert i (drop offset (b @ chunk)) (nv_buffers s),
                                 nv_messages := nv_messages s @ ms\<rparr>)))
      | WouldBlock \<Rightarrow> Some (False, s)
      | ReadError \<Rightarrow> Some (True, s))"

fun native_read_all :: "(u64 \<Rightarrow> native_read) \<Rightarrow> u64 list \<Rightarrow> native_server \<Rightarrow> (u64 list \<times> native_server) option" where
  "native_read_all read [] s = Some ([], s)"
| "native_read_all read (i # is) s =
     (case native_read_conn read i s of
        None \<Rightarrow> None
      | Some (gone, s1) \<Rightarrow> map_option (apfst (\<lambda>rs. if gone then i # rs else rs)) (native_read_all read is s1))"

definition native_accept :: "bool \<Rightarrow> native_server \<Rightarrow> native_server" where
  "native_accept accepted s =
     (if accepted then s\<lparr>nv_next_id := nv_next_id s + 1,
        nv_conns := (if nv_next_id s \<in> set (nv_conns s) then nv_conns s else nv_conns s @ [nv_next_id s]),
        nv_buffers := hm_insert (nv_next_id s) [] (nv_buffers s)\<rparr>
      else s)"

text \<open>
  One turn of the thread: at most one connection is accepted, every connection is read once, in
  the order of the hash map. The thread panics where the result is \<open>None\<close>.
\<close>

definition native_turn :: "bool \<Rightarrow> u64 list \<Rightarrow> (u64 \<Rightarrow> native_read) \<Rightarrow> native_server \<Rightarrow> native_server option" where
  "native_turn accepted order read s =
     map_option (\<lambda>(gone, s2). s2\<lparr>nv_conns := filter (\<lambda>i. i \<notin> set gone) (nv_conns s2),
         nv_buffers := foldl (\<lambda>m i. hm_remove i m) (nv_buffers s2) gone\<rparr>)
       (native_read_all read order (native_accept accepted s))"

definition native_get_messages :: "u64 \<Rightarrow> native_server \<Rightarrow> network_message list \<times> native_server" where
  "native_get_messages limit s =
     (let n = min (unat limit) (length (nv_messages s)) in
      (take n (nv_messages s), s\<lparr>nv_messages := drop n (nv_messages s)\<rparr>))"

definition native_get_message :: "native_server \<Rightarrow> network_message option \<times> native_server" where
  "native_get_message s =
     (case nv_messages s of [] \<Rightarrow> (None, s) | m # ms \<Rightarrow> (Some m, s\<lparr>nv_messages := ms\<rparr>))"

section \<open>The client\<close>

record native_client =
  nc_channel :: "(string \<times> bytes) list"
  nc_conns :: "string list"
  nc_alive :: bool

definition native_client_new :: native_client where
  "native_client_new = \<lparr>nc_channel = [], nc_conns = [], nc_alive = True\<rparr>"

text \<open>A send into the channel of a thread that has ended is an error, which is ignored.\<close>

definition native_send_forget :: "node list \<Rightarrow> network_message \<Rightarrow> native_client \<Rightarrow> native_client option" where
  "native_send_forget nodes m c =
     map_option (\<lambda>bs. if nc_alive c then c\<lparr>nc_channel := nc_channel c @ map (\<lambda>n. (address n, bs)) nodes\<rparr> else c)
       (host_serialize m)"

text \<open>The synchronous variant is \<open>todo!()\<close>.\<close>

definition native_send_message :: "node list \<Rightarrow> network_message \<Rightarrow> native_client \<Rightarrow> (network_message list \<times> native_client) option" where
  "native_send_message nodes m c = None"

text \<open>
  The thread takes the next message. A connection that cannot be opened is replaced by one to the
  address \<open>0.0.0.0:0\<close>; when that fails as well (\<open>dummy\<close>), the thread panics. \<open>write\<close> says how many
  bytes the stream takes: when they are not all of the message, \<open>write_all\<close> fails after them and the
  connection is given up. The result is what was written.
\<close>

definition native_client_turn ::
  "(string \<Rightarrow> bool) \<Rightarrow> bool \<Rightarrow> (string \<Rightarrow> bytes \<Rightarrow> nat) \<Rightarrow> native_client \<Rightarrow> (string \<times> bytes) list \<times> native_client" where
  "native_client_turn connect dummy write c =
     (case nc_channel c of
        [] \<Rightarrow> ([], c)
      | (addr, msg) # rest \<Rightarrow>
          if \<not> nc_alive c then ([], c)
          else if addr \<notin> set (nc_conns c) \<and> \<not> connect addr \<and> \<not> dummy
          then ([], c\<lparr>nc_alive := False, nc_channel := []\<rparr>)
          else
            (let c1 = c\<lparr>nc_channel := rest, nc_conns := (if addr \<in> set (nc_conns c) then nc_conns c else nc_conns c @ [addr])\<rparr> in
             if length msg \<le> write addr msg then ([(addr, msg)], c1)
             else ([(addr, take (write addr msg) msg)], c1\<lparr>nc_conns := filter (\<lambda>a. a \<noteq> addr) (nc_conns c1)\<rparr>)))"

section \<open>A stream in any number of reads\<close>

definition record_of :: "bytes \<Rightarrow> bytes" where
  "record_of body = u32_to_be_bytes (length body) @ body"

definition readable :: "bytes \<Rightarrow> network_message list" where
  "readable body = (case host_deserialize (record_of body) of Inr m \<Rightarrow> [m] | Inl _ \<Rightarrow> [])"

definition records :: "bytes list \<Rightarrow> bytes" where
  "records bodies = concat (map record_of bodies)"

lemma records_simps [simp]:
  "records [] = []" "records (b # bs) = record_of b @ records bs" "length (record_of b) = 4 + length b"
  by (simp_all add: records_def record_of_def)

lemma record_header: "length b < 2 ^ 32 \<Longrightarrow> 4 \<le> length x \<Longrightarrow> x @ y = record_of b @ z \<Longrightarrow> u32_from_be_bytes (take 4 x) = length b"
proof -
  assume len: "length b < 2 ^ 32" and x: "4 \<le> length x" and eq: "x @ y = record_of b @ z"
  from x have "take 4 x = take 4 (x @ y)" by simp
  also have "\<dots> = u32_to_be_bytes (length b)" by (simp add: eq record_of_def)
  finally show ?thesis using len by (simp add: u32_be_roundtrip)
qed

lemma native_frames_whole:
  assumes "length body < 2 ^ 32"
  shows "native_frames (length pre) (pre @ record_of body @ tail) =
    apfst (append (readable body)) (native_frames (length pre + length (record_of body)) (pre @ record_of body @ tail))"
proof -
  have "u32_from_be_bytes (take 4 (record_of body @ tail)) = length body"
    by (rule record_header [OF assms, of _ "[]"]) simp_all
  moreover have "take (length body) (drop 4 (record_of body @ tail)) = body"
    by (simp add: record_of_def)
  ultimately show ?thesis
    by (subst native_frames.simps)
      (simp add: Let_def readable_def record_of_def apfst_def map_prod_def split_def add.assoc split: sum.split)
qed

lemma native_frames_part:
  assumes "record_of body = x @ y" and "y \<noteq> []" and "length body < 2 ^ 32"
  shows "native_frames (length pre) (pre @ x) = ([], length pre)"
proof (cases "length x < 4")
  case True
  then show ?thesis by (subst native_frames.simps) simp
next
  case False
  then have "u32_from_be_bytes (take 4 x) = length body"
    using record_header [OF assms(3), of x y "[]"] assms(1) by simp
  moreover have "length x < 4 + length body"
    using arg_cong [OF assms(1), of length] assms(2) by (cases y) simp_all
  ultimately show ?thesis by (subst native_frames.simps) (simp add: Let_def)
qed

lemma native_frames_stream:
  assumes "\<forall>b \<in> set bodies. length b < 2 ^ 32" and "buf @ rest = records bodies"
  shows "\<exists>j \<le> length bodies. native_frames (length pre) (pre @ buf) =
      (concat (map readable (take j bodies)), length pre + length (records (take j bodies))) \<and>
    drop (length (records (take j bodies))) buf @ rest = records (drop j bodies) \<and>
    (rest = [] \<longrightarrow> j = length bodies)"
  using assms
proof (induction bodies arbitrary: pre buf)
  case Nil
  then show ?case by (subst native_frames.simps) simp
next
  case (Cons body bodies)
  show ?case
  proof (cases "4 + length body \<le> length buf")
    case True
    define buf' where "buf' = drop (4 + length body) buf"
    have buf: "buf = record_of body @ buf'"
      using Cons.prems(2) True unfolding buf'_def
      by (metis append_eq_append_conv_if append_take_drop_id records_simps(2,3))
    with Cons.prems(2) have rest: "buf' @ rest = records bodies" by simp
    from Cons.IH [OF _ rest, of "pre @ record_of body"] Cons.prems(1) obtain j where j: "j \<le> length bodies"
      "native_frames (length pre + length (record_of body)) (pre @ buf) =
        (concat (map readable (take j bodies)), length pre + length (record_of body) + length (records (take j bodies)))"
      "drop (length (records (take j bodies))) buf' @ rest = records (drop j bodies)" "rest = [] \<longrightarrow> j = length bodies"
      by (auto simp: buf)
    have "native_frames (length pre) (pre @ buf) =
        apfst (append (readable body)) (native_frames (length pre + length (record_of body)) (pre @ buf))"
      using native_frames_whole [of body pre buf'] Cons.prems(1) buf by simp
    with j buf show ?thesis by (intro exI [of _ "Suc j"]) simp
  next
    case False
    define y where "y = drop (length buf) (record_of body)"
    have "take (length buf) (buf @ rest) = take (length buf) (record_of body)"
      using False Cons.prems(2) by simp
    then have y: "record_of body = buf @ y" "y \<noteq> []"
      using False append_take_drop_id [of "length buf" "record_of body"] by (simp_all add: y_def)
    with Cons.prems(2) have "rest \<noteq> []" by auto
    moreover have "native_frames (length pre) (pre @ buf) = ([], length pre)"
      using native_frames_part [OF y] Cons.prems(1) by simp
    ultimately show ?thesis using Cons.prems(2) by (intro exI [of _ 0]) simp
  qed
qed

section \<open>What the server makes of a stream\<close>

text \<open>Turns in which only connection \<open>i\<close> has bytes to read.\<close>

fun native_serve :: "u64 \<Rightarrow> (u64 list \<times> bytes) list \<Rightarrow> native_server \<Rightarrow> native_server option" where
  "native_serve i [] s = Some s"
| "native_serve i ((order, chunk) # turns) s =
     Option.bind (native_turn False order (\<lambda>c. if c = i then Bytes chunk else WouldBlock) s) (native_serve i turns)"

lemma native_read_idle:
  "i \<notin> set order \<Longrightarrow> native_read_all (\<lambda>c. if c = i then Bytes chunk else WouldBlock) order s = Some ([], s)"
  by (induction order) (auto simp: native_read_conn_def)

lemma native_read_one:
  assumes "i \<in> set order" and "distinct order" and "hm_get (nv_buffers s) i = Some b" and "chunk \<noteq> []"
  shows "native_read_all (\<lambda>c. if c = i then Bytes chunk else WouldBlock) order s =
    (let (ms, offset) = native_frames 0 (b @ chunk) in
     Some ([], s\<lparr>nv_buffers := hm_insert i (drop offset (b @ chunk)) (nv_buffers s), nv_messages := nv_messages s @ ms\<rparr>))"
  using assms(1,2)
proof (induction order)
  case (Cons c order)
  show ?case
  proof (cases "c = i")
    case True
    with Cons.prems have "i \<notin> set order" by simp
    with True assms(3,4) show ?thesis by (simp add: native_read_conn_def native_read_idle Let_def split_def)
  next
    case False
    with Cons show ?thesis by (simp add: native_read_conn_def Let_def split_def)
  qed
qed simp

lemma native_turn_one:
  assumes "i \<in> set order" and "distinct order" and "hm_get (nv_buffers s) i = Some b" and "chunk \<noteq> []"
  shows "native_turn False order (\<lambda>c. if c = i then Bytes chunk else WouldBlock) s =
    (let (ms, offset) = native_frames 0 (b @ chunk) in
     Some (s\<lparr>nv_buffers := hm_insert i (drop offset (b @ chunk)) (nv_buffers s), nv_messages := nv_messages s @ ms\<rparr>))"
  using native_read_one [OF assms]
  by (simp add: native_turn_def native_accept_def Let_def split_def)

lemma native_serve_stream:
  assumes "\<forall>b \<in> set bodies. length b < 2 ^ 32" and "hm_get (nv_buffers s) i = Some b"
    and "b @ concat (map snd turns) = records bodies" and "turns = [] \<longrightarrow> b = []"
    and "\<forall>(order, chunk) \<in> set turns. i \<in> set order \<and> distinct order \<and> chunk \<noteq> []"
  shows "\<exists>s'. native_serve i turns s = Some s' \<and> nv_messages s' = nv_messages s @ concat (map readable bodies) \<and>
    hm_get (nv_buffers s') i = Some []"
  using assms
proof (induction turns arbitrary: b bodies s)
  case Nil
  then have "bodies = []" by (cases bodies) (auto simp: record_of_def u32_to_be_bytes_def)
  with Nil show ?case by simp
next
  case (Cons t turns)
  obtain order chunk where t: "t = (order, chunk)" by fastforce
  with Cons.prems(5) have o: "i \<in> set order" "distinct order" "chunk \<noteq> []" by simp_all
  have "(b @ chunk) @ concat (map snd turns) = records bodies" using Cons.prems(3) t by simp
  from native_frames_stream [OF Cons.prems(1) this, of "[]"] obtain j where
    j: "j \<le> length bodies" "native_frames 0 (b @ chunk) =
      (concat (map readable (take j bodies)), length (records (take j bodies)))"
    "drop (length (records (take j bodies))) (b @ chunk) @ concat (map snd turns) = records (drop j bodies)"
    "concat (map snd turns) = [] \<longrightarrow> j = length bodies"
    by auto
  let ?b = "drop (length (records (take j bodies))) (b @ chunk)"
  let ?s = "s\<lparr>nv_buffers := hm_insert i ?b (nv_buffers s), nv_messages := nv_messages s @ concat (map readable (take j bodies))\<rparr>"
  have turn: "native_turn False order (\<lambda>c. if c = i then Bytes chunk else WouldBlock) s = Some ?s"
    using native_turn_one [OF o(1,2) Cons.prems(2) o(3)] j(2) by simp
  have "turns = [] \<longrightarrow> ?b = []" using j(3,4) by auto
  moreover have "\<forall>b \<in> set (drop j bodies). length b < 2 ^ 32" using Cons.prems(1) by (auto dest: in_set_dropD)
  moreover have "hm_get (nv_buffers ?s) i = Some ?b" by (simp add: dict_simps)
  ultimately obtain s' where s': "native_serve i turns ?s = Some s'"
    "nv_messages s' = nv_messages ?s @ concat (map readable (drop j bodies))" "hm_get (nv_buffers s') i = Some []"
    using Cons.IH [of "drop j bodies" ?s ?b] j(3) Cons.prems(5) by auto
  have "concat (map readable (take j bodies)) @ concat (map readable (drop j bodies)) = concat (map readable bodies)"
    by (simp flip: concat_append map_append)
  with s' turn t show ?case by simp
qed

section \<open>What the client writes\<close>

fun native_post :: "(node list \<times> network_message) list \<Rightarrow> native_client \<Rightarrow> native_client option" where
  "native_post [] c = Some c"
| "native_post ((ns, m) # posts) c = Option.bind (native_send_forget ns m c) (native_post posts)"

text \<open>\<open>n\<close> turns of the thread on a network where nothing fails.\<close>

fun native_writes :: "nat \<Rightarrow> native_client \<Rightarrow> (string \<times> bytes) list \<times> native_client" where
  "native_writes 0 c = ([], c)"
| "native_writes (Suc n) c =
     (let (out, c1) = native_client_turn (\<lambda>a. True) True (\<lambda>a b. length b) c; (out', c2) = native_writes n c1 in (out @ out', c2))"

lemma native_writes_channel: "nc_alive c \<Longrightarrow> fst (native_writes (length (nc_channel c)) c) = nc_channel c"
proof (induction "nc_channel c" arbitrary: c)
  case Nil
  then show ?case by simp
next
  case (Cons x xs)
  obtain a b where x: "x = (a, b)" by fastforce
  let ?c = "snd (native_client_turn (\<lambda>a. True) True (\<lambda>a b. length b) c)"
  have turn: "fst (native_client_turn (\<lambda>a. True) True (\<lambda>a b. length b) c) = [(a, b)]" "nc_channel ?c = xs" "nc_alive ?c"
    using Cons.prems x by (simp_all add: native_client_turn_def Let_def flip: Cons.hyps(2))
  with Cons.hyps(1) [of ?c] have "fst (native_writes (length xs) ?c) = xs" by simp
  with turn x show ?case by (simp add: Let_def split_def flip: Cons.hyps(2))
qed

definition addressed :: "string \<Rightarrow> (node list \<times> network_message) list \<Rightarrow> network_message list" where
  "addressed a posts = concat (map (\<lambda>(ns, m). map (\<lambda>_. m) (filter (\<lambda>n. address n = a) ns)) posts)"

definition written_to :: "string \<Rightarrow> (string \<times> bytes) list \<Rightarrow> bytes" where
  "written_to a out = concat (map snd (filter (\<lambda>x. fst x = a) out))"

lemma written_to_simps [simp]:
  "written_to a [] = []" "written_to a (x @ y) = written_to a x @ written_to a y"
  by (simp_all add: written_to_def)

lemma native_post_channel:
  assumes "\<forall>(ns, m) \<in> set posts. length (message_text m) < 2 ^ 32" and "nc_alive c"
  shows "\<exists>c'. native_post posts c = Some c' \<and> nc_alive c' \<and>
    written_to a (nc_channel c') = written_to a (nc_channel c) @ records (map message_text (addressed a posts))"
  using assms
proof (induction posts arbitrary: c)
  case Nil
  then show ?case by (simp add: addressed_def)
next
  case (Cons p posts)
  obtain ns m where p: "p = (ns, m)" by fastforce
  let ?bs = "record_of (message_text m)"
  let ?c = "c\<lparr>nc_channel := nc_channel c @ map (\<lambda>n. (address n, ?bs)) ns\<rparr>"
  have send: "native_send_forget ns m c = Some ?c"
    using Cons.prems p by (simp add: native_send_forget_def host_serialize_def Let_def record_of_def)
  have "written_to a (map (\<lambda>n. (address n, ?bs)) ns) = records (map (\<lambda>_. message_text m) (filter (\<lambda>n. address n = a) ns))"
    by (induction ns) (simp_all add: written_to_def)
  moreover obtain c' where "native_post posts ?c = Some c'" "nc_alive c'"
    "written_to a (nc_channel c') = written_to a (nc_channel ?c) @ records (map message_text (addressed a posts))"
    using Cons.IH [of ?c] Cons.prems by auto
  ultimately show ?case
    using send p by (simp add: addressed_def records_def o_def)
qed

lemma message_readable:
  assumes "message_safe m" and "length (message_text m) < 2 ^ 32"
  shows "readable (message_text m) = [norm_message m]"
proof -
  have "serialize m = Some (record_of (message_text m))" using assms(2) by (simp add: serialize_def record_of_def)
  from message_roundtrip [OF assms(1) this] show ?thesis
    by (auto simp: readable_def host_deserialize_def deserialize_def split: sum.splits)
qed

section \<open>A thread that has ended\<close>

datatype native_client_event =
    NcSend "node list" network_message
  | NcTurn "string \<Rightarrow> bool" bool "string \<Rightarrow> bytes \<Rightarrow> nat"

fun native_client_run :: "native_client_event list \<Rightarrow> native_client \<Rightarrow> ((string \<times> bytes) list \<times> native_client) option" where
  "native_client_run [] c = Some ([], c)"
| "native_client_run (NcSend ns m # es) c = Option.bind (native_send_forget ns m c) (native_client_run es)"
| "native_client_run (NcTurn connect dummy write # es) c =
     (let (out, c1) = native_client_turn connect dummy write c in
      map_option (apfst (append out)) (native_client_run es c1))"

lemma dead_client_silent:
  "\<not> nc_alive c \<Longrightarrow> nc_channel c = [] \<Longrightarrow> native_client_run es c = Some (out, c') \<Longrightarrow> out = [] \<and> \<not> nc_alive c'"
proof (induction es arbitrary: c out c')
  case (Cons e es)
  show ?case
  proof (cases e)
    case (NcSend ns m)
    with Cons.prems have "native_client_run es c = Some (out, c')"
      by (auto simp: native_send_forget_def split: bind_splits)
    with Cons show ?thesis by blast
  next
    case (NcTurn connect dummy w)
    have "native_client_turn connect dummy w c = ([], c)"
      using Cons.prems(2) by (simp add: native_client_turn_def)
    with Cons.prems(3) NcTurn obtain out1 where "native_client_run es c = Some (out1, c')" "out = out1"
      by (auto simp: apfst_def map_prod_def)
    with Cons.IH [OF Cons.prems(1,2)] show ?thesis by blast
  qed
qed simp

lemma client_dies:
  assumes "nc_channel c = (a, bs) # rest" and "nc_alive c" and "a \<notin> set (nc_conns c)" and "\<not> connect a"
  shows "native_client_turn connect False write c = ([], c\<lparr>nc_alive := False, nc_channel := []\<rparr>)"
  using assms by (simp add: native_client_turn_def)

end
