(* ===== verification/Runner.thy ===== *)
theory Runner
  imports Delivery Coordinator_Runs
begin

text \<open>
  The runner (\<open>paxos-wasm/runners/runner/src/runner.rs\<close>): the loop of a node. A round asks the
  host for a command, sends a heartbeat and checks for failures when they are due, hands requests
  and messages from the two servers to the coordinator, ticks it and answers the clients. What the
  clock, the sockets and the host give in a round is an argument. What is only logged is left out,
  except for the throughput figures, which are results.
\<close>

section \<open>The demo client\<close>

record demo_client_helper =
  demo_id :: string
  demo_seq :: u64
  demo_start :: instant

definition demo_client_new :: "string \<Rightarrow> clock \<Rightarrow> nat \<Rightarrow> demo_client_helper" where
  "demo_client_new cid c delay = \<lparr>demo_id = cid, demo_seq = 0, demo_start = clk_now c + delay\<rparr>"

definition demo_request :: "demo_client_helper \<Rightarrow> paxos_value" where
  "demo_request d = \<lparr>command = Some Demo, client_id = demo_id d, client_seq = demo_seq d\<rparr>"

text \<open>The loop of \<open>send_if_ready\<close>, \<open>quota\<close> rounds at most.\<close>

fun demo_loop :: "nat \<Rightarrow> u64 \<Rightarrow> demo_client_helper \<Rightarrow> (coordinator, demo_client_helper) step" where
  "demo_loop 0 max_requests d = step_return d"
| "demo_loop (Suc quota) max_requests d =
     (if max_requests \<le> demo_seq d then step_return d
      else step_bind (co_submit_client_request (demo_request d))
             (\<lambda>_. demo_loop quota max_requests (d\<lparr>demo_seq := demo_seq d + 1\<rparr>)))"

definition send_if_ready ::
  "clock \<Rightarrow> u64 \<Rightarrow> u64 \<Rightarrow> demo_client_helper \<Rightarrow> (coordinator, demo_client_helper) step" where
  "send_if_ready c batch_quota max_requests d co =
     (if \<not> co_is_leader co \<or> clk_now c < demo_start d then step_return d co
      else demo_loop (unat batch_quota) max_requests d co)"

section \<open>Metrics\<close>

record metrics_helper =
  stats_batch :: nat
  batch_count :: nat
  batch_start :: "instant option"
  global_count :: nat
  global_start :: "instant option"
  last_response :: "instant option"
  idle_logged :: bool

definition metrics_new :: metrics_helper where
  "metrics_new = \<lparr>stats_batch = 1000, batch_count = 0, batch_start = None, global_count = 0, global_start = None,
     last_response = None, idle_logged = False\<rparr>"

text \<open>
  The figures that are logged: how many responses in which time. Reading a timer that was not set
  panics.
\<close>

definition track :: "clock \<Rightarrow> nat \<Rightarrow> metrics_helper \<Rightarrow> ((nat \<times> nat) option \<times> metrics_helper) option" where
  "track c n m =
     (let now = clk_now c;
          m1 = (if global_start m = None
                then m\<lparr>global_start := Some now, batch_start := Some now, batch_count := 0\<rparr> else m);
          new_batch = usize (batch_count m1 + n);
          m2 = m1\<lparr>batch_count := new_batch, global_count := usize (global_count m1 + n)\<rparr> in
      if stats_batch m \<le> new_batch then
        (case batch_start m2 of
           None \<Rightarrow> None
         | Some start \<Rightarrow> Some (Some (new_batch, now - start), m2\<lparr>batch_count := 0, batch_start := Some now\<rparr>))
      else Some (None, m2))"

definition flush_global :: "metrics_helper \<Rightarrow> ((nat \<times> nat) option \<times> metrics_helper) option" where
  "flush_global m =
     (if idle_logged m then Some (None, m)
      else
        (let m1 = m\<lparr>idle_logged := True\<rparr> in
         case global_start m1 of
           None \<Rightarrow> Some (None, m1)
         | Some start \<Rightarrow>
             if 0 < global_count m1 then
               (case last_response m1 of
                  None \<Rightarrow> None
                | Some latest \<Rightarrow> Some (Some (global_count m1, latest - start), m1))
             else Some (None, m1)))"

section \<open>State and input of a round\<close>

record runner =
  rn_node :: node
  rn_max_messages :: u64
  rn_config :: run_config
  rn_paxos :: coordinator
  rn_clients :: client_server
  rn_network :: net_server
  rn_stop :: bool
  rn_demo :: "demo_client_helper option"
  rn_metrics :: metrics_helper
  rn_last_heartbeat :: instant
  rn_last_check :: instant

datatype host_cmd = Shutdown

text \<open>The clock is read again in every part of a round, and for every message.\<close>

record round_input =
  in_command :: "host_cmd option"
  at_heartbeat :: clock
  at_check :: clock
  at_clients :: clock
  at_network :: "nat \<Rightarrow> clock"
  at_demo :: clock
  at_tick :: clock
  at_answer :: clock
  at_track :: clock
  at_end :: clock
  client_accepts :: nat
  client_order :: "u64 list"
  client_reads :: "u64 \<Rightarrow> bytes option"
  net_accepts :: nat
  net_order :: "u64 list"
  net_reads :: "u64 \<Rightarrow> bytes option"
  client_writes :: "u64 \<Rightarrow> bytes \<Rightarrow> bool"
  binds :: "string \<Rightarrow> bool"

text \<open>What leaves a node besides its messages.\<close>

record round_output =
  answered :: "(u64 \<times> bytes) list"
  throughput :: "(nat \<times> nat) option"
  final_throughput :: "(nat \<times> nat) option"
  sleeping :: nat

definition rn_paxos_step :: "(coordinator, 'a) step \<Rightarrow> (runner, 'a) step" where
  "rn_paxos_step m r = map_option (\<lambda>(x, out, co). (x, out, r\<lparr>rn_paxos := co\<rparr>)) (m (rn_paxos r))"

definition client_address :: "node \<Rightarrow> run_config \<Rightarrow> string" where
  "client_address n cfg = takeWhile (\<lambda>c. c \<noteq> CHR '':'') (address n) @ '':'' @ show_nat (unat (client_server_port cfg))"

section \<open>Parts of a round\<close>

definition handle_host_control :: "round_input \<Rightarrow> (runner, unit) step" where
  "handle_host_control i =
     step_update (\<lambda>r. case in_command i of None \<Rightarrow> r | Some Shutdown \<Rightarrow> r\<lparr>rn_stop := True\<rparr>)"

definition rn_send_heartbeat :: "round_input \<Rightarrow> (runner, unit) step" where
  "rn_send_heartbeat i r =
     (if \<not> heartbeats (rn_config r) then step_return () r
      else if from_millis (heartbeat_interval_ms (rn_config r)) \<le> clk_now (at_heartbeat i) - rn_last_heartbeat r
      then step_bind (rn_paxos_step co_send_heartbeat)
             (\<lambda>_. step_update (\<lambda>r. r\<lparr>rn_last_heartbeat := clk_now (at_heartbeat i)\<rparr>)) r
      else step_return () r)"

text \<open>A new leader opens its server for clients.\<close>

definition open_clients :: "round_input \<Rightarrow> u64 \<Rightarrow> (runner, unit) step" where
  "open_clients i leader r =
     (case role (rn_node r) of
        Client \<Rightarrow> None
      | rl \<Rightarrow>
          if (rl = Proposer \<or> rl = Coordinator) \<and> leader = node_id (rn_node r)
          then map_option (\<lambda>s. ((), [], r\<lparr>rn_clients := s\<rparr>))
                 (setup_listener (binds i (client_address (rn_node r) (rn_config r))) (rn_clients r))
          else step_return () r)"

definition failure_check :: "environment \<Rightarrow> round_input \<Rightarrow> (runner, unit) step" where
  "failure_check env i r =
     (if \<not> heartbeats (rn_config r) then step_return () r
      else if clk_now (at_check i) - rn_last_check r < from_millis (heartbeat_interval_ms (rn_config r) * 5)
      then step_return () r
      else
        step_bind (step_update (\<lambda>r. r\<lparr>rn_last_check := clk_now (at_check i)\<rparr>)) (\<lambda>_.
        step_bind (rn_paxos_step (co_failure_service env (at_check i))) (\<lambda>res.
          case res of None \<Rightarrow> step_return () | Some leader \<Rightarrow> open_clients i leader)) r)"

definition start_timers :: "clock \<Rightarrow> metrics_helper \<Rightarrow> metrics_helper" where
  "start_timers c m =
     m\<lparr>global_start := (if global_start m = None then Some (clk_now c) else global_start m),
       batch_start := (if batch_start m = None then Some (clk_now c) else batch_start m)\<rparr>"

definition process_clients :: "round_input \<Rightarrow> (runner, unit) step" where
  "process_clients i r =
     (if \<not> co_is_leader (rn_paxos r) then step_return () r
      else
        (case get_requests (rn_max_messages r) (client_accepts i) (client_order i) (client_reads i) (rn_clients r) of
           None \<Rightarrow> None
         | Some (vs, s) \<Rightarrow>
             step_each (\<lambda>v. step_bind (rn_paxos_step (co_submit_client_request v)) (\<lambda>_. step_return ())) vs
               (r\<lparr>rn_clients := s,
                  rn_metrics := (if vs = [] then rn_metrics r else start_timers (at_clients i) (rn_metrics r))\<rparr>)))"

definition process_network :: "environment \<Rightarrow> round_input \<Rightarrow> (runner, unit) step" where
  "process_network env i r =
     (case get_messages (rn_max_messages r) (net_accepts i) (net_order i) (net_reads i) (rn_network r) of
        None \<Rightarrow> None
      | Some (ms, s) \<Rightarrow>
          step_each (\<lambda>(k, m). step_bind (rn_paxos_step (co_handle_message env (at_network i k) m)) (\<lambda>_. step_return ()))
            (enumerate 0 ms)
            (r\<lparr>rn_network := s\<rparr>))"

definition run_demo :: "round_input \<Rightarrow> (runner, unit) step" where
  "run_demo i r =
     (case rn_demo r of
        None \<Rightarrow> step_return () r
      | Some d \<Rightarrow>
          step_bind (rn_paxos_step (send_if_ready (at_demo i) (batch_size (rn_config r)) (demo_client_requests (rn_config r)) d))
            (\<lambda>d'. step_update (\<lambda>r. r\<lparr>rn_demo := Some d'\<rparr>)) r)"

definition dispatch_responses ::
  "round_input \<Rightarrow> client_response list \<Rightarrow> (runner, (u64 \<times> bytes) list \<times> (nat \<times> nat) option) step" where
  "dispatch_responses i rs r =
     (if \<not> co_is_leader (rn_paxos r) then step_return ([], None) r
      else
        (let m = (rn_metrics r)\<lparr>last_response := Some (clk_now (at_answer i)), idle_logged := False\<rparr> in
         case send_responses (client_writes i) (rn_node r) rs (rn_clients r) of
           None \<Rightarrow> None
         | Some (sent, s) \<Rightarrow>
             (case track (at_track i) (length rs) m of
                None \<Rightarrow> None
              | Some (report, m') \<Rightarrow> Some ((sent, report), [], r\<lparr>rn_clients := s, rn_metrics := m'\<rparr>))))"

definition report_idle :: "round_input \<Rightarrow> (runner, (nat \<times> nat) option) step" where
  "report_idle i r =
     (case last_response (rn_metrics r) of
        None \<Rightarrow> step_return None r
      | Some latest \<Rightarrow>
          if 10 ^ 9 \<le> clk_now (at_end i) - latest \<and> \<not> idle_logged (rn_metrics r)
          then map_option (\<lambda>(report, m). (report, [], r\<lparr>rn_metrics := m\<rparr>)) (flush_global (rn_metrics r))
          else step_return None r)"

section \<open>Construction and the loop\<close>

definition runner_new ::
  "environment \<Rightarrow> clock \<Rightarrow> (string \<Rightarrow> bool) \<Rightarrow> node \<Rightarrow> node list \<Rightarrow> bool \<Rightarrow> run_config \<Rightarrow>
   storage \<Rightarrow> storage \<Rightarrow> storage \<Rightarrow> runner option" where
  "runner_new env c bind n nodes leader cfg pdisk adisk ldisk =
     (case coordinator_new env c n nodes leader cfg pdisk adisk ldisk of
        None \<Rightarrow> None
      | Some co \<Rightarrow>
          (case (if leader then setup_listener (bind (client_address n cfg)) client_server_new
                 else Some client_server_new) of
             None \<Rightarrow> None
           | Some clients \<Rightarrow>
               (case setup_listener (bind (address n)) net_server_new of
                  None \<Rightarrow> None
                | Some net \<Rightarrow>
                    Some \<lparr>rn_node = n, rn_max_messages = batch_size cfg * of_nat (length nodes), rn_config = cfg,
                      rn_paxos = co, rn_clients = clients, rn_network = net, rn_stop = False,
                      rn_demo = (if demo_client cfg
                        then Some (demo_client_new (''client-'' @ show_u64 (node_id n)) c (3 * 10 ^ 9)) else None),
                      rn_metrics = metrics_new, rn_last_heartbeat = clk_now c, rn_last_check = clk_now c\<rparr>)))"

text \<open>The next tick is \<open>tick_micros\<close> after the last one; the loop sleeps until then.\<close>

definition tick_duration :: "run_config \<Rightarrow> nat" where
  "tick_duration cfg = 1000 * unat (tick_micros cfg)"

definition run_round :: "environment \<Rightarrow> instant \<Rightarrow> round_input \<Rightarrow> (runner, round_output) step" where
  "run_round env next_tick i =
     step_bind (handle_host_control i) (\<lambda>_.
     step_bind (rn_send_heartbeat i) (\<lambda>_.
     step_bind (failure_check env i) (\<lambda>_.
     step_bind (process_clients i) (\<lambda>_.
     step_bind (process_network env i) (\<lambda>_.
     step_bind (run_demo i) (\<lambda>_.
     step_bind (rn_paxos_step (co_handle_tick env (at_tick i))) (\<lambda>res.
     step_bind (case res of None \<Rightarrow> step_return ([], None) | Some rs \<Rightarrow> dispatch_responses i rs) (\<lambda>(sent, report).
     step_bind (report_idle i) (\<lambda>final.
     step_return \<lparr>answered = sent, throughput = report, final_throughput = final,
       sleeping = next_tick - clk_now (at_end i)\<rparr>)))))))))"

text \<open>The loop, for as many rounds as there are inputs; it ends earlier when it was told to stop.\<close>

fun run_rounds :: "environment \<Rightarrow> instant \<Rightarrow> round_input list \<Rightarrow> (runner, round_output list) step" where
  "run_rounds env next_tick [] = step_return []"
| "run_rounds env next_tick (i # is) = (\<lambda>r.
     if rn_stop r then step_return [] r
     else
       (let later = next_tick + tick_duration (rn_config r) in
        step_bind (run_round env later i) (\<lambda>out.
        step_bind (run_rounds env later is) (\<lambda>outs. step_return (out # outs))) r))"

declare run_rounds.simps(2) [simp del]

end
