(* ===== verification/Supervisor.thy ===== *)
theory Supervisor
  imports Runner
begin

text \<open>
  What the host does with a running node (\<open>runner-ws/src/run.rs\<close>,
  \<open>runner-ws/src/host_control.rs\<close>): a builder keeps an instance ready, a monitor asks a node
  that no longer pings to stop, and the main loop starts another instance after a failure, until
  there have been five. Times are nanoseconds; what the outside does (how an instance ends, when
  a task wakes up) is an argument.
\<close>

definition max_retries :: nat where
  "max_retries = 5"

definition total_timeout_intervals :: u64 where "total_timeout_intervals = 9"
definition grace_intervals :: u64 where "grace_intervals = 2"
definition shutdown_timeout_intervals :: u64 where
  "shutdown_timeout_intervals = total_timeout_intervals - grace_intervals"

section \<open>Host control\<close>

record host_control =
  command_slot :: "host_cmd option"
  first_ping :: "instant option"
  last_ping :: "instant option"
  ping_count :: u64

definition host_control_new :: host_control where
  "host_control_new = \<lparr>command_slot = None, first_ping = None, last_ping = None, ping_count = 0\<rparr>"

definition record_ping :: "instant \<Rightarrow> host_control \<Rightarrow> host_control" where
  "record_ping now h =
     h\<lparr>first_ping := (case first_ping h of None \<Rightarrow> Some now | Some t \<Rightarrow> Some t),
       ping_count := ping_count h + 1, last_ping := Some now\<rparr>"

definition last_ping_time :: "host_control \<Rightarrow> instant option" where
  "last_ping_time h = last_ping h"

definition hc_get_command :: "host_control \<Rightarrow> host_cmd option \<times> host_control" where
  "hc_get_command h = (command_slot h, h\<lparr>command_slot := None\<rparr>)"

definition request_shutdown :: "host_control \<Rightarrow> host_control" where
  "request_shutdown h = h\<lparr>command_slot := Some Shutdown\<rparr>"

section \<open>The monitor\<close>

text \<open>
  The monitor first waits for a ping and then looks at every wake-up whether the last one is too
  old; \<open>pinged\<close> says that it has left the first loop. After the first loop it sleeps before it
  looks. The result says whether it has asked for the shutdown.
\<close>

record monitor =
  mo_pinged :: bool
  mo_fired :: bool

definition monitor_new :: monitor where
  "monitor_new = \<lparr>mo_pinged = False, mo_fired = False\<rparr>"

definition as_millis :: "duration \<Rightarrow> u64" where
  "as_millis d = of_nat (d div 1000000)"

definition shutdown_threshold :: "u64 \<Rightarrow> u64" where
  "shutdown_threshold heartbeat_ms = saturating_mul heartbeat_ms shutdown_timeout_intervals"

definition monitor_wake :: "u64 \<Rightarrow> instant \<Rightarrow> monitor \<times> host_control \<Rightarrow> monitor \<times> host_control" where
  "monitor_wake heartbeat_ms now mh =
     (case mh of (m, h) \<Rightarrow>
        if mo_fired m then (m, h)
        else if \<not> mo_pinged m then (if last_ping_time h = None then (m, h) else (m\<lparr>mo_pinged := True\<rparr>, h))
        else (case last_ping_time h of
            None \<Rightarrow> (m, h)
          | Some ts \<Rightarrow>
              if shutdown_threshold heartbeat_ms < as_millis (now - ts)
              then (m\<lparr>mo_fired := True\<rparr>, request_shutdown h) else (m, h)))"

section \<open>The builder\<close>

text \<open>One turn: whether the channel has room, and whether an instance can be built.\<close>

record builder =
  bd_ready :: nat
  bd_retries :: nat
  bd_running :: bool

definition builder_new :: builder where
  "builder_new = \<lparr>bd_ready = 0, bd_retries = 0, bd_running = True\<rparr>"

definition builder_turn :: "bool \<Rightarrow> builder \<Rightarrow> builder" where
  "builder_turn built b =
     (if \<not> bd_running b \<or> 1 \<le> bd_ready b then b
      else if built then b\<lparr>bd_ready := bd_ready b + 1, bd_retries := 0\<rparr>
      else (let b1 = b\<lparr>bd_retries := bd_retries b + 1\<rparr> in
            if max_retries \<le> bd_retries b1 then b1\<lparr>bd_running := False\<rparr> else b1))"

section \<open>The main loop\<close>

text \<open>How an instance ends: by itself, with an error, with a panic, or asked by the monitor.\<close>

datatype ending = Clean | RunFailed | RunPanicked | Unresponsive

datatype supervising = Supervising | GivenUp | ChannelClosed

record supervisor =
  sv_node :: node
  sv_others :: "node list"
  sv_is_leader :: bool
  sv_config :: run_config
  sv_retries :: nat
  sv_status :: supervising

definition supervisor_new :: "node \<Rightarrow> node list \<Rightarrow> bool \<Rightarrow> run_config \<Rightarrow> supervisor" where
  "supervisor_new n others leader cfg =
     \<lparr>sv_node = n, sv_others = others, sv_is_leader = leader, sv_config = cfg, sv_retries = 0, sv_status = Supervising\<rparr>"

text \<open>What an instance is started with.\<close>

definition instance_args :: "supervisor \<Rightarrow> node \<times> node list \<times> bool \<times> run_config" where
  "instance_args sv = (sv_node sv, sv_others sv, sv_is_leader sv, sv_config sv)"

text \<open>The first entry for the node loses its first slot, if there is one.\<close>

fun drop_crash :: "u64 \<Rightarrow> u64 list list \<Rightarrow> u64 list list" where
  "drop_crash i [] = []"
| "drop_crash i ([] # es) = [] # drop_crash i es"
| "drop_crash i ((x # xs) # es) = (if x = i then (x # tl xs) # es else (x # xs) # drop_crash i es)"

definition after_instance :: "ending \<Rightarrow> supervisor \<Rightarrow> supervisor" where
  "after_instance e sv =
     (case e of
        Clean \<Rightarrow> sv
      | _ \<Rightarrow>
          (let sv1 = sv\<lparr>sv_retries := sv_retries sv + 1\<rparr> in
           if max_retries \<le> sv_retries sv1 then sv1\<lparr>sv_status := GivenUp\<rparr>
           else sv1\<lparr>sv_config := (sv_config sv1)\<lparr>crashes := drop_crash (node_id (sv_node sv1)) (crashes (sv_config sv1))\<rparr>\<rparr>))"

text \<open>A turn of the loop; \<open>None\<close> from the channel ends it.\<close>

definition supervise :: "ending option \<Rightarrow> supervisor \<Rightarrow> supervisor" where
  "supervise e sv =
     (if sv_status sv \<noteq> Supervising then sv
      else case e of None \<Rightarrow> sv\<lparr>sv_status := ChannelClosed\<rparr> | Some e \<Rightarrow> after_instance e sv)"

section \<open>The builder and the main loop stop\<close>

definition failures :: "ending option list \<Rightarrow> nat" where
  "failures es = length (filter (\<lambda>e. e \<noteq> None \<and> e \<noteq> Some Clean) es)"

lemma failures_simps [simp]:
  "failures [] = 0" "failures (e # es) = (if e \<noteq> None \<and> e \<noteq> Some Clean then Suc (failures es) else failures es)"
  by (simp_all add: failures_def)

lemma after_instance_simps:
  "e \<noteq> Clean \<Longrightarrow> sv_retries (after_instance e sv) = sv_retries sv + 1"
  "e \<noteq> Clean \<Longrightarrow> sv_status (after_instance e sv) = (if sv_retries sv + 1 < max_retries then sv_status sv else GivenUp)"
  "e \<noteq> Clean \<Longrightarrow> sv_retries sv + 1 < max_retries \<Longrightarrow> crashes (sv_config (after_instance e sv)) =
     drop_crash (node_id (sv_node sv)) (crashes (sv_config sv))"
  "sv_node (after_instance e sv) = sv_node sv" "sv_others (after_instance e sv) = sv_others sv"
  "sv_is_leader (after_instance e sv) = sv_is_leader sv"
  by (cases e; simp add: after_instance_def Let_def)+

lemma supervise_stopped: "sv_status sv \<noteq> Supervising \<Longrightarrow> fold supervise es sv = sv"
  by (induction es) (simp_all add: supervise_def)

text \<open>As long as the builder delivers, the loop counts the failures, and gives up at the fifth.\<close>

lemma supervise_counts:
  assumes "None \<notin> set es" and "sv_status sv = Supervising" and "sv_retries sv < max_retries"
  shows "let sv' = fold supervise es sv in
    sv_retries sv' = min max_retries (sv_retries sv + failures es) \<and>
    sv_status sv' = (if sv_retries sv + failures es < max_retries then Supervising else GivenUp)"
  using assms
proof (induction es arbitrary: sv)
  case (Cons e es)
  then obtain x where e: "e = Some x" by (cases e) auto
  show ?case
  proof (cases "x = Clean")
    case True
    with Cons e show ?thesis by (simp add: supervise_def after_instance_def)
  next
    case False
    let ?sv = "after_instance x sv"
    have sv: "supervise e sv = ?sv" using Cons.prems(2) e by (simp add: supervise_def)
    show ?thesis
    proof (cases "sv_retries sv + 1 < max_retries")
      case True
      with Cons.IH [of ?sv] Cons.prems False sv e show ?thesis
        by (simp add: after_instance_simps Let_def)
    next
      case stop: False
      then have "fold supervise es ?sv = ?sv"
        using False by (intro supervise_stopped) (simp add: after_instance_simps)
      with False sv e stop Cons.prems(3) show ?thesis by (simp add: after_instance_simps)
    qed
  qed
qed (simp add: min_def)

section \<open>Crash lists\<close>

lemma drop_crash_find:
  "find_crashes i cs = Some xs \<Longrightarrow> find_crashes i (drop_crash i cs) = Some (tl xs)"
  by (induction i cs rule: find_crashes.induct) (auto split: if_splits)

text \<open>Each failure that is followed by a new instance uses up one slot of the node's crash list.\<close>

lemma supervise_crashes:
  assumes "None \<notin> set es" and "sv_status sv = Supervising" and "sv_retries sv + failures es < max_retries"
    and "find_crashes (node_id (sv_node sv)) (crashes (sv_config sv)) = Some xs"
  shows "find_crashes (node_id (sv_node sv)) (crashes (sv_config (fold supervise es sv))) = Some (drop (failures es) xs)"
  using assms
proof (induction es arbitrary: sv xs)
  case (Cons e es)
  then obtain x where e: "e = Some x" by (cases e) auto
  show ?case
  proof (cases "x = Clean")
    case True
    with Cons e show ?thesis by (simp add: supervise_def after_instance_def)
  next
    case False
    let ?sv = "after_instance x sv"
    have "supervise e sv = ?sv" using Cons.prems(2) e by (simp add: supervise_def)
    moreover have "find_crashes (node_id (sv_node ?sv)) (crashes (sv_config ?sv)) = Some (tl xs)"
      using Cons.prems(3,4) False e by (simp add: after_instance_simps drop_crash_find)
    ultimately show ?thesis
      using Cons.IH [of ?sv "tl xs"] Cons.prems False e by (simp add: after_instance_simps drop_Suc)
  qed
qed simp

lemma supervise_same:
  "sv_node (fold supervise es sv) = sv_node sv \<and> sv_others (fold supervise es sv) = sv_others sv \<and>
   sv_is_leader (fold supervise es sv) = sv_is_leader sv"
proof (induction es arbitrary: sv)
  case (Cons e es)
  have "sv_node (supervise e sv) = sv_node sv \<and> sv_others (supervise e sv) = sv_others sv \<and>
      sv_is_leader (supervise e sv) = sv_is_leader sv"
    by (simp add: supervise_def after_instance_simps split: option.split)
  with Cons show ?case by simp
qed simp

section \<open>When the monitor fires\<close>

datatype monitor_event = Pinged instant | Woke instant

fun monitor_event_step :: "u64 \<Rightarrow> monitor_event \<Rightarrow> monitor \<times> host_control \<Rightarrow> monitor \<times> host_control" where
  "monitor_event_step hb (Pinged t) mh = apsnd (record_ping t) mh"
| "monitor_event_step hb (Woke t) mh = monitor_wake hb t mh"

definition monitor_run :: "u64 \<Rightarrow> monitor_event list \<Rightarrow> monitor \<times> host_control" where
  "monitor_run hb es = fold (monitor_event_step hb) es (monitor_new, host_control_new)"

definition pings :: "monitor_event list \<Rightarrow> instant list" where
  "pings es = List.map_filter (\<lambda>e. case e of Pinged t \<Rightarrow> Some t | Woke _ \<Rightarrow> None) es"

lemma pings_simps [simp]:
  "pings [] = []" "pings (es @ [Pinged t]) = pings es @ [t]" "pings (es @ [Woke t]) = pings es"
  by (simp_all add: pings_def map_filter_def)

text \<open>The monitor has seen a ping at an earlier wake-up.\<close>

definition watching :: "monitor_event list \<Rightarrow> bool" where
  "watching es \<longleftrightarrow> (\<exists>n < length es. (\<exists>t. es ! n = Woke t) \<and> pings (take n es) \<noteq> [])"

text \<open>At some wake-up of a watching monitor, the last ping was older than the threshold.\<close>

definition overdue :: "u64 \<Rightarrow> monitor_event list \<Rightarrow> bool" where
  "overdue hb es \<longleftrightarrow> (\<exists>n < length es. \<exists>t. es ! n = Woke t \<and> watching (take n es) \<and> pings (take n es) \<noteq> [] \<and>
     shutdown_threshold hb < as_millis (t - last (pings (take n es))))"

lemma ex_less_snoc:
  "(\<exists>n < length (es @ [e]). P ((es @ [e]) ! n) (take n (es @ [e]))) \<longleftrightarrow>
   (\<exists>n < length es. P (es ! n) (take n es)) \<or> P e es"
proof -
  have "(\<exists>n < length (es @ [e]). P ((es @ [e]) ! n) (take n (es @ [e]))) \<longleftrightarrow>
      (\<exists>n < length es. P ((es @ [e]) ! n) (take n (es @ [e]))) \<or> P e es"
    by (simp add: less_Suc_eq ex_disj_distrib conj_disj_distribR)
  also have "(\<exists>n < length es. P ((es @ [e]) ! n) (take n (es @ [e]))) \<longleftrightarrow> (\<exists>n < length es. P (es ! n) (take n es))"
    by (simp add: nth_append cong: conj_cong)
  finally show ?thesis .
qed

lemma watching_snoc [simp]:
  "\<not> watching []" "watching (es @ [Pinged t]) = watching es" "watching (es @ [Woke t]) \<longleftrightarrow> watching es \<or> pings es \<noteq> []"
  using ex_less_snoc [where P = "\<lambda>e pre. (\<exists>t. e = Woke t) \<and> pings pre \<noteq> []"]
  by (simp_all add: watching_def)

lemma overdue_snoc [simp]:
  "\<not> overdue hb []" "overdue hb (es @ [Pinged t]) = overdue hb es"
  "overdue hb (es @ [Woke t]) \<longleftrightarrow> overdue hb es \<or>
     (watching es \<and> pings es \<noteq> [] \<and> shutdown_threshold hb < as_millis (t - last (pings es)))"
  using ex_less_snoc [where P = "\<lambda>e pre. \<exists>t. e = Woke t \<and> watching pre \<and> pings pre \<noteq> [] \<and>
     shutdown_threshold hb < as_millis (t - last (pings pre))"]
  by (simp_all add: overdue_def)

lemma monitor_run_snoc: "monitor_run hb (es @ [e]) = monitor_event_step hb e (monitor_run hb es)"
  by (simp add: monitor_run_def)

lemma overdue_watching: "overdue hb es \<Longrightarrow> watching es"
proof (induction es rule: rev_induct)
  case (snoc e es)
  then show ?case by (cases e) auto
qed simp

lemma monitor_run_state:
  "last_ping (snd (monitor_run hb es)) = (if pings es = [] then None else Some (last (pings es))) \<and>
   mo_pinged (fst (monitor_run hb es)) = watching es \<and> mo_fired (fst (monitor_run hb es)) = overdue hb es \<and>
   (command_slot (snd (monitor_run hb es)) = Some Shutdown) = overdue hb es"
proof (induction es rule: rev_induct)
  case Nil
  then show ?case by (simp add: monitor_run_def monitor_new_def host_control_new_def)
next
  case (snoc e es)
  obtain m h where mh: "monitor_run hb es = (m, h)" by fastforce
  show ?case
  proof (cases e)
    case (Pinged t)
    with snoc mh show ?thesis by (simp add: monitor_run_snoc record_ping_def)
  next
    case (Woke t)
    with snoc mh show ?thesis
      by (auto simp: monitor_run_snoc monitor_wake_def last_ping_time_def request_shutdown_def
          dest: overdue_watching split: option.splits)
  qed
qed

end
