(* ===== verification/Samples.thy ===== *)
theory Samples
  imports Consensus Failure_Detector Wire Coordinator_Leader Delivery
begin

text \<open>
  Concrete data for the witnesses: the configuration of \<open>runner-ws/src/config.yaml\<close> with
  the fields that matter left open, a few nodes and values, and two encodings that stand for
  \<open>bincode\<close>.
\<close>

definition sample_config :: "bool \<Rightarrow> u64 \<Rightarrow> u64 \<Rightarrow> run_config" where
  "sample_config persistent flush_count interval =
     \<lparr>is_event_driven = True, acceptors_send_learns = True, learners_send_executed = True,
      prepare_timeout = 100, demo_client = False, demo_client_requests = 100000, batch_size = 20,
      tick_micros = 100, exec_interval_ms = 100, retry_interval_ms = 100, learn_max_gap = 50,
      message_batch_size = 20, client_server_port = 60000, persistent_storage = persistent,
      heartbeats = True, heartbeat_interval_ms = 100, crashes = [],
      storage_load_snapshots = 99999999, storage_max_snapshots = 1,
      storage_flush_state_count = 100, storage_flush_state_interval_ms = 500,
      storage_flush_change_count = flush_count, storage_flush_change_interval_ms = 1000,
      storage_snapshot_slot_interval = interval\<rparr>"

definition clk :: clock where
  "clk = \<lparr>clk_now = 0, clk_timestamp = ''2025-05-20''\<rparr>"

definition empty_disk :: storage where
  "empty_disk = \<lparr>st_key = '''', st_max_snapshots = 0, linked = False, snapshot_files = [],
     changelog_file = [], changelog_buf = [], state_data = [], faults = []\<rparr>"

definition hash0 :: "string \<Rightarrow> u64" where
  "hash0 s = 0"

definition set_value :: "string \<Rightarrow> string \<Rightarrow> u64 \<Rightarrow> paxos_value" where
  "set_value k v n = \<lparr>command = Some (Set \<lparr>kv_key = k, kv_value = v\<rparr>), client_id = ''c'', client_seq = n\<rparr>"

definition val_a :: paxos_value where "val_a = set_value ''x'' ''a'' 1"

definition val_b :: paxos_value where "val_b = set_value ''x'' ''b'' 2"

definition mk_node :: "u64 \<Rightarrow> paxos_role \<Rightarrow> node" where
  "mk_node i r = \<lparr>node_id = i, address = ''127.0.0.1:50051'', role = r\<rparr>"

lemma mk_node_simps [simp]: "node_id (mk_node i r) = i" "role (mk_node i r) = r"
  by (simp_all add: mk_node_def)

text \<open>Ballots in unary, each closed by a zero.\<close>

fun unary_dec :: "nat \<Rightarrow> bytes \<Rightarrow> ballot list" where
  "unary_dec n [] = []"
| "unary_dec n (c # cs) = (if c = CHR ''1'' then unary_dec (Suc n) cs else of_nat n # unary_dec 0 cs)"

definition unary_codec :: "ballot list codec" where
  "unary_codec = \<lparr>enc = (\<lambda>ps. Inr (concat (map (\<lambda>b. replicate (unat b) CHR ''1'' @ ''0'') ps))),
     dec = (\<lambda>b. Inr (unary_dec 0 b))\<rparr>"

lemma unary_dec_replicate:
  "unary_dec n (replicate k CHR ''1'' @ CHR ''0'' # cs) = of_nat (n + k) # unary_dec 0 cs"
  by (induction k arbitrary: n) (simp_all flip: of_nat_Suc of_nat_add)

lemma unary_codec_ok: "codec_ok unary_codec ps"
proof -
  have "unary_dec 0 (concat (map (\<lambda>b. replicate (unat b) CHR ''1'' @ ''0'') ps)) = ps"
    by (induction ps) (simp_all add: unary_dec_replicate)
  then show ?thesis by (simp add: codec_ok_def unary_codec_def)
qed

text \<open>An encoding of finitely many values by their position in a table.\<close>

definition table_codec :: "'a list \<Rightarrow> 'a codec" where
  "table_codec xs =
     \<lparr>enc = (\<lambda>x. if x \<in> set xs then Inr [char_of (length (takeWhile (\<lambda>y. y \<noteq> x) xs))] else Inl ''unknown''),
      dec = (\<lambda>b. case b of
          [c] \<Rightarrow> if of_char c < length xs then Inr (xs ! of_char c) else Inl ''unknown''
        | _ \<Rightarrow> Inl ''unexpected end'')\<rparr>"

definition acceptor_codec0 :: acceptor_codec where
  "acceptor_codec0 = \<lparr>promises_codec = unary_codec,
     snapshot_codec = table_codec [[], [(1, new_pv 1 1 val_a)], [(2, new_pv 2 1 val_a)], [(3, new_pv 3 1 val_b)]],
     change_codec = table_codec [new_pv 1 1 val_a, new_pv 2 1 val_a, new_pv 3 1 val_b]\<rparr>"

definition learner_codec0 :: learner_codec where
  "learner_codec0 = \<lparr>lr_snapshot_codec = table_codec [(0, [])],
     lr_change_codec = table_codec [\<lparr>le_slot = 1, le_value = val_a\<rparr>, \<lparr>le_slot = 2, le_value = val_b\<rparr>]\<rparr>"

definition proposer_codec0 :: proposer_codec where
  "proposer_codec0 = table_codec [(4, 0), (7, 0)]"

definition sample_acceptor :: "bool \<Rightarrow> u64 \<Rightarrow> u64 \<Rightarrow> acceptor" where
  "sample_acceptor persistent flush_count interval =
     the (acceptor_new hash0 clk ''1'' (sample_config persistent flush_count interval) empty_disk)"

definition sample_acceptor_agent :: "u64 \<Rightarrow> acceptor_agent" where
  "sample_acceptor_agent i = the (acceptor_agent_new hash0 acceptor_codec0 clk (mk_node i Acceptor)
     [mk_node 4 Learner, mk_node 5 Proposer] (sample_config False 500 10000) empty_disk)"

definition sample_learner_agent :: learner_agent where
  "sample_learner_agent = the (learner_agent_new hash0 learner_codec0 clk (mk_node 4 Learner)
     [mk_node 1 Acceptor, mk_node 2 Acceptor, mk_node 3 Acceptor, mk_node 5 Proposer]
     (sample_config False 500 10000) empty_disk)"

definition sample_system :: system where
  "sample_system = \<lparr>sys_acceptor = sample_acceptor_agent, sys_learner = (\<lambda>_. sample_learner_agent),
     sys_net = {}\<rparr>"

definition sample_proposer :: proposer where
  "sample_proposer = proposer_new clk True 3 1 ''5'' (sample_config False 500 10000) empty_disk"

lemma sample_acceptor_agent_initial: "initial_acceptor i (sample_acceptor_agent i)"
proof -
  obtain ag where new: "acceptor_agent_new hash0 acceptor_codec0 clk (mk_node i Acceptor)
     [mk_node 4 Learner, mk_node 5 Proposer] (sample_config False 500 10000) empty_disk = Some ag"
    by (simp add: acceptor_agent_new_def acceptor_new_def acceptor_helper_new_def sh_new_def sample_config_def)
  from initial_acceptor_new [OF new] have "initial_acceptor (node_id (mk_node i Acceptor)) ag"
    by (simp add: sample_config_def)
  with new show ?thesis by (simp add: sample_acceptor_agent_def mk_node_def)
qed

lemma sample_learner_agent_initial: "initial_learner {1, 2, 3} sample_learner_agent"
proof -
  obtain ag where new: "learner_agent_new hash0 learner_codec0 clk (mk_node 4 Learner)
     [mk_node 1 Acceptor, mk_node 2 Acceptor, mk_node 3 Acceptor, mk_node 5 Proposer]
     (sample_config False 500 10000) empty_disk = Some ag"
    by (simp add: learner_agent_new_def learner_new_def sh_new_def sample_config_def Let_def)
  from learner_agent_new_ok(1) [OF new] have "replica ag []" by (simp add: sample_config_def)
  moreover have "la_config ag = sample_config False 500 10000" "learned (la_learner ag) = []"
    "slot_learns (la_learner ag) = []" "lr_num_acceptors (la_learner ag) = 3"
    using new by (auto simp: learner_agent_new_def learner_new_def sh_new_def sample_config_def Let_def
        learner_load_state_def load_and_replay_state_def la_is_acceptor_role_def mk_node_def)
  ultimately show ?thesis
    using new by (simp add: initial_learner_def sample_learner_agent_def sample_config_def)
qed

lemma sample_system_initial: "initial_system {1, 2, 3} sample_system"
  by (simp add: initial_system_def sample_system_def sample_acceptor_agent_initial
      sample_learner_agent_initial)

section \<open>Sample runs\<close>

definition accept_msg :: "slot \<Rightarrow> ballot \<Rightarrow> paxos_value \<Rightarrow> network_message" where
  "accept_msg s b v = \<lparr>sender = mk_node 5 Proposer,
     payload = AcceptMsg \<lparr>acc_slot = s, acc_ballot = b, acc_value = v\<rparr>\<rparr>"

definition learn_msg :: "u64 \<Rightarrow> slot \<Rightarrow> paxos_value \<Rightarrow> network_message" where
  "learn_msg i s v = \<lparr>sender = mk_node i Acceptor, payload = LearnMsg \<lparr>ln_slot = s, ln_value = v\<rparr>\<rparr>"

definition retry_msg :: "slot \<Rightarrow> network_message" where
  "retry_msg s = \<lparr>sender = mk_node 4 Learner, payload = RetryLearnsMsg \<lparr>retry_slots = [s]\<rparr>\<rparr>"

text \<open>Two acceptors accept \<open>val_a\<close> in slot 1, and learners 0 and 1 hear of it from both.\<close>

definition run_accepts :: system where
  "run_accepts = acceptor_receives acceptor_codec0 clk 2 (accept_msg 1 1 val_a)
     (acceptor_receives acceptor_codec0 clk 1 (accept_msg 1 1 val_a) sample_system)"

definition run_learns :: system where
  "run_learns = learner_receives learner_codec0 clk 0 (learn_msg 2 1 val_a)
     (learner_receives learner_codec0 clk 0 (learn_msg 1 1 val_a)
     (learner_receives learner_codec0 clk 1 (learn_msg 2 1 val_a)
     (learner_receives learner_codec0 clk 1 (learn_msg 1 1 val_a) run_accepts)))"

text \<open>
  The same with retries: acceptor 1 accepts \<open>val_a\<close>, acceptors 2 and 3 answer a retry for
  the slot, acceptor 2 then accepts \<open>val_a\<close> too. Learner 0 hears the answers to the
  retry, learner 1 hears of the accepts.
\<close>

definition run_retry :: system where
  "run_retry =
     acceptor_receives acceptor_codec0 clk 2 (accept_msg 1 1 val_a)
     (acceptor_receives acceptor_codec0 clk 3 (retry_msg 1)
     (acceptor_receives acceptor_codec0 clk 2 (retry_msg 1)
     (acceptor_receives acceptor_codec0 clk 1 (accept_msg 1 1 val_a) sample_system)))"

definition run_split :: system where
  "run_split =
     learner_receives learner_codec0 clk 1 (learn_msg 2 1 val_a)
     (learner_receives learner_codec0 clk 1 (learn_msg 1 1 val_a)
     (learner_receives learner_codec0 clk 0 (learn_msg 3 1 noop_value)
     (learner_receives learner_codec0 clk 0 (learn_msg 2 1 noop_value) run_retry)))"

lemma learner_receives_net [simp]: "sys_net (learner_receives cd c j m sys) = sys_net sys"
  by (simp add: learner_receives_def)

text \<open>What the handlers do in these runs, on agents without storage.\<close>

lemma aa_accepts:
  assumes "initial_acceptor i ag" and "is_event_driven (aa_config ag)" "acceptors_send_learns (aa_config ag)"
  shows "aa_handle_message cd c (accept_msg s b v) ag =
    (aa_message ag (AcceptedMsg \<lparr>ad_slot = s, ad_ballot = b, ad_success = True\<rparr>),
     [(aa_learners ag, aa_message ag (LearnMsg \<lparr>ln_slot = s, ln_value = v\<rparr>))],
     ag\<lparr>aa_acceptor := (aa_acceptor ag)\<lparr>accepted_map := [(s, new_pv s b v)]\<rparr>\<rparr>)"
proof -
  have "acceptor_accept cd c s b v (aa_acceptor ag) =
      (accepted_reply s b, (aa_acceptor ag)\<lparr>accepted_map := [(s, new_pv s b v)]\<rparr>)"
    using assms(1)
    by (simp add: initial_acceptor_def acceptor_accept_new recorded_disabled highest_promised_ballot_def)
  with assms(2,3) show ?thesis
    by (simp add: aa_handle_message_def aa_process_accept_def accept_msg_def accepted_reply_def
        aa_message_def Let_def)
qed

lemma aa_retries:
  "aa_handle_message cd c (retry_msg s) ag =
     (aa_message ag Ignore,
      [(aa_learners ag, aa_message ag (LearnMsg \<lparr>ln_slot = s, ln_value = retry_value s ag\<rparr>))], ag)"
  by (simp add: aa_handle_message_def retry_msg_def aa_retry_learns_def)

lemma sample_acceptor_agent_fields [simp]:
  "is_event_driven (aa_config (sample_acceptor_agent i))" "acceptors_send_learns (aa_config (sample_acceptor_agent i))"
  "aa_node (sample_acceptor_agent i) = mk_node i Acceptor"
  "aa_config (sample_acceptor_agent i) = sample_config False 500 10000"
  by (simp_all add: sample_acceptor_agent_def acceptor_agent_new_def acceptor_new_def
      acceptor_helper_new_def sh_new_def sample_config_def)

lemma retry_value_initial: "initial_acceptor i ag \<Longrightarrow> retry_value s ag = noop_value"
  by (simp add: retry_value_def acceptor_get_accepted_def initial_acceptor_def)

lemma sample_accepts [simp]:
  "aa_handle_message cd c (accept_msg s b v) (sample_acceptor_agent i) =
    (aa_message (sample_acceptor_agent i) (AcceptedMsg \<lparr>ad_slot = s, ad_ballot = b, ad_success = True\<rparr>),
     [(aa_learners (sample_acceptor_agent i), learn_msg i s v)],
     (sample_acceptor_agent i)\<lparr>aa_acceptor :=
       (aa_acceptor (sample_acceptor_agent i))\<lparr>accepted_map := [(s, new_pv s b v)]\<rparr>\<rparr>)"
  by (simp add: aa_accepts [OF sample_acceptor_agent_initial] learn_msg_def aa_message_def
      sample_config_def)

lemma sample_retries [simp]:
  "aa_handle_message cd c (retry_msg s) (sample_acceptor_agent i) =
     (aa_message (sample_acceptor_agent i) Ignore,
      [(aa_learners (sample_acceptor_agent i), learn_msg i s noop_value)], sample_acceptor_agent i)"
  by (simp add: aa_retries retry_value_initial [OF sample_acceptor_agent_initial] learn_msg_def aa_message_def)

lemma run_accepts_net: "learn_msg 1 1 val_a \<in> sys_net run_accepts" "learn_msg 2 1 val_a \<in> sys_net run_accepts"
  by (simp_all add: run_accepts_def acceptor_receives_simps sample_system_def)

lemma run_retry_net:
  "learn_msg 1 1 val_a \<in> sys_net run_retry" "learn_msg 2 1 val_a \<in> sys_net run_retry"
  "learn_msg 2 1 noop_value \<in> sys_net run_retry" "learn_msg 3 1 noop_value \<in> sys_net run_retry"
  by (simp_all add: run_retry_def acceptor_receives_simps sample_system_def)

text \<open>The learner of the sample, step by step.\<close>

lemma sample_learner_agent_fields:
  "lr_num_acceptors (la_learner sample_learner_agent) = 3"
  "la_config sample_learner_agent = sample_config False 500 10000"
  "lr_adu (la_learner sample_learner_agent) = 0"
  "slot_learns (la_learner sample_learner_agent) = []" "learned (la_learner sample_learner_agent) = []"
  "\<not> sh_enabled (lr_storage (la_learner sample_learner_agent))"
  by (simp_all add: sample_learner_agent_def learner_agent_new_def learner_new_def sh_new_def Let_def
      sample_config_def learner_load_state_def load_and_replay_state_def la_is_acceptor_role_def mk_node_def)

text \<open>A learner of three acceptors that has heard nothing.\<close>

definition fresh_three :: "learner \<Rightarrow> bool" where
  "fresh_three l \<longleftrightarrow> lr_num_acceptors l = 3 \<and> slot_learns l = [] \<and> learned l = [] \<and> \<not> sh_enabled (lr_storage l)"

lemma sample_fresh: "fresh_three (la_learner sample_learner_agent)"
  by (simp add: fresh_three_def sample_learner_agent_fields)

abbreviation sample_l :: learner where
  "sample_l \<equiv> la_learner sample_learner_agent"

lemma fresh_votes:
  assumes "fresh_three l"
  shows "learner_handle_learn cd c \<lparr>ln_slot = s, ln_value = v\<rparr> from l =
     (False, l\<lparr>slot_learns := [(s, [(node_id from, \<lparr>ln_slot = s, ln_value = v\<rparr>)])]\<rparr>)"
  "i \<noteq> node_id from \<Longrightarrow>
   learned (snd (learner_handle_learn cd c \<lparr>ln_slot = s, ln_value = v\<rparr> from
     (l\<lparr>slot_learns := [(s, [(i, \<lparr>ln_slot = s, ln_value = v\<rparr>)])], lr_adu := n\<rparr>))) = [(s, v)]"
  using assms
  by (simp_all add: fresh_three_def learner_handle_learn_eq learner_handle_learn_def record_learn_def check_quorum_def
      count_votes_def hm_insert_def learner_quorum_def as_usize_def learner_learn_learned Let_def)

lemma la_receives_learn:
  assumes "\<not> sh_enabled (lr_storage (la_learner ag))" and "acceptors_send_learns (la_config ag)"
  shows "\<exists>n. la_learner (la_step cd (c, Receive (learn_msg i s v)) ag) =
    (snd (learner_handle_learn cd c \<lparr>ln_slot = s, ln_value = v\<rparr> (mk_node i Acceptor) (la_learner ag)))\<lparr>lr_adu := n\<rparr>"
proof -
  let ?l = "snd (learner_handle_learn cd c \<lparr>ln_slot = s, ln_value = v\<rparr> (mk_node i Acceptor) (la_learner ag))"
  obtain out e where w: "walk (Suc (length (learned ?l))) (learned ?l) (lr_adu ?l + 1) = (out, e)" by fastforce
  have "\<not> sh_enabled (lr_storage ?l)" using assms(1) by (simp add: learner_handle_learn_simps)
  from to_be_executed_disabled [OF this w, of cd c]
  have "\<exists>n. snd (to_be_executed cd c ?l) = ?l\<lparr>lr_adu := n\<rparr>"
    by (cases "out = []") (auto intro: exI [of _ "lr_adu ?l"])
  moreover have "\<exists>n. ?l = ?l\<lparr>lr_adu := n\<rparr>" by (auto intro: exI [of _ "lr_adu ?l"])
  ultimately show ?thesis
    using assms(2)
    by (simp add: la_handle_message_agent learn_msg_def la_record_learn_simps execute_chosen_eq
        execute_entries split_def Let_def)
qed

lemma two_votes:
  assumes "i \<noteq> j" and "fresh_three (la_learner ag0)" and cfg: "acceptors_send_learns (la_config ag0)"
  shows "learned (la_learner (la_step cd (c, Receive (learn_msg j s v))
      (la_step cd (c', Receive (learn_msg i s v)) ag0))) = [(s, v)]"
proof -
  let ?ag = "la_step cd (c', Receive (learn_msg i s v)) ag0"
  have dis: "\<not> sh_enabled (lr_storage (la_learner ag0))" using assms(2) by (simp add: fresh_three_def)
  obtain n where n: "la_learner ?ag =
      (la_learner ag0)\<lparr>slot_learns := [(s, [(i, \<lparr>ln_slot = s, ln_value = v\<rparr>)])], lr_adu := n\<rparr>"
    using la_receives_learn [OF dis cfg, of cd c' i s v]
    by (auto simp: fresh_votes [OF assms(2)] mk_node_def simp del: la_step.simps)
  have "\<not> sh_enabled (lr_storage (la_learner ?ag))" "acceptors_send_learns (la_config ?ag)"
    using n cfg dis by (simp_all del: la_step.simps)
  from la_receives_learn [OF this, of cd c j s v] n
    fresh_votes(2) [OF assms(2), of i "mk_node j Acceptor" cd c s v n] assms(1)
  show ?thesis by (auto simp: mk_node_def simp del: la_step.simps)
qed

lemma sample_learns: "acceptors_send_learns (la_config sample_learner_agent)"
  by (simp add: sample_learner_agent_fields(2) sample_config_def)

lemmas sample_two_votes = two_votes [OF _ sample_fresh sample_learns]

lemma run_learns_learned:
  "learned (la_learner (sys_learner run_learns 0)) = [(1, val_a)]"
  "sys_learner run_learns 1 = sys_learner run_learns 0"
  using sample_two_votes [of 1 2]
  by (simp_all add: run_learns_def run_accepts_def learner_receives_def acceptor_receives_simps
      sample_system_def del: la_step.simps)

lemma run_split_learned:
  "learned (la_learner (sys_learner run_split 0)) = [(1, noop_value)]"
  "learned (la_learner (sys_learner run_split 1)) = [(1, val_a)]"
  using sample_two_votes [of 2 3] sample_two_votes [of 1 2]
  by (simp_all add: run_split_def run_retry_def learner_receives_def acceptor_receives_simps
      sample_system_def del: la_step.simps)

lemmas reach = reachable_step [where step = "system_step acceptor_codec0 learner_codec0 {1, 2, 3}"]

lemma run_accepts_reachable:
  "reachable (system_step acceptor_codec0 learner_codec0 {1, 2, 3}) {1, 2, 3} run_accepts"
  unfolding run_accepts_def
  by (intro reach [OF _ step_acceptor] reachable_init sample_system_initial)
    (simp_all add: is_retry_def accept_msg_def)

lemma run_learns_reachable:
  "reachable (system_step acceptor_codec0 learner_codec0 {1, 2, 3}) {1, 2, 3} run_learns"
  unfolding run_learns_def
  by (intro reach [OF _ step_learner] run_accepts_reachable) (simp_all add: run_accepts_net)

lemmas reach_retry = reachable_step [where step = "system_step_retry acceptor_codec0 learner_codec0 {1, 2, 3}"]

lemma run_retry_reachable:
  "reachable (system_step_retry acceptor_codec0 learner_codec0 {1, 2, 3}) {1, 2, 3} run_retry"
proof -
  have "is_retry (retry_msg 1)" "\<not> is_retry (accept_msg 1 1 val_a)"
    by (simp_all add: is_retry_def retry_msg_def accept_msg_def)
  then show ?thesis
    unfolding run_retry_def
    by (intro reach_retry [OF _ step_plain [OF step_acceptor]] reach_retry [OF _ step_retry]
        reachable_init sample_system_initial) simp_all
qed

lemma run_split_reachable:
  "reachable (system_step_retry acceptor_codec0 learner_codec0 {1, 2, 3}) {1, 2, 3} run_split"
  unfolding run_split_def
  by (intro reach_retry [OF _ step_plain [OF step_learner]] run_retry_reachable)
    (simp_all add: run_retry_net)

section \<open>Facts of the sample acceptor\<close>

definition sample_events :: "(clock \<times> agent_event) list" where
  "sample_events = [(clk, Receive (learn_msg 1 1 val_a)), (clk, Receive (learn_msg 2 1 val_a)), (clk, Tick)]"

lemma sample_learner_agent_new:
  "learner_agent_new hash0 learner_codec0 clk (mk_node 4 Learner)
     [mk_node 1 Acceptor, mk_node 2 Acceptor, mk_node 3 Acceptor, mk_node 5 Proposer]
     (sample_config False 500 10000) empty_disk = Some sample_learner_agent"
  by (simp add: sample_learner_agent_def learner_agent_new_def learner_new_def sh_new_def sample_config_def Let_def)

lemma sample_acceptor_new:
  "interval \<noteq> 0 \<Longrightarrow> acceptor_new hash0 clk ''1'' (sample_config p n interval) empty_disk =
     Some (sample_acceptor p n interval)"
  by (simp add: sample_acceptor_def acceptor_new_def acceptor_helper_new_def sh_new_def sample_config_def)

lemma sample_acceptor_fields:
  assumes "interval \<noteq> 0"
  shows "promises (sample_acceptor p n interval) = []" "accepted_map (sample_acceptor p n interval) = []"
    "sh_enabled (acc_storage (sample_acceptor p n interval)) = p"
    "sh_config (acc_storage (sample_acceptor p n interval)) = sample_config p n interval"
    "snapshot_slot_offset (acc_storage (sample_acceptor p n interval)) = 0"
    "last_snapshot_slot (acc_storage (sample_acceptor p n interval)) = 0"
    "change_pending (acc_storage (sample_acceptor p n interval)) = 0"
    "sh_store (acc_storage (sample_acceptor p n interval)) =
       \<lparr>st_key = ''node1-acceptor'', st_max_snapshots = 1, linked = True, snapshot_files = [],
        changelog_file = [], changelog_buf = [], state_data = [], faults = []\<rparr>"
  using assms
  by (simp_all add: sample_acceptor_def acceptor_new_def acceptor_helper_new_def sh_new_def
      sample_config_def storage_new_def empty_disk_def hash0_def storage_helper.extend_def
      acceptor_helper.fields_def)

lemma sample_acceptor_durable:
  "interval \<noteq> 0 \<Longrightarrow> acceptor_durable acceptor_codec0 (sample_acceptor True 1 interval)"
  by (auto simp: acceptor_durable_def acceptor_synced_def sample_acceptor_fields logged_def
      changelog_holds_def changelog_durable_def newest_snapshots_def snapshot_names_def restored_def
      acceptor_codec0_def unary_codec_def sample_config_def intro!: exI [of _ "[]"])

lemma acceptor_codec0_facts:
  "promises_codec acceptor_codec0 = unary_codec"
  "writable (change_codec acceptor_codec0) (new_pv 1 1 val_a)"
  by (simp_all add: acceptor_codec0_def writable_def table_codec_def val_a_def set_value_def)

lemma sample_acceptor_eq:
  assumes "interval \<noteq> 0"
  shows "sample_acceptor p n interval =
    \<lparr>acc_config = sample_config p n interval, promises = [], accepted_map = [],
     acc_storage = \<lparr>sh_store = \<lparr>st_key = ''node1-acceptor'', st_max_snapshots = 1, linked = True,
         snapshot_files = [], changelog_file = [], changelog_buf = [], state_data = [], faults = []\<rparr>,
       sh_enabled = p, sh_config = sample_config p n interval, change_flush_interval = 1000000000,
       change_pending = 0, change_last_flush = 0, snapshot_slot_offset = 0, last_snapshot_slot = 0,
       state_flush_interval = 500000000, state_pending = 0, state_last_flush = 0\<rparr>\<rparr>"
  using assms
  by (simp add: sample_acceptor_def acceptor_new_def acceptor_helper_new_def sh_new_def
      sample_config_def storage_new_def empty_disk_def hash0_def storage_helper.extend_def
      acceptor_helper.fields_def clk_def from_millis_def)

lemma sample_saves_change:
  "acceptor_save_change acceptor_codec0 clk (new_pv 1 1 val_a) (acc_storage (sample_acceptor True 500 10000)) =
    (Inr (), (acc_storage (sample_acceptor True 500 10000))\<lparr>
       sh_store := (sh_store (acc_storage (sample_acceptor True 500 10000)))\<lparr>
         changelog_buf := u32_to_be_bytes 1 @ [char_of (0::nat)]\<rparr>, change_pending := 1\<rparr>)"
  by (simp add: sample_acceptor_eq acceptor_save_change_def sh_save_change_def io_bind_eq on_store_eq save_change_def
      bw_write_all_def bw_push_def buf_capacity_def sh_maybe_flush_changes_def Let_def
      acceptor_codec0_def table_codec_def sample_config_def as_u32_def u32_to_be_bytes_def clk_def word_le_nat_alt)

lemma sample_reply:
  "acceptor_accept acceptor_codec0 clk 1 1 val_a (sample_acceptor True 500 10000) =
    (accepted_reply 1 1, (sample_acceptor True 500 10000)\<lparr>
       accepted_map := [(1, new_pv 1 1 val_a)],
       acc_storage := (acc_storage (sample_acceptor True 500 10000))\<lparr>
       sh_store := (sh_store (acc_storage (sample_acceptor True 500 10000)))\<lparr>
         changelog_buf := u32_to_be_bytes 1 @ [char_of (0::nat)]\<rparr>, change_pending := 1\<rparr>\<rparr>)"
  by (simp add: acceptor_accept_def sample_saves_change sample_acceptor_fields highest_promised_ballot_def Let_def
     acceptor_maybe_snapshot_def sh_maybe_snapshot_def sample_config_def)

lemma sample_restart:
  "acceptor_restart hash0 acceptor_codec0 clk ''1'' (sample_config True 500 10000)
     ((sh_store (acc_storage (sample_acceptor True 500 10000)))\<lparr>changelog_buf := b\<rparr>)
     = Some (Inr (), sample_acceptor True 500 10000)"
  by (simp add: acceptor_restart_def acceptor_new_def acceptor_helper_new_def sh_new_def
      sample_acceptor_eq acceptor_load_state_def load_and_combine_state_def
      sample_config_def storage_new_def hash0_def storage_helper.extend_def
      acceptor_helper.fields_def clk_def from_millis_def io_bind_eq io_zoom_def load_current_state_def
      on_store_eq load_state_def load_accepted_def on_helper_eq io_map_err_fst_snd
      load_state_and_changes_def list_snapshots_def load_changes_def acceptor_codec0_def unary_codec_def
      as_usize_def read_changes.simps)

section \<open>Sample promises\<close>

text \<open>Two promises for ballot 1; one reports \<open>val_a\<close>, accepted in slot 3.\<close>

definition sample_promises :: "promise list" where
  "sample_promises = [\<lparr>prom_slot = 1, prom_ballot = 1, prom_accepted = [new_pv 3 1 val_a]\<rparr>,
     \<lparr>prom_slot = 1, prom_ballot = 1, prom_accepted = []\<rparr>]"

section \<open>Sample proposer and failure detector\<close>

definition proposer_in_flight :: proposer where
  "proposer_in_flight = sample_proposer\<lparr>current_slot := 1,
     proposals := [(1, \<lparr>pe_proposal = \<lparr>prop_slot = 1, prop_ballot = 1, prop_value = val_a\<rparr>, pe_status = InFlight\<rparr>)]\<rparr>"

lemmas proposals_simps = mark_proposal_chosen_eq mark_proposal_finalized_eq advances_def

lemma fd_new_nodes:
  "all_nodes (fd_new local others delta) = others @ [local]" "\<not> fd_seen (fd_new local others delta) i"
  by (simp_all add: fd_new_def fd_seen_def Let_def)

text \<open>Two proposers, 5 being the local one, after one check without heartbeats.\<close>

definition fd_all_suspected :: failure_detector where
  "fd_all_suspected = snd (fd_checker (fd_new (mk_node 5 Proposer) [mk_node 6 Proposer] 0))"

lemma fd_all_suspected_eq:
  "fd_all_suspected =
     \<lparr>fd_local_id = 5, all_nodes = [mk_node 6 Proposer, mk_node 5 Proposer],
      fd_ld = \<lparr>ld_proposers = [6, 5], ld_suspected = [(6, False), (5, False)], last_leader = Some 6\<rparr>,
      state_map = [(6, Suspected), (5, Suspected)], seen = []\<rparr>"
  by (simp add: fd_all_suspected_def fd_checker_def fd_new_def fd_defs mk_node_def ld_new_def
      is_proposer_role_def initial_leader_def hm_insert_def hm_remove_def Let_def word_less_nat_alt)

lemma fd_all_suspected_check:
  "fd_checker fd_all_suspected = (Some 5,
     \<lparr>fd_local_id = 5, all_nodes = [mk_node 6 Proposer, mk_node 5 Proposer],
      fd_ld = \<lparr>ld_proposers = [6, 5], ld_suspected = [(6, True), (5, True)], last_leader = None\<rparr>,
      state_map = [(6, Dead), (5, Dead)], seen = []\<rparr>)"
  by (simp add: fd_all_suspected_eq fd_checker_def fd_defs mk_node_def ld_suspect_def ld_update_def
      recompute_leader_def is_suspected_def hm_insert_def hm_remove_def Let_def)

lemma fd_all_suspected_answer: "fst (fd_checker fd_all_suspected) = Some 5"
  by (simp add: fd_all_suspected_check)

lemma fd_all_suspected_after:
  "fd_leader (snd (fd_checker fd_all_suspected)) = None"
  "fd_state (snd (fd_checker fd_all_suspected)) (fd_local_id fd_all_suspected) = Dead"
  by (simp_all add: fd_all_suspected_check fd_leader_def fd_state_def) (simp add: fd_all_suspected_eq)

section \<open>Sample disk\<close>

definition crashing_disk :: storage where
  "crashing_disk = empty_disk\<lparr>linked := True, st_max_snapshots := 1, changelog_file := ''log'',
     faults := [None, Some (''disk full'', 1)]\<rparr>"

section \<open>Messages\<close>

definition sample_message :: "message_payload \<Rightarrow> network_message" where
  "sample_message p = \<lparr>sender = mk_node 1 Client, payload = p\<rparr>"

definition get_value :: "string \<Rightarrow> paxos_value" where
  "get_value k = \<lparr>command = Some (Get k), client_id = ''c'', client_seq = 1\<rparr>"

lemma show_u64_1: "show_u64 1 = ''1''"
proof -
  have "(of_char CHR ''1'' :: nat) = 49" by simp
  then have "char_of (49 :: nat) = CHR ''1''" by (metis char_of_char)
  then show ?thesis by (simp add: show_u64_def show_nat.simps digit_char_def)
qed

lemma sample_learn_serialized:
  "\<exists>bs. serialize (sample_message (LearnMsg \<lparr>ln_slot = 1, ln_value = get_value ''k''\<rparr>)) = Some bs"
  "\<exists>bs. serialize (sample_message (LearnMsg \<lparr>ln_slot = 1, ln_value = val_a\<rparr>)) = Some bs"
  by (simp_all add: serialize_def message_text_def sample_message_def serialize_node_def mk_node_def kv_def
      value_parts_def get_value_def val_a_def set_value_def show_cmd_def show_u64_1 del: One_nat_def)

lemma sample_accept_serialized:
  "\<exists>bs. serialize (sample_message (AcceptMsg \<lparr>acc_slot = 1, acc_ballot = 1, acc_value = get_value ''x,op:clear,''\<rparr>)) = Some bs"
  by (simp add: serialize_def message_text_def sample_message_def serialize_node_def mk_node_def kv_def
      value_parts_def get_value_def show_cmd_def show_u64_1 del: One_nat_def)

lemma sample_deliverable:
  "deliverable (1, sample_message Heartbeat)"
  "deliverable (1, sample_message (ClientRequest (get_value ''k'')))"
  by (simp_all add: deliverable_def message_safe_def value_safe_def plain_def utf8_ok_ascii max_wasi_chunk_def
      serialize_def message_text_def sample_message_def serialize_node_def mk_node_def kv_def value_parts_def
      get_value_def show_cmd_def show_u64_1 del: One_nat_def)

lemma sample_norm:
  "norm_message (sample_message Heartbeat) = sample_message Heartbeat"
  "norm_message (sample_message (ClientRequest v)) = sample_message (ClientRequest v)"
  by (simp_all add: norm_message_def sample_message_def)

definition sample_response :: client_response where
  "sample_response = \<lparr>resp_client_id = ''c'', resp_client_seq = 1, resp_success = True, command_result = NoOp\<rparr>"

definition sample_sends :: "(nat \<times> network_message) list" where
  "sample_sends = [(1, sample_message Heartbeat), (1, sample_message (ClientRequest (get_value ''k'')))]"

definition sample_client :: tcp_client where
  "sample_client = \<lparr>peer_conns = [''127.0.0.1:50051''], peer_bufs = [(''127.0.0.1:50051'', [])]\<rparr>"

definition sample_server :: net_server where
  "sample_server = \<lparr>listening = True, next_chan = 3, conns = [1, 2], buffers = [(1, []), (2, [])]\<rparr>"

lemma sample_connection:
  "address (mk_node 2 Acceptor) \<in> set (peer_conns sample_client)"
  "\<forall>x \<in> set sample_sends. deliverable x"
  "hm_get (buffers sample_server) 1 = Some []"
  by (simp_all add: mk_node_def sample_client_def sample_sends_def sample_deliverable sample_server_def del: One_nat_def)

lemma sample_response_serialized: "\<exists>bs. serialize (sample_message (ClientResponse sample_response)) = Some bs"
  by (simp add: serialize_def message_text_def sample_message_def serialize_node_def mk_node_def kv_def
      sample_response_def show_u64_1 show_bool_def del: One_nat_def)

lemma fresh_connection:
  "hm_get (buffers (accept_one_conn net_server_new)) 1 = Some []"
  "1 \<in> set (conns (accept_one_conn net_server_new))"
  "hm_get (buffers (accept_one_conn client_server_new)) 1 = Some []"
  "1 \<in> set (conns (accept_one_conn client_server_new))"
  by (simp_all add: accept_one_conn_def net_server_new_def client_server_new_def dict_simps)

section \<open>A proposer agent\<close>

definition sample_pa :: "paxos_phase \<Rightarrow> proposer \<Rightarrow> (u64 \<times> promise) list \<Rightarrow> proposer_agent" where
  "sample_pa ph p ps =
     \<lparr>pa_config = sample_config False 500 10000, pa_phase = ph, pa_node = mk_node 5 Proposer,
      pa_proposer = p, pa_num_acceptors = 3, pa_acceptors = map (\<lambda>i. mk_node i Acceptor) [1, 2, 3],
      pa_learners = [mk_node 7 Learner], pa_all_nodes = [], pa_promises = [(1, ps)],
      in_flight_accepted = [], client_responses = [], last_prepare_start = None,
      last_get_adu_start = 0, has_received_adu = True, slot_crash_list = []\<rparr>"

lemma sample_pa_fields [simp]:
  "pa_config (sample_pa ph p ps) = sample_config False 500 10000" "pa_phase (sample_pa ph p ps) = ph"
  "pa_proposer (sample_pa ph p ps) = p" "pa_num_acceptors (sample_pa ph p ps) = 3"
  "pa_promises (sample_pa ph p ps) = [(1, ps)]" "in_flight_accepted (sample_pa ph p ps) = []"
  "last_prepare_start (sample_pa ph p ps) = None" "slot_crash_list (sample_pa ph p ps) = []"
  by (simp_all add: sample_pa_def)

definition promise_1 :: promise where
  "promise_1 = \<lparr>prom_slot = 1, prom_ballot = 1, prom_accepted = []\<rparr>"

lemma promise_1_fields [simp]: "prom_slot promise_1 = 1" "prom_ballot promise_1 = 1" "prom_accepted promise_1 = []"
  by (simp_all add: promise_1_def)

text \<open>A promise for ballot 1 from a third acceptor, or from a second one.\<close>

lemma sample_pa_promise:
  "fst (insert_and_check_promises promise_1 (mk_node 3 Acceptor) (sample_pa ph p [(1, promise_1), (2, promise_1)])) =
     Some (1, [promise_1, promise_1, promise_1])"
  "fst (insert_and_check_promises promise_1 (mk_node 2 Acceptor) (sample_pa ph p [(1, promise_1)])) =
     Some (1, [promise_1, promise_1])"
  by (simp_all add: insert_and_check_promises_def Let_def entry_of_def bt_last_key_def hm_insert_def agent_quorum_def)

lemma sample_prepare_success:
  "current_ballot p = 1 \<Longrightarrow> pr_num_acceptors p = 3 \<Longrightarrow> 2 \<le> n \<Longrightarrow>
   fst (process_prepare s (replicate n promise_1) p) = PrepareSuccess"
  by (simp add: process_prepare_result proposer_quorum_def as_usize_def)

lemma sample_proposer_fields [simp]:
  "current_ballot sample_proposer = 1" "pr_num_acceptors sample_proposer = 3" "pr_is_leader sample_proposer"
  "current_slot sample_proposer = 0" "proposals sample_proposer = []" "ballot_delta sample_proposer = 3"
  "prioritized_values sample_proposer = []" "pending_client_requests sample_proposer = []"
  "pr_adu sample_proposer = 0" "ph_enabled (pr_storage sample_proposer) = False"
  by (simp_all add: sample_proposer_def proposer_new_def proposer_helper_new_def sample_config_def)

lemma sample_late_promise:
  "pa_phase (handle_promise promise_1 (mk_node 2 Acceptor) (sample_pa PrepareSend sample_proposer [(1, promise_1)]))
     = PreparePending"
  using sample_prepare_success [of sample_proposer 2 1]
  by (simp add: handle_promise_def split_def Let_def sample_pa_promise numeral_2_eq_2 handle_prepare_result_def
      advance_phase_def next_phase_def insert_checks_phase)

definition proposer_two_requests :: proposer where
  "proposer_two_requests = sample_proposer\<lparr>pending_client_requests := [val_a, val_b]\<rparr>"

lemma two_requests_first:
  "fst (create_proposal proposer_two_requests) = Some \<lparr>prop_slot = 1, prop_ballot = 1, prop_value = val_a\<rparr>"
  "fst (process_prepare 1 [promise_1, promise_1, promise_1] (snd (create_proposal proposer_two_requests))) = PrepareSuccess"
  by (simp_all add: proposer_two_requests_def create_proposal_def next_value_def get_next_slot_def Let_def
      process_prepare_result proposer_quorum_def as_usize_def del: One_nat_def)

lemma two_requests_second:
  "fst (create_proposal (pa_proposer (handle_promise promise_1 (mk_node 3 Acceptor)
      (sample_pa AcceptCommit (snd (create_proposal proposer_two_requests)) [(1, promise_1), (2, promise_1)])))) =
    Some \<lparr>prop_slot = 1, prop_ballot = 1, prop_value = val_b\<rparr>"
proof -
  let ?p = "snd (create_proposal proposer_two_requests)"
  have p: "current_slot ?p = 1" "current_ballot ?p = 1" "pr_is_leader ?p" "prioritized_values ?p = []"
    "pending_client_requests ?p = [val_b]" "pr_num_acceptors ?p = 3"
    by (simp_all add: proposer_two_requests_def create_proposal_def next_value_def get_next_slot_def Let_def)
  have "collect_map 1 [promise_1, promise_1, promise_1] = []" by (simp add: collect_map_def)
  then have "snd (process_prepare 1 [promise_1, promise_1, promise_1] ?p) = ?p\<lparr>current_slot := 0\<rparr>"
    using p by (simp add: process_prepare_def Let_def split_def collect_accepted_values_def reproposed_def
        proposer_quorum_def as_usize_def map_filter_simps saturating_sub_def)
  then show ?thesis
    using p by (simp add: handle_promise_def split_def Let_def sample_pa_promise handle_prepare_result_def
        advance_phase_def create_proposal_def next_value_def get_next_slot_def)
qed

section \<open>A node with all agents\<close>

definition sample_env :: environment where
  "sample_env = \<lparr>env_proposer_codec = proposer_codec0, env_acceptor_codec = acceptor_codec0,
     env_learner_codec = learner_codec0, env_hash = hash0, env_net = (\<lambda>ns m. [])\<rparr>"

definition peers :: "node list" where
  "peers = [mk_node 6 Acceptor, mk_node 7 Acceptor, mk_node 8 Proposer]"

text \<open>The configuration with one proposal in a batch.\<close>

definition small_batch :: run_config where
  "small_batch = (sample_config False 500 10000)\<lparr>batch_size := 1\<rparr>"

definition sample_node :: "node list \<Rightarrow> coordinator option" where
  "sample_node nodes = coordinator_new sample_env clk (mk_node 5 Coordinator) nodes True small_batch
     empty_disk empty_disk empty_disk"

lemma small_batch_fields [simp]:
  "\<not> persistent_storage small_batch" "is_event_driven small_batch" "batch_size small_batch = 1"
  "acceptors_send_learns small_batch" "crashes small_batch = []" "storage_snapshot_slot_interval small_batch \<noteq> 0"
  by (simp_all add: small_batch_def sample_config_def)

definition peer_prepare :: "ballot \<Rightarrow> network_message" where
  "peer_prepare b = \<lparr>sender = mk_node 8 Proposer, payload = PrepareMsg \<lparr>prep_slot = 1, prep_ballot = b\<rparr>\<rparr>"

lemma sample_node_agents:
  "\<exists>co p a l. sample_node nodes = Some co \<and> co_agents co = CoordinatorNode p a l \<and> co_config co = small_batch \<and>
     co_node co = mk_node 5 Coordinator \<and>
     proposer_agent_new proposer_codec0 clk (mk_node 5 Coordinator) nodes True small_batch empty_disk = Some p \<and>
     acceptor_agent_new hash0 acceptor_codec0 clk (mk_node 5 Coordinator) nodes small_batch empty_disk = Some a \<and>
     learner_agent_new hash0 learner_codec0 clk (mk_node 5 Coordinator) nodes small_batch empty_disk = Some l"
proof -
  let ?n = "mk_node 5 Coordinator"
  obtain p where p: "proposer_agent_new proposer_codec0 clk ?n nodes True small_batch empty_disk = Some p"
    by (simp add: proposer_agent_new_def Let_def)
  obtain a where a: "acceptor_agent_new hash0 acceptor_codec0 clk ?n nodes small_batch empty_disk = Some a"
    by (simp add: acceptor_agent_new_def acceptor_new_def acceptor_helper_new_def sh_new_def)
  obtain l where l: "learner_agent_new hash0 learner_codec0 clk ?n nodes small_batch empty_disk = Some l"
    by (simp add: learner_agent_new_def learner_new_def sh_new_def Let_def)
  from p a l show ?thesis
    by (simp add: sample_node_def coordinator_new_def agents_new_def sample_env_def Let_def)
qed
text \<open>The node hears of one value from both acceptors.\<close>

definition peer_learns :: "(clock \<times> coordinator_event) list" where
  "peer_learns = [(clk, CoReceive (learn_msg 6 1 val_a)), (clk, CoReceive (learn_msg 7 1 val_a))]"

lemma node_receives_learn:
  "co_agents co = CoordinatorNode p a l \<Longrightarrow> \<exists>out. co_step env (c, CoReceive (learn_msg i s v)) co =
     Some ((), out, co\<lparr>co_agents := CoordinatorNode p a (la_step (env_learner_codec env) (c, Receive (learn_msg i s v)) l)\<rparr>)"
  by (simp add: co_handle_message_def coordinator_message_def to_learner_def with_learner_def step_lift_def
      learn_msg_def step_bind_def split_def)

lemma peer_learns_run:
  assumes "sample_node peers = Some co"
  shows "\<exists>out co' l. co_run sample_env peer_learns co = Some ((), out, co') \<and> co_learner co' = Some l \<and>
    learned (la_learner l) = [(1, val_a)]"
proof -
  from sample_node_agents [of peers] assms obtain p a l where co: "co_agents co = CoordinatorNode p a l"
    and l: "learner_agent_new hash0 learner_codec0 clk (mk_node 5 Coordinator) peers small_batch empty_disk = Some l"
    by auto
  have fresh: "fresh_three (la_learner l)" "acceptors_send_learns (la_config l)"
    using l by (auto simp: learner_agent_new_def learner_new_def sh_new_def Let_def fresh_three_def peers_def
        la_is_acceptor_role_def learner_load_state_def load_and_replay_state_def)
  let ?l1 = "la_step learner_codec0 (clk, Receive (learn_msg 6 1 val_a)) l"
  let ?l2 = "la_step learner_codec0 (clk, Receive (learn_msg 7 1 val_a)) ?l1"
  from node_receives_learn [OF co, of sample_env clk 6 1 val_a]
  obtain out1 where s1: "co_step sample_env (clk, CoReceive (learn_msg 6 1 val_a)) co =
      Some ((), out1, co\<lparr>co_agents := CoordinatorNode p a ?l1\<rparr>)" by (auto simp: sample_env_def)
  from node_receives_learn [of "co\<lparr>co_agents := CoordinatorNode p a ?l1\<rparr>" p a ?l1 sample_env clk 7 1 val_a]
  obtain out2 where s2: "co_step sample_env (clk, CoReceive (learn_msg 7 1 val_a)) (co\<lparr>co_agents := CoordinatorNode p a ?l1\<rparr>) =
      Some ((), out2, co\<lparr>co_agents := CoordinatorNode p a ?l2\<rparr>)" by (auto simp: sample_env_def)
  have "co_run sample_env peer_learns co = Some ((), out1 @ out2 @ [], co\<lparr>co_agents := CoordinatorNode p a ?l2\<rparr>)"
    by (simp add: co_run_def peer_learns_def s1 s2 del: co_step.simps la_step.simps)
  with two_votes [OF _ fresh, of 6 7] show ?thesis
    by (auto simp: co_learner_def simp del: la_step.simps)
qed

text \<open>The node proposes one of two requests; its own acceptor is fresh.\<close>

lemma sample_accept_phase:
  assumes "co_agents co = CoordinatorNode p a l" and "co_config co = small_batch"
    and "initial_acceptor 5 a" and "acceptors_send_learns (aa_config a)"
  shows "\<exists>r out co'. co_accept_phase sample_env clk (co\<lparr>co_agents := CoordinatorNode
      ((sample_pa AcceptCommit proposer_two_requests [])\<lparr>pa_config := small_batch\<rparr>) a l\<rparr>) = Some (r, out, co') \<and> out \<noteq> []"
proof -
  have a: "acceptor_accept cd c 1 1 v (aa_acceptor a) =
      (AcceptedOk \<lparr>ad_slot = 1, ad_ballot = 1, ad_success = True\<rparr>, (aa_acceptor a)\<lparr>accepted_map := [(1, new_pv 1 1 v)]\<rparr>)" for cd c v
    using assms(3)
    by (simp add: acceptor_accept_new initial_acceptor_def highest_promised_ballot_def accepted_reply_def recorded_disabled)
  let ?p = "(sample_pa AcceptCommit proposer_two_requests [])\<lparr>pa_config := small_batch\<rparr>"
  let ?pr = "\<lparr>prop_slot = 1, prop_ballot = 1, prop_value = val_a\<rparr>"
  obtain q where q: "proposals_to_accept ?p = Some ([?pr], [], ?p\<lparr>pa_proposer := q\<rparr>)"
    by (simp add: proposals_to_accept_def on_proposer_def proposer_two_requests_def create_proposal_def
        next_value_def get_next_slot_def Let_def split_def step_bind_def)
  let ?co = "co\<lparr>co_agents := CoordinatorNode (?p\<lparr>pa_proposer := q\<rparr>) a l\<rparr>"
  have "\<exists>out co'. accept_one sample_env clk ?pr ?co = Some ((), out, co') \<and> out \<noteq> []"
    using assms(2,4)
    by (simp add: accept_one_def with_acceptor_def with_proposer_def step_state_def aa_process_accept_def a
        accept_phase_eq aa_commit_phase_def with_learner_def split_def sample_env_def Let_def step_bind_def)
  then obtain out co' where "accept_one sample_env clk ?pr ?co = Some ((), out, co')" "out \<noteq> []" by blast
  then show ?thesis
    using q by (simp add: co_accept_phase_def with_proposer_def)
qed

end
