(* ===== verification/Cluster_Samples.thy ===== *)
theory Cluster_Samples
  imports Cluster Samples
begin

text \<open>
  A cluster of three acceptors and two learners: two acceptors accept a value in slot 1, and both
  learners hear of it.
\<close>

definition cluster_nodes :: "node list" where
  "cluster_nodes = [mk_node 1 Acceptor, mk_node 2 Acceptor, mk_node 3 Acceptor, mk_node 4 Learner, mk_node 5 Learner]"

definition sample_cluster :: cluster where
  "sample_cluster = cluster_new sample_env clk small_batch (\<lambda>_. (empty_disk, empty_disk, empty_disk)) 1 cluster_nodes"

lemma cluster_nodes_ok: "distinct (map node_id cluster_nodes)" "length cluster_nodes < 2 ^ 32"
  by (simp_all add: cluster_nodes_def mk_node_def)

lemma small_batch_cluster: "cluster_config small_batch"
  by (simp add: cluster_config_def)

lemma sample_cluster_acceptor:
  assumes "i = 1 \<or> i = 2"
  shows "\<exists>co a. cl_nodes sample_cluster i = Some co \<and> co_agents co = AcceptorNode a \<and> initial_acceptor i a \<and>
    is_event_driven (aa_config a) \<and> acceptors_send_learns (aa_config a) \<and> aa_node a = mk_node i Acceptor"
proof -
  let ?n = "mk_node i Acceptor" and ?o = "other_nodes i cluster_nodes"
  obtain a where a: "acceptor_agent_new hash0 acceptor_codec0 clk ?n ?o small_batch empty_disk = Some a"
    using acceptor_agent_new_works [OF small_batch_cluster] by blast
  have "initial_acceptor i a" using initial_acceptor_new [OF a] by simp
  moreover have "aa_config a = small_batch" "aa_node a = ?n"
    using a by (auto simp: acceptor_agent_new_def)
  moreover have "find (\<lambda>n. node_id n = i) cluster_nodes = Some ?n"
    using assms by (auto simp: cluster_nodes_def)
  ultimately show ?thesis
    using a by (simp add: sample_cluster_def cluster_new_def coordinator_new_def agents_new_def sample_env_def Let_def)
qed

lemma sample_cluster_learner:
  assumes "i = 4 \<or> i = 5"
  shows "\<exists>co l. cl_nodes sample_cluster i = Some co \<and> co_agents co = LearnerNode l \<and> fresh_three (la_learner l) \<and>
    acceptors_send_learns (la_config l)"
proof -
  let ?n = "mk_node i Learner" and ?o = "other_nodes i cluster_nodes"
  obtain l where l: "learner_agent_new hash0 learner_codec0 clk ?n ?o small_batch empty_disk = Some l"
    by (simp add: learner_agent_new_def learner_new_def sh_new_def Let_def)
  have "fresh_three (la_learner l)" "acceptors_send_learns (la_config l)"
    using l assms
    by (auto simp: learner_agent_new_def learner_new_def sh_new_def Let_def fresh_three_def cluster_nodes_def
        other_nodes_def la_is_acceptor_role_def learner_load_state_def load_and_replay_state_def)
  moreover have "find (\<lambda>n. node_id n = i) cluster_nodes = Some ?n"
    using assms by (auto simp: cluster_nodes_def)
  ultimately show ?thesis
    using l by (simp add: sample_cluster_def cluster_new_def coordinator_new_def agents_new_def sample_env_def Let_def)
qed

text \<open>An acceptor that accepts, and a learner that hears of it.\<close>

lemma cluster_accepts:
  assumes "cl_nodes cl i = Some co" and "co_agents co = AcceptorNode a" and "initial_acceptor i a"
    and "is_event_driven (aa_config a)" "acceptors_send_learns (aa_config a)" "aa_node a = mk_node i Acceptor"
  shows "\<exists>co'. cluster_step sample_env cl
    (cl\<lparr>cl_nodes := (cl_nodes cl)(i \<mapsto> co'), cl_net := insert (learn_msg i s v) (cl_net cl)\<rparr>)"
proof -
  have "co_step sample_env (clk, CoReceive (accept_msg s b v)) co =
      Some ((), [(aa_learners a, learn_msg i s v)], co\<lparr>co_agents :=
        AcceptorNode (a\<lparr>aa_acceptor := (aa_acceptor a)\<lparr>accepted_map := [(s, new_pv s b v)]\<rparr>\<rparr>)\<rparr>)" for b
    using assms aa_accepts [OF assms(3-5), of _ clk s b v]
    by (simp add: co_handle_message_def acceptor_message_def to_acceptor_def with_acceptor_def step_lift_def
        accept_msg_def learn_msg_def aa_message_def step_bind_def)
  from node_event [OF assms(1) _ this, of 1] show ?thesis
    by (auto simp: accept_msg_def is_retry_def)
qed

lemma cluster_hears:
  assumes "cl_nodes cl i = Some co" and "co_agents co = LearnerNode l" and "learn_msg j s v \<in> cl_net cl"
  shows "\<exists>net. cluster_step sample_env cl (cl\<lparr>cl_nodes := (cl_nodes cl)(i \<mapsto>
    co\<lparr>co_agents := LearnerNode (la_step learner_codec0 (clk, Receive (learn_msg j s v)) l)\<rparr>), cl_net := cl_net cl \<union> net\<rparr>)"
proof -
  have "\<exists>out. co_step sample_env (clk, CoReceive (learn_msg j s v)) co =
      Some ((), out, co\<lparr>co_agents := LearnerNode (la_step learner_codec0 (clk, Receive (learn_msg j s v)) l)\<rparr>)"
    using assms(2)
    by (simp add: co_handle_message_def learner_message_def to_learner_def with_learner_def step_lift_def
        learn_msg_def step_bind_def split_def sample_env_def)
  then obtain out where "co_step sample_env (clk, CoReceive (learn_msg j s v)) co =
      Some ((), out, co\<lparr>co_agents := LearnerNode (la_step learner_codec0 (clk, Receive (learn_msg j s v)) l)\<rparr>)" ..
  from node_event [OF assms(1) _ this] assms(3) show ?thesis
    by (auto simp: is_retry_def learn_msg_def)
qed

lemma co_learner_of: "co_learner (co\<lparr>co_agents := LearnerNode l\<rparr>) = Some l"
  by (simp add: co_learner_def)

text \<open>A learner that hears of both.\<close>

lemma cluster_learns:
  assumes "cl_nodes cl i = Some co" and "co_agents co = LearnerNode l" and "fresh_three (la_learner l)"
    and "acceptors_send_learns (la_config l)" and "learn_msg 1 s v \<in> cl_net cl" "learn_msg 2 s v \<in> cl_net cl"
  shows "\<exists>net co' l'. (cluster_step sample_env)\<^sup>*\<^sup>* cl
      (cl\<lparr>cl_nodes := (cl_nodes cl)(i \<mapsto> co'), cl_net := cl_net cl \<union> net\<rparr>) \<and>
    co_learner co' = Some l' \<and> learned (la_learner l') = [(s, v)]"
proof -
  let ?l1 = "la_step learner_codec0 (clk, Receive (learn_msg 1 s v)) l"
  let ?l2 = "la_step learner_codec0 (clk, Receive (learn_msg 2 s v)) ?l1"
  let ?c1 = "co\<lparr>co_agents := LearnerNode ?l1\<rparr>"
  obtain n1 where 1: "cluster_step sample_env cl (cl\<lparr>cl_nodes := (cl_nodes cl)(i \<mapsto> ?c1), cl_net := cl_net cl \<union> n1\<rparr>)"
    using cluster_hears [OF assms(1,2,5)] by blast
  obtain n2 where 2: "cluster_step sample_env (cl\<lparr>cl_nodes := (cl_nodes cl)(i \<mapsto> ?c1), cl_net := cl_net cl \<union> n1\<rparr>)
      (cl\<lparr>cl_nodes := (cl_nodes cl)(i \<mapsto> ?c1\<lparr>co_agents := LearnerNode ?l2\<rparr>), cl_net := (cl_net cl \<union> n1) \<union> n2\<rparr>)"
    using cluster_hears [of "cl\<lparr>cl_nodes := (cl_nodes cl)(i \<mapsto> ?c1), cl_net := cl_net cl \<union> n1\<rparr>" i ?c1 ?l1 2 s v] assms(6)
    by (auto simp del: la_step.simps)
  have "learned (la_learner ?l2) = [(s, v)]"
    by (rule two_votes) (use assms(3,4) in simp_all)
  moreover have "(cluster_step sample_env)\<^sup>*\<^sup>* cl
      (cl\<lparr>cl_nodes := (cl_nodes cl)(i \<mapsto> ?c1\<lparr>co_agents := LearnerNode ?l2\<rparr>), cl_net := cl_net cl \<union> (n1 \<union> n2)\<rparr>)"
    using 1 2 by (simp add: Un_assoc del: la_step.simps)
  ultimately show ?thesis
    by (intro exI conjI) (rule co_learner_of | assumption)+
qed

lemma sample_cluster_run:
  "\<exists>cl c4 c5 l4 l5. (cluster_step sample_env)\<^sup>*\<^sup>* sample_cluster cl \<and>
     cl_nodes cl 4 = Some c4 \<and> co_learner c4 = Some l4 \<and> learned (la_learner l4) = [(1, val_a)] \<and>
     cl_nodes cl 5 = Some c5 \<and> co_learner c5 = Some l5 \<and> learned (la_learner l5) = [(1, val_a)]"
proof -
  obtain co1 a1 where n1: "cl_nodes sample_cluster 1 = Some co1" "co_agents co1 = AcceptorNode a1" "initial_acceptor 1 a1"
    "is_event_driven (aa_config a1)" "acceptors_send_learns (aa_config a1)" "aa_node a1 = mk_node 1 Acceptor"
    using sample_cluster_acceptor [of 1] by auto
  obtain co2 a2 where n2: "cl_nodes sample_cluster 2 = Some co2" "co_agents co2 = AcceptorNode a2" "initial_acceptor 2 a2"
    "is_event_driven (aa_config a2)" "acceptors_send_learns (aa_config a2)" "aa_node a2 = mk_node 2 Acceptor"
    using sample_cluster_acceptor [of 2] by auto
  obtain co4 m4 where n4: "cl_nodes sample_cluster 4 = Some co4" "co_agents co4 = LearnerNode m4" "fresh_three (la_learner m4)"
    "acceptors_send_learns (la_config m4)" using sample_cluster_learner [of 4] by auto
  obtain co5 m5 where n5: "cl_nodes sample_cluster 5 = Some co5" "co_agents co5 = LearnerNode m5" "fresh_three (la_learner m5)"
    "acceptors_send_learns (la_config m5)" using sample_cluster_learner [of 5] by auto
  obtain d1 where s1: "cluster_step sample_env sample_cluster
      (sample_cluster\<lparr>cl_nodes := (cl_nodes sample_cluster)(1 \<mapsto> d1), cl_net := insert (learn_msg 1 1 val_a) (cl_net sample_cluster)\<rparr>)"
    (is "cluster_step _ _ ?a") using cluster_accepts [OF n1] by blast
  obtain d2 where s2: "cluster_step sample_env ?a
      (?a\<lparr>cl_nodes := (cl_nodes ?a)(2 \<mapsto> d2), cl_net := insert (learn_msg 2 1 val_a) (cl_net ?a)\<rparr>)"
    (is "cluster_step _ _ ?b") using cluster_accepts [of ?a 2 co2 a2] n2 by auto
  obtain net4 c4 l4 where s4: "(cluster_step sample_env)\<^sup>*\<^sup>* ?b
      (?b\<lparr>cl_nodes := (cl_nodes ?b)(4 \<mapsto> c4), cl_net := cl_net ?b \<union> net4\<rparr>)" (is "_\<^sup>*\<^sup>* _ ?c")
    "co_learner c4 = Some l4" "learned (la_learner l4) = [(1, val_a)]"
    using cluster_learns [of ?b 4 co4 m4 1 val_a] n4 by auto
  obtain net5 c5 l5 where s5: "(cluster_step sample_env)\<^sup>*\<^sup>* ?c
      (?c\<lparr>cl_nodes := (cl_nodes ?c)(5 \<mapsto> c5), cl_net := cl_net ?c \<union> net5\<rparr>)" (is "_\<^sup>*\<^sup>* _ ?d")
    "co_learner c5 = Some l5" "learned (la_learner l5) = [(1, val_a)]"
    using cluster_learns [of ?c 5 co5 m5 1 val_a] n5 by auto
  have "(cluster_step sample_env)\<^sup>*\<^sup>* sample_cluster ?d"
    using s1 s2 s4(1) s5(1) by (meson converse_rtranclp_into_rtranclp rtranclp_trans)
  with s4 s5 show ?thesis by (intro exI [of _ ?d] exI [of _ c4] exI [of _ c5] exI [of _ l4] exI [of _ l5]) simp
qed

end
