(* ===== verification/Runner_Runs.thy ===== *)
theory Runner_Runs
  imports Runner
begin

text \<open>
  What a run of the runner is: a run of the coordinator with one tick per round, whatever the
  sockets do (\<open>run_rounds_ticks\<close>); the metrics never panic; the demo client sends each of its
  requests once; the loop ends after a shutdown.
\<close>

section \<open>Metrics\<close>

definition metrics_ok :: "metrics_helper \<Rightarrow> bool" where
  "metrics_ok m \<longleftrightarrow> (global_start m \<noteq> None \<longrightarrow> batch_start m \<noteq> None) \<and> (0 < global_count m \<longrightarrow> last_response m \<noteq> None)"

lemma metrics_new_ok: "metrics_ok metrics_new"
  by (simp add: metrics_ok_def metrics_new_def)

lemma start_timers_ok: "metrics_ok m \<Longrightarrow> metrics_ok (start_timers c m)"
  by (auto simp: metrics_ok_def start_timers_def)

lemma track_ok:
  "metrics_ok m \<Longrightarrow> last_response m \<noteq> None \<Longrightarrow> \<exists>report m'. track c n m = Some (report, m') \<and> metrics_ok m'"
  by (auto simp: track_def metrics_ok_def Let_def)

lemma flush_global_ok: "metrics_ok m \<Longrightarrow> \<exists>report m'. flush_global m = Some (report, m') \<and> metrics_ok m'"
  by (auto simp: flush_global_def metrics_ok_def Let_def split: option.split)

section \<open>Parts of a round\<close>

text \<open>
  The coordinator makes a run without ticks; the metrics stay well-formed, and what the runner was
  made of stays.
\<close>

definition part_moves :: "environment \<Rightarrow> runner \<Rightarrow> outbox \<Rightarrow> runner \<Rightarrow> bool" where
  "part_moves env r out r' \<longleftrightarrow>
     (\<exists>es. CoTick \<notin> snd ` set es \<and> co_run env es (rn_paxos r) = Some ((), out, rn_paxos r')) \<and>
     (metrics_ok (rn_metrics r) \<longrightarrow> metrics_ok (rn_metrics r')) \<and>
     rn_config r' = rn_config r \<and> rn_node r' = rn_node r \<and> (rn_stop r \<longrightarrow> rn_stop r')"

lemma co_run_append:
  "co_run env es co = Some ((), out, co1) \<Longrightarrow> co_run env es' co1 = Some ((), out', co2) \<Longrightarrow>
   co_run env (es @ es') co = Some ((), out @ out', co2)"
proof (induction es arbitrary: co out)
  case (Cons e es)
  from Cons.prems(1) obtain o1 o2 co' where step: "co_step env e co = Some ((), o1, co')"
    "co_run env es co' = Some ((), o2, co1)" "out = o1 @ o2"
    by (auto simp: co_run_def step_bind_Some)
  from Cons.IH [OF step(2) Cons.prems(2)] step(1,3) show ?case by (simp add: co_run_def step_bind_def)
qed (simp add: co_run_def step_return_def)

lemma co_run_one: "co_step env e co = Some ((), out, co') \<Longrightarrow> co_run env [e] co = Some ((), out, co')"
  by (simp add: co_run_def step_bind_def step_return_def)

interpretation part: trace_relation "part_moves env" for env
proof
  show "part_moves env r [] r" for r
    by (auto simp: part_moves_def co_run_def step_return_def intro: exI [of _ "[]"])
  show "part_moves env r (out @ out') r2" if "part_moves env r out r1" "part_moves env r1 out' r2" for r out r1 out' r2
  proof -
    from that obtain es es' where "CoTick \<notin> snd ` set es" "co_run env es (rn_paxos r) = Some ((), out, rn_paxos r1)"
      "CoTick \<notin> snd ` set es'" "co_run env es' (rn_paxos r1) = Some ((), out', rn_paxos r2)"
      by (auto simp: part_moves_def)
    then have "\<exists>es. CoTick \<notin> snd ` set es \<and> co_run env es (rn_paxos r) = Some ((), out @ out', rn_paxos r2)"
      by (intro exI [of _ "es @ es'"]) (auto intro: co_run_append)
    with that show ?thesis by (simp add: part_moves_def)
  qed
qed

text \<open>An operation of the coordinator that is an event.\<close>

lemma part_event:
  assumes "\<And>co x out co'. m co = Some (x, out, co') \<Longrightarrow> co_step env (c, ev) co = Some ((), out, co')" and "ev \<noteq> CoTick"
  shows "obeys (part_moves env) (rn_paxos_step m)"
  unfolding obeys_def part_moves_def rn_paxos_step_def
  using assms by (auto intro!: exI [of _ "[(c, ev)]"] co_run_one)

lemma part_update:
  assumes "\<And>r. rn_paxos (f r) = rn_paxos r" and "\<And>r. metrics_ok (rn_metrics r) \<Longrightarrow> metrics_ok (rn_metrics (f r))"
    and "\<And>r. rn_config (f r) = rn_config r" and "\<And>r. rn_node (f r) = rn_node r" and "\<And>r. rn_stop r \<Longrightarrow> rn_stop (f r)"
  shows "obeys (part_moves env) (step_update f)"
  using assms by (auto simp: obeys_def part_moves_def co_run_def step_return_def intro: exI [of _ "[]"])

named_theorems part_steps \<open>parts of a round that are runs of the coordinator without ticks\<close>

lemma part_submit [part_steps]: "obeys (part_moves env) (rn_paxos_step (co_submit_client_request v))"
  by (rule part_event [where ev = "CoSubmit v"]) (simp_all add: step_bind_def step_return_def)

lemma part_message [part_steps]: "obeys (part_moves env) (rn_paxos_step (co_handle_message env c m))"
  by (rule part_event [where ev = "CoReceive m" and c = c]) (simp_all add: step_bind_def step_return_def)

lemma part_failure [part_steps]: "obeys (part_moves env) (rn_paxos_step (co_failure_service env c))"
  by (rule part_event [where ev = CoFailure and c = c]) (simp_all add: step_bind_def step_return_def)

lemma part_beat [part_steps]: "obeys (part_moves env) (rn_paxos_step co_send_heartbeat)"
  by (rule part_event [where ev = CoBeat]) simp_all

lemma part_control [part_steps]: "obeys (part_moves env) (handle_host_control i)"
  unfolding handle_host_control_def by (rule part_update) (simp_all split: option.split host_cmd.split)

lemma part_heartbeat [part_steps]: "obeys (part_moves env) (rn_send_heartbeat i)"
  unfolding rn_send_heartbeat_def [abs_def]
  by (intro obeys_if part.obeys_bind part.obeys_return part_steps part_update) simp_all

lemma part_open [part_steps]: "obeys (part_moves env) (open_clients i leader)"
  by (auto simp: obeys_def open_clients_def setup_listener_def step_return_def part.R_refl
      split: paxos_role.splits if_splits)
    (auto simp: part_moves_def co_run_def step_return_def intro: exI [of _ "[]"])

lemma part_check [part_steps]: "obeys (part_moves env) (failure_check env i)"
proof -
  have "obeys (part_moves env) (case res of None \<Rightarrow> step_return () | Some leader \<Rightarrow> open_clients i leader)" for res
    by (cases res) (simp_all add: part.obeys_return part_steps del: step_simps)
  then show ?thesis
    unfolding failure_check_def [abs_def]
    by (intro obeys_if part.obeys_bind part.obeys_return part_steps part_update) simp_all
qed

lemma part_from:
  assumes "part_moves env r1 out r'" and "rn_paxos r1 = rn_paxos r" and "rn_config r1 = rn_config r"
    and "rn_node r1 = rn_node r" and "metrics_ok (rn_metrics r) \<longrightarrow> metrics_ok (rn_metrics r1)"
    and "rn_stop r \<longrightarrow> rn_stop r1"
  shows "part_moves env r out r'"
  using assms by (auto simp: part_moves_def)

lemma part_clients [part_steps]: "obeys (part_moves env) (process_clients i)"
proof (clarsimp simp only: obeys_def)
  fix r x out r' assume run: "process_clients i r = Some (x, out, r')"
  have each: "obeys (part_moves env)
      (step_each (\<lambda>v. step_bind (rn_paxos_step (co_submit_client_request v)) (\<lambda>_. step_return ())) vs)" for vs
    by (intro part.obeys_each part.obeys_bind part_steps part.obeys_return)
  show "part_moves env r out r'"
  proof (cases "co_is_leader (rn_paxos r)")
    case True
    with run obtain vs s where "step_each (\<lambda>v. step_bind (rn_paxos_step (co_submit_client_request v)) (\<lambda>_. step_return ())) vs
        (r\<lparr>rn_clients := s, rn_metrics := (if vs = [] then rn_metrics r else start_timers (at_clients i) (rn_metrics r))\<rparr>)
        = Some (x, out, r')"
      by (auto simp: process_clients_def split: option.splits simp del: step_simps)
    from obeysD [OF each this] show ?thesis
      by (rule part_from) (simp_all add: start_timers_ok)
  next
    case False
    with run show ?thesis using part.R_refl by (simp add: process_clients_def)
  qed
qed

lemma part_network [part_steps]: "obeys (part_moves env) (process_network env i)"
proof (clarsimp simp only: obeys_def)
  fix r x out r' assume run: "process_network env i r = Some (x, out, r')"
  have each: "obeys (part_moves env)
      (step_each (\<lambda>(k, m). step_bind (rn_paxos_step (co_handle_message env (at_network i k) m)) (\<lambda>_. step_return ())) ms)" for ms
    by (intro part.obeys_each) (auto intro!: part.obeys_bind part_steps part.obeys_return simp del: step_simps)
  from run obtain ms s where
    "step_each (\<lambda>(k, m). step_bind (rn_paxos_step (co_handle_message env (at_network i k) m)) (\<lambda>_. step_return ()))
      (enumerate 0 ms) (r\<lparr>rn_network := s\<rparr>) = Some (x, out, r')"
    by (auto simp: process_network_def split: option.splits simp del: step_simps)
  from obeysD [OF each this] show "part_moves env r out r'" by (rule part_from) simp_all
qed

lemma rn_paxos_step_simps:
  "rn_paxos_step (step_return x) = step_return x"
  "rn_paxos_step (step_bind m f) = step_bind (rn_paxos_step m) (\<lambda>x. rn_paxos_step (f x))"
  by (auto simp: rn_paxos_step_def step_bind_def fun_eq_iff split: option.splits)

lemma part_demo_loop: "obeys (part_moves env) (rn_paxos_step (demo_loop quota max_requests d))"
  by (induction quota arbitrary: d)
    (auto simp: rn_paxos_step_simps intro!: part.obeys_bind part.obeys_return part_steps simp del: step_simps)

lemma part_demo [part_steps]: "obeys (part_moves env) (run_demo i)"
proof -
  have "obeys (part_moves env) (rn_paxos_step (send_if_ready c q k d))" for c q k d
  proof -
    have "rn_paxos_step (send_if_ready c q k d) = (\<lambda>r. (if \<not> co_is_leader (rn_paxos r) \<or> clk_now c < demo_start d
        then step_return d else rn_paxos_step (demo_loop (unat q) k d)) r)"
      by (simp add: fun_eq_iff send_if_ready_def rn_paxos_step_def)
    then show ?thesis by (simp only:) (intro obeys_if part.obeys_return part_demo_loop)
  qed
  then have "obeys (part_moves env) (step_bind (rn_paxos_step (send_if_ready c q k d))
      (\<lambda>d'. step_update (\<lambda>r. r\<lparr>rn_demo := Some d'\<rparr>)))" for c q k d
    by (intro part.obeys_bind part_update) simp_all
  then show ?thesis
    unfolding run_demo_def [abs_def] obeys_def
    by (auto split: option.splits simp: part.R_refl simp del: step_simps) (auto simp: part.R_refl)
qed

lemma part_dispatch [part_steps]: "obeys (part_moves env) (dispatch_responses i rs)"
proof (clarsimp simp only: obeys_def)
  fix r x out r' assume run: "dispatch_responses i rs r = Some (x, out, r')"
  show "part_moves env r out r'"
  proof (cases "co_is_leader (rn_paxos r)")
    case True
    let ?m = "(rn_metrics r)\<lparr>last_response := Some (clk_now (at_answer i)), idle_logged := False\<rparr>"
    from True run obtain s report m' where r': "track (at_track i) (length rs) ?m = Some (report, m')" "out = []"
      "r' = r\<lparr>rn_clients := s, rn_metrics := m'\<rparr>"
      by (auto simp: dispatch_responses_def Let_def split: option.splits)
    have "metrics_ok (rn_metrics r) \<longrightarrow> metrics_ok m'"
      using track_ok [of ?m "at_track i" "length rs"] r'(1) by (auto simp: metrics_ok_def)
    with r' show ?thesis using part.R_refl [of env r'] by (auto intro: part_from)
  next
    case False
    with run show ?thesis using part.R_refl by (simp add: dispatch_responses_def)
  qed
qed

lemma part_idle [part_steps]: "obeys (part_moves env) (report_idle i)"
proof (clarsimp simp only: obeys_def)
  fix r x out r' assume "report_idle i r = Some (x, out, r')"
  then have "out = [] \<and> (\<exists>m. r' = r\<lparr>rn_metrics := m\<rparr> \<and> (metrics_ok (rn_metrics r) \<longrightarrow> metrics_ok m))"
    using flush_global_ok [of "rn_metrics r"]
    by (auto simp: report_idle_def split: option.splits if_splits intro: exI [of _ "rn_metrics r"])
  then show "part_moves env r out r'" using part.R_refl [of env r'] by (auto intro: part_from)
qed

section \<open>Rounds\<close>

definition ticks :: "(clock \<times> coordinator_event) list \<Rightarrow> nat" where
  "ticks es = length (filter (\<lambda>e. snd e = CoTick) es)"

text \<open>As \<open>part_moves\<close>, with \<open>n\<close> ticks.\<close>

definition run_moves :: "environment \<Rightarrow> nat \<Rightarrow> runner \<Rightarrow> outbox \<Rightarrow> runner \<Rightarrow> bool" where
  "run_moves env n r out r' \<longleftrightarrow>
     (\<exists>es. ticks es = n \<and> co_run env es (rn_paxos r) = Some ((), out, rn_paxos r')) \<and>
     (metrics_ok (rn_metrics r) \<longrightarrow> metrics_ok (rn_metrics r')) \<and>
     rn_config r' = rn_config r \<and> rn_node r' = rn_node r \<and> (rn_stop r \<longrightarrow> rn_stop r')"

lemma run_moves_0: "part_moves env = run_moves env 0"
proof -
  have "CoTick \<notin> snd ` set es \<longleftrightarrow> ticks es = 0" for es
    by (force simp: ticks_def filter_empty_conv)
  then show ?thesis by (simp add: fun_eq_iff part_moves_def run_moves_def)
qed

lemma run_moves_trans:
  assumes "run_moves env m r out r1" and "run_moves env n r1 out' r2"
  shows "run_moves env (m + n) r (out @ out') r2"
proof -
  from assms obtain es es' where "ticks es = m" "co_run env es (rn_paxos r) = Some ((), out, rn_paxos r1)"
    "ticks es' = n" "co_run env es' (rn_paxos r1) = Some ((), out', rn_paxos r2)" by (auto simp: run_moves_def)
  then have "\<exists>es. ticks es = m + n \<and> co_run env es (rn_paxos r) = Some ((), out @ out', rn_paxos r2)"
    by (intro exI [of _ "es @ es'"]) (auto simp: ticks_def intro: co_run_append)
  with assms show ?thesis by (simp add: run_moves_def)
qed

lemma run_bind:
  "obeys (run_moves env m) f \<Longrightarrow> (\<And>x. obeys (run_moves env n) (g x)) \<Longrightarrow> obeys (run_moves env (m + n)) (step_bind f g)"
  unfolding obeys_def by (auto simp: step_bind_Some) (metis run_moves_trans)

lemma run_tick: "obeys (run_moves env 1) (rn_paxos_step (co_handle_tick env c))"
  unfolding obeys_def run_moves_def rn_paxos_step_def
  by (auto simp: ticks_def step_bind_def step_return_def intro!: exI [of _ "[(c, CoTick)]"] co_run_one)

lemma run_round_moves: "obeys (run_moves env 1) (run_round env next_tick i)"
proof -
  note before = part_steps [unfolded run_moves_0]
  have bind: "obeys (run_moves env 0) f \<Longrightarrow> (\<And>x. obeys (run_moves env 1) (g x)) \<Longrightarrow> obeys (run_moves env 1) (step_bind f g)"
    for f :: "(runner, unit) step" and g :: "unit \<Rightarrow> (runner, round_output) step"
    using run_bind [of env 0 f 1 g] by simp
  have dispatch: "obeys (run_moves env 0) (case res of None \<Rightarrow> step_return ([], None) | Some rs \<Rightarrow> dispatch_responses i rs)" for res
    using part.obeys_return by (cases res) (simp_all add: before run_moves_0 del: step_simps)
  have after: "obeys (run_moves env 0) (step_bind (case res of None \<Rightarrow> step_return ([], None) | Some rs \<Rightarrow> dispatch_responses i rs)
      (\<lambda>(sent, report). step_bind (report_idle i) (\<lambda>final. step_return \<lparr>answered = sent, throughput = report,
         final_throughput = final, sleeping = next_tick - clk_now (at_end i)\<rparr>)))" for res
    using part.obeys_return
    by (intro run_bind [where m = 0 and n = 0, simplified] dispatch)
      (auto simp: run_moves_0 intro!: run_bind [where m = 0 and n = 0, simplified] before simp del: step_simps)
  have tick: "obeys (run_moves env 1) (step_bind (rn_paxos_step (co_handle_tick env c)) g)"
    if "\<And>res. obeys (run_moves env 0) (g res)" for c and g :: "client_response list option \<Rightarrow> (runner, round_output) step"
    using run_bind [OF run_tick that] by simp
  show ?thesis unfolding run_round_def by (rule bind, rule before)+ (rule tick, rule after)
qed

text \<open>A run of the loop is a run of the coordinator with a tick for each round.\<close>

lemma run_rounds_ticks:
  "run_rounds env next_tick is r = Some (outs, out, r') \<Longrightarrow> run_moves env (length outs) r out r'"
proof (induction "is" arbitrary: next_tick r outs out)
  case Nil
  then show ?case using part.R_refl [of env r] by (simp add: run_moves_0)
next
  case (Cons i "is")
  show ?case
  proof (cases "rn_stop r")
    case True
    with Cons.prems show ?thesis using part.R_refl [of env r] by (simp add: run_moves_0 run_rounds.simps(2))
  next
    case False
    let ?later = "next_tick + tick_duration (rn_config r)"
    from False Cons.prems obtain o1 out1 r1 outs' out2 where "run_round env ?later i r = Some (o1, out1, r1)"
      "run_rounds env ?later is r1 = Some (outs', out2, r')" "outs = o1 # outs'" "out = out1 @ out2"
      by (auto simp: run_rounds.simps(2) Let_def step_bind_Some)
    with obeysD [OF run_round_moves] Cons.IH show ?thesis by (fastforce dest: run_moves_trans)
  qed
qed

section \<open>The demo client\<close>

definition demo_requests :: "demo_client_helper \<Rightarrow> nat \<Rightarrow> paxos_value list" where
  "demo_requests d n = map (\<lambda>j. demo_request (d\<lparr>demo_seq := demo_seq d + of_nat j\<rparr>)) [0..<n]"

text \<open>The loop submits the next requests, as many as the quota and the limit allow.\<close>

lemma demo_loop_exact:
  "demo_loop quota max_requests d =
   (let n = min quota (unat max_requests - unat (demo_seq d)) in
    step_bind (step_each (\<lambda>v. step_bind (co_submit_client_request v) (\<lambda>_. step_return ())) (demo_requests d n))
      (\<lambda>_. step_return (d\<lparr>demo_seq := demo_seq d + of_nat n\<rparr>)))"
proof (induction quota arbitrary: d)
  case 0
  then show ?case by (simp add: demo_requests_def fun_eq_iff step_bind_def)
next
  case (Suc quota)
  show ?case
  proof (cases "max_requests \<le> demo_seq d")
    case True
    then have "unat max_requests - unat (demo_seq d) = 0" by (simp add: word_le_nat_alt)
    with True show ?thesis by (simp add: demo_requests_def fun_eq_iff step_bind_def)
  next
    case False
    then have less: "unat (demo_seq d) < unat max_requests" by (simp add: word_le_nat_alt)
    moreover have "unat max_requests < 2 ^ 64" by (rule order.strict_trans2 [OF unsigned_less]) simp
    ultimately have seq: "unat (demo_seq d + 1) = unat (demo_seq d) + 1" by (simp add: unat_word_ariths)
    let ?d = "d\<lparr>demo_seq := demo_seq d + 1\<rparr>"
    let ?n = "min quota (unat max_requests - unat (demo_seq ?d))"
    have n: "min (Suc quota) (unat max_requests - unat (demo_seq d)) = Suc ?n" using seq less by simp
    have "demo_requests d (Suc ?n) = demo_request d # demo_requests ?d ?n"
      by (simp add: demo_requests_def map_upt_Suc add.assoc del: upt_Suc)
    with n False Suc [of ?d] show ?thesis
      by (simp add: Let_def fun_eq_iff step_bind_def split_def add.assoc split: option.split)
  qed
qed

lemma demo_requests_distinct:
  assumes "n \<le> unat (max_requests :: u64)"
  shows "distinct (demo_requests d n)"
proof -
  have "unat max_requests < 2 ^ 64" by (rule order.strict_trans2 [OF unsigned_less]) simp
  with assms have small: "n < 2 ^ 64" by simp
  have "inj_on (\<lambda>j. demo_request (d\<lparr>demo_seq := demo_seq d + of_nat j\<rparr>)) {0..<n}"
  proof (rule inj_onI)
    fix j k assume "j \<in> {0..<n}" and "k \<in> {0..<n}"
      and "demo_request (d\<lparr>demo_seq := demo_seq d + of_nat j\<rparr>) = demo_request (d\<lparr>demo_seq := demo_seq d + of_nat k\<rparr>)"
    then have "j < 2 ^ 64" "k < 2 ^ 64" "(of_nat j :: u64) = of_nat k" using small by (simp_all add: demo_request_def)
    moreover have "unat (of_nat x :: u64) = x" if "x < 2 ^ 64" for x
      using that by (simp add: unsigned_of_nat take_bit_nat_eq_self)
    ultimately show "j = k" by metis
  qed
  then show ?thesis by (simp add: demo_requests_def distinct_map)
qed

section \<open>The end of a run\<close>

lemma run_rounds_stopped: "rn_stop r \<Longrightarrow> run_rounds env next_tick is r = Some ([], [], r)"
  by (cases "is") (simp_all add: run_rounds.simps(2))

lemma shutdown_stops:
  assumes "in_command i = Some Shutdown" and "run_round env next_tick i r = Some (x, out, r')"
  shows "rn_stop r'"
proof -
  have "run_round env next_tick i (r\<lparr>rn_stop := True\<rparr>) = run_round env next_tick i r"
    using assms(1) by (simp add: run_round_def step_bind_def handle_host_control_def)
  with assms(2) obeysD [OF run_round_moves] have "run_moves env 1 (r\<lparr>rn_stop := True\<rparr>) out r'" by metis
  then show ?thesis by (simp add: run_moves_def)
qed

lemma run_rounds_shutdown:
  "in_command i = Some Shutdown \<Longrightarrow> run_rounds env next_tick (before @ i # after) r = run_rounds env next_tick (before @ [i]) r"
proof (induction before arbitrary: next_tick r)
  case Nil
  have "run_rounds env t after r' = Some ([], [], r')" if "run_round env t i r = Some (x, out, r')" for t x out r'
    using shutdown_stops [OF Nil that] by (rule run_rounds_stopped)
  then show ?case by (auto simp: run_rounds.simps(2) step_bind_def Let_def split: option.split prod.split)
next
  case (Cons b before)
  then show ?case by (simp add: run_rounds.simps(2) step_bind_def Let_def split: option.split)
qed

lemma run_rounds_length: "run_rounds env next_tick is r = Some (outs, out, r') \<Longrightarrow> length outs \<le> length is"
  by (induction "is" arbitrary: next_tick r outs out) (fastforce simp: run_rounds.simps(2) step_bind_Some Let_def split: if_splits)+

section \<open>A node from its start\<close>

lemma runner_new_parts:
  assumes "runner_new env c bind n nodes leader cfg pdisk adisk ldisk = Some r"
  shows "coordinator_new env c n nodes leader cfg pdisk adisk ldisk = Some (rn_paxos r)" and "rn_metrics r = metrics_new"
    and "rn_config r = cfg" and "rn_node r = n"
  using assms by (auto simp: runner_new_def split: option.splits)

lemma metrics_panic_free:
  assumes "metrics_ok (rn_metrics r)"
  shows "report_idle i r \<noteq> None"
    and "dispatch_responses i rs r = None \<Longrightarrow>
      co_is_leader (rn_paxos r) \<and> send_responses (client_writes i) (rn_node r) rs (rn_clients r) = None"
proof -
  show "report_idle i r \<noteq> None"
    using flush_global_ok [OF assms] by (auto simp: report_idle_def split: option.split)
  let ?m = "(rn_metrics r)\<lparr>last_response := Some (clk_now (at_answer i)), idle_logged := False\<rparr>"
  have "metrics_ok ?m" using assms by (simp add: metrics_ok_def)
  from track_ok [OF this, of "at_track i" "length rs"]
  show "dispatch_responses i rs r = None \<Longrightarrow>
      co_is_leader (rn_paxos r) \<and> send_responses (client_writes i) (rn_node r) rs (rn_clients r) = None"
    by (auto simp: dispatch_responses_def Let_def split: if_splits option.splits)
qed

end
