(* ===== verification/Runner_Samples.thy ===== *)
theory Runner_Samples
  imports Samples Runner_Runs
begin

text \<open>
  A node of the role learner in its runner: in its first round it reads two learns, as bytes, from
  one connection.
\<close>

definition quiet_round :: round_input where
  "quiet_round = \<lparr>in_command = None, at_heartbeat = clk, at_check = clk, at_clients = clk, at_network = (\<lambda>k. clk),
     at_demo = clk, at_tick = clk, at_answer = clk, at_track = clk, at_end = clk, client_accepts = 0, client_order = [],
     client_reads = (\<lambda>c. None), net_accepts = 0, net_order = [], net_reads = (\<lambda>c. None),
     client_writes = (\<lambda>c b. True), binds = (\<lambda>a. True)\<rparr>"

definition reading_round :: "bytes \<Rightarrow> round_input" where
  "reading_round bs = quiet_round\<lparr>net_accepts := 1, net_order := [1], net_reads := (\<lambda>c. Some (if c = 1 then bs else []))\<rparr>"

definition three_acceptors :: "node list" where
  "three_acceptors = [mk_node 6 Acceptor, mk_node 7 Acceptor, mk_node 8 Acceptor]"

definition sample_runner :: "runner option" where
  "sample_runner = runner_new sample_env clk (\<lambda>a. True) (mk_node 5 Learner) three_acceptors False small_batch
     empty_disk empty_disk empty_disk"

lemma sample_runner_learner:
  "\<exists>r l. sample_runner = Some r \<and> co_agents (rn_paxos r) = LearnerNode l \<and> fresh_three (la_learner l) \<and>
     acceptors_send_learns (la_config l) \<and> la_config l = small_batch \<and> rn_network r = net_server_new\<lparr>listening := True\<rparr> \<and>
     rn_config r = small_batch \<and> rn_max_messages r = 3 \<and> \<not> rn_stop r \<and> rn_demo r = None \<and> rn_metrics r = metrics_new \<and>
     rn_last_heartbeat r = 0 \<and> rn_last_check r = 0"
proof -
  let ?n = "mk_node 5 Learner"
  obtain p where p: "proposer_agent_new proposer_codec0 clk ?n three_acceptors False small_batch empty_disk = Some p"
    by (simp add: proposer_agent_new_def Let_def)
  obtain a where a: "acceptor_agent_new hash0 acceptor_codec0 clk ?n three_acceptors small_batch empty_disk = Some a"
    by (simp add: acceptor_agent_new_def acceptor_new_def acceptor_helper_new_def sh_new_def)
  obtain l where l: "learner_agent_new hash0 learner_codec0 clk ?n three_acceptors small_batch empty_disk = Some l"
    by (simp add: learner_agent_new_def learner_new_def sh_new_def Let_def)
  have cfg: "la_config l = small_batch" using l by (auto simp: learner_agent_new_def Let_def)
  have fresh: "fresh_three (la_learner l)" "acceptors_send_learns (la_config l)"
    using l by (auto simp: learner_agent_new_def learner_new_def sh_new_def Let_def fresh_three_def three_acceptors_def
        la_is_acceptor_role_def learner_load_state_def load_and_replay_state_def)
  have demo: "demo_client small_batch = False" by (simp add: small_batch_def sample_config_def)
  have clk: "clk_now clk = 0" by (simp add: clk_def)
  have three: "length three_acceptors = 3" by (simp add: three_acceptors_def)
  have role: "role ?n = Learner" by (simp add: mk_node_def)
  from p a l fresh cfg demo clk three role show ?thesis
    by (simp add: sample_runner_def runner_new_def coordinator_new_def agents_new_def sample_env_def Let_def
        setup_listener_def net_server_new_def)
qed

lemma show_digit: "n < 10 \<Longrightarrow> show_u64 (of_nat n) = [digit_char n]"
proof -
  assume n: "n < 10"
  then have "unat (of_nat n :: u64) = n" by (simp add: unat_of_nat)
  with n show ?thesis by (simp add: show_u64_def show_nat.simps)
qed

lemma sample_frames:
  "\<exists>f g. list_all2 framed [f, g] [learn_msg 6 1 (get_value ''k''), learn_msg 7 1 (get_value ''k'')] \<and>
     length (f @ g) < 2 ^ 32"
proof -
  have "\<exists>f. framed f (learn_msg i 1 (get_value ''k'')) \<and> length f < 1000" if i: "i = of_nat n" "n < 10" for i n
  proof -
    let ?m = "learn_msg i 1 (get_value ''k'')"
    have safe: "message_safe ?m" "norm_message ?m = ?m"
      by (simp_all add: message_safe_def norm_message_def learn_msg_def mk_node_def value_safe_def get_value_def plain_def utf8_ok_ascii)
    have "length (message_text ?m) < 900"
      using i by (simp add: message_text_def learn_msg_def serialize_node_def mk_node_def kv_def value_parts_def
          get_value_def show_cmd_def show_u64_1 show_digit del: One_nat_def)
    then show ?thesis
      using serialize_framed [OF safe(1)] safe(2)
      by (intro exI [of _ "u32_to_be_bytes (length (message_text ?m)) @ message_text ?m"]) (simp add: serialize_def)
  qed
  from this [of 6 6] this [of 7 7] show ?thesis by fastforce
qed

lemma get_messages_accept: "get_messages limit n order reads s = get_messages limit 0 order reads (accept_conns n s)"
  by (simp add: get_messages_def Let_def accept_conns_def)

lemma sample_read:
  assumes "list_all2 framed [f, g] [m, m']" and "length (f @ g) < 2 ^ 32"
  shows "\<exists>s. get_messages 3 1 [1] (\<lambda>c. Some (if c = 1 then f @ g else [])) (net_server_new\<lparr>listening := True\<rparr>) = Some ([m, m'], s)"
proof -
  let ?s = "accept_conns 1 (net_server_new\<lparr>listening := True\<rparr>)"
  have s: "hm_get (buffers ?s) 1 = Some []"
    by (simp add: accept_conns_def accept_one_conn_def net_server_new_def dict_simps)
  have "f \<noteq> []" using assms(1) by (auto dest: framed_length)
  have "frames server_incomplete 0 (f @ g) = Some ([m, m'], length (f @ g))"
    using server.frames_stream [OF assms(1), of "f @ g" "[]" "[]"] assms(2) by (auto simp: numeral_2_eq_2)
  with get_messages_one [OF _ _ s, of "[1]" "f @ g" 3] \<open>f \<noteq> []\<close> show ?thesis
    by (subst get_messages_accept) simp
qed

lemma learner_node_receives:
  "co_agents co = LearnerNode l \<Longrightarrow> \<exists>x out. co_handle_message env c (learn_msg i s v) co =
     Some (x, out, co\<lparr>co_agents := LearnerNode (la_step (env_learner_codec env) (c, Receive (learn_msg i s v)) l)\<rparr>)"
  by (simp add: co_handle_message_def learner_message_def to_learner_def with_learner_def step_lift_def
      learn_msg_def step_bind_def split_def)


text \<open>The first round of the node: both learns are read, and the value is learned.\<close>

lemma sample_runner_run:
  assumes "sample_runner = Some r"
    and "list_all2 framed [f, g] [learn_msg 6 1 (get_value ''k''), learn_msg 7 1 (get_value ''k'')]" and "length (f @ g) < 2 ^ 32"
  shows "\<exists>outs out r' l. run_rounds sample_env 0 [reading_round (f @ g)] r = Some (outs, out, r') \<and>
    co_learner (rn_paxos r') = Some l \<and> learned (la_learner l) = [(1, get_value ''k'')] \<and> length outs = 1"
proof -
  let ?v = "get_value ''k''"
  from sample_runner_learner assms(1) obtain l where r: "co_agents (rn_paxos r) = LearnerNode l" "fresh_three (la_learner l)"
    "acceptors_send_learns (la_config l)" "la_config l = small_batch" "rn_network r = net_server_new\<lparr>listening := True\<rparr>"
    "rn_config r = small_batch" "rn_max_messages r = 3" "\<not> rn_stop r" "rn_demo r = None" "rn_metrics r = metrics_new"
    "rn_last_heartbeat r = 0" "rn_last_check r = 0" by (metis option.inject)
  from sample_read [OF assms(2,3)] obtain s where
    s: "get_messages 3 1 [1] (\<lambda>c. Some (if c = 1 then f @ g else [])) (net_server_new\<lparr>listening := True\<rparr>) =
      Some ([learn_msg 6 1 ?v, learn_msg 7 1 ?v], s)" by blast
  let ?l1 = "la_step learner_codec0 (clk, Receive (learn_msg 6 1 ?v)) l"
  let ?l2 = "la_step learner_codec0 (clk, Receive (learn_msg 7 1 ?v)) ?l1"
  let ?l3 = "snd (la_handle_tick learner_codec0 clk ?l2)"
  have learned: "learned (la_learner ?l2) = [(1, ?v)]" by (rule two_votes [OF _ r(2,3)]) simp
  have cfg: "la_config ?l2 = small_batch"
    using r(4) by (simp del: la_step.simps)
  have clk: "clk_now clk = 0" by (simp add: clk_def)
  have "la_learner ?l3 = la_learner ?l2"
    unfolding la_handle_tick_agent(1) cfg
    by (simp add: clk small_batch_def sample_config_def from_millis_def del: la_step.simps)
  have beat: "0 < from_millis (heartbeat_interval_ms small_batch)" "0 < from_millis (heartbeat_interval_ms small_batch * 5)"
    by (simp_all add: small_batch_def sample_config_def from_millis_def)
  let ?co = "rn_paxos r"
  from learner_node_receives [OF r(1), of sample_env clk 6 1 ?v] obtain x1 o1 where
    m1: "co_handle_message sample_env clk (learn_msg 6 1 ?v) ?co = Some (x1, o1, ?co\<lparr>co_agents := LearnerNode ?l1\<rparr>)"
    by (auto simp: sample_env_def simp del: la_step.simps)
  from learner_node_receives [of "?co\<lparr>co_agents := LearnerNode ?l1\<rparr>" ?l1 sample_env clk 7 1 ?v] obtain x2 o2 where
    m2: "co_handle_message sample_env clk (learn_msg 7 1 ?v) (?co\<lparr>co_agents := LearnerNode ?l1\<rparr>) =
      Some (x2, o2, ?co\<lparr>co_agents := LearnerNode ?l2\<rparr>)"
    by (auto simp: sample_env_def simp del: la_step.simps)
  obtain o3 where tick: "co_handle_tick sample_env clk (?co\<lparr>co_agents := LearnerNode ?l2\<rparr>) =
      Some (None, o3, ?co\<lparr>co_agents := LearnerNode ?l3\<rparr>)"
    by (simp add: co_handle_tick_def with_learner_def step_lift_def step_bind_def split_def sample_env_def del: la_step.simps)
  have "\<exists>outs out r'. run_rounds sample_env 0 [reading_round (f @ g)] r = Some (outs, out, r') \<and>
      co_agents (rn_paxos r') = LearnerNode ?l3 \<and> length outs = 1"
    using r s m1 m2 tick beat
    by (simp add: run_rounds.simps(2) run_round_def handle_host_control_def rn_send_heartbeat_def failure_check_def process_clients_def
        process_network_def co_is_leader_def run_demo_def report_idle_def rn_paxos_step_def reading_round_def
        quiet_round_def step_bind_def clk metrics_new_def Let_def del: la_step.simps)
  then show ?thesis using learned \<open>la_learner ?l3 = la_learner ?l2\<close> by (auto simp: co_learner_def simp del: la_step.simps)
qed

end
