(* ===== verification/Host_Samples.thy ===== *)
theory Host_Samples
  imports Host_Config Host_Storage Host_Network Supervisor Cluster_Samples Runner_Samples
begin

text \<open>A configuration of two clusters with three nodes.\<close>

definition sample_doc :: config_doc where
  "sample_doc =
     \<lparr>doc_log_level = None,
      doc_nodes = Some [(Some 1, Some ''a'', Some ''coordinator''), (Some 2, Some ''b'', Some ''acceptor''),
        (Some 3, Some ''c'', Some ''learner''), (Some 4, Some ''d'', Some ''learner'')],
      doc_clusters = Some [(Some 1, Some [Some 1, Some 2]), (Some 2, Some [Some 3])],
      doc_bool = (\<lambda>k. Some (k \<noteq> ''persistent_storage'')), doc_int = (\<lambda>k. Some 10), doc_crashes = None\<rparr>"

definition sample_actives :: "node list" where
  "sample_actives = [\<lparr>node_id = 1, address = ''a'', role = Coordinator\<rparr>, \<lparr>node_id = 2, address = ''b'', role = Acceptor\<rparr>,
     \<lparr>node_id = 3, address = ''c'', role = Learner\<rparr>]"

lemma sample_doc_parses:
  "Option.bind (doc_nodes sample_doc) (\<lambda>ns. those (map parse_node ns)) =
     Some (sample_actives @ [\<lparr>node_id = 4, address = ''d'', role = Learner\<rparr>])"
  "parse_clusters (doc_clusters sample_doc) = Some [(1, [1, 2]), (2, [3])]"
  "parse_log_level (doc_log_level sample_doc) = Inr LevelInfo"
  by (simp_all add: sample_doc_def sample_actives_def parse_node_def config_role_def parse_clusters_def parse_cluster_def
      hm_insert_def parse_log_level_def)

lemma sample_doc_run_config: "\<exists>rc. parse_run_config sample_doc = Some rc"
  by (simp add: sample_doc_def parse_run_config_def bool_fields_def int_fields_def parse_crashes_def Let_def)

lemma sample_doc_loads:
  assumes "k = 1 \<and> ids = [1, 2] \<or> k = 2 \<and> ids = [3]"
  shows "\<exists>cfg. config_load sample_doc k = Some (Inr cfg) \<and> active_nodes cfg = sample_actives \<and>
    hc_cluster_nodes cfg = filter (\<lambda>n. node_id n \<in> set ids) sample_actives \<and> leader_id cfg = 3"
proof -
  obtain rc where rc: "parse_run_config sample_doc = Some rc" using sample_doc_run_config ..
  have ids: "active_ids [(1, [1, 2]), (2, [3])] = [1, 2, 3]" by (simp add: active_ids_def)
  have act: "filter (\<lambda>n. node_id n \<in> set [1, 2, 3 :: u64]) (sample_actives @ [\<lparr>node_id = 4, address = ''d'', role = Learner\<rparr>]) = sample_actives"
    by (simp add: sample_actives_def)
  have max: "iter_max (map node_id sample_actives) = Some 3" by (simp add: sample_actives_def iter_max_Some del: iter_max.simps)
  have get: "hm_get [(1, [1, 2]), (2, [3])] k = Some ids" using assms by auto
  show ?thesis
    by (simp only: config_load_def sample_doc_parses sum.case Option.bind.simps Let_def ids act max get option.case rc option.map)
      simp
qed

end
