(* ===== verification/Host_Log.thy ===== *)
theory Host_Log
  imports Host_Config
begin

text \<open>
  The log of a node (\<open>runner-ws/src/host_logger.rs\<close>): every entry goes to the console and to a
  file of the node, when its level is within the level of the logger. The texts that the derived
  \<open>Debug\<close> instances of the generated types give are arguments, and so is what a write puts into
  the file: an error of a write is ignored. The log in memory is not used by the program.
\<close>

text \<open>The order of the level filters.\<close>

fun level_rank :: "log_level \<Rightarrow> nat" where
  "level_rank LevelError = 1"
| "level_rank LevelWarn = 2"
| "level_rank LevelInfo = 3"
| "level_rank LevelDebug = 4"

record host_logger =
  hl_node :: node
  hl_file :: bytes
  hl_level :: log_level
  hl_entries :: "(u64 \<times> string) list"
  hl_next_offset :: u64

text \<open>A log file of an earlier run is truncated.\<close>

definition host_logger_new :: "node \<Rightarrow> log_level \<Rightarrow> host_logger" where
  "host_logger_new n level =
     \<lparr>hl_node = n, hl_file = [], hl_level = level, hl_entries = [], hl_next_offset = 0\<rparr>"

definition append_log :: "string \<Rightarrow> host_logger \<Rightarrow> u64 \<times> host_logger" where
  "append_log msg l =
     (hl_next_offset l,
      l\<lparr>hl_next_offset := hl_next_offset l + 1, hl_entries := hl_entries l @ [(hl_next_offset l, msg)]\<rparr>)"

definition console_msg :: "(paxos_role \<Rightarrow> string) \<Rightarrow> string \<Rightarrow> host_logger \<Rightarrow> string" where
  "console_msg show_role msg l =
     ''[node '' @ show_u64 (node_id (hl_node l)) @ '' | '' @ address (hl_node l) @ '' | '' @
     show_role (role (hl_node l)) @ ''] '' @ msg"

definition file_msg :: "(paxos_role \<Rightarrow> string) \<Rightarrow> (log_level \<Rightarrow> string) \<Rightarrow> log_level \<Rightarrow> string \<Rightarrow> host_logger \<Rightarrow> string" where
  "file_msg show_role show_level level msg l =
     ''[node '' @ show_u64 (node_id (hl_node l)) @ '' | '' @ address (hl_node l) @ '' | '' @
     show_role (role (hl_node l)) @ '']['' @ show_level level @ ''] '' @ msg @ [CHR 0x0A]"

text \<open>The result is what the console shows.\<close>

definition host_log ::
  "(paxos_role \<Rightarrow> string) \<Rightarrow> (log_level \<Rightarrow> string) \<Rightarrow> (string \<Rightarrow> string) \<Rightarrow> log_level \<Rightarrow> string \<Rightarrow> host_logger \<Rightarrow>
   string option \<times> host_logger" where
  "host_log show_role show_level written level msg l =
     (if level_rank (hl_level l) < level_rank level then (None, l)
      else (Some (console_msg show_role msg l),
            l\<lparr>hl_file := hl_file l @ written (file_msg show_role show_level level msg l)\<rparr>))"

fun host_log_all ::
  "(paxos_role \<Rightarrow> string) \<Rightarrow> (log_level \<Rightarrow> string) \<Rightarrow> (log_level \<times> string) list \<Rightarrow> host_logger \<Rightarrow> host_logger" where
  "host_log_all show_role show_level [] l = l"
| "host_log_all show_role show_level ((level, msg) # entries) l =
     host_log_all show_role show_level entries (snd (host_log show_role show_level (\<lambda>s. s) level msg l))"

text \<open>The file holds the lines of the entries within the level, in order.\<close>

lemma host_log_step [simp]:
  "hl_level (snd (host_log show_role show_level w level msg l)) = hl_level l"
  "file_msg show_role show_level level' msg' (snd (host_log show_role show_level w level msg l)) =
     file_msg show_role show_level level' msg' l"
  "hl_file (snd (host_log show_role show_level w level msg l)) = hl_file l @
     (if level_rank level \<le> level_rank (hl_level l) then w (file_msg show_role show_level level msg l) else [])"
  by (simp_all add: host_log_def file_msg_def)

lemma host_log_lines:
  "hl_file (host_log_all show_role show_level entries l) = hl_file l @
     concat (map (\<lambda>(level, msg). file_msg show_role show_level level msg l)
       (filter (\<lambda>(level, msg). level_rank level \<le> level_rank (hl_level l)) entries))"
  by (induction show_role show_level entries l rule: host_log_all.induct) simp_all

end
