(* ===== verification/Round_Events.thy ===== *)
theory Round_Events
  imports Runner_Runs
begin

text \<open>
  Which events a round of the runner is for its coordinator: the heartbeat and the failure check
  when they are due, a request for each value that the client server hands out, a message for each
  one that the network server hands out, the requests of the demo client, and the tick. The list is
  computed from the input of the round and the runner's state (\<open>round_events\<close>), and running it
  is what the round does to the coordinator (\<open>run_rounds_events\<close>).
\<close>

section \<open>The events\<close>

definition beat_events :: "round_input \<Rightarrow> runner \<Rightarrow> (clock \<times> coordinator_event) list" where
  "beat_events i r =
     (if heartbeats (rn_config r) \<and>
         from_millis (heartbeat_interval_ms (rn_config r)) \<le> clk_now (at_heartbeat i) - rn_last_heartbeat r
      then [(at_heartbeat i, CoBeat)] else [])"

definition check_events :: "round_input \<Rightarrow> runner \<Rightarrow> (clock \<times> coordinator_event) list" where
  "check_events i r =
     (if heartbeats (rn_config r) \<and>
         from_millis (heartbeat_interval_ms (rn_config r) * 5) \<le> clk_now (at_check i) - rn_last_check r
      then [(at_check i, CoFailure)] else [])"

definition request_events :: "round_input \<Rightarrow> runner \<Rightarrow> (clock \<times> coordinator_event) list" where
  "request_events i r =
     (if co_is_leader (rn_paxos r)
      then case get_requests (rn_max_messages r) (client_accepts i) (client_order i) (client_reads i) (rn_clients r) of
          None \<Rightarrow> []
        | Some (vs, s) \<Rightarrow> map (\<lambda>v. (at_clients i, CoSubmit v)) vs
      else [])"

definition message_events :: "round_input \<Rightarrow> runner \<Rightarrow> (clock \<times> coordinator_event) list" where
  "message_events i r =
     (case get_messages (rn_max_messages r) (net_accepts i) (net_order i) (net_reads i) (rn_network r) of
        None \<Rightarrow> []
      | Some (ms, s) \<Rightarrow> map (\<lambda>(k, m). (at_network i k, CoReceive m)) (enumerate 0 ms))"

definition demo_events :: "round_input \<Rightarrow> runner \<Rightarrow> (clock \<times> coordinator_event) list" where
  "demo_events i r =
     (case rn_demo r of
        None \<Rightarrow> []
      | Some d \<Rightarrow>
          if \<not> co_is_leader (rn_paxos r) \<or> clk_now (at_demo i) < demo_start d then []
          else map (\<lambda>v. (at_demo i, CoSubmit v))
            (demo_requests d (min (unat (batch_size (rn_config r))) (unat (demo_client_requests (rn_config r)) - unat (demo_seq d)))))"

text \<open>The runner when it asks the client server, and when the demo client has its turn.\<close>

definition before_clients :: "environment \<Rightarrow> round_input \<Rightarrow> (runner, unit) step" where
  "before_clients env i =
     step_bind (handle_host_control i) (\<lambda>_. step_bind (rn_send_heartbeat i) (\<lambda>_. failure_check env i))"

definition before_demo :: "environment \<Rightarrow> round_input \<Rightarrow> (runner, unit) step" where
  "before_demo env i =
     step_bind (before_clients env i) (\<lambda>_. step_bind (process_clients i) (\<lambda>_. process_network env i))"

definition at_state :: "(runner, unit) step \<Rightarrow> (runner \<Rightarrow> 'a list) \<Rightarrow> runner \<Rightarrow> 'a list" where
  "at_state m f r = (case m r of None \<Rightarrow> [] | Some (x, out, r') \<Rightarrow> f r')"

definition round_events :: "environment \<Rightarrow> round_input \<Rightarrow> runner \<Rightarrow> (clock \<times> coordinator_event) list" where
  "round_events env i r =
     beat_events i r @ check_events i r @ at_state (before_clients env i) (request_events i) r @
     message_events i r @ at_state (before_demo env i) (demo_events i) r @ [(at_tick i, CoTick)]"

fun run_events :: "environment \<Rightarrow> instant \<Rightarrow> round_input list \<Rightarrow> runner \<Rightarrow> (clock \<times> coordinator_event) list" where
  "run_events env next_tick [] r = []"
| "run_events env next_tick (i # is) r =
     (if rn_stop r then []
      else
        (let later = next_tick + tick_duration (rn_config r) in
         round_events env i r @
         (case run_round env later i r of None \<Rightarrow> [] | Some (x, out, r1) \<Rightarrow> run_events env later is r1)))"

section \<open>Every part does its events\<close>

text \<open>
  A part of a round whose effect on the coordinator are the events \<open>ev\<close>, and which leaves the
  network server alone.
\<close>

definition does :: "environment \<Rightarrow> (runner \<Rightarrow> (clock \<times> coordinator_event) list) \<Rightarrow> (runner, 'a) step \<Rightarrow> bool" where
  "does env ev m \<longleftrightarrow> (\<forall>r x out r'. m r = Some (x, out, r') \<longrightarrow> co_run env (ev r) (rn_paxos r) = Some ((), out, rn_paxos r'))"

definition keeps :: "(runner \<Rightarrow> 'b) \<Rightarrow> (runner, 'a) step \<Rightarrow> bool" where
  "keeps f m \<longleftrightarrow> (\<forall>r x out r'. m r = Some (x, out, r') \<longrightarrow> f r' = f r)"

lemma doesD: "does env ev m \<Longrightarrow> m r = Some (x, out, r') \<Longrightarrow> co_run env (ev r) (rn_paxos r) = Some ((), out, rn_paxos r')"
  by (simp add: does_def)

lemma keepsD: "keeps f m \<Longrightarrow> m r = Some (x, out, r') \<Longrightarrow> f r' = f r"
  by (simp add: keeps_def)

lemma co_run_Nil [simp]: "co_run env [] co = Some ((), [], co)"
  by (simp add: co_run_def)

lemma each_events:
  assumes "\<And>x co y out co'. f x co = Some (y, out, co') \<Longrightarrow> co_step env (ev x) co = Some ((), out, co')"
    and "step_each (\<lambda>x. step_bind (rn_paxos_step (f x)) (\<lambda>_. step_return ())) xs r = Some (u, out, r')"
  shows "co_run env (map ev xs) (rn_paxos r) = Some ((), out, rn_paxos r') \<and> r' = r\<lparr>rn_paxos := rn_paxos r'\<rparr>"
  using assms(2)
proof (induction xs arbitrary: r out)
  case (Cons x xs)
  then obtain a o1 r1 o2 where one: "step_bind (rn_paxos_step (f x)) (\<lambda>_. step_return ()) r = Some (a, o1, r1)"
    and each: "step_each (\<lambda>x. step_bind (rn_paxos_step (f x)) (\<lambda>_. step_return ())) xs r1 = Some (u, o2, r')" "out = o1 @ o2"
    unfolding step_each.simps step_bind_Some by blast
  from one obtain y co where "f x (rn_paxos r) = Some (y, o1, co)" "r1 = r\<lparr>rn_paxos := co\<rparr>"
    by (auto simp: step_bind_Some rn_paxos_step_def)
  note f = this each
  from Cons.IH [OF f(3)] have tail: "co_run env (map ev xs) co = Some ((), o2, rn_paxos r')" "r' = r1\<lparr>rn_paxos := rn_paxos r'\<rparr>"
    using f(2) by simp_all
  have "co_run env [ev x] (rn_paxos r) = Some ((), o1, co)"
    using assms(1) [OF f(1)] by (rule co_run_one)
  from co_run_append [OF this tail(1)] f(2,4) tail(2) show ?case by simp
qed simp

lemma does_control: "does env (\<lambda>r. []) (handle_host_control i)"
  by (auto simp: does_def handle_host_control_def split: option.splits host_cmd.splits)

lemma does_heartbeat: "does env (beat_events i) (rn_send_heartbeat i)"
  by (auto simp: does_def rn_send_heartbeat_def beat_events_def step_bind_Some rn_paxos_step_def intro!: co_run_one
      split: if_splits)

lemma open_clients_paxos: "open_clients i leader r = Some (x, out, r') \<Longrightarrow> out = [] \<and> rn_paxos r' = rn_paxos r"
  by (auto simp: open_clients_def split: paxos_role.splits if_splits)

lemma failure_check_due:
  assumes "heartbeats (rn_config r)" and "\<not> clk_now (at_check i) - rn_last_check r < from_millis (heartbeat_interval_ms (rn_config r) * 5)"
    and "failure_check env i r = Some (x, out, r')"
  shows "\<exists>res o1 co o2. co_failure_service env (at_check i) (rn_paxos r) = Some (res, o1, co) \<and>
    (case res of None \<Rightarrow> step_return () | Some leader \<Rightarrow> open_clients i leader)
      (r\<lparr>rn_last_check := clk_now (at_check i), rn_paxos := co\<rparr>) = Some (x, o2, r') \<and> out = o1 @ o2"
proof -
  let ?r = "r\<lparr>rn_last_check := clk_now (at_check i)\<rparr>"
  from assms have "step_bind (rn_paxos_step (co_failure_service env (at_check i)))
      (\<lambda>res. case res of None \<Rightarrow> step_return () | Some leader \<Rightarrow> open_clients i leader) ?r = Some (x, out, r')"
    by (auto simp: failure_check_def step_bind_def split: option.splits)
  then obtain res o1 r1 o2 where "rn_paxos_step (co_failure_service env (at_check i)) ?r = Some (res, o1, r1)"
    "(case res of None \<Rightarrow> step_return () | Some leader \<Rightarrow> open_clients i leader) r1 = Some (x, o2, r')" "out = o1 @ o2"
    unfolding step_bind_Some by blast
  moreover from this(1) obtain co where "co_failure_service env (at_check i) (rn_paxos r) = Some (res, o1, co)"
    "r1 = ?r\<lparr>rn_paxos := co\<rparr>" by (auto simp: rn_paxos_step_def)
  ultimately show ?thesis by auto
qed

lemma does_check: "does env (check_events i) (failure_check env i)"
proof (clarsimp simp only: does_def)
  fix r x out r' assume run: "failure_check env i r = Some (x, out, r')"
  show "co_run env (check_events i r) (rn_paxos r) = Some ((), out, rn_paxos r')"
  proof (cases "heartbeats (rn_config r) \<and>
      \<not> clk_now (at_check i) - rn_last_check r < from_millis (heartbeat_interval_ms (rn_config r) * 5)")
    case False
    with run show ?thesis by (auto simp: failure_check_def check_events_def not_le split: if_splits)
  next
    case True
    with failure_check_due [OF _ _ run] obtain res o1 co o2 where
      "co_failure_service env (at_check i) (rn_paxos r) = Some (res, o1, co)"
      "(case res of None \<Rightarrow> step_return () | Some leader \<Rightarrow> open_clients i leader)
        (r\<lparr>rn_last_check := clk_now (at_check i), rn_paxos := co\<rparr>) = Some (x, o2, r')" "out = o1 @ o2" by blast
    then have "co_failure_service env (at_check i) (rn_paxos r) = Some (res, out, rn_paxos r')"
      using open_clients_paxos by (fastforce split: option.splits)
    with True show ?thesis by (simp add: check_events_def co_run_one)
  qed
qed

lemma does_clients: "does env (request_events i) (process_clients i)"
proof (clarsimp simp only: does_def)
  fix r x out r' assume run: "process_clients i r = Some (x, out, r')"
  show "co_run env (request_events i r) (rn_paxos r) = Some ((), out, rn_paxos r')"
  proof (cases "co_is_leader (rn_paxos r)")
    case True
    with run obtain vs s ms where vs:
      "get_requests (rn_max_messages r) (client_accepts i) (client_order i) (client_reads i) (rn_clients r) = Some (vs, s)"
      "step_each (\<lambda>v. step_bind (rn_paxos_step (co_submit_client_request v)) (\<lambda>_. step_return ())) vs
        (r\<lparr>rn_clients := s, rn_metrics := ms\<rparr>) = Some (x, out, r')"
      by (auto simp: process_clients_def split: option.splits simp del: step_simps)
    have "co_step env (at_clients i, CoSubmit v) co = Some ((), o1, co')"
      if "co_submit_client_request v co = Some (y, o1, co')" for v co y o1 co' using that by simp
    from each_events [OF this vs(2)] vs(1) True show ?thesis by (simp add: request_events_def)
  next
    case False
    with run show ?thesis by (simp add: process_clients_def request_events_def)
  qed
qed

lemma does_network: "does env (message_events i) (process_network env i)"
proof (clarsimp simp only: does_def)
  fix r x out r' assume run: "process_network env i r = Some (x, out, r')"
  then obtain ms s where ms:
    "get_messages (rn_max_messages r) (net_accepts i) (net_order i) (net_reads i) (rn_network r) = Some (ms, s)"
    "step_each (\<lambda>e. step_bind (rn_paxos_step (co_handle_message env (at_network i (fst e)) (snd e))) (\<lambda>_. step_return ()))
      (enumerate 0 ms) (r\<lparr>rn_network := s\<rparr>) = Some (x, out, r')"
    by (auto simp: process_network_def split_def split: option.splits simp del: step_simps)
  have "co_step env ((\<lambda>(k, m). (at_network i k, CoReceive m)) e) co = Some ((), o1, co')"
    if "co_handle_message env (at_network i (fst e)) (snd e) co = Some (y, o1, co')" for e co y o1 co'
    using that by (cases e) simp
  from each_events [OF this ms(2)] ms(1)
  show "co_run env (message_events i r) (rn_paxos r) = Some ((), out, rn_paxos r')" by (simp add: message_events_def)
qed

lemma each_submits:
  "step_each (\<lambda>v. step_bind (co_submit_client_request v) (\<lambda>_. step_return ())) vs =
   co_run env (map (\<lambda>v. (c, CoSubmit v)) vs)"
proof -
  have "step_each f (map g xs) = step_each (\<lambda>x. f (g x)) xs" for f :: "clock \<times> coordinator_event \<Rightarrow> (coordinator, unit) step"
    and g and xs :: "paxos_value list" by (induction xs) simp_all
  then show ?thesis by (simp add: co_run_def del: step_simps)
qed

lemma does_demo: "does env (demo_events i) (run_demo i)"
proof (clarsimp simp only: does_def)
  fix r x out r' assume run: "run_demo i r = Some (x, out, r')"
  show "co_run env (demo_events i r) (rn_paxos r) = Some ((), out, rn_paxos r')"
  proof (cases "rn_demo r")
    case None
    with run show ?thesis by (simp add: run_demo_def demo_events_def)
  next
    case (Some d)
    with run obtain d' co where s: "send_if_ready (at_demo i) (batch_size (rn_config r)) (demo_client_requests (rn_config r)) d (rn_paxos r)
        = Some (d', out, co)" "rn_paxos r' = co"
      by (auto simp: run_demo_def step_bind_Some rn_paxos_step_def)
    show ?thesis
    proof (cases "\<not> co_is_leader (rn_paxos r) \<or> clk_now (at_demo i) < demo_start d")
      case True
      with s Some show ?thesis by (simp add: send_if_ready_def demo_events_def)
    next
      case False
      with s Some show ?thesis
        by (auto simp: send_if_ready_def demo_events_def demo_loop_exact Let_def step_bind_Some
            each_submits [where env = env and c = "at_demo i"])
    qed
  qed
qed

lemma does_tick: "does env (\<lambda>r. [(at_tick i, CoTick)]) (rn_paxos_step (co_handle_tick env (at_tick i)))"
  by (auto simp: does_def rn_paxos_step_def intro!: co_run_one)

section \<open>A round and a run\<close>

text \<open>What the parts leave alone.\<close>

lemma parts_keep:
  "keeps (\<lambda>r. (rn_paxos r, rn_config r, rn_last_heartbeat r, rn_last_check r, rn_max_messages r, rn_network r)) (handle_host_control i)"
  "keeps (\<lambda>r. (rn_config r, rn_last_check r, rn_max_messages r, rn_network r)) (rn_send_heartbeat i)"
  by (auto simp: keeps_def handle_host_control_def rn_send_heartbeat_def step_bind_Some rn_paxos_step_def
      split: option.splits host_cmd.splits if_splits)

lemma open_clients_keeps:
  "keeps (\<lambda>r. (rn_max_messages r, rn_network r)) (open_clients i leader)"
  by (auto simp: keeps_def open_clients_def split: paxos_role.splits if_splits)

lemma check_keeps: "keeps (\<lambda>r. (rn_max_messages r, rn_network r)) (failure_check env i)"
unfolding keeps_def
proof (intro allI impI)
  fix r x out r' assume run: "failure_check env i r = Some (x, out, r')"
  show "(rn_max_messages r', rn_network r') = (rn_max_messages r, rn_network r)"
  proof (cases "heartbeats (rn_config r) \<and>
      \<not> clk_now (at_check i) - rn_last_check r < from_millis (heartbeat_interval_ms (rn_config r) * 5)")
    case False
    with run show ?thesis by (auto simp: failure_check_def not_le split: if_splits)
  next
    case True
    with failure_check_due [OF _ _ run] obtain res co o2 where
      "(case res of None \<Rightarrow> step_return () | Some leader \<Rightarrow> open_clients i leader)
        (r\<lparr>rn_last_check := clk_now (at_check i), rn_paxos := co\<rparr>) = Some (x, o2, r')" by blast
    then show ?thesis using keepsD [OF open_clients_keeps] by (fastforce split: option.splits)
  qed
qed

lemma clients_keep: "keeps (\<lambda>r. (rn_max_messages r, rn_network r)) (process_clients i)"
unfolding keeps_def
proof (intro allI impI)
  fix r x out r' assume run: "process_clients i r = Some (x, out, r')"
  show "(rn_max_messages r', rn_network r') = (rn_max_messages r, rn_network r)"
  proof (cases "co_is_leader (rn_paxos r)")
    case True
    with run obtain vs s ms where
      "step_each (\<lambda>v. step_bind (rn_paxos_step (co_submit_client_request v)) (\<lambda>_. step_return ())) vs
        (r\<lparr>rn_clients := s, rn_metrics := ms\<rparr>) = Some (x, out, r')"
      by (auto simp: process_clients_def split: option.splits simp del: step_simps)
    from each_events [OF _ this, where env = undefined and ev = "\<lambda>v. (at_clients i, CoSubmit v)"]
    obtain co where "r' = (r\<lparr>rn_clients := s, rn_metrics := ms\<rparr>)\<lparr>rn_paxos := co\<rparr>" by auto
    then show ?thesis by simp
  next
    case False
    with run show ?thesis by (simp add: process_clients_def)
  qed
qed

lemma before_clients_split:
  assumes "handle_host_control i r = Some (x0, o0, r0)" and "rn_send_heartbeat i r0 = Some (x1, o1, r1)"
    and "failure_check env i r1 = Some (x2, o2, r2)"
  shows "co_run env (beat_events i r @ check_events i r) (rn_paxos r) = Some ((), o0 @ o1 @ o2, rn_paxos r2)"
    and "before_clients env i r = Some ((), o0 @ o1 @ o2, r2)" and "message_events i r2 = message_events i r"
proof -
  note same = keepsD [OF parts_keep(1) assms(1)] keepsD [OF parts_keep(2) assms(2)] keepsD [OF check_keeps assms(3)]
  have ev: "beat_events i r0 = beat_events i r" "check_events i r1 = check_events i r"
    using same(1,2) by (simp_all add: beat_events_def check_events_def)
  have "o0 = []" using doesD [OF does_control assms(1)] by simp
  with co_run_append [OF doesD [OF does_heartbeat assms(2)] doesD [OF does_check assms(3)]] same(1) ev
  show "co_run env (beat_events i r @ check_events i r) (rn_paxos r) = Some ((), o0 @ o1 @ o2, rn_paxos r2)" by simp
  show "before_clients env i r = Some ((), o0 @ o1 @ o2, r2)" using assms by (simp add: before_clients_def)
  show "message_events i r2 = message_events i r" using same by (simp add: message_events_def)
qed

lemma answers_quiet:
  assumes "step_bind (case res of None \<Rightarrow> step_return ([], None) | Some rs \<Rightarrow> dispatch_responses i rs) (\<lambda>(sent, report).
      step_bind (report_idle i) (\<lambda>final. step_return \<lparr>answered = sent, throughput = report, final_throughput = final,
        sleeping = t\<rparr>)) r = Some (x, out, r')"
  shows "out = [] \<and> rn_paxos r' = rn_paxos r"
proof -
  have d: "o1 = [] \<and> rn_paxos r1 = rn_paxos r"
    if "(case res of None \<Rightarrow> step_return ([], None) | Some rs \<Rightarrow> dispatch_responses i rs) r = Some (y, o1, r1)" for y o1 r1
    using that by (auto simp: dispatch_responses_def Let_def split: option.splits if_splits)
  have e: "o2 = [] \<and> rn_paxos r2 = rn_paxos r1" if "report_idle i r1 = Some (z, o2, r2)" for z o2 r1 r2
    using that by (auto simp: report_idle_def split: option.splits if_splits)
  from assms obtain y o1 r1 o2 where 1: "(case res of None \<Rightarrow> step_return ([], None) | Some rs \<Rightarrow> dispatch_responses i rs) r = Some (y, o1, r1)"
    and 2: "(case y of (sent, report) \<Rightarrow> step_bind (report_idle i) (\<lambda>final. step_return \<lparr>answered = sent, throughput = report,
      final_throughput = final, sleeping = t\<rparr>)) r1 = Some (x, o2, r')" "out = o1 @ o2"
    unfolding step_bind_Some [of "case res of None \<Rightarrow> step_return ([], None) | Some rs \<Rightarrow> dispatch_responses i rs"] by blast
  from 2(1) obtain z o3 r2 where "report_idle i r1 = Some (z, o3, r2)" "o2 = o3" "r' = r2"
    by (auto simp: step_bind_Some split: prod.splits)
  with d [OF 1] e 2(2) show ?thesis by simp
qed

lemma round_runs_events:
  assumes "run_round env t i r = Some (x, out, r')"
  shows "co_run env (round_events env i r) (rn_paxos r) = Some ((), out, rn_paxos r')"
proof -
  from assms obtain x0 o0 r0 x1 o1 r1 x2 o2 r2 x3 o3 r3 x4 o4 r4 x5 o5 r5 res o6 r6 o7 where
    p: "handle_host_control i r = Some (x0, o0, r0)" "rn_send_heartbeat i r0 = Some (x1, o1, r1)"
      "failure_check env i r1 = Some (x2, o2, r2)" "process_clients i r2 = Some (x3, o3, r3)"
      "process_network env i r3 = Some (x4, o4, r4)" "run_demo i r4 = Some (x5, o5, r5)"
      "rn_paxos_step (co_handle_tick env (at_tick i)) r5 = Some (res, o6, r6)"
    and rest: "step_bind (case res of None \<Rightarrow> step_return ([], None) | Some rs \<Rightarrow> dispatch_responses i rs) (\<lambda>(sent, report).
      step_bind (report_idle i) (\<lambda>final. step_return \<lparr>answered = sent, throughput = report, final_throughput = final,
        sleeping = t - clk_now (at_end i)\<rparr>)) r6 = Some (x, o7, r')"
    and out: "out = o0 @ o1 @ o2 @ o3 @ o4 @ o5 @ o6 @ o7"
    unfolding run_round_def step_bind_Some [of "handle_host_control i"] step_bind_Some [of "rn_send_heartbeat i"]
      step_bind_Some [of "failure_check env i"] step_bind_Some [of "process_clients i"]
      step_bind_Some [of "process_network env i"] step_bind_Some [of "run_demo i"]
      step_bind_Some [of "rn_paxos_step (co_handle_tick env (at_tick i))"]
    by (elim exE conjE) (rule that, assumption+, simp)
  note b = before_clients_split [OF p(1-3)]
  have demo: "before_demo env i r = Some ((), (o0 @ o1 @ o2) @ o3 @ o4, r4)"
    using b(2) p(4,5) by (simp add: before_demo_def)
  have "message_events i r3 = message_events i r"
    using keepsD [OF clients_keep p(4)] b(3) by (simp add: message_events_def)
  then have ev: "round_events env i r = (beat_events i r @ check_events i r) @ request_events i r2 @ message_events i r3 @
      demo_events i r4 @ [(at_tick i, CoTick)]"
    using b(2) demo by (simp add: round_events_def at_state_def)
  note run = co_run_append [OF b(1) co_run_append [OF doesD [OF does_clients p(4)] co_run_append [OF doesD [OF does_network p(5)]
    co_run_append [OF doesD [OF does_demo p(6)] doesD [OF does_tick p(7)]]]]]
  with answers_quiet [OF rest] out show ?thesis by (simp add: ev)
qed

lemma run_rounds_events:
  "run_rounds env next_tick inputs r = Some (outs, out, r') \<Longrightarrow>
   co_run env (run_events env next_tick inputs r) (rn_paxos r) = Some ((), out, rn_paxos r')"
proof (induction inputs arbitrary: next_tick r outs out)
  case (Cons i inputs)
  show ?case
  proof (cases "rn_stop r")
    case True
    with Cons.prems show ?thesis by (simp add: run_rounds.simps(2))
  next
    case False
    let ?later = "next_tick + tick_duration (rn_config r)"
    from False Cons.prems obtain o1 out1 r1 outs' out2 where "run_round env ?later i r = Some (o1, out1, r1)"
      "run_rounds env ?later inputs r1 = Some (outs', out2, r')" "out = out1 @ out2"
      by (auto simp: run_rounds.simps(2) Let_def step_bind_Some)
    with False co_run_append [OF round_runs_events Cons.IH] show ?thesis by (simp add: Let_def)
  qed
qed simp

section \<open>What is in the events\<close>

definition received :: "(clock \<times> coordinator_event) list \<Rightarrow> network_message list" where
  "received es = List.map_filter (\<lambda>e. case snd e of CoReceive m \<Rightarrow> Some m | _ \<Rightarrow> None) es"

definition submitted :: "(clock \<times> coordinator_event) list \<Rightarrow> paxos_value list" where
  "submitted es = List.map_filter (\<lambda>e. case snd e of CoSubmit v \<Rightarrow> Some v | _ \<Rightarrow> None) es"

lemma event_lists [simp]:
  "received [] = []" "received (es @ es') = received es @ received es'" "received [(c, CoTick)] = []"
  "submitted [] = []" "submitted (es @ es') = submitted es @ submitted es'" "submitted [(c, CoTick)] = []"
  "ticks (es @ es') = ticks es + ticks es'" "ticks [(c, CoTick)] = 1"
  "received (map (\<lambda>v. (c, CoSubmit v)) vs) = []" "submitted (map (\<lambda>v. (c, CoSubmit v)) vs) = vs"
  "ticks (map (\<lambda>v. (c, CoSubmit v)) vs) = 0"
  by (simp_all add: received_def submitted_def ticks_def map_filter_def o_def)

lemma part_event_lists [simp]:
  "received (beat_events i r) = []" "submitted (beat_events i r) = []" "ticks (beat_events i r) = 0"
  "received (check_events i r) = []" "submitted (check_events i r) = []" "ticks (check_events i r) = 0"
  by (simp_all add: beat_events_def check_events_def received_def submitted_def ticks_def map_filter_def)

lemma no_event_list [simp]: "ticks [] = 0"
  by (simp add: ticks_def)

lemma request_event_lists [simp]:
  "received (request_events i r) = []" "ticks (request_events i r) = 0"
  "received (demo_events i r) = []" "ticks (demo_events i r) = 0"
  by (simp_all add: request_events_def demo_events_def split: option.split)

lemma at_state_lists [simp]:
  "(\<And>q. received (f q) = []) \<Longrightarrow> received (at_state m f r) = []" "(\<And>q. ticks (f q) = 0) \<Longrightarrow> ticks (at_state m f r) = 0"
  by (auto simp: at_state_def split: option.split)

lemma message_event_lists:
  "received (message_events i r) =
     (case get_messages (rn_max_messages r) (net_accepts i) (net_order i) (net_reads i) (rn_network r) of
        None \<Rightarrow> [] | Some (ms, s) \<Rightarrow> ms)"
  "submitted (message_events i r) = []" "ticks (message_events i r) = 0"
proof -
  have "received (map (\<lambda>(k, m). (f k, CoReceive m)) (enumerate n ms)) = ms \<and>
      submitted (map (\<lambda>(k, m). (f k, CoReceive m)) (enumerate n ms)) = [] \<and>
      ticks (map (\<lambda>(k, m). (f k, CoReceive m)) (enumerate n ms)) = 0" for f :: "nat \<Rightarrow> clock" and n ms
    by (induction ms arbitrary: n) (simp_all add: received_def submitted_def ticks_def map_filter_simps)
  then show "received (message_events i r) =
     (case get_messages (rn_max_messages r) (net_accepts i) (net_order i) (net_reads i) (rn_network r) of
        None \<Rightarrow> [] | Some (ms, s) \<Rightarrow> ms)"
    "submitted (message_events i r) = []" "ticks (message_events i r) = 0"
    by (auto simp: message_events_def split: option.split)
qed

text \<open>
  The messages of a round are those that the network server hands out, the requests those that the
  server for clients hands out and then those of the demo client.
\<close>

lemma round_event_lists:
  "received (round_events env i r) =
     (case get_messages (rn_max_messages r) (net_accepts i) (net_order i) (net_reads i) (rn_network r) of
        None \<Rightarrow> [] | Some (ms, s) \<Rightarrow> ms)"
  "submitted (round_events env i r) =
     submitted (at_state (before_clients env i) (request_events i) r) @ submitted (at_state (before_demo env i) (demo_events i) r)"
  "ticks (round_events env i r) = 1"
  by (simp_all add: round_events_def message_event_lists)

lemma submitted_requests:
  assumes "before_clients env i r = Some (x, out, r1)" and "co_is_leader (rn_paxos r1)"
    and "get_requests (rn_max_messages r1) (client_accepts i) (client_order i) (client_reads i) (rn_clients r1) = Some (vs, s)"
  shows "submitted (at_state (before_clients env i) (request_events i) r) = vs"
  using assms by (simp add: at_state_def request_events_def)

lemma run_events_ticks:
  "run_rounds env next_tick inputs r = Some (outs, out, r') \<Longrightarrow> ticks (run_events env next_tick inputs r) = length outs"
proof (induction inputs arbitrary: next_tick r outs out)
  case Nil
  then show ?case by (simp add: ticks_def)
next
  case (Cons i inputs)
  then show ?case
    by (auto simp: run_rounds.simps(2) Let_def step_bind_Some round_event_lists split: if_splits)
qed

end
