(* ===== verification/Progress.thy ===== *)
theory Progress
  imports Cluster
begin

text \<open>
  Progress: a proposer agent that leads, the acceptor agents that respond and a learner agent, in
  synchronous rounds. In a round the proposer ticks, what it sends reaches the acceptors and the
  learner, what the acceptors send reaches the learner, the learner ticks, and what all have sent
  reaches the proposer. The handlers are those of the agents and every message is delivered to
  the nodes that it is addressed to.
\<close>

section \<open>Synchronous rounds\<close>

definition inbox :: "node \<Rightarrow> outbox \<Rightarrow> network_message list" where
  "inbox n out = map snd (filter (\<lambda>(ns, m). n \<in> set ns) out)"

lemma inbox_simps [simp]:
  "inbox n [] = []" "inbox n (out @ out') = inbox n out @ inbox n out'"
  "inbox n ((ns, m) # out) = (if n \<in> set ns then m # inbox n out else inbox n out)"
  by (simp_all add: inbox_def)

fun feed :: "(network_message \<Rightarrow> 's \<Rightarrow> outbox \<times> 's) \<Rightarrow> network_message list \<Rightarrow> 's \<Rightarrow> outbox \<times> 's" where
  "feed h [] s = ([], s)"
| "feed h (m # ms) s = (let (out, s1) = h m s; (out', s2) = feed h ms s1 in (out @ out', s2))"

definition feed_acceptors ::
  "acceptor_codec \<Rightarrow> clock \<Rightarrow> outbox \<Rightarrow> acceptor_agent list \<Rightarrow> outbox \<times> acceptor_agent list" where
  "feed_acceptors cd c out as =
     (let rs = map (\<lambda>a. feed (\<lambda>m a. snd (aa_handle_message cd c m a)) (inbox (aa_node a) out) a) as in
      (concat (map fst rs), map snd rs))"

definition feed_learner ::
  "learner_codec \<Rightarrow> clock \<Rightarrow> outbox \<Rightarrow> learner_agent \<Rightarrow> outbox \<times> learner_agent" where
  "feed_learner cd c out l = feed (\<lambda>m l. snd (la_handle_message cd c m l)) (inbox (la_node l) out) l"

definition receive_all ::
  "proposer_codec \<Rightarrow> network \<Rightarrow> clock \<Rightarrow> network_message list \<Rightarrow> (proposer_agent, unit) step" where
  "receive_all cd net c = step_each (\<lambda>m. step_bind (pa_handle_message cd net c m) (\<lambda>_. step_return ()))"

lemma receive_all_simps [simp]:
  "receive_all cd net c [] ag = Some ((), [], ag)"
  "pa_handle_message cd net c m ag = Some (x, [], ag1) \<Longrightarrow> receive_all cd net c (m # ms) ag = receive_all cd net c ms ag1"
  by (auto simp: receive_all_def split: option.split)

definition feed_proposer ::
  "proposer_codec \<Rightarrow> network \<Rightarrow> clock \<Rightarrow> outbox \<Rightarrow> (proposer_agent, unit) step" where
  "feed_proposer cd net c out p = receive_all cd net c (inbox (pa_node p) out) p"

record parties =
  leading :: proposer_agent
  responding :: "acceptor_agent list"
  learning :: learner_agent

text \<open>
  A round gives the answers for clients. What the proposer sends while it handles messages (only
  the answer to a retry is such) is not delivered.
\<close>

definition sync_round ::
  "proposer_codec \<Rightarrow> acceptor_codec \<Rightarrow> learner_codec \<Rightarrow> network \<Rightarrow> clock \<Rightarrow> parties \<Rightarrow>
   (client_response list option \<times> parties) option" where
  "sync_round pcd acd lcd net c ps =
     (case pa_handle_tick pcd net c (leading ps) of
        None \<Rightarrow> None
      | Some (answer, out, p1) \<Rightarrow>
          (let (aout, as1) = feed_acceptors acd c out (responding ps);
               (lout, l1) = feed_learner lcd c (out @ aout) (learning ps);
               (tout, l2) = la_handle_tick lcd c l1 in
           map_option (\<lambda>(_, _, p2). (answer, \<lparr>leading = p2, responding = as1, learning = l2\<rparr>))
             (feed_proposer pcd net c (out @ aout @ lout @ tout) p1)))"

fun sync_rounds ::
  "proposer_codec \<Rightarrow> acceptor_codec \<Rightarrow> learner_codec \<Rightarrow> network \<Rightarrow> clock list \<Rightarrow> parties \<Rightarrow>
   (client_response list option list \<times> parties) option" where
  "sync_rounds pcd acd lcd net [] ps = Some ([], ps)"
| "sync_rounds pcd acd lcd net (c # cs) ps =
     (case sync_round pcd acd lcd net c ps of
        None \<Rightarrow> None
      | Some (answer, ps1) \<Rightarrow> map_option (apfst (Cons answer)) (sync_rounds pcd acd lcd net cs ps1))"

section \<open>Acceptors\<close>

text \<open>An acceptor agent of node \<open>n\<close> that tells the learner \<open>ln\<close>, and what its core has seen.\<close>

definition acceptor_at :: "run_config \<Rightarrow> node \<Rightarrow> node \<Rightarrow> ballot list \<Rightarrow> (slot, p_value) btree_map \<Rightarrow> acceptor_agent \<Rightarrow> bool" where
  "acceptor_at cfg ln n ps m a \<longleftrightarrow> aa_config a = cfg \<and> aa_node a = n \<and> aa_learners a = [ln] \<and>
     promises (aa_acceptor a) = ps \<and> accepted_map (aa_acceptor a) = m \<and> \<not> sh_enabled (acc_storage (aa_acceptor a))"

text \<open>The ballot that was promised; the promise of ballot 0 leaves no trace.\<close>

abbreviation promised_only :: "ballot \<Rightarrow> ballot list" where
  "promised_only b \<equiv> (if b = 0 then [] else [b])"

lemma acceptor_promises:
  assumes "acceptor_at cfg ln n [] [] a" and "is_event_driven cfg"
    and "payload m = PrepareMsg \<lparr>prep_slot = s, prep_ballot = b\<rparr>"
  shows "fst (snd (aa_handle_message cd c m a)) =
      [([sender m], \<lparr>sender = n, payload = PromiseMsg \<lparr>prom_slot = s, prom_ballot = b, prom_accepted = []\<rparr>\<rparr>)]"
    "acceptor_at cfg ln n (promised_only b) [] (snd (snd (aa_handle_message cd c m a)))"
  using assms
  by (simp_all add: acceptor_at_def aa_handle_message_def aa_process_prepare_def acceptor_prepare_def word_neq_0_conv
      highest_promised_ballot_def collect_accepted_from_def bt_range_from_def aa_message_def save_current_state_def Let_def)

lemma acceptor_accepts:
  assumes "acceptor_at cfg ln n (promised_only b) [] a" and "is_event_driven cfg" and "acceptors_send_learns cfg"
    and "payload m = AcceptMsg \<lparr>acc_slot = s, acc_ballot = b, acc_value = v\<rparr>"
  shows "fst (snd (aa_handle_message cd c m a)) =
      [([ln], \<lparr>sender = n, payload = LearnMsg \<lparr>ln_slot = s, ln_value = v\<rparr>\<rparr>)]"
    "acceptor_at cfg ln n (promised_only b) [(s, new_pv s b v)] (snd (snd (aa_handle_message cd c m a)))"
  using assms
  by (simp_all add: acceptor_at_def aa_handle_message_def aa_process_accept_def highest_promised_ballot_def
      acceptor_accept_new recorded_disabled accepted_reply_def aa_message_def Let_def)

lemma feed_acceptors_idle:
  assumes "\<forall>a \<in> set as. inbox (aa_node a) out = []"
  shows "feed_acceptors cd c out as = ([], as)"
  using assms by (induction as) (simp_all add: feed_acceptors_def Let_def)

lemma feed_acceptors_all:
  assumes "list_all2 P ns as"
    and "\<And>n a. P n a \<Longrightarrow> n \<in> set ns \<Longrightarrow> inbox (aa_node a) out = [m]"
    and "\<And>n a. P n a \<Longrightarrow> fst (snd (aa_handle_message cd c m a)) = [f n] \<and> Q n (snd (snd (aa_handle_message cd c m a)))"
  shows "fst (feed_acceptors cd c out as) = map f ns \<and> list_all2 Q ns (snd (feed_acceptors cd c out as))"
  using assms(1,2)
proof (induction ns as rule: list_all2_induct)
  case (Cons n ns a as)
  then have "inbox (aa_node a) out = [m]" by simp
  with Cons assms(3) [of n a] show ?case by (simp add: feed_acceptors_def Let_def split_def)
qed (simp add: feed_acceptors_def)

section \<open>The learner\<close>

text \<open>A learner that knows nothing of any slot yet, and has last looked for work at \<open>t\<close>.\<close>

definition learner_waits :: "run_config \<Rightarrow> node \<Rightarrow> node \<Rightarrow> u64 \<Rightarrow> instant \<Rightarrow> learner_agent \<Rightarrow> bool" where
  "learner_waits cfg pn ln k t l \<longleftrightarrow> la_config l = cfg \<and> la_node l = ln \<and> la_proposers l = [pn] \<and>
     exec_buffer l = [] \<and> la_kv l = kv_new \<and> last_exec_time l = t \<and> lr_num_acceptors (la_learner l) = k \<and>
     slot_learns (la_learner l) = [] \<and> learned (la_learner l) = [] \<and> lr_adu (la_learner l) = 0 \<and>
     \<not> sh_enabled (lr_storage (la_learner l))"

lemma slot_range_empty: "b < a \<Longrightarrow> slot_range a b = []"
  by (simp add: slot_range_def word_less_nat_alt)

text \<open>Without a gap nothing is asked for again.\<close>

lemma no_retry:
  assumes "get_highest_learned (la_learner l) = la_get_adu l" and "la_get_adu l < la_get_adu l + 1"
  shows "\<exists>l'. handle_evaluate_retry c l = ([], l') \<and> l' = l\<lparr>retries := retries l'\<rparr>"
proof -
  have "slot_range (la_get_adu l + 1) (get_highest_learned (la_learner l)) = []"
    using assms by (simp add: slot_range_empty)
  then show ?thesis
    by (simp add: handle_evaluate_retry_def evaluate_retry_def Let_def)
qed

lemma learner_idle_tick:
  assumes "learner_waits cfg pn ln k t l" and "from_millis (exec_interval_ms cfg) \<le> clk_now c - t"
  shows "fst (la_handle_tick cd c l) = [] \<and> learner_waits cfg pn ln k (clk_now c) (snd (la_handle_tick cd c l))"
proof -
  obtain l' where l': "handle_evaluate_retry c l = ([], l')" "l' = l\<lparr>retries := retries l'\<rparr>"
    using no_retry [of l c] assms(1) by (auto simp: learner_waits_def get_highest_learned_def bt_last_key_def la_get_adu_def learner_get_adu_def)
  have w: "learner_waits cfg pn ln k t l'"
    using assms(1) by (subst l'(2)) (simp add: learner_waits_def)
  let ?l = "l'\<lparr>last_exec_time := clk_now c\<rparr>"
  have "execute_chosen_learns cd c ?l = ?l"
    using w by (simp add: execute_chosen_learns_def to_be_executed_def Let_def learner_waits_def)
  with w l'(1) assms(2) show ?thesis
    by (simp add: la_handle_tick_def Let_def collect_executed_def la_maybe_flush_state_def learner_maybe_flush_disabled
        learner_waits_def)
qed

text \<open>The learner after learns for slot 1 from the nodes \<open>ns\<close>.\<close>

definition executed_entry :: "paxos_value \<Rightarrow> execute_result" where
  "executed_entry v = (let r = fst (kv_apply (command v) kv_new) in
     \<lparr>er_value = v, er_slot = 1, er_success = (r \<noteq> NoOp), er_cmd_result = r\<rparr>)"

definition executed_message :: "node \<Rightarrow> paxos_value \<Rightarrow> network_message" where
  "executed_message ln v = \<lparr>sender = ln, payload = ExecutedMsg \<lparr>ex_results = [executed_entry v], ex_adu = 1\<rparr>\<rparr>"

definition votes_of :: "paxos_value \<Rightarrow> node list \<Rightarrow> (slot, (u64, learn) hash_map) btree_map" where
  "votes_of v ns = (if ns = [] then [] else [(1, map (\<lambda>n. (node_id n, \<lparr>ln_slot = 1, ln_value = v\<rparr>)) ns)])"

definition learner_hears ::
  "run_config \<Rightarrow> node \<Rightarrow> node \<Rightarrow> u64 \<Rightarrow> instant \<Rightarrow> paxos_value \<Rightarrow> node list \<Rightarrow> learner_agent \<Rightarrow> bool" where
  "learner_hears cfg pn ln k t v ns l \<longleftrightarrow> la_config l = cfg \<and> la_node l = ln \<and> la_proposers l = [pn] \<and>
     last_exec_time l = t \<and> lr_num_acceptors (la_learner l) = k \<and> \<not> sh_enabled (lr_storage (la_learner l)) \<and>
     slot_learns (la_learner l) = votes_of v ns \<and>
     (if length ns < learner_quorum k
      then learned (la_learner l) = [] \<and> lr_adu (la_learner l) = 0 \<and> exec_buffer l = [] \<and> la_kv l = kv_new
      else learned (la_learner l) = [(1, v)] \<and> lr_adu (la_learner l) = 1 \<and>
        la_kv l = snd (kv_apply (command v) kv_new) \<and>
        exec_buffer l = (if as_usize (message_batch_size cfg) = 1 then [] else [executed_entry v]))"

lemma count_votes_same: "count_votes (replicate (Suc n) v) = [(v, Suc n)]"
proof (induction n)
  case 0
  show ?case by (simp add: count_votes_def hm_insert_def)
next
  case (Suc n)
  have "replicate (Suc (Suc n)) v = replicate (Suc n) v @ [v]"
    by (metis replicate_Suc replicate_append_same)
  moreover have "count_votes (xs @ [v]) = hm_insert v
      (case hm_get (count_votes xs) v of Some k \<Rightarrow> k + 1 | None \<Rightarrow> 1) (count_votes xs)" for xs
    by (simp add: count_votes_def)
  ultimately show ?case using Suc by (simp add: hm_insert_def del: replicate_Suc)
qed

lemma record_learn_votes:
  assumes "slot_learns l = votes_of v ns" and "node_id n \<notin> node_id ` set ns"
  shows "record_learn \<lparr>ln_slot = 1, ln_value = v\<rparr> (node_id n) l = l\<lparr>slot_learns := votes_of v (ns @ [n])\<rparr>"
proof -
  have "AList.update (node_id n) x (map (\<lambda>n. (node_id n, y)) ns) = map (\<lambda>n. (node_id n, y)) ns @ [(node_id n, x)]" for x y :: learn
    using assms(2) by (induction ns) auto
  with assms(1) show ?thesis
    by (cases "ns = []") (simp_all add: record_learn_def votes_of_def hm_insert_def)
qed

lemma check_quorum_votes:
  assumes "slot_learns l = votes_of v ns" and "lr_num_acceptors l = k" and "0 < learner_quorum k"
  shows "check_quorum 1 l = (if learner_quorum k \<le> length ns then Some v else None)"
proof (cases ns)
  case Nil
  with assms show ?thesis by (simp add: check_quorum_def votes_of_def)
next
  case (Cons n ms)
  have "map (ln_value \<circ> snd) (map (\<lambda>n. (node_id n, \<lparr>ln_slot = 1, ln_value = v\<rparr>)) ns) = replicate (Suc (length ms)) v"
    by (simp add: Cons o_def map_replicate_const)
  with assms Cons show ?thesis
    by (simp add: check_quorum_def votes_of_def count_votes_same del: replicate_Suc)
qed

lemma learner_executes:
  assumes "la_kv l = kv_new" and "exec_buffer l = []" and "\<not> sh_enabled (lr_storage (la_learner l))"
    and "learned (la_learner l) = [(1, v)]" and "lr_adu (la_learner l) = 0"
  shows "execute_chosen_learns cd c l =
    l\<lparr>la_learner := (la_learner l)\<lparr>lr_adu := 1\<rparr>, la_kv := snd (kv_apply (command v) kv_new), exec_buffer := [executed_entry v]\<rparr>"
proof -
  have "walk (Suc (length (learned (la_learner l)))) (learned (la_learner l)) (lr_adu (la_learner l) + 1) =
      ([\<lparr>le_slot = 1, le_value = v\<rparr>], 2)"
    using assms(4,5) by simp
  from to_be_executed_disabled [OF assms(3) this]
  have "to_be_executed cd c (la_learner l) = (Execute [\<lparr>le_slot = 1, le_value = v\<rparr>], (la_learner l)\<lparr>lr_adu := 1\<rparr>)"
    by (simp add: saturating_sub_def)
  with assms(1,2) show ?thesis
    by (simp add: execute_chosen_learns_def execute_entry_def executed_entry_def Let_def split_def)
qed

lemma learner_hears_one:
  assumes "learner_hears cfg pn ln k t v ns l" and "node_id n \<notin> node_id ` set ns"
    and "acceptors_send_learns cfg" and "learners_send_executed cfg" and "is_event_driven cfg"
    and "0 < learner_quorum k" and "0 < as_usize (message_batch_size cfg)"
    and "m = \<lparr>sender = n, payload = LearnMsg \<lparr>ln_slot = 1, ln_value = v\<rparr>\<rparr>"
  shows "fst (snd (la_handle_message cd c m l)) =
      (if Suc (length ns) = learner_quorum k \<and> as_usize (message_batch_size cfg) = 1
       then [([pn], executed_message ln v)] else [])"
    "learner_hears cfg pn ln k t v (ns @ [n]) (snd (snd (la_handle_message cd c m l)))"
proof -
  let ?ln = "\<lparr>ln_slot = 1, ln_value = v\<rparr>"
  let ?l1 = "(la_learner l)\<lparr>slot_learns := votes_of v (ns @ [n])\<rparr>"
  have l: "la_config l = cfg" "la_node l = ln" "la_proposers l = [pn]" "last_exec_time l = t"
    "lr_num_acceptors (la_learner l) = k" "\<not> sh_enabled (lr_storage (la_learner l))" "slot_learns (la_learner l) = votes_of v ns"
    using assms(1) by (simp_all add: learner_hears_def)
  have rec: "record_learn ?ln (node_id n) (la_learner l) = ?l1"
    using record_learn_votes [OF l(7) assms(2)] .
  have q: "check_quorum 1 ?l1 = (if learner_quorum k \<le> Suc (length ns) then Some v else None)"
    using check_quorum_votes [of ?l1 v "ns @ [n]" k] l(5) assms(6) by simp
  have learn: "la_record_learn cd c 1 v n l =
    (let (new, x) = (if learner_quorum k \<le> Suc (length ns) then learner_learn cd c 1 v ?l1 else (False, ?l1)) in
     (new, if new then l\<lparr>la_learner := x, last_learn_time := clk_now c\<rparr> else l\<lparr>la_learner := x\<rparr>))"
    using assms(3) l(1) by (simp add: la_record_learn_def learner_handle_learn_def rec q Let_def)
  consider (few) "Suc (length ns) < learner_quorum k" | (now) "Suc (length ns) = learner_quorum k"
    | (enough) "learner_quorum k < Suc (length ns)" by linarith
  then have "fst (snd (la_handle_message cd c m l)) =
      (if Suc (length ns) = learner_quorum k \<and> as_usize (message_batch_size cfg) = 1
       then [([pn], executed_message ln v)] else []) \<and>
    learner_hears cfg pn ln k t v (ns @ [n]) (snd (snd (la_handle_message cd c m l)))"
  proof cases
    case few
    with assms(1) learn show ?thesis
      by (simp add: assms(8) la_handle_message_def learner_hears_def Let_def)
  next
    case enough
    with assms(1) have "learned (la_learner l) = [(1, v)]" by (simp add: learner_hears_def)
    then have "learner_learn cd c 1 v ?l1 = (False, ?l1)" by (simp add: learner_learn_def)
    with enough assms(1) learn show ?thesis
      by (simp add: assms(8) la_handle_message_def learner_hears_def Let_def)
  next
    case now
    with assms(1) have fresh: "learned (la_learner l) = []" "lr_adu (la_learner l) = 0" "exec_buffer l = []" "la_kv l = kv_new"
      by (simp_all add: learner_hears_def)
    let ?l = "l\<lparr>la_learner := ?l1\<lparr>learned := [(1, v)]\<rparr>, last_learn_time := clk_now c\<rparr>"
    have "learner_learn cd c 1 v ?l1 = (True, ?l1\<lparr>learned := [(1, v)]\<rparr>)"
      using fresh(1) l(6) by (simp add: learner_learn_def learner_save_change_def sh_save_change_def)
    with now learn have rl: "la_record_learn cd c 1 v n l = (True, ?l)" by simp
    have exec: "execute_chosen_learns cd c ?l =
        ?l\<lparr>la_learner := ?l1\<lparr>learned := [(1, v)], lr_adu := 1\<rparr>, la_kv := snd (kv_apply (command v) kv_new),
          exec_buffer := [executed_entry v]\<rparr>"
      using learner_executes [of ?l v cd c] fresh l(6) by simp
    have mbs: "as_usize (message_batch_size cfg) = 1 \<or> 1 < as_usize (message_batch_size cfg)" using assms(7) by linarith
    with now rl exec l fresh assms(4,5) show ?thesis
      by (auto simp: assms(8) la_handle_message_def learner_hears_def Let_def collect_executed_def dispatch_executed_def
          executed_message_def la_message_def la_get_adu_def learner_get_adu_def)
  qed
  then show "fst (snd (la_handle_message cd c m l)) =
      (if Suc (length ns) = learner_quorum k \<and> as_usize (message_batch_size cfg) = 1
       then [([pn], executed_message ln v)] else [])"
    "learner_hears cfg pn ln k t v (ns @ [n]) (snd (snd (la_handle_message cd c m l)))" by blast+
qed

definition learn_messages :: "paxos_value \<Rightarrow> node list \<Rightarrow> network_message list" where
  "learn_messages v ns = map (\<lambda>n. \<lparr>sender = n, payload = LearnMsg \<lparr>ln_slot = 1, ln_value = v\<rparr>\<rparr>) ns"

text \<open>What a learner has sent by itself: in batches of one it does not wait for the tick.\<close>

definition sent_early :: "run_config \<Rightarrow> node \<Rightarrow> node \<Rightarrow> paxos_value \<Rightarrow> bool \<Rightarrow> outbox" where
  "sent_early cfg pn ln v decided =
     (if decided \<and> as_usize (message_batch_size cfg) = 1 then [([pn], executed_message ln v)] else [])"

lemma learner_hears_all:
  assumes "learner_hears cfg pn ln k t v ms l" and "distinct (map node_id (ms @ ns))"
    and "acceptors_send_learns cfg" and "learners_send_executed cfg" and "is_event_driven cfg"
    and "0 < learner_quorum k" and "0 < as_usize (message_batch_size cfg)"
  shows "fst (feed (\<lambda>m l. snd (la_handle_message cd c m l)) (learn_messages v ns) l) =
      sent_early cfg pn ln v (length ms < learner_quorum k \<and> learner_quorum k \<le> length (ms @ ns)) \<and>
    learner_hears cfg pn ln k t v (ms @ ns) (snd (feed (\<lambda>m l. snd (la_handle_message cd c m l)) (learn_messages v ns) l))"
  using assms(1,2)
proof (induction ns arbitrary: ms l)
  case Nil
  then show ?case by (simp add: learn_messages_def sent_early_def)
next
  case (Cons n ns)
  have "node_id n \<notin> node_id ` set ms" using Cons.prems(2) by auto
  note one = learner_hears_one [OF Cons.prems(1) this assms(3-7) refl, of cd c]
  from Cons.IH [OF one(2)] Cons.prems(2) one(1) show ?case
    by (auto simp: learn_messages_def Let_def split_def sent_early_def)
qed

text \<open>The tick after the decision sends the result, when it was not sent yet.\<close>

lemma learner_reports:
  assumes "learner_hears cfg pn ln k t v ns l" and "learner_quorum k \<le> length ns"
    and "from_millis (exec_interval_ms cfg) \<le> clk_now c - t"
    and "learners_send_executed cfg" and "is_event_driven cfg" and "0 < as_usize (message_batch_size cfg)"
  shows "sent_early cfg pn ln v True @ fst (la_handle_tick cd c l) = [([pn], executed_message ln v)] \<and>
    la_kv (snd (la_handle_tick cd c l)) = snd (kv_apply (command v) kv_new) \<and>
    learned (la_learner (snd (la_handle_tick cd c l))) = [(1, v)]"
proof -
  have l: "learned (la_learner l) = [(1, v)]" "lr_adu (la_learner l) = 1" "la_kv l = snd (kv_apply (command v) kv_new)"
    "exec_buffer l = (if as_usize (message_batch_size cfg) = 1 then [] else [executed_entry v])" "la_config l = cfg"
    "la_node l = ln" "la_proposers l = [pn]" "last_exec_time l = t" "\<not> sh_enabled (lr_storage (la_learner l))"
    using assms(1,2) by (simp_all add: learner_hears_def)
  obtain l' where l': "handle_evaluate_retry c l = ([], l')" "l' = l\<lparr>retries := retries l'\<rparr>"
    using no_retry [of l c] l(1,2) by (auto simp: get_highest_learned_def bt_last_key_def la_get_adu_def learner_get_adu_def)
  let ?l = "l'\<lparr>last_exec_time := clk_now c\<rparr>"
  have f: "learned (la_learner l') = [(1, v)]" "lr_adu (la_learner l') = 1" "la_kv l' = snd (kv_apply (command v) kv_new)"
    "exec_buffer l' = (if as_usize (message_batch_size cfg) = 1 then [] else [executed_entry v])" "la_config l' = cfg"
    "la_node l' = ln" "la_proposers l' = [pn]" "last_exec_time l' = t" "\<not> sh_enabled (lr_storage (la_learner l'))"
    by (subst l'(2), simp add: l)+
  have "execute_chosen_learns cd c ?l = ?l"
    using f by (simp add: execute_chosen_learns_def to_be_executed_def Let_def)
  moreover have "as_usize (message_batch_size cfg) = 1 \<or> 1 < as_usize (message_batch_size cfg)" using assms(6) by linarith
  ultimately show ?thesis
    using f l'(1) assms(3-5)
    by (auto simp: la_handle_tick_def Let_def collect_executed_def dispatch_executed_def la_maybe_flush_state_def
        learner_maybe_flush_disabled sent_early_def executed_message_def la_message_def la_get_adu_def learner_get_adu_def)
qed

lemma learner_waits_hears:
  "learner_waits cfg pn ln k t l \<Longrightarrow> 0 < learner_quorum k \<Longrightarrow> learner_hears cfg pn ln k t v [] l"
  by (simp add: learner_waits_def learner_hears_def votes_of_def)

section \<open>The proposer\<close>

text \<open>A leading proposer agent that keeps its state in memory, with no value to propose again.\<close>

definition leader_base :: "run_config \<Rightarrow> node \<Rightarrow> node list \<Rightarrow> node \<Rightarrow> u64 \<Rightarrow> proposer_agent \<Rightarrow> bool" where
  "leader_base cfg pn an ln k ag \<longleftrightarrow> pa_config ag = cfg \<and> pa_node ag = pn \<and> pa_acceptors ag = an \<and> pa_learners ag = [ln] \<and>
     pa_num_acceptors ag = as_usize k \<and> slot_crash_list ag = [] \<and>
     pr_num_acceptors (pa_proposer ag) = k \<and> ballot_delta (pa_proposer ag) = k \<and> pr_is_leader (pa_proposer ag) \<and>
     prioritized_values (pa_proposer ag) = [] \<and> \<not> ph_enabled (pr_storage (pa_proposer ag))"

lemma save_proposer_disabled: "\<not> ph_enabled (pr_storage p) \<Longrightarrow> save_proposer cd c p = Some p"
  by (simp add: save_proposer_def ph_save_state_def)

lemma proposer_asks_adu:
  assumes "leader_base cfg pn an ln k ag" and "pa_phase ag = Start" and "\<not> has_received_adu ag"
    and "from_millis (prepare_timeout cfg) \<le> clk_now c - last_get_adu_start ag"
  shows "pa_handle_tick cd net c ag =
    Some (None, [([ln], \<lparr>sender = pn, payload = AduMsg 0\<rparr>)], ag\<lparr>last_get_adu_start := clk_now c\<rparr>)"
  using assms by (simp add: leader_base_def pa_handle_tick_def get_learner_adu_def pa_message_def)

lemma proposer_gets_adu:
  assumes "leader_base cfg pn an ln k ag" and "payload m = AduMsg n"
  shows "pa_handle_message cd net c m ag =
    Some (pa_message ag Ignore, [], ag\<lparr>pa_proposer := (pa_proposer ag)\<lparr>pr_adu := n\<rparr>, has_received_adu := True\<rparr>)"
  using assms
  by (simp add: leader_base_def pa_handle_message_def on_proposer_saved_def proposer_set_adu_def save_proposer_disabled
      pa_message_def)

lemma proposer_starts:
  assumes "leader_base cfg pn an ln k ag" and "pa_phase ag = Start" and "has_received_adu ag"
  shows "pa_handle_tick cd net c ag = Some (None, [], ag\<lparr>pa_phase := PrepareSend\<rparr>)"
  using assms by (simp add: leader_base_def pa_handle_tick_def start_leader_loop_def)

lemma proposer_prepares:
  assumes "leader_base cfg pn an ln k ag" and "pa_phase ag = PrepareSend" and "is_event_driven cfg"
    and "current_ballot (pa_proposer ag) = b"
  shows "pa_handle_tick cd net c ag =
    Some (None, [(an, \<lparr>sender = pn, payload = PrepareMsg \<lparr>prep_slot = pr_adu (pa_proposer ag) + 1, prep_ballot = b + k\<rparr>\<rparr>)],
      ag\<lparr>pa_proposer := (pa_proposer ag)\<lparr>current_ballot := b + k\<rparr>, pa_phase := PreparePending,
         last_prepare_start := Some (clk_now c)\<rparr>)"
  using assms
  by (simp add: leader_base_def prepare_tick increase_ballot_def save_proposer_disabled pa_message_def Let_def)

text \<open>The promises of the nodes \<open>ns\<close>, none of which reports a value.\<close>

definition promise_for :: "ballot \<Rightarrow> promise" where
  "promise_for b = \<lparr>prom_slot = 1, prom_ballot = b, prom_accepted = []\<rparr>"

definition promises_of :: "ballot \<Rightarrow> node list \<Rightarrow> (ballot, (u64, promise) hash_map) btree_map" where
  "promises_of b ns = (if ns = [] then [] else [(b, map (\<lambda>n. (node_id n, promise_for b)) ns)])"

definition heard_promises :: "ballot \<Rightarrow> u64 \<Rightarrow> node list \<Rightarrow> proposer_agent \<Rightarrow> bool" where
  "heard_promises b k ns ag \<longleftrightarrow> pa_promises ag = promises_of b ns \<and>
     pa_phase ag = (if proposer_quorum k \<le> length ns then AcceptCommit else PreparePending)"

lemma process_empty_promises:
  assumes "current_slot p = 0"
  shows "snd (process_prepare 1 (replicate n (promise_for b)) p) = p"
  using assms
  by (simp add: process_prepare_def Let_def collect_accepted_values_def collect_map_def promise_for_def reproposed_def
      map_filter_def saturating_sub_def)

lemma handle_promise_one:
  assumes "leader_base cfg pn an ln k ag" and "unat k < 2 ^ 32" and "heard_promises b k ns ag"
    and "node_id n \<notin> node_id ` set ns" and "current_slot (pa_proposer ag) = 0" and "current_ballot (pa_proposer ag) = b"
    and "0 < proposer_quorum k"
  shows "\<exists>ag'. handle_promise (promise_for b) n ag = ag' \<and> heard_promises b k (ns @ [n]) ag' \<and>
    ag' = ag\<lparr>pa_promises := pa_promises ag', pa_phase := pa_phase ag'\<rparr>"
proof -
  let ?m = "map (\<lambda>n. (node_id n, promise_for b)) (ns @ [n])"
  have upd: "AList.update (node_id n) x (map (\<lambda>n. (node_id n, y)) ns) = map (\<lambda>n. (node_id n, y)) ns @ [(node_id n, x)]" for x y :: promise
    using assms(4) by (induction ns) auto
  have m: "bt_insert b (hm_insert (node_id n) (promise_for b) (entry_of (pa_promises ag) b)) (pa_promises ag) = [(b, ?m)]"
    using assms(3) upd by (cases "ns = []") (simp_all add: heard_promises_def promises_of_def entry_of_def hm_insert_def)
  have q: "agent_quorum (pa_num_acceptors ag) = proposer_quorum k"
    using agent_quorum_eq [OF assms(2)] assms(1) by (simp add: leader_base_def)
  have b: "prom_ballot (promise_for b) = b" "prom_slot (promise_for b) = 1" by (simp_all add: promise_for_def)
  have ins: "insert_and_check_promises (promise_for b) n ag =
      (if proposer_quorum k \<le> Suc (length ns) then Some (b, replicate (Suc (length ns)) (promise_for b)) else None,
       ag\<lparr>pa_promises := [(b, ?m)]\<rparr>)"
    using m q by (simp add: insert_and_check_promises_def b bt_last_key_def entry_of_def o_def map_replicate_const
        replicate_append_same)
  have res: "process_prepare 1 (replicate (Suc (length ns)) (promise_for b)) (pa_proposer ag) =
      (if proposer_quorum k \<le> Suc (length ns) then PrepareSuccess else PrepareQuorumFailure, pa_proposer ag)"
  proof -
    have "length (filter (\<lambda>pr. prom_ballot pr = current_ballot (pa_proposer ag)) (replicate (Suc (length ns)) (promise_for b))) = Suc (length ns)"
      using assms(6) b(1) by (simp add: filter_replicate del: replicate_Suc)
    moreover have "pr_num_acceptors (pa_proposer ag) = k" using assms(1) by (simp add: leader_base_def)
    ultimately show ?thesis
      using process_empty_promises [OF assms(5)] process_prepare_result [of 1 "replicate (Suc (length ns)) (promise_for b)" "pa_proposer ag"]
      by (auto simp: prod_eq_iff simp del: replicate_Suc)
  qed
  have "pa_phase ag = AcceptCommit \<or> pa_phase ag = PreparePending" "proposer_quorum k \<le> length ns \<longrightarrow> pa_phase ag = AcceptCommit"
    using assms(3) by (auto simp: heard_promises_def)
  then show ?thesis
    using assms(3) by (auto simp: handle_promise_def ins b res Let_def handle_prepare_result_def advance_phase_def next_phase_def
        heard_promises_def promises_of_def simp del: replicate_Suc)
qed

definition promise_messages :: "ballot \<Rightarrow> node list \<Rightarrow> network_message list" where
  "promise_messages b ns = map (\<lambda>n. \<lparr>sender = n, payload = PromiseMsg (promise_for b)\<rparr>) ns"

lemma handle_promise_all:
  assumes "leader_base cfg pn an ln k ag" and "unat k < 2 ^ 32" and "heard_promises b k ms ag"
    and "distinct (map node_id (ms @ ns))" and "current_slot (pa_proposer ag) = 0" and "current_ballot (pa_proposer ag) = b"
    and "0 < proposer_quorum k"
  shows "\<exists>ag'. receive_all cd net c (promise_messages b ns) ag =
      Some ((), [], ag') \<and> heard_promises b k (ms @ ns) ag' \<and> ag' = ag\<lparr>pa_promises := pa_promises ag', pa_phase := pa_phase ag'\<rparr>"
  using assms(1,3-6)
proof (induction ns arbitrary: ms ag)
  case Nil
  then show ?case by (simp add: promise_messages_def)
next
  case (Cons n ns)
  have "node_id n \<notin> node_id ` set ms" using Cons.prems(3) by auto
  from handle_promise_one [OF Cons.prems(1) assms(2) Cons.prems(2) this Cons.prems(4,5) assms(7)] obtain ag1 where
    ag1: "handle_promise (promise_for b) n ag = ag1" "heard_promises b k (ms @ [n]) ag1"
      "ag1 = ag\<lparr>pa_promises := pa_promises ag1, pa_phase := pa_phase ag1\<rparr>" by blast
  have p: "pa_proposer ag1 = pa_proposer ag" by (subst ag1(3)) simp
  have base: "leader_base cfg pn an ln k ag1" using Cons.prems(1) by (subst ag1(3)) (simp add: leader_base_def)
  have "distinct (map node_id ((ms @ [n]) @ ns))" using Cons.prems(3) by simp
  from Cons.IH [OF base ag1(2) this] p Cons.prems(4,5) obtain ag' where
    ag': "receive_all cd net c (promise_messages b ns) ag1 = Some ((), [], ag')"
      "heard_promises b k (ms @ n # ns) ag'" "ag' = ag1\<lparr>pa_promises := pa_promises ag', pa_phase := pa_phase ag'\<rparr>" by auto
  have "ag' = ag\<lparr>pa_promises := pa_promises ag', pa_phase := pa_phase ag'\<rparr>"
    by (subst ag'(3), subst ag1(3)) simp
  moreover have "receive_all cd net c (promise_messages b (n # ns)) ag =
      Some ((), [], ag')"
    using ag'(1) by (simp add: promise_messages_def pa_handle_message_def ag1(1))
  ultimately show ?case using ag'(2) by auto
qed

text \<open>A tick in \<open>AcceptCommit\<close>: the only value is sent to the acceptors, or there is none.\<close>

definition proposal_for :: "ballot \<Rightarrow> paxos_value \<Rightarrow> proposal" where
  "proposal_for b v = \<lparr>prop_slot = 1, prop_ballot = b, prop_value = v\<rparr>"

lemma proposer_accepts:
  assumes "leader_base cfg pn an ln k ag" and "pa_phase ag = AcceptCommit" and "is_event_driven cfg"
    and "acceptors_send_learns cfg" and "0 < unat (batch_size cfg)" and "client_responses ag = []"
    and "current_slot (pa_proposer ag) = 0" and "current_ballot (pa_proposer ag) = b"
    and "pending_client_requests (pa_proposer ag) = [v]" and "proposals (pa_proposer ag) = []"
  shows "pa_handle_tick cd net c ag =
    Some (None, [(an, \<lparr>sender = pn, payload = AcceptMsg \<lparr>acc_slot = 1, acc_ballot = b, acc_value = v\<rparr>\<rparr>)],
      ag\<lparr>pa_proposer := (pa_proposer ag)\<lparr>current_slot := 1, pending_client_requests := [],
           proposals := [(1, \<lparr>pe_proposal = proposal_for b v, pe_status = InFlight\<rparr>)]\<rparr>\<rparr>)"
proof -
  let ?p = "(pa_proposer ag)\<lparr>current_slot := 1, pending_client_requests := [],
      proposals := [(1, \<lparr>pe_proposal = proposal_for b v, pe_status = InFlight\<rparr>)]\<rparr>"
  let ?ag = "ag\<lparr>pa_proposer := ?p\<rparr>"
  have lead: "pr_is_leader (pa_proposer ag)" "prioritized_values (pa_proposer ag) = []" "slot_crash_list ag = []"
    "pa_config ag = cfg" "pa_node ag = pn" "pa_acceptors ag = an"
    using assms(1) by (simp_all add: leader_base_def)
  obtain j where j: "unat (batch_size cfg) = Suc j" using assms(5) by (cases "unat (batch_size cfg)") auto
  have "create_proposal (pa_proposer ag) = (Some (proposal_for b v), ?p)"
    using assms(7-10) lead by (simp add: create_proposal_def next_value_def get_next_slot_def proposal_for_def Let_def)
  then have first: "on_proposer create_proposal ag = Some (Some (proposal_for b v), [], ?ag)"
    by (simp add: on_proposer_def)
  have "create_proposal ?p = (None, ?p)"
    using lead by (simp add: create_proposal_def next_value_def)
  then have loop: "accept_loop j ?ag = Some ([], [], ?ag)"
    by (cases j) (simp_all add: on_proposer_def)
  have props: "proposals_to_accept ag = Some ([proposal_for b v], [], ?ag)"
    using first loop lead j by (simp add: proposals_to_accept_def)
  have "accept_phase net v 1 b [] ?ag =
      Some (AcceptIsEventDriven, [(an, \<lparr>sender = pn, payload = AcceptMsg \<lparr>acc_slot = 1, acc_ballot = b, acc_value = v\<rparr>\<rparr>)], ?ag)"
    using assms(3) lead by (simp add: accept_phase_def broadcast_accept_def pa_message_def)
  moreover have "collect_client_responses ?ag = ([], ?ag)"
    using assms(6) by (simp add: collect_client_responses_def Let_def)
  ultimately show ?thesis
    using props assms(2,4) lead
    by (simp add: pa_handle_tick_def accept_commit_def) (simp add: proposal_for_def)
qed

lemma proposer_hears_result:
  assumes "leader_base cfg pn an ln k ag" and "pr_adu (pa_proposer ag) = 0" and "client_responses ag = []"
    and "proposals (pa_proposer ag) = [(1, \<lparr>pe_proposal = proposal_for b v, pe_status = InFlight\<rparr>)]"
  shows "\<exists>p. pa_handle_message cd net c (executed_message ln v) ag =
      Some (pa_message ag Ignore, [], ag\<lparr>pa_proposer := p, client_responses := [(1, executed_response v (executed_entry v))]\<rparr>) \<and>
    pr_is_leader p \<and> prioritized_values p = [] \<and> pending_client_requests p = pending_client_requests (pa_proposer ag)"
proof -
  have noop: "\<not> (er_cmd_result (executed_entry v) = NoOp \<and> command v \<noteq> None)"
    by (auto simp: executed_entry_def kv_apply_def Let_def split: option.splits prod.splits)
  have slot: "er_slot (executed_entry v) = 1" by (simp add: executed_entry_def Let_def)
  let ?p = "(pa_proposer ag)\<lparr>pr_adu := 1\<rparr>"
  have "mark_proposal_finalized 1 ?p =
      (Some v, ?p\<lparr>proposals := [(1, \<lparr>pe_proposal = proposal_for b v, pe_status = Finalized\<rparr>)]\<rparr>)"
    using assms(4) by (simp add: proposal_defs proposal_for_def)
  with noop assms(1-3) show ?thesis
    by (auto simp: pa_handle_message_def executed_message_def process_executed_def on_proposer_saved_def proposer_set_adu_def
        save_proposer_disabled leader_base_def executed_one_def slot pa_message_def Let_def)
qed

lemma proposer_answers:
  assumes "pa_phase ag = AcceptCommit" and "acceptors_send_learns (pa_config ag)" and "0 < unat (batch_size (pa_config ag))"
    and "client_responses ag = [(1, r)]" and "pr_is_leader (pa_proposer ag)"
    and "prioritized_values (pa_proposer ag) = []" and "pending_client_requests (pa_proposer ag) = []"
  shows "pa_handle_tick cd net c ag = Some (Some [r], [], ag\<lparr>client_responses := []\<rparr>)"
proof -
  obtain j where j: "unat (batch_size (pa_config ag)) = Suc j" using assms(3) by (cases "unat (batch_size (pa_config ag))") auto
  have "create_proposal (pa_proposer ag) = (None, pa_proposer ag)"
    using assms(5-7) by (simp add: create_proposal_def next_value_def)
  then have "proposals_to_accept ag = Some ([], [], ag)"
    by (simp add: proposals_to_accept_def j on_proposer_def)
  with assms(1-4) j show ?thesis
    by (simp add: pa_handle_tick_def accept_commit_def collect_client_responses_def Let_def)
qed

section \<open>The rounds\<close>

text \<open>
  The configuration (learns from the acceptors, results from the learners, nothing stored, no
  crash list), the nodes, and the acceptors \<open>ns\<close> that respond: a majority.
\<close>

definition responsive :: "run_config \<Rightarrow> node \<Rightarrow> node list \<Rightarrow> node \<Rightarrow> node list \<Rightarrow> bool" where
  "responsive cfg pn an ln ns \<longleftrightarrow>
     is_event_driven cfg \<and> acceptors_send_learns cfg \<and> learners_send_executed cfg \<and> \<not> persistent_storage cfg \<and>
     storage_snapshot_slot_interval cfg \<noteq> 0 \<and> 0 < unat (batch_size cfg) \<and> 0 < as_usize (message_batch_size cfg) \<and> find_crashes (node_id pn) (crashes cfg) = Some [] \<and>
     role pn = Proposer \<and> role ln = Learner \<and> (\<forall>n \<in> set an. role n = Acceptor) \<and>
     distinct (map node_id (pn # ln # an)) \<and> length an < 2 ^ 32 \<and>
     set ns \<subseteq> set an \<and> distinct ns \<and> length an < 2 * length ns"

lemma responsive_facts:
  assumes "responsive cfg pn an ln ns"
  shows "pn \<noteq> ln" "pn \<notin> set an" "ln \<notin> set an" "distinct (map node_id ns)" "ns \<noteq> []"
    "unat (of_nat (length an) :: u64) < 2 ^ 32"
    "0 < proposer_quorum (of_nat (length an))" "proposer_quorum (of_nat (length an)) \<le> length ns"
    "0 < learner_quorum (of_nat (length an))" "learner_quorum (of_nat (length an)) \<le> length ns"
proof -
  have d: "distinct (map node_id (pn # ln # an))" and len: "length an < 2 ^ 32" "length an < 2 * length ns"
    and sub: "set ns \<subseteq> set an" "distinct ns" using assms by (simp_all add: responsive_def)
  from d show "pn \<noteq> ln" "pn \<notin> set an" "ln \<notin> set an" by auto
  from d sub show "distinct (map node_id ns)"
    by (auto simp: distinct_map intro: inj_on_subset)
  from len(2) show "ns \<noteq> []" by auto
  have k: "unat (of_nat (length an) :: u64) = length an"
    using len(1) by (simp add: unsigned_of_nat take_bit_nat_eq_self)
  then show small: "unat (of_nat (length an) :: u64) < 2 ^ 32" using len(1) by simp
  have "proposer_quorum (of_nat (length an)) = length an div 2 + 1" "learner_quorum (of_nat (length an)) = length an div 2 + 1"
    using k small by (simp_all add: proposer_quorum_def learner_quorum_def as_usize_def unat_word_ariths unat_div)
  then show "0 < proposer_quorum (of_nat (length an))" "proposer_quorum (of_nat (length an)) \<le> length ns"
    "0 < learner_quorum (of_nat (length an))" "learner_quorum (of_nat (length an)) \<le> length ns"
    using len(2) by simp_all
qed

text \<open>The leader with the request \<open>v\<close> before it has heard of any promise.\<close>

definition leader_waits :: "run_config \<Rightarrow> node \<Rightarrow> node list \<Rightarrow> node \<Rightarrow> ballot \<Rightarrow> paxos_value \<Rightarrow> proposer_agent \<Rightarrow> bool" where
  "leader_waits cfg pn an ln b v ag \<longleftrightarrow> leader_base cfg pn an ln (of_nat (length an)) ag \<and>
     current_ballot (pa_proposer ag) = b \<and> current_slot (pa_proposer ag) = 0 \<and> pr_adu (pa_proposer ag) = 0 \<and>
     pending_client_requests (pa_proposer ag) = [v] \<and> proposals (pa_proposer ag) = [] \<and> client_responses ag = []"

lemma leader_waits_at: "leader_waits cfg pn an ln b v ag \<Longrightarrow> pa_node ag = pn \<and> pa_config ag = cfg"
  by (simp add: leader_waits_def leader_base_def)

definition acceptors_at ::
  "run_config \<Rightarrow> node \<Rightarrow> node list \<Rightarrow> ballot list \<Rightarrow> (slot, p_value) btree_map \<Rightarrow> acceptor_agent list \<Rightarrow> bool" where
  "acceptors_at cfg ln ns ps m as \<longleftrightarrow> list_all2 (\<lambda>n. acceptor_at cfg ln n ps m) ns as"

lemma acceptors_at_nodes:
  "acceptors_at cfg ln ns ps m as \<Longrightarrow> a \<in> set as \<Longrightarrow> aa_node a \<in> set ns"
  by (auto simp: acceptors_at_def list_all2_conv_all_nth in_set_conv_nth acceptor_at_def)

lemma acceptors_at_map:
  "acceptors_at cfg ln ns ps m as \<Longrightarrow> length as = length ns \<and> (\<forall>a \<in> set as. accepted_map (aa_acceptor a) = m)"
  by (auto simp: acceptors_at_def list_all2_conv_all_nth in_set_conv_nth acceptor_at_def)

lemma round_asks_adu:
  assumes "responsive cfg pn an ln ns" and "leader_waits cfg pn an ln b v (leading ps)" and "pa_phase (leading ps) = Start" and "pa_promises (leading ps) = []"
    and "\<not> has_received_adu (leading ps)" and "from_millis (prepare_timeout cfg) \<le> clk_now c - last_get_adu_start (leading ps)"
    and "acceptors_at cfg ln ns [] [] (responding ps)"
    and "learner_waits cfg pn ln k t (learning ps)" and "from_millis (exec_interval_ms cfg) \<le> clk_now c - t"
  shows "\<exists>ps'. sync_round pcd acd lcd net c ps = Some (None, ps') \<and> leader_waits cfg pn an ln b v (leading ps') \<and>
    pa_phase (leading ps') = Start \<and> pa_promises (leading ps') = [] \<and> has_received_adu (leading ps') \<and> acceptors_at cfg ln ns [] [] (responding ps') \<and>
    learner_waits cfg pn ln k (clk_now c) (learning ps')"
proof -
  note f = responsive_facts [OF assms(1)]
  have ns: "set ns \<subseteq> set an" using assms(1) by (simp add: responsive_def)
  let ?ag = "(leading ps)\<lparr>last_get_adu_start := clk_now c\<rparr>"
  have base: "leader_base cfg pn an ln (of_nat (length an)) (leading ps)" using assms(2) by (simp add: leader_waits_def)
  have tick: "pa_handle_tick pcd net c (leading ps) = Some (None, [([ln], \<lparr>sender = pn, payload = AduMsg 0\<rparr>)], ?ag)"
    by (rule proposer_asks_adu [OF base assms(3,5,6)])
  have acc: "feed_acceptors acd c [([ln], \<lparr>sender = pn, payload = AduMsg 0\<rparr>)] (responding ps) = ([], responding ps)"
    by (rule feed_acceptors_idle) (use acceptors_at_nodes [OF assms(7)] ns f(3) in auto)
  have w: "la_node (learning ps) = ln" "lr_adu (la_learner (learning ps)) = 0" using assms(8) by (simp_all add: learner_waits_def)
  have lrn: "feed_learner lcd c [([ln], \<lparr>sender = pn, payload = AduMsg 0\<rparr>)] (learning ps) =
      ([([pn], \<lparr>sender = ln, payload = AduMsg 0\<rparr>)], learning ps)"
    using w by (simp add: feed_learner_def la_handle_message_def la_message_def la_get_adu_def learner_get_adu_def Let_def)
  obtain l2 where l2: "la_handle_tick lcd c (learning ps) = ([], l2)" "learner_waits cfg pn ln k (clk_now c) l2"
    using learner_idle_tick [OF assms(8,9)] by (metis prod.collapse)
  have base': "leader_base cfg pn an ln (of_nat (length an)) ?ag" using base by (simp add: leader_base_def)
  let ?ag' = "?ag\<lparr>pa_proposer := (pa_proposer ?ag)\<lparr>pr_adu := 0\<rparr>, has_received_adu := True\<rparr>"
  have "feed_proposer pcd net c ([([ln], \<lparr>sender = pn, payload = AduMsg 0\<rparr>)] @ [([pn], \<lparr>sender = ln, payload = AduMsg 0\<rparr>)]) ?ag =
      Some ((), [], ?ag')"
    using proposer_gets_adu [OF base', of "\<lparr>sender = ln, payload = AduMsg 0\<rparr>"] f(1) leader_waits_at [OF assms(2)]
    by (simp add: feed_proposer_def)
  then have "sync_round pcd acd lcd net c ps = Some (None, \<lparr>leading = ?ag', responding = responding ps, learning = l2\<rparr>)"
    using tick acc lrn l2(1) by (simp add: sync_round_def)
  moreover have "leader_waits cfg pn an ln b v ?ag'" using assms(2) by (simp add: leader_waits_def leader_base_def)
  ultimately show ?thesis using assms(3,4,7) l2(2) by auto
qed

lemma round_starts:
  assumes "responsive cfg pn an ln ns" and "leader_waits cfg pn an ln b v (leading ps)" and "pa_phase (leading ps) = Start" and "pa_promises (leading ps) = []"
    and "has_received_adu (leading ps)" and "acceptors_at cfg ln ns [] [] (responding ps)"
    and "learner_waits cfg pn ln k t (learning ps)" and "from_millis (exec_interval_ms cfg) \<le> clk_now c - t"
  shows "\<exists>ps'. sync_round pcd acd lcd net c ps = Some (None, ps') \<and> leader_waits cfg pn an ln b v (leading ps') \<and>
    pa_phase (leading ps') = PrepareSend \<and> pa_promises (leading ps') = [] \<and> acceptors_at cfg ln ns [] [] (responding ps') \<and>
    learner_waits cfg pn ln k (clk_now c) (learning ps')"
proof -
  let ?ag = "(leading ps)\<lparr>pa_phase := PrepareSend\<rparr>"
  have base: "leader_base cfg pn an ln (of_nat (length an)) (leading ps)" using assms(2) by (simp add: leader_waits_def)
  have "pa_handle_tick pcd net c (leading ps) = Some (None, [], ?ag)"
    by (rule proposer_starts [OF base assms(3,5)])
  moreover have "feed_acceptors acd c [] (responding ps) = ([], responding ps)"
    by (rule feed_acceptors_idle) simp
  moreover obtain l2 where l2: "la_handle_tick lcd c (learning ps) = ([], l2)" "learner_waits cfg pn ln k (clk_now c) l2"
    using learner_idle_tick [OF assms(7,8)] by (metis prod.collapse)
  ultimately have "sync_round pcd acd lcd net c ps = Some (None, \<lparr>leading = ?ag, responding = responding ps, learning = l2\<rparr>)"
    by (simp add: sync_round_def feed_learner_def feed_proposer_def)
  moreover have "leader_waits cfg pn an ln b v ?ag" using assms(2) by (simp add: leader_waits_def leader_base_def)
  ultimately show ?thesis using assms(4,6) l2(2) by auto
qed

lemma inbox_each:
  "inbox n (map (\<lambda>x. ([n'], g x)) xs) = (if n = n' then map g xs else [])"
  by (induction xs) auto

lemma round_prepares:
  assumes "responsive cfg pn an ln ns" and "leader_waits cfg pn an ln b v (leading ps)" and "pa_phase (leading ps) = PrepareSend"
    and "pa_promises (leading ps) = []" and "acceptors_at cfg ln ns [] [] (responding ps)"
    and "learner_waits cfg pn ln k t (learning ps)" and "from_millis (exec_interval_ms cfg) \<le> clk_now c - t"
    and "b' = b + of_nat (length an)"
  shows "\<exists>ps'. sync_round pcd acd lcd net c ps = Some (None, ps') \<and> leader_waits cfg pn an ln b' v (leading ps') \<and>
    pa_phase (leading ps') = AcceptCommit \<and> acceptors_at cfg ln ns (promised_only b') [] (responding ps') \<and>
    learner_waits cfg pn ln k (clk_now c) (learning ps')"
proof -
  note f = responsive_facts [OF assms(1)]
  have ns: "set ns \<subseteq> set an" and ev: "is_event_driven cfg" using assms(1) by (simp_all add: responsive_def)
  let ?k = "of_nat (length an) :: u64"
  let ?m = "\<lparr>sender = pn, payload = PrepareMsg \<lparr>prep_slot = 1, prep_ballot = b'\<rparr>\<rparr>"
  let ?out = "[(an, ?m)]"
  let ?ag = "(leading ps)\<lparr>pa_proposer := (pa_proposer (leading ps))\<lparr>current_ballot := b'\<rparr>, pa_phase := PreparePending,
      last_prepare_start := Some (clk_now c)\<rparr>"
  let ?f = "\<lambda>n. ([pn], \<lparr>sender = n, payload = PromiseMsg (promise_for b')\<rparr>)"
  have base: "leader_base cfg pn an ln ?k (leading ps)" and b: "current_ballot (pa_proposer (leading ps)) = b"
    "pr_adu (pa_proposer (leading ps)) = 0" "current_slot (pa_proposer (leading ps)) = 0"
    using assms(2) by (simp_all add: leader_waits_def)
  have tick: "pa_handle_tick pcd net c (leading ps) = Some (None, ?out, ?ag)"
    using proposer_prepares [OF base assms(3) ev b(1)] b(2) assms(8) by simp
  have acc: "fst (feed_acceptors acd c ?out (responding ps)) = map ?f ns \<and>
      list_all2 (\<lambda>n. acceptor_at cfg ln n (promised_only b') []) ns (snd (feed_acceptors acd c ?out (responding ps)))"
  proof (rule feed_acceptors_all [where m = ?m])
    show "list_all2 (\<lambda>n. acceptor_at cfg ln n [] []) ns (responding ps)" using assms(5) by (simp add: acceptors_at_def)
    show "inbox (aa_node a) ?out = [?m]" if "acceptor_at cfg ln n [] [] a" "n \<in> set ns" for n a
      using that ns by (auto simp: acceptor_at_def)
    show "fst (snd (aa_handle_message acd c ?m a)) = [?f n] \<and>
        acceptor_at cfg ln n (promised_only b') [] (snd (snd (aa_handle_message acd c ?m a)))" if "acceptor_at cfg ln n [] [] a" for n a
      using acceptor_promises [OF that ev, of ?m] by (simp add: promise_for_def)
  qed
  then obtain as' where as': "feed_acceptors acd c ?out (responding ps) = (map ?f ns, as')"
    "acceptors_at cfg ln ns (promised_only b') [] as'"
    by (metis acceptors_at_def prod.collapse)
  have node: "la_node (learning ps) = ln" using assms(6) by (simp add: learner_waits_def)
  have lrn: "feed_learner lcd c (?out @ map ?f ns) (learning ps) = ([], learning ps)"
    using f(1,3) node by (simp add: feed_learner_def inbox_each)
  obtain l2 where l2: "la_handle_tick lcd c (learning ps) = ([], l2)" "learner_waits cfg pn ln k (clk_now c) l2"
    using learner_idle_tick [OF assms(6,7)] by (metis prod.collapse)
  have base': "leader_base cfg pn an ln ?k ?ag" using base by (simp add: leader_base_def)
  have "heard_promises b' ?k [] ?ag" using assms(4) f(7) by (simp add: heard_promises_def promises_of_def)
  from handle_promise_all [OF base' f(6) this _ _ _ f(7), of ns pcd net c] f(4) b(3) obtain ag' where
    ag': "receive_all pcd net c (promise_messages b' ns) ?ag = Some ((), [], ag')" "heard_promises b' ?k ns ag'"
      "ag' = ?ag\<lparr>pa_promises := pa_promises ag', pa_phase := pa_phase ag'\<rparr>" by auto
  have "inbox pn (?out @ map ?f ns) = promise_messages b' ns"
    using f(2) by (simp add: inbox_each promise_messages_def)
  then have "feed_proposer pcd net c (?out @ map ?f ns) ?ag = Some ((), [], ag')"
    using ag'(1) leader_waits_at [OF assms(2)] by (simp add: feed_proposer_def)
  then have "sync_round pcd acd lcd net c ps = Some (None, \<lparr>leading = ag', responding = as', learning = l2\<rparr>)"
    using tick as'(1) lrn l2(1) by (simp add: sync_round_def)
  moreover have "leader_waits cfg pn an ln b' v ag'"
    using assms(2) by (subst ag'(3)) (simp add: leader_waits_def leader_base_def)
  moreover have "pa_phase ag' = AcceptCommit" using ag'(2) f(8) by (simp add: heard_promises_def)
  ultimately show ?thesis using as'(2) l2(2) by auto
qed

lemma round_decides:
  assumes "responsive cfg pn an ln ns" and "leader_waits cfg pn an ln b v (leading ps)" and "pa_phase (leading ps) = AcceptCommit"
    and "acceptors_at cfg ln ns (promised_only b) [] (responding ps)"
    and "learner_waits cfg pn ln (of_nat (length an)) t (learning ps)" and "from_millis (exec_interval_ms cfg) \<le> clk_now c - t"
  shows "\<exists>ps'. sync_round pcd acd lcd net c ps = Some (None, ps') \<and>
    pa_handle_tick pcd net c' (leading ps') = Some (Some [executed_response v (executed_entry v)], [], (leading ps')\<lparr>client_responses := []\<rparr>) \<and>
    acceptors_at cfg ln ns (promised_only b) [(1, new_pv 1 b v)] (responding ps') \<and>
    learned (la_learner (learning ps')) = [(1, v)] \<and> la_kv (learning ps') = snd (kv_apply (command v) kv_new)"
proof -
  note f = responsive_facts [OF assms(1)]
  have ns: "set ns \<subseteq> set an" and cfg: "is_event_driven cfg" "acceptors_send_learns cfg" "learners_send_executed cfg"
    "0 < unat (batch_size cfg)" "0 < as_usize (message_batch_size cfg)" using assms(1) by (simp_all add: responsive_def)
  let ?k = "of_nat (length an) :: u64"
  let ?m = "\<lparr>sender = pn, payload = AcceptMsg \<lparr>acc_slot = 1, acc_ballot = b, acc_value = v\<rparr>\<rparr>"
  let ?out = "[(an, ?m)]"
  let ?p = "(pa_proposer (leading ps))\<lparr>current_slot := 1, pending_client_requests := [],
      proposals := [(1, \<lparr>pe_proposal = proposal_for b v, pe_status = InFlight\<rparr>)]\<rparr>"
  let ?ag = "(leading ps)\<lparr>pa_proposer := ?p\<rparr>"
  let ?f = "\<lambda>n. ([ln], \<lparr>sender = n, payload = LearnMsg \<lparr>ln_slot = 1, ln_value = v\<rparr>\<rparr>)"
  have base: "leader_base cfg pn an ln ?k (leading ps)" and w: "current_ballot (pa_proposer (leading ps)) = b"
    "pr_adu (pa_proposer (leading ps)) = 0" "current_slot (pa_proposer (leading ps)) = 0" "client_responses (leading ps) = []"
    "pending_client_requests (pa_proposer (leading ps)) = [v]" "proposals (pa_proposer (leading ps)) = []"
    using assms(2) by (simp_all add: leader_waits_def)
  have tick: "pa_handle_tick pcd net c (leading ps) = Some (None, ?out, ?ag)"
    by (rule proposer_accepts [OF base assms(3) cfg(1,2,4) w(4,3,1,5,6)])
  have acc: "fst (feed_acceptors acd c ?out (responding ps)) = map ?f ns \<and>
      list_all2 (\<lambda>n. acceptor_at cfg ln n (promised_only b) [(1, new_pv 1 b v)]) ns (snd (feed_acceptors acd c ?out (responding ps)))"
  proof (rule feed_acceptors_all [where m = ?m])
    show "list_all2 (\<lambda>n. acceptor_at cfg ln n (promised_only b) []) ns (responding ps)" using assms(4) by (simp add: acceptors_at_def)
    show "inbox (aa_node a) ?out = [?m]" if "acceptor_at cfg ln n (promised_only b) [] a" "n \<in> set ns" for n a
      using that ns by (auto simp: acceptor_at_def)
    show "fst (snd (aa_handle_message acd c ?m a)) = [?f n] \<and>
        acceptor_at cfg ln n (promised_only b) [(1, new_pv 1 b v)] (snd (snd (aa_handle_message acd c ?m a)))"
      if "acceptor_at cfg ln n (promised_only b) [] a" for n a
      using acceptor_accepts [OF that cfg(1,2), of ?m] by simp
  qed
  then obtain as' where as': "feed_acceptors acd c ?out (responding ps) = (map ?f ns, as')"
    "acceptors_at cfg ln ns (promised_only b) [(1, new_pv 1 b v)] as'"
    by (metis acceptors_at_def prod.collapse)
  have node: "la_node (learning ps) = ln" using assms(5) by (simp add: learner_waits_def)
  have inb: "inbox ln (?out @ map ?f ns) = learn_messages v ns" using f(3) by (simp add: inbox_each learn_messages_def)
  have hears: "learner_hears cfg pn ln ?k t v [] (learning ps)" by (rule learner_waits_hears [OF assms(5) f(9)])
  define l1 where "l1 = snd (feed_learner lcd c (?out @ map ?f ns) (learning ps))"
  have feed: "feed_learner lcd c (?out @ map ?f ns) (learning ps) =
      feed (\<lambda>m l. snd (la_handle_message lcd c m l)) (learn_messages v ns) (learning ps)"
    unfolding feed_learner_def node inb ..
  have d: "distinct (map node_id ([] @ ns))" and q: "(length [] < learner_quorum ?k \<and> learner_quorum ?k \<le> length ns) = True"
    using f(4,9,10) by simp_all
  have l1: "fst (feed_learner lcd c (?out @ map ?f ns) (learning ps)) = sent_early cfg pn ln v True"
    "learner_hears cfg pn ln ?k t v ns l1"
    using learner_hears_all [OF hears d cfg(2,3,1) f(9) cfg(5), of lcd c] unfolding l1_def feed append_Nil q by blast+
  have l1_eq: "feed_learner lcd c (?out @ map ?f ns) (learning ps) = (sent_early cfg pn ln v True, l1)"
    by (simp only: l1_def l1(1) [symmetric] prod.collapse)
  obtain tout l2 where l2: "la_handle_tick lcd c l1 = (tout, l2)" by fastforce
  have rep: "sent_early cfg pn ln v True @ tout = [([pn], executed_message ln v)]"
    "la_kv l2 = snd (kv_apply (command v) kv_new)" "learned (la_learner l2) = [(1, v)]"
    using learner_reports [OF l1(2) f(10) assms(6) cfg(3,1,5), of lcd] l2 by simp_all
  have base': "leader_base cfg pn an ln ?k ?ag" using base by (simp add: leader_base_def)
  from proposer_hears_result [OF base', of b v pcd net c] w(2,4) obtain p where
    p: "pa_handle_message pcd net c (executed_message ln v) ?ag = Some (pa_message ?ag Ignore, [],
        ?ag\<lparr>pa_proposer := p, client_responses := [(1, executed_response v (executed_entry v))]\<rparr>)"
      "pr_is_leader p" "prioritized_values p = []" "pending_client_requests p = []" by auto
  let ?ag' = "?ag\<lparr>pa_proposer := p, client_responses := [(1, executed_response v (executed_entry v))]\<rparr>"
  have "inbox pn (?out @ map ?f ns @ sent_early cfg pn ln v True @ tout) = [executed_message ln v]"
    using f(1,2) by (simp add: rep inbox_each)
  then have "feed_proposer pcd net c (?out @ map ?f ns @ sent_early cfg pn ln v True @ tout) ?ag = Some ((), [], ?ag')"
    using p(1) leader_waits_at [OF assms(2)] by (simp add: feed_proposer_def)
  then have "sync_round pcd acd lcd net c ps = Some (None, \<lparr>leading = ?ag', responding = as', learning = l2\<rparr>)"
    using tick as'(1) l1_eq l2 by (simp add: sync_round_def)
  moreover have "pa_handle_tick pcd net c' ?ag' = Some (Some [executed_response v (executed_entry v)], [], ?ag'\<lparr>client_responses := []\<rparr>)"
    using proposer_answers [of ?ag' "executed_response v (executed_entry v)"] p(2-4) cfg(2,4) assms(3) leader_waits_at [OF assms(2)] by simp
  ultimately show ?thesis using as'(2) rep by auto
qed

section \<open>From the start\<close>

text \<open>The agents as they are constructed, the proposer as the leader, and the request of a client.\<close>

definition fresh_parties ::
  "(string \<Rightarrow> u64) \<Rightarrow> proposer_codec \<Rightarrow> acceptor_codec \<Rightarrow> learner_codec \<Rightarrow> clock \<Rightarrow> run_config \<Rightarrow> (node \<Rightarrow> storage) \<Rightarrow>
   node \<Rightarrow> node list \<Rightarrow> node \<Rightarrow> node list \<Rightarrow> paxos_value \<Rightarrow> parties option" where
  "fresh_parties hash pcd acd lcd c cfg disk pn an ln ns v =
     (let others = (\<lambda>n. other_nodes (node_id n) (pn # ln # an)) in
      Option.bind (proposer_agent_new pcd c pn (others pn) True cfg (disk pn)) (\<lambda>p.
      Option.bind (submit_client_request v p) (\<lambda>(_, _, p1).
      Option.bind (those (map (\<lambda>n. acceptor_agent_new hash acd c n (others n) cfg (disk n)) ns)) (\<lambda>as.
      map_option (\<lambda>l. \<lparr>leading = p1, responding = as, learning = l\<rparr>)
        (learner_agent_new hash lcd c ln (others ln) cfg (disk ln))))))"

lemma those_all2: "those (map f xs) = Some ys \<Longrightarrow> list_all2 (\<lambda>x y. f x = Some y) xs ys"
  by (induction xs arbitrary: ys) (auto split: option.splits)

lemma filter_id: "\<forall>x \<in> set xs. P x \<Longrightarrow> filter P xs = xs"
  by (induction xs) auto

lemma acceptor_starts:
  assumes "acceptor_agent_new hash acd c n (other_nodes (node_id n) (pn # ln # an)) cfg disk = Some a"
    and "responsive cfg pn an ln ns" and "n \<in> set ns"
  shows "acceptor_at cfg ln n [] [] a"
proof -
  have r: "role pn = Proposer" "role ln = Learner" "\<forall>n \<in> set an. role n = Acceptor" "\<not> persistent_storage cfg"
    "distinct (map node_id (pn # ln # an))" "n \<in> set an" using assms(2,3) by (auto simp: responsive_def)
  then have "node_id ln \<noteq> node_id n" by auto
  moreover have "filter is_learner_role (filter (\<lambda>m. node_id m \<noteq> node_id n) an) = []"
    using r(3) by (auto simp: filter_empty_conv is_learner_role_def)
  ultimately have "filter is_learner_role (other_nodes (node_id n) (pn # ln # an)) = [ln]"
    using r(1,2) by (simp add: other_nodes_def is_learner_role_def)
  with assms(1) r(4) show ?thesis
    by (auto simp: acceptor_agent_new_def acceptor_new_def acceptor_helper_new_def sh_new_def acceptor_load_state_def
        load_and_combine_state_def acceptor_at_def storage_helper.defs split: if_splits)
qed

lemma learner_starts:
  assumes "learner_agent_new hash lcd c ln (other_nodes (node_id ln) (pn # ln # an)) cfg disk = Some l"
    and "responsive cfg pn an ln ns"
  shows "learner_waits cfg pn ln (of_nat (length an)) (clk_now c) l"
proof -
  have r: "role pn = Proposer" "role ln = Learner" "\<forall>n \<in> set an. role n = Acceptor" "\<not> persistent_storage cfg"
    "distinct (map node_id (pn # ln # an))" using assms(2) by (auto simp: responsive_def)
  have "\<forall>m \<in> set an. node_id m \<noteq> node_id ln" using r(5) by (metis distinct.simps(2) image_eqI list.set_map list.simps(9) list.set_intros(2))
  then have "filter (\<lambda>m. node_id m \<noteq> node_id ln) an = an" by (rule filter_id)
  then have o: "other_nodes (node_id ln) (pn # ln # an) = pn # an" using r(5) by (simp add: other_nodes_def)
  have "filter la_is_acceptor_role an = an" "filter la_is_proposer_role an = []"
    using r(3) by (auto intro: filter_id simp: la_is_acceptor_role_def la_is_proposer_role_def filter_empty_conv)
  with assms(1) r(1,2,4) show ?thesis
    by (auto simp: o learner_agent_new_def Let_def learner_new_def sh_new_def learner_load_state_def load_and_replay_state_def
        la_is_acceptor_role_def la_is_proposer_role_def learner_waits_def split: if_splits)
qed

lemma proposer_starts_fresh:
  assumes "proposer_agent_new pcd c pn (other_nodes (node_id pn) (pn # ln # an)) True cfg disk = Some p"
    and "submit_client_request v p = Some (ok, out, p1)" and "responsive cfg pn an ln ns"
  shows "leader_waits cfg pn an ln (node_id pn) v p1 \<and> pa_phase p1 = Start \<and> pa_promises p1 = [] \<and>
    \<not> has_received_adu p1 \<and> last_get_adu_start p1 = clk_now c"
proof -
  have r: "role pn = Proposer" "role ln = Learner" "\<forall>n \<in> set an. role n = Acceptor" "\<not> persistent_storage cfg"
    "distinct (map node_id (pn # ln # an))" "find_crashes (node_id pn) (crashes cfg) = Some []"
    using assms(3) by (auto simp: responsive_def)
  have "\<forall>m \<in> set an. node_id m \<noteq> node_id pn" using r(5) by (metis distinct.simps(2) image_eqI list.set_map list.simps(9) list.set_intros(2))
  then have "filter (\<lambda>m. node_id m \<noteq> node_id pn) an = an" by (rule filter_id)
  moreover have "node_id ln \<noteq> node_id pn" using r(5) by auto
  ultimately have o: "other_nodes (node_id pn) (pn # ln # an) = ln # an" by (simp add: other_nodes_def)
  have "filter pa_is_acceptor_role an = an" "filter pa_is_learner_role an = []"
    using r(3) by (auto intro: filter_id simp: pa_is_acceptor_role_def pa_is_learner_role_def filter_empty_conv)
  with assms(1,2) r(1,2,4,6) show ?thesis
    by (auto simp: o proposer_agent_new_def Let_def proposer_new_def proposer_helper_new_def proposer_load_state_def ph_load_state_def
        pa_is_acceptor_role_def pa_is_learner_role_def leader_waits_def leader_base_def submit_client_request_def on_proposer_def
        enqueue_client_request_def)
qed

lemma parties_start:
  assumes "responsive cfg pn an ln ns"
  shows "\<exists>ps. fresh_parties hash pcd acd lcd c cfg disk pn an ln ns v = Some ps"
proof -
  have cfg: "storage_snapshot_slot_interval cfg \<noteq> 0" "find_crashes (node_id pn) (crashes cfg) = Some []"
    using assms by (simp_all add: responsive_def)
  have a: "\<exists>a. acceptor_agent_new hash acd c n nodes cfg d = Some a" for n nodes d
    using cfg(1) by (simp add: acceptor_agent_new_def acceptor_new_def acceptor_helper_new_def sh_new_def)
  have as: "\<exists>as. those (map (\<lambda>n. acceptor_agent_new hash acd c n (f n) cfg (d n)) ns) = Some as" for f d
  proof (induction ns)
    case (Cons n ns)
    with a [of n "f n" "d n"] show ?case by auto
  qed simp
  obtain p where p: "proposer_agent_new pcd c pn (other_nodes (node_id pn) (pn # ln # an)) True cfg (disk pn) = Some p"
    using cfg(2) by (auto simp: proposer_agent_new_def Let_def)
  obtain ok out p1 where r: "submit_client_request v p = Some (ok, out, p1)"
    by (simp add: submit_client_request_def on_proposer_def enqueue_client_request_def)
  obtain l where l: "learner_agent_new hash lcd c ln (other_nodes (node_id ln) (pn # ln # an)) cfg (disk ln) = Some l"
    using cfg(1) by (auto simp: learner_agent_new_def learner_new_def sh_new_def Let_def)
  obtain as where "those (map (\<lambda>n. acceptor_agent_new hash acd c n (other_nodes (node_id n) (pn # ln # an)) cfg (disk n)) ns) = Some as"
    using as [of "\<lambda>n. other_nodes (node_id n) (pn # ln # an)" disk] by blast
  with p r l show ?thesis by (simp add: fresh_parties_def Let_def)
qed
text \<open>Clock readings that are far enough apart for the learner to look for work in every round.\<close>

fun paced :: "duration \<Rightarrow> instant \<Rightarrow> clock list \<Rightarrow> bool" where
  "paced d t [] \<longleftrightarrow> True"
| "paced d t (c # cs) \<longleftrightarrow> d \<le> clk_now c - t \<and> paced d (clk_now c) cs"

lemma sync_rounds_answer:
  assumes "responsive cfg pn an ln ns" and "fresh_parties hash pcd acd lcd c0 cfg disk pn an ln ns v = Some ps"
    and "paced (from_millis (exec_interval_ms cfg)) (clk_now c0) [c1, c2, c3, c4]"
    and "from_millis (prepare_timeout cfg) \<le> clk_now c1 - clk_now c0"
  shows "\<exists>ps'. sync_rounds pcd acd lcd net [c1, c2, c3, c4] ps = Some ([None, None, None, None], ps') \<and>
    pa_handle_tick pcd net c5 (leading ps') = Some (Some [executed_response v (executed_entry v)], [], (leading ps')\<lparr>client_responses := []\<rparr>) \<and>
    acceptors_at cfg ln ns (promised_only (node_id pn + of_nat (length an))) [(1, new_pv 1 (node_id pn + of_nat (length an)) v)]
      (responding ps') \<and>
    learned (la_learner (learning ps')) = [(1, v)] \<and> la_kv (learning ps') = snd (kv_apply (command v) kv_new)"
proof -
  obtain p ok out p1 as l where new: "proposer_agent_new pcd c0 pn (other_nodes (node_id pn) (pn # ln # an)) True cfg (disk pn) = Some p"
    "submit_client_request v p = Some (ok, out, p1)"
    "those (map (\<lambda>n. acceptor_agent_new hash acd c0 n (other_nodes (node_id n) (pn # ln # an)) cfg (disk n)) ns) = Some as"
    "learner_agent_new hash lcd c0 ln (other_nodes (node_id ln) (pn # ln # an)) cfg (disk ln) = Some l"
    "ps = \<lparr>leading = p1, responding = as, learning = l\<rparr>"
    using assms(2) by (auto simp: fresh_parties_def Let_def bind_eq_Some_conv)
  have acc: "acceptors_at cfg ln ns [] [] (responding ps)"
    unfolding acceptors_at_def using those_all2 [OF new(3)] acceptor_starts [OF _ assms(1)] new(5)
    by (auto elim!: list.rel_mono_strong)
  note p = proposer_starts_fresh [OF new(1,2) assms(1)] and l = learner_starts [OF new(4) assms(1)]
  have t: "from_millis (exec_interval_ms cfg) \<le> clk_now c1 - clk_now c0" "from_millis (exec_interval_ms cfg) \<le> clk_now c2 - clk_now c1"
    "from_millis (exec_interval_ms cfg) \<le> clk_now c3 - clk_now c2" "from_millis (exec_interval_ms cfg) \<le> clk_now c4 - clk_now c3"
    using assms(3) by simp_all
  obtain ps1 where 1: "sync_round pcd acd lcd net c1 ps = Some (None, ps1)" "leader_waits cfg pn an ln (node_id pn) v (leading ps1)"
    "pa_phase (leading ps1) = Start" "pa_promises (leading ps1) = []" "has_received_adu (leading ps1)"
    "acceptors_at cfg ln ns [] [] (responding ps1)" "learner_waits cfg pn ln (of_nat (length an)) (clk_now c1) (learning ps1)"
    using round_asks_adu [OF assms(1) _ _ _ _ _ acc _ t(1), of "node_id pn" v "of_nat (length an)" pcd acd lcd net] p l new(5) assms(4)
    by auto
  obtain ps2 where 2: "sync_round pcd acd lcd net c2 ps1 = Some (None, ps2)" "leader_waits cfg pn an ln (node_id pn) v (leading ps2)"
    "pa_phase (leading ps2) = PrepareSend" "pa_promises (leading ps2) = []" "acceptors_at cfg ln ns [] [] (responding ps2)"
    "learner_waits cfg pn ln (of_nat (length an)) (clk_now c2) (learning ps2)"
    using round_starts [OF assms(1) 1(2-7) t(2)] by blast
  obtain ps3 where 3: "sync_round pcd acd lcd net c3 ps2 = Some (None, ps3)"
    "leader_waits cfg pn an ln (node_id pn + of_nat (length an)) v (leading ps3)" "pa_phase (leading ps3) = AcceptCommit"
    "acceptors_at cfg ln ns (promised_only (node_id pn + of_nat (length an))) [] (responding ps3)"
    "learner_waits cfg pn ln (of_nat (length an)) (clk_now c3) (learning ps3)"
    using round_prepares [OF assms(1) 2(2-6) t(3) refl] by blast
  obtain ps4 where 4: "sync_round pcd acd lcd net c4 ps3 = Some (None, ps4)"
    "pa_handle_tick pcd net c5 (leading ps4) = Some (Some [executed_response v (executed_entry v)], [], (leading ps4)\<lparr>client_responses := []\<rparr>)"
    "acceptors_at cfg ln ns (promised_only (node_id pn + of_nat (length an))) [(1, new_pv 1 (node_id pn + of_nat (length an)) v)] (responding ps4)"
    "learned (la_learner (learning ps4)) = [(1, v)]" "la_kv (learning ps4) = snd (kv_apply (command v) kv_new)"
    using round_decides [OF assms(1) 3(2-5) t(4)] by blast
  have "sync_rounds pcd acd lcd net [c1, c2, c3, c4] ps = Some ([None, None, None, None], ps4)"
    using 1(1) 2(1) 3(1) 4(1) by simp
  with 4(2-5) show ?thesis by blast
qed

end
