(* ===== verification/Late_Promise.thy ===== *)
theory Late_Promise
  imports Proposer_Agent Acceptor
begin

text \<open>
  What becomes of a slot that a late promise makes a leader use twice with one ballot
  (\<open>late_promise_slot\<close>): the replies of the acceptors name the slot and the ballot but not the
  value, so replies to the first proposal are counted for the second.
\<close>

section \<open>Replies are counted one by one\<close>

lemma insert_accepted_agent:
  "snd (insert_and_check_accepted a n ag) =
     ag\<lparr>in_flight_accepted := bt_insert (ad_slot a) (hm_insert (node_id n) a (entry_of (in_flight_accepted ag) (ad_slot a)))
       (in_flight_accepted ag)\<rparr>"
  by (simp add: insert_and_check_accepted_def Let_def)

lemma handle_accepted_agent:
  "handle_accepted a n ag = (snd (insert_and_check_accepted a n ag))\<lparr>pa_proposer := pa_proposer (handle_accepted a n ag)\<rparr>"
proof -
  have "ag' = ag'\<lparr>pa_proposer := pa_proposer ag'\<rparr>" for ag' :: proposer_agent by simp
  then show ?thesis
    by (simp add: handle_accepted_def handle_accept_result_def split_def Let_def split: option.split accept_result.split)
qed

lemma acceptors_of_insert:
  assumes "replies_ok (in_flight_accepted ag)" and "matching prop a"
  shows "acceptors_of (snd (insert_and_check_accepted a n ag)) prop = insert (node_id n) (acceptors_of ag prop)"
  using assms
  by (auto simp: acceptors_of_def insert_accepted_agent entry_of_insert matching_def dict_simps)

text \<open>
  The first replies that complete a quorum for the proposal that is in flight make it chosen.
\<close>

lemma replies_choose:
  assumes "replies_ok (in_flight_accepted ag)" and "slots_ok (pa_proposer ag)"
    and "agent_quorum (pa_num_acceptors ag) = proposer_quorum (pr_num_acceptors (pa_proposer ag))"
    and "get_proposal_by_status (ad_slot a) InFlight (pa_proposer ag) = Some prop" and "matching prop a"
    and "distinct (map node_id ns)" and "acceptors_of ag prop \<inter> node_id ` set ns = {}" and "ns \<noteq> []"
    and "card (acceptors_of ag prop) + length ns = proposer_quorum (pr_num_acceptors (pa_proposer ag))"
  shows "pa_proposer (foldl (\<lambda>ag n. handle_accepted a n ag) ag ns) = snd (mark_proposal_chosen (ad_slot a) (pa_proposer ag)) \<and>
    pa_config (foldl (\<lambda>ag n. handle_accepted a n ag) ag ns) = pa_config ag"
  using assms
proof (induction ns arbitrary: ag)
  case (Cons n ns)
  let ?ag = "handle_accepted a n ag"
  obtain p where ag: "?ag = (snd (insert_and_check_accepted a n ag))\<lparr>pa_proposer := p\<rparr>"
    using handle_accepted_agent by metis
  have votes: "acceptors_of ?ag prop = insert (node_id n) (acceptors_of ag prop)"
    using acceptors_of_insert [OF Cons.prems(1,5), of n] by (simp add: ag acceptors_of_def)
  have "finite (acceptors_of ag prop)"
    unfolding acceptors_of_def by (rule finite_subset [OF _ finite_dom_map_of]) auto
  then have card: "card (acceptors_of ?ag prop) = Suc (card (acceptors_of ag prop))"
    using Cons.prems(7) by (simp add: votes)
  have same: "pa_num_acceptors ?ag = pa_num_acceptors ag" "pa_config ?ag = pa_config ag"
    "replies_ok (in_flight_accepted ?ag)"
    using replies_ok_insert [OF Cons.prems(1)] by (simp_all add: ag insert_accepted_agent)
  have "acceptors_of (snd (insert_and_check_accepted a n ag)) prop = acceptors_of ?ag prop"
    by (simp add: ag acceptors_of_def)
  with handle_accepted_eq [OF Cons.prems(1,3,2,4), of n] have p: "pa_proposer ?ag =
      (if proposer_quorum (pr_num_acceptors (pa_proposer ag)) \<le> Suc (card (acceptors_of ag prop))
       then snd (mark_proposal_chosen (ad_slot a) (pa_proposer ag)) else pa_proposer ag)" by (simp add: card)
  show ?case
  proof (cases "ns = []")
    case True
    with p Cons.prems(9) same(2) show ?thesis by simp
  next
    case False
    then obtain k where "length ns = Suc k" by (cases ns) auto
    with Cons.prems(9) have "\<not> proposer_quorum (pr_num_acceptors (pa_proposer ag)) \<le> Suc (card (acceptors_of ag prop))"
      by simp
    with p have eq: "pa_proposer ?ag = pa_proposer ag" by simp
    have "acceptors_of ?ag prop \<inter> node_id ` set ns = {}"
      using Cons.prems(6,7) by (auto simp: votes)
    from Cons.IH [OF same(3) _ _ _ Cons.prems(5) _ this False] Cons.prems(2-4,6,9) same(1,2) eq card
    show ?thesis by simp
  qed
qed simp

section \<open>The second proposal\<close>

lemma process_prepare_same:
  "proposals (snd (process_prepare s ps p)) = proposals p" "chosen_slots (snd (process_prepare s ps p)) = chosen_slots p"
  "pr_num_acceptors (snd (process_prepare s ps p)) = pr_num_acceptors p"
proof -
  have "chosen_slots (foldl (\<lambda>p v. enqueue_prioritized_request v p) q vs) = chosen_slots q"
    "pr_num_acceptors (foldl (\<lambda>p v. enqueue_prioritized_request v p) q vs) = pr_num_acceptors q" for q vs
    by (induction vs arbitrary: q) (simp_all add: enqueue_prioritized_request_def)
  then show "proposals (snd (process_prepare s ps p)) = proposals p" "chosen_slots (snd (process_prepare s ps p)) = chosen_slots p"
    "pr_num_acceptors (snd (process_prepare s ps p)) = pr_num_acceptors p"
    by (simp_all add: process_prepare_def Let_def split_def collect_accepted_values_def enqueue_prioritized_fields)
qed

lemma create_proposal_in_flight:
  assumes "fst (create_proposal p) = Some prop" and "slots_ok p"
  shows "slots_ok (snd (create_proposal p))"
    and "get_proposal_by_status (prop_slot prop) InFlight (snd (create_proposal p)) = Some prop"
    and "pr_num_acceptors (snd (create_proposal p)) = pr_num_acceptors p"
proof -
  have "prop_slot prop = current_slot p + 1" using assms(1) by (simp add: create_proposal_Some)
  with create_proposal_state(2) [OF assms(1)] assms(2)
  show "slots_ok (snd (create_proposal p))" "get_proposal_by_status (prop_slot prop) InFlight (snd (create_proposal p)) = Some prop"
    by (auto simp: slots_ok_def get_proposal_by_status_Some dict_simps bt_insert_sorted split: if_splits)
  show "pr_num_acceptors (snd (create_proposal p)) = pr_num_acceptors p"
    by (auto simp: create_proposal_def next_value_def get_next_slot_def Let_def split: list.split option.split)
qed

text \<open>The leader learns the proposal that it has marked, and it is the first of its learns.\<close>

lemma learns_chosen:
  assumes "slots_ok p" and "get_proposal_by_status s InFlight p = Some prop" and "chosen_slots p = []"
    and "pa_proposer ag = snd (mark_proposal_chosen s p)" and "0 < batch_size (pa_config ag)"
  shows "\<lparr>ln_slot = prop_slot prop, ln_value = prop_value prop\<rparr> \<in> set (fst (learns_to_commit ag))"
proof -
  from assms(5) obtain k where k: "unat (batch_size (pa_config ag)) = Suc k"
    by (metis gr0_implies_Suc unat_gt_0 word_neq_0_conv)
  have "fst (reserve_next_chosen_proposal (pa_proposer ag)) = Some prop"
    using assms(1-4)
    by (auto simp: mark_proposal_chosen_eq get_proposal_by_status_Some reserve_next_chosen_proposal_def set_status_def
        slots_ok_def dict_simps)
  then show ?thesis
    by (auto simp: learns_to_commit_def k Let_def split_def)
qed

text \<open>The acceptor that took the first proposal keeps it, and its reply does not name the value.\<close>

lemma acceptor_takes_first:
  assumes "\<not> sh_enabled (acc_storage a)" and "bt_ok (accepted_map a)" and "highest_promised_ballot a \<le> b"
    and "bt_get (accepted_map a) s = None"
  shows "fst (acceptor_accept cd c s b v a) = AcceptedOk \<lparr>ad_slot = s, ad_ballot = b, ad_success = True\<rparr> \<and>
    (v' \<noteq> v \<longrightarrow> fst (acceptor_accept cd c' s b v' (snd (acceptor_accept cd c s b v a))) = AcceptedRejected b)"
proof -
  have "highest_promised_ballot (a\<lparr>accepted_map := m\<rparr>) = highest_promised_ballot a" for m
    by (simp add: highest_promised_ballot_def)
  with assms show ?thesis
    by (simp add: acceptor_accept_new not_less recorded_disabled accepted_reply_def)
      (simp add: acceptor_accept_def dict_simps not_less [symmetric])
qed

section \<open>Together\<close>

lemma handle_promise_same:
  "pa_config (handle_promise m n ag) = pa_config ag" "pa_num_acceptors (handle_promise m n ag) = pa_num_acceptors ag"
  "in_flight_accepted (handle_promise m n ag) = in_flight_accepted ag"
  by (simp_all add: handle_promise_def insert_and_check_promises_def handle_prepare_result_def advance_phase_def
      split_def Let_def split: option.split)

lemma late_promise_learns:
  fixes ag m n
  defines "ag2 \<equiv> (handle_promise m n ag)\<lparr>pa_proposer := snd (create_proposal (pa_proposer (handle_promise m n ag)))\<rparr>"
  assumes "fst (insert_and_check_promises m n ag) = Some (b, ps)" and "slots_ok (pa_proposer ag)"
    and "chosen_slots (pa_proposer ag) = []" and "0 < batch_size (pa_config ag)"
    and "fst (create_proposal (pa_proposer (handle_promise m n ag))) = Some pr'"
    and "replies_ok (in_flight_accepted ag)" and "entry_of (in_flight_accepted ag) (prop_slot pr') = []"
    and "pa_num_acceptors ag = as_usize (pr_num_acceptors (pa_proposer ag))"
    and "unat (pr_num_acceptors (pa_proposer ag)) < 2 ^ 32"
    and "distinct (map node_id ns)" and "length ns = agent_quorum (pa_num_acceptors ag)" and "matching pr' a"
  shows "\<lparr>ln_slot = prop_slot pr', ln_value = prop_value pr'\<rparr> \<in>
    set (fst (learns_to_commit (foldl (\<lambda>ag n. handle_accepted a n ag) ag2 ns)))"
proof -
  let ?q = "pa_proposer (handle_promise m n ag)"
  have "pa_proposer (handle_promise m n ag) = snd (process_prepare (prom_slot m) ps (pa_proposer ag))"
    using assms(2) by (simp add: handle_promise_def split_def Let_def handle_prepare_result_def advance_phase_def
        insert_and_check_promises_def split: option.splits if_splits)
  then have q: "slots_ok ?q" "chosen_slots ?q = []" "pr_num_acceptors ?q = pr_num_acceptors (pa_proposer ag)"
    using assms(3,4) by (simp_all add: slots_ok_def process_prepare_same)
  note c = create_proposal_in_flight [OF assms(6) q(1)]
  have slot: "ad_slot a = prop_slot pr'" using assms(13) by (simp add: matching_def)
  have quorum: "agent_quorum (pa_num_acceptors ag) = proposer_quorum (pr_num_acceptors (pa_proposer ag))"
    using agent_quorum_eq [OF assms(10)] assms(9) by simp
  then have "ns \<noteq> []" using assms(12) by (auto simp: agent_quorum_def)
  have none: "acceptors_of ag2 pr' = {}"
    using assms(8) by (simp add: acceptors_of_def ag2_def handle_promise_same)
  from replies_choose [of ag2 a pr' ns] c q(3) assms(7,11-13) quorum \<open>ns \<noteq> []\<close> none
  have "pa_proposer (foldl (\<lambda>ag n. handle_accepted a n ag) ag2 ns) =
      snd (mark_proposal_chosen (prop_slot pr') (snd (create_proposal ?q))) \<and>
    pa_config (foldl (\<lambda>ag n. handle_accepted a n ag) ag2 ns) = pa_config ag"
    by (simp add: ag2_def handle_promise_same slot)
  moreover have "chosen_slots (snd (create_proposal ?q)) = []"
    using create_proposal_state(3) [OF assms(6)] q(2) by simp
  ultimately show ?thesis using learns_chosen [OF c(1,2)] assms(5) by simp
qed

end
