(* ===== verification/Client.thy ===== *)
theory Client
  imports Delivery
begin

text \<open>
  The client of the key-value store: the component
  \<open>modular-ws-client/paxos-ws-client/src/paxos-client.rs\<close>, which speaks to the server for
  clients of a leader, and the loop of \<open>modular-ws-client/src/main.rs\<close> that drives it
  (\<open>run_logical_client\<close>). Sockets and clocks are arguments, a result \<open>None\<close> is a panic. The
  component has a \<open>usize\<close> of 32 bits.
\<close>

section \<open>The component\<close>

record connection =
  con_input :: bool
  con_output :: bool

record paxos_client =
  pc_conns :: "(string, connection) hash_map"
  pc_bufs :: "(string, bytes) hash_map"

definition paxos_client_new :: paxos_client where
  "paxos_client_new = \<lparr>pc_conns = [], pc_bufs = []\<rparr>"

definition client_node :: node where
  "client_node = \<lparr>node_id = 0, address = ''123'', role = Client\<rparr>"

definition request_message :: "paxos_value \<Rightarrow> network_message" where
  "request_message v = \<lparr>sender = client_node, payload = ClientRequest v\<rparr>"

text \<open>
  \<open>read_with_timeout\<close>: what each read gives and how much time has passed after it. \<open>None\<close>: the
  list has ended and the client still reads.
\<close>

fun read_with_timeout :: "duration \<Rightarrow> (bytes option \<times> duration) list \<Rightarrow> bytes option option" where
  "read_with_timeout timeout [] = None"
| "read_with_timeout timeout ((r, elapsed) # polls) =
     (case r of
        None \<Rightarrow> Some None
      | Some buf \<Rightarrow>
          if buf \<noteq> [] then Some (Some buf)
          else if timeout \<le> elapsed then Some None
          else read_with_timeout timeout polls)"

text \<open>One request over a connection of its own; \<open>received\<close> is the result of the read.\<close>

definition perform_request ::
  "connect_result \<Rightarrow> bool \<Rightarrow> bytes option \<Rightarrow> paxos_value \<Rightarrow> client_response option option" where
  "perform_request connected written received v =
     (case connected of
        BadAddress \<Rightarrow> None
      | ConnectFailed \<Rightarrow> Some None
      | Connected \<Rightarrow>
          (case serialize (request_message v) of
             None \<Rightarrow> None
           | Some _ \<Rightarrow>
               if \<not> written then Some None
               else (case received of
                   None \<Rightarrow> Some None
                 | Some buf \<Rightarrow>
                     map_option (\<lambda>m. case payload m of ClientResponse r \<Rightarrow> Some r | _ \<Rightarrow> None) (deserialize buf))))"

definition pc_ensure_conn :: "(string \<Rightarrow> connect_result) \<Rightarrow> string \<Rightarrow> paxos_client \<Rightarrow> (bool \<times> paxos_client) option" where
  "pc_ensure_conn connect addr c =
     (if hm_get (pc_conns c) addr \<noteq> None then Some (True, c)
      else case connect addr of
        Connected \<Rightarrow> Some (True, c\<lparr>pc_conns := hm_insert addr \<lparr>con_input = True, con_output = True\<rparr> (pc_conns c)\<rparr>)
      | ConnectFailed \<Rightarrow> Some (False, c)
      | BadAddress \<Rightarrow> None)"

definition drop_connection :: "string \<Rightarrow> paxos_client \<Rightarrow> paxos_client" where
  "drop_connection addr c = c\<lparr>pc_conns := hm_remove addr (pc_conns c), pc_bufs := hm_remove addr (pc_bufs c)\<rparr>"

text \<open>The result is also what was written; nothing is when the sending half was shut down.\<close>

definition send_request ::
  "(string \<Rightarrow> connect_result) \<Rightarrow> bool \<Rightarrow> string \<Rightarrow> paxos_value \<Rightarrow> paxos_client \<Rightarrow>
   (bool \<times> bytes option \<times> paxos_client) option" where
  "send_request connect writes addr v c =
     (case serialize (request_message v) of
        None \<Rightarrow> None
      | Some bs \<Rightarrow>
          (case pc_ensure_conn connect addr c of
             None \<Rightarrow> None
           | Some (False, c1) \<Rightarrow> Some (False, None, c1)
           | Some (True, c1) \<Rightarrow>
               (case hm_get (pc_conns c1) addr of
                  None \<Rightarrow> Some (True, None, c1)
                | Some conn \<Rightarrow>
                    if \<not> con_output conn then Some (True, None, c1)
                    else if writes then Some (True, Some bs, c1)
                    else Some (False, None, drop_connection addr c1))))"

text \<open>The frames of a buffer: the answers among them, and where the rest begins.\<close>

definition responses_of :: "network_message list \<Rightarrow> client_response list" where
  "responses_of ms = List.map_filter (\<lambda>m. case payload m of ClientResponse r \<Rightarrow> Some r | _ \<Rightarrow> None) ms"

definition response_frames :: "bytes \<Rightarrow> (client_response list \<times> nat) option" where
  "response_frames buf = map_option (apfst responses_of) (frames server_incomplete 0 buf)"

text \<open>\<open>read\<close>: the bytes of a read, none when there are none, \<open>None\<close> for a broken connection.\<close>

definition try_receive ::
  "(string \<Rightarrow> connect_result) \<Rightarrow> bytes option \<Rightarrow> string \<Rightarrow> paxos_client \<Rightarrow>
   ((client_response list \<times> bool) \<times> paxos_client) option" where
  "try_receive connect read addr c =
     (case pc_ensure_conn connect addr c of
        None \<Rightarrow> None
      | Some (False, c1) \<Rightarrow> Some (([], False), c1)
      | Some (True, c1) \<Rightarrow>
          (case hm_get (pc_conns c1) addr of
             None \<Rightarrow> Some (([], True), c1)
           | Some conn \<Rightarrow>
               (let buf = (case hm_get (pc_bufs c1) addr of Some b \<Rightarrow> b | None \<Rightarrow> []) in
                if con_input conn \<and> read = None then Some (([], False), drop_connection addr c1)
                else
                  (let buf1 = (if con_input conn then buf @ the read else buf) in
                   map_option (\<lambda>(out, offset). ((out, True), c1\<lparr>pc_bufs := hm_insert addr (drop offset buf1) (pc_bufs c1)\<rparr>))
                     (response_frames buf1)))))"

definition pc_shutdown_send :: "string \<Rightarrow> paxos_client \<Rightarrow> paxos_client" where
  "pc_shutdown_send addr c =
     (case hm_get (pc_conns c) addr of
        None \<Rightarrow> c
      | Some conn \<Rightarrow> c\<lparr>pc_conns := hm_insert addr (conn\<lparr>con_output := False\<rparr>) (pc_conns c)\<rparr>)"

definition pc_shutdown_receive :: "string \<Rightarrow> paxos_client \<Rightarrow> paxos_client" where
  "pc_shutdown_receive addr c =
     (case hm_get (pc_conns c) addr of
        None \<Rightarrow> c
      | Some conn \<Rightarrow> c\<lparr>pc_conns := hm_insert addr (conn\<lparr>con_input := False\<rparr>) (pc_conns c)\<rparr>)"

text \<open>The buffer stays.\<close>

definition pc_close :: "string \<Rightarrow> paxos_client \<Rightarrow> paxos_client" where
  "pc_close addr c = c\<lparr>pc_conns := hm_remove addr (pc_conns c)\<rparr>"

section \<open>What the client receives\<close>

text \<open>Successive calls, each with what its read gives.\<close>

fun receives :: "string \<Rightarrow> bytes list \<Rightarrow> paxos_client \<Rightarrow> (client_response list \<times> paxos_client) option" where
  "receives addr [] c = Some ([], c)"
| "receives addr (chunk # chunks) c =
     (case try_receive (\<lambda>a. ConnectFailed) (Some chunk) addr c of
        None \<Rightarrow> None
      | Some ((out, ok), c1) \<Rightarrow> map_option (apfst (append out)) (receives addr chunks c1))"

definition receiving :: "string \<Rightarrow> bytes \<Rightarrow> paxos_client \<Rightarrow> bool" where
  "receiving addr b c \<longleftrightarrow> (\<exists>conn. hm_get (pc_conns c) addr = Some conn \<and> con_input conn) \<and>
     (case hm_get (pc_bufs c) addr of Some b' \<Rightarrow> b' | None \<Rightarrow> []) = b"

lemma responses_of_simps [simp]:
  "responses_of [] = []" "responses_of (ms @ ms') = responses_of ms @ responses_of ms'"
  "responses_of (m # ms) = (case payload m of ClientResponse r \<Rightarrow> r # responses_of ms | _ \<Rightarrow> responses_of ms)"
  by (simp_all add: responses_of_def map_filter_def split: message_payload.split)

lemma try_receive_one:
  assumes "receiving addr b c" and "frames server_incomplete 0 (b @ chunk) = Some (ms, offset)"
  shows "\<exists>c1. try_receive connect (Some chunk) addr c = Some ((responses_of ms, True), c1) \<and>
    receiving addr (drop offset (b @ chunk)) c1"
  using assms
  by (auto simp: receiving_def try_receive_def pc_ensure_conn_def response_frames_def Let_def dict_simps)

lemma receives_stream:
  assumes "receiving addr b c" and "feeds server_incomplete chunks b = Some (ms, b')"
  shows "\<exists>c'. receives addr chunks c = Some (responses_of ms, c') \<and> receiving addr b' c'"
  using assms
proof (induction chunks arbitrary: b c ms)
  case Nil
  then show ?case by simp
next
  case (Cons chunk chunks)
  then obtain ms1 offset ms2 where f: "frames server_incomplete 0 (b @ chunk) = Some (ms1, offset)"
    "feeds server_incomplete chunks (drop offset (b @ chunk)) = Some (ms2, b')" "ms = ms1 @ ms2"
    by (auto split: option.splits)
  from try_receive_one [OF Cons.prems(1) f(1)] obtain c1 where c1:
    "try_receive (\<lambda>a. ConnectFailed) (Some chunk) addr c = Some ((responses_of ms1, True), c1)"
    "receiving addr (drop offset (b @ chunk)) c1" by blast
  from Cons.IH [OF c1(2) f(2)] c1(1) f(3) show ?case by auto
qed

text \<open>Whole frames arrive in any chunks, when the buffer was empty.\<close>

lemma receives_frames:
  assumes "receiving addr [] c" and "list_all2 framed fs ms" and "concat chunks = concat fs" and "length (concat fs) < 2 ^ 32"
  shows "\<exists>c'. receives addr chunks c = Some (responses_of ms, c') \<and> receiving addr [] c'"
  by (rule receives_stream [OF assms(1) server.feeds_stream [OF assms(2) _ assms(4)]]) (simp_all add: assms(3))

section \<open>The loop of a logical client\<close>

text \<open>
  \<open>run_logical_client\<close> keeps the next sequence number, the requests in flight with the time they
  were sent, the sequence numbers that are done, and the latencies. The host is built in release
  mode, so \<open>next - 1\<close> wraps around.
\<close>

record logical_client =
  lc_next :: u64
  lc_sent :: "(u64, instant) hash_map"
  lc_seen :: "u64 list"
  lc_lats :: "duration list"

definition logical_client_new :: logical_client where
  "logical_client_new = \<lparr>lc_next = 0, lc_sent = [], lc_seen = [], lc_lats = []\<rparr>"

text \<open>
  What the outside gives in an iteration: the times that the loop reads, and for each of the three
  calls whether a connection can be made and what becomes of the write or the read.
\<close>

record iteration =
  it_now :: instant
  it_stamp :: instant
  it_checked :: instant
  it_taken :: "nat \<Rightarrow> instant"
  it_send :: "connect_result \<times> bool"
  it_receive :: "connect_result \<times> bytes option"
  it_resend :: "connect_result \<times> bool"

definition max_in_flight :: nat where
  "max_in_flight = 1"

definition request_timeout :: duration where
  "request_timeout = from_millis 3000"

definition logical_request :: "u64 \<Rightarrow> u64 \<Rightarrow> paxos_value" where
  "logical_request i seq = \<lparr>command = Some Demo, client_id = ''client-'' @ show_u64 i, client_seq = seq\<rparr>"

definition mark_seen :: "u64 \<Rightarrow> u64 list \<Rightarrow> u64 list" where
  "mark_seen seq seen = (if seq \<in> set seen then seen else seen @ [seq])"

text \<open>A call of \<open>send_request\<close>: its result, and the writes it made.\<close>

definition call_send ::
  "connect_result \<times> bool \<Rightarrow> string \<Rightarrow> paxos_value \<Rightarrow> paxos_client \<Rightarrow> (bool \<times> bytes list \<times> paxos_client) option" where
  "call_send outside leader v pc =
     map_option (\<lambda>(ok, written, pc1). (ok, case written of None \<Rightarrow> [] | Some bs \<Rightarrow> [bs], pc1))
       (send_request (\<lambda>_. fst outside) (snd outside) leader v pc)"

text \<open>The first part: the next request, when none is in flight.\<close>

definition send_next ::
  "u64 \<Rightarrow> u64 \<Rightarrow> string \<Rightarrow> iteration \<Rightarrow> logical_client \<times> paxos_client \<Rightarrow>
   (bytes list \<times> logical_client \<times> paxos_client) option" where
  "send_next i num leader it = (\<lambda>(lc, pc).
     if lc_next lc < num \<and> length (lc_sent lc) < max_in_flight
     then map_option
       (\<lambda>(ok, out, pc1).
          (out,
           if ok then lc\<lparr>lc_sent := hm_insert (lc_next lc) (it_stamp it) (lc_sent lc), lc_next := lc_next lc + 1\<rparr> else lc,
           pc1))
       (call_send (it_send it) leader (logical_request i (lc_next lc)) pc)
     else Some ([], lc, pc))"

definition give_up_last :: "iteration \<Rightarrow> logical_client \<Rightarrow> logical_client" where
  "give_up_last it lc =
     (let prev = lc_next lc - 1 in
      case hm_get (lc_sent lc) prev of
        None \<Rightarrow> lc
      | Some t \<Rightarrow>
          if request_timeout < it_checked it - t
          then lc\<lparr>lc_sent := hm_remove prev (lc_sent lc), lc_seen := mark_seen prev (lc_seen lc)\<rparr> else lc)"

text \<open>When nothing can be received, the last request is sent again, whatever became of it.\<close>

definition resend_last ::
  "u64 \<Rightarrow> string \<Rightarrow> iteration \<Rightarrow> bool \<Rightarrow> logical_client \<Rightarrow> paxos_client \<Rightarrow> (bytes list \<times> paxos_client) option" where
  "resend_last i leader it received lc pc =
     (if received then Some ([], pc)
      else map_option snd (call_send (it_resend it) leader (logical_request i (lc_next lc - 1)) pc))"

definition take_reply :: "instant \<Rightarrow> client_response \<Rightarrow> logical_client \<Rightarrow> logical_client" where
  "take_reply now r lc =
     (let seq = resp_client_seq r in
      if seq \<in> set (lc_seen lc) then lc
      else
        (let lc1 = lc\<lparr>lc_seen := mark_seen seq (lc_seen lc)\<rparr> in
         case hm_get (lc_sent lc1) seq of
           None \<Rightarrow> lc1
         | Some t \<Rightarrow> lc1\<lparr>lc_sent := hm_remove seq (lc_sent lc1), lc_lats := lc_lats lc1 @ [now - t]\<rparr>))"

fun take_replies :: "(nat \<Rightarrow> instant) \<Rightarrow> client_response list \<Rightarrow> logical_client \<Rightarrow> logical_client" where
  "take_replies taken [] lc = lc"
| "take_replies taken (r # rs) lc = take_replies (\<lambda>k. taken (Suc k)) rs (take_reply (taken 0) r lc)"

definition logical_iteration ::
  "u64 \<Rightarrow> u64 \<Rightarrow> string \<Rightarrow> iteration \<Rightarrow> logical_client \<times> paxos_client \<Rightarrow>
   (bytes list \<times> logical_client \<times> paxos_client) option" where
  "logical_iteration i num leader it s =
     (case send_next i num leader it s of
        None \<Rightarrow> None
      | Some (out1, lc1, pc1) \<Rightarrow>
          (let lc2 = give_up_last it lc1 in
           case try_receive (\<lambda>_. fst (it_receive it)) (snd (it_receive it)) leader pc1 of
             None \<Rightarrow> None
           | Some ((replies, received), pc2) \<Rightarrow>
               map_option (\<lambda>(out2, pc3). (out1 @ out2, take_replies (it_taken it) replies lc2, pc3))
                 (resend_last i leader it received lc2 pc2)))"

text \<open>A panic of the component ends the loop with an error. At its end the connection is closed.\<close>

fun run_logical_client ::
  "u64 \<Rightarrow> u64 \<Rightarrow> string \<Rightarrow> instant \<Rightarrow> iteration list \<Rightarrow> logical_client \<times> paxos_client \<Rightarrow>
   (bytes list \<times> logical_client \<times> paxos_client) option" where
  "run_logical_client i num leader deadline [] s = Some ([], s)"
| "run_logical_client i num leader deadline (it # its) (lc, pc) =
     (if of_nat (length (lc_seen lc)) < num \<and> it_now it < deadline
      then case logical_iteration i num leader it (lc, pc) of
        None \<Rightarrow> None
      | Some (out, s1) \<Rightarrow> map_option (apfst (append out)) (run_logical_client i num leader deadline its s1)
      else Some ([], lc, pc_close leader pc))"

section \<open>What the loop keeps\<close>

text \<open>
  At most one request is in flight, it is the last one that was sent, every request that was
  sent is in flight or done, and a request has at most one latency.
\<close>

definition logical_ok :: "logical_client \<Rightarrow> bool" where
  "logical_ok lc \<longleftrightarrow> hm_ok (lc_sent lc) \<and> length (lc_sent lc) \<le> 1 \<and> distinct (lc_seen lc) \<and>
     fst ` set (lc_sent lc) \<subseteq> {lc_next lc - 1} \<and> (lc_sent lc \<noteq> [] \<longrightarrow> 0 < lc_next lc) \<and>
     (\<forall>s < lc_next lc. s \<in> set (lc_seen lc) \<or> s \<in> fst ` set (lc_sent lc)) \<and>
     length (lc_lats lc) + length (lc_sent lc) \<le> unat (lc_next lc)"

lemma sent_cases:
  assumes "logical_ok lc"
  obtains "lc_sent lc = []" | t where "lc_sent lc = [(lc_next lc - 1, t)]" "0 < lc_next lc"
  using assms by (cases "lc_sent lc") (auto simp: logical_ok_def)

lemma mark_seen_set [simp]: "set (mark_seen s xs) = insert s (set xs)" "distinct (mark_seen s xs) = distinct xs"
  by (auto simp: mark_seen_def)

lemma take_reply_ok:
  assumes "logical_ok lc"
  shows "logical_ok (take_reply now r lc) \<and> lc_next (take_reply now r lc) = lc_next lc"
proof (cases rule: sent_cases [OF assms])
  case 1
  with assms show ?thesis by (auto simp: logical_ok_def take_reply_def Let_def)
next
  case (2 t)
  with assms show ?thesis by (auto simp: logical_ok_def take_reply_def Let_def hm_remove_def hm_ok_def)
qed

lemma take_replies_ok:
  "logical_ok lc \<Longrightarrow> logical_ok (take_replies taken rs lc) \<and> lc_next (take_replies taken rs lc) = lc_next lc"
  by (induction taken rs lc rule: take_replies.induct) (simp_all add: take_reply_ok)

lemma give_up_ok:
  assumes "logical_ok lc"
  shows "logical_ok (give_up_last it lc) \<and> lc_next (give_up_last it lc) = lc_next lc"
proof (cases rule: sent_cases [OF assms])
  case 1
  with assms show ?thesis by (simp add: give_up_last_def)
next
  case (2 t)
  with assms show ?thesis by (auto simp: logical_ok_def give_up_last_def Let_def hm_remove_def hm_ok_def)
qed

lemma word_Suc_cases: "n < num \<Longrightarrow> 0 < n + 1 \<and> (s < n + 1 \<longleftrightarrow> s < n \<or> s = n) \<and> unat (n + 1) = Suc (unat n)"
  for n num s :: u64
  by (rule conjI) (unat_arith, (rule conjI; unat_arith))

text \<open>Sequence numbers below \<open>num\<close>, and the one that \<open>next - 1\<close> is before the first request.\<close>

definition issued :: "u64 \<Rightarrow> u64 \<Rightarrow> bytes \<Rightarrow> bool" where
  "issued i num bs \<longleftrightarrow> (\<exists>s. (s < num \<or> s = - 1) \<and> serialize (request_message (logical_request i s)) = Some bs)"

lemma call_send_writes: "call_send o1 leader v pc = Some (ok, out, pc1) \<Longrightarrow> \<forall>bs \<in> set out. serialize (request_message v) = Some bs"
  by (auto simp: call_send_def send_request_def split: option.splits if_splits bool.splits)

lemma send_next_ok:
  assumes "logical_ok lc" and "lc_next lc \<le> num" and "send_next i num leader it (lc, pc) = Some (out, lc1, pc1)"
  shows "logical_ok lc1 \<and> lc_next lc1 \<le> num \<and> lc_next lc \<le> lc_next lc1 \<and> (\<forall>bs \<in> set out. issued i num bs)"
proof (cases "lc_next lc < num \<and> length (lc_sent lc) < max_in_flight")
  case False
  with assms show ?thesis by (simp add: send_next_def)
next
  case True
  then have e: "lc_sent lc = []" by (simp add: max_in_flight_def)
  from True assms(3) obtain ok where sent: "call_send (it_send it) leader (logical_request i (lc_next lc)) pc = Some (ok, out, pc1)"
    and lc1: "lc1 = (if ok then lc\<lparr>lc_sent := hm_insert (lc_next lc) (it_stamp it) (lc_sent lc), lc_next := lc_next lc + 1\<rparr> else lc)"
    by (auto simp: send_next_def)
  have "\<forall>bs \<in> set out. issued i num bs" using call_send_writes [OF sent] True by (auto simp: issued_def)
  moreover have "lc_next lc1 \<le> num" "lc_next lc \<le> lc_next lc1"
    using assms(2) True word_Suc_cases [of "lc_next lc" num] by (auto simp: lc1 inc_le order_less_imp_le)
  moreover have "logical_ok lc1"
    using assms(1) e True by (auto simp: lc1 logical_ok_def hm_insert_def hm_ok_def word_Suc_cases word_neq_0_conv)
  ultimately show ?thesis by simp
qed

lemma logical_iteration_ok:
  assumes "logical_ok lc" and "lc_next lc \<le> num" and "logical_iteration i num leader it (lc, pc) = Some (out, lc', pc')"
  shows "logical_ok lc' \<and> lc_next lc' \<le> num \<and> lc_next lc \<le> lc_next lc' \<and> (\<forall>bs \<in> set out. issued i num bs)"
proof -
  from assms(3) obtain out1 lc1 pc1 replies received pc2 out2 where
    sn: "send_next i num leader it (lc, pc) = Some (out1, lc1, pc1)"
    and re: "resend_last i leader it received (give_up_last it lc1) pc2 = Some (out2, pc')"
    and out: "out = out1 @ out2" "lc' = take_replies (it_taken it) replies (give_up_last it lc1)"
    by (auto simp: logical_iteration_def Let_def split: option.splits)
  note s = send_next_ok [OF assms(1,2) sn]
  then have g: "logical_ok (give_up_last it lc1)" "lc_next (give_up_last it lc1) = lc_next lc1"
    by (simp_all add: give_up_ok)
  have "lc_next lc1 - 1 < num \<or> lc_next lc1 - 1 = - 1"
  proof (cases "lc_next lc1 = 0")
    case False
    then have "lc_next lc1 - 1 < lc_next lc1" by unat_arith
    with s show ?thesis by (metis order_less_le_trans)
  qed simp
  moreover have "\<forall>bs \<in> set out2. serialize (request_message (logical_request i (lc_next lc1 - 1))) = Some bs"
    using re call_send_writes by (fastforce simp: resend_last_def g(2) split: if_splits)
  ultimately have "\<forall>bs \<in> set out2. issued i num bs" unfolding issued_def by blast
  with s g take_replies_ok [OF g(1)] show ?thesis by (auto simp: out)
qed

lemma run_logical_ok:
  "logical_ok lc \<Longrightarrow> lc_next lc \<le> num \<Longrightarrow> run_logical_client i num leader deadline its (lc, pc) = Some (out, lc', pc') \<Longrightarrow>
   logical_ok lc' \<and> lc_next lc' \<le> num \<and> (\<forall>bs \<in> set out. issued i num bs)"
proof (induction its arbitrary: lc pc out)
  case (Cons it its)
  show ?case
  proof (cases "of_nat (length (lc_seen lc)) < num \<and> it_now it < deadline")
    case True
    with Cons.prems(3) obtain out1 lc1 pc1 out2 where
      it: "logical_iteration i num leader it (lc, pc) = Some (out1, lc1, pc1)"
      and run: "run_logical_client i num leader deadline its (lc1, pc1) = Some (out2, lc', pc')" and out: "out = out1 @ out2"
      by (auto split: option.splits)
    note s = logical_iteration_ok [OF Cons.prems(1,2) it]
    with Cons.IH [OF _ _ run] out show ?thesis by auto
  next
    case False
    with Cons.prems show ?thesis by auto
  qed
qed simp

lemma logical_client_new_ok: "logical_ok logical_client_new" "lc_next logical_client_new = 0"
  by (simp_all add: logical_ok_def logical_client_new_def hm_ok_def)

section \<open>Requests that the server can read\<close>

lemma show_nat_length: "n < 10 ^ Suc k \<Longrightarrow> length (show_nat n) \<le> Suc k"
proof (induction k arbitrary: n)
  case 0
  then show ?case by (simp add: show_nat.simps)
next
  case (Suc k)
  show ?case
  proof (cases "n < 10")
    case True
    then show ?thesis by (simp add: show_nat.simps)
  next
    case False
    have "n div 10 < 10 ^ Suc k" using Suc.prems by (simp add: less_mult_imp_div_less)
    from Suc.IH [OF this] False show ?thesis by (simp add: show_nat.simps [of n])
  qed
qed

lemma unat_less_2_64: "unat w < 2 ^ 64" for w :: u64
  using unsigned_less [of w] by simp

lemma show_u64_length: "length (show_u64 w) \<le> 20"
proof -
  have "unat w < 10 ^ Suc 19" using unat_less_2_64 [of w] by simp
  from show_nat_length [OF this] show ?thesis by (simp add: show_u64_def)
qed

lemma logical_request_serialized:
  "\<exists>bs. serialize (request_message (logical_request i s)) = Some bs \<and> framed bs (request_message (logical_request i s)) \<and>
     length bs < 2 ^ 32"
proof -
  let ?m = "request_message (logical_request i s)"
  have n: "length (message_text ?m) < 1000"
    using show_u64_length [of i] show_u64_length [of s] show_u64_length [of 0]
    by (simp add: message_text_def request_message_def client_node_def logical_request_def serialize_node_def
        value_parts_def kv_def show_cmd_def)
  then obtain bs where bs: "serialize ?m = Some bs" "length bs < 2 ^ 32" by (auto simp: serialize_def)
  have "message_safe ?m"
    by (simp add: message_safe_def request_message_def client_node_def logical_request_def value_safe_def plain_append)
  from serialize_framed [OF this bs(1)] bs show ?thesis
    by (auto simp: norm_message_def request_message_def)
qed

section \<open>When every request is answered\<close>

text \<open>
  The connection to the leader is up, or was not made yet, and nothing waits in the buffer.
\<close>

definition conn_idle :: "string \<Rightarrow> paxos_client \<Rightarrow> bool" where
  "conn_idle leader pc \<longleftrightarrow> (\<forall>conn. hm_get (pc_conns pc) leader = Some conn \<longrightarrow> con_input conn \<and> con_output conn) \<and>
     (\<forall>b. hm_get (pc_bufs pc) leader = Some b \<longrightarrow> b = [])"

text \<open>The first \<open>k\<close> requests are done, and nothing is in flight.\<close>

definition answered :: "nat \<Rightarrow> logical_client \<Rightarrow> bool" where
  "answered k lc \<longleftrightarrow> lc_next lc = of_nat k \<and> lc_sent lc = [] \<and> lc_seen lc = map of_nat [0..<k] \<and> length (lc_lats lc) = k"

text \<open>
  The iteration sends a request over a working connection and reads the frame of the answer to
  request number \<open>k\<close>, three seconds after it was sent at the latest.
\<close>

definition serves :: "nat \<Rightarrow> iteration \<Rightarrow> bool" where
  "serves k it \<longleftrightarrow> it_send it = (Connected, True) \<and> it_checked it - it_stamp it \<le> request_timeout \<and>
     (\<exists>f m r. snd (it_receive it) = Some f \<and> framed f m \<and> length f < 2 ^ 32 \<and> payload m = ClientResponse r \<and>
        resp_client_seq r = of_nat k)"

lemma send_idle:
  assumes "conn_idle leader pc" and "serialize (request_message v) = Some bs"
  shows "\<exists>pc1. call_send (Connected, True) leader v pc = Some (True, [bs], pc1) \<and> conn_idle leader pc1 \<and> receiving leader [] pc1"
proof (cases "hm_get (pc_conns pc) leader")
  case None
  with assms show ?thesis
    by (auto simp: call_send_def send_request_def pc_ensure_conn_def conn_idle_def receiving_def dict_simps split: option.split)
next
  case (Some conn)
  with assms show ?thesis
    by (auto simp: call_send_def send_request_def pc_ensure_conn_def conn_idle_def receiving_def split: option.split)
qed

lemma receive_idle:
  assumes "conn_idle leader pc" and "receiving leader [] pc" and "framed f m" and "length f < 2 ^ 32"
  shows "\<exists>pc1. try_receive connect (Some f) leader pc = Some ((responses_of [m], True), pc1) \<and> conn_idle leader pc1"
proof -
  have "frames server_incomplete 0 ([] @ f) = Some ([m], length f)"
    using server.frames_stream [of "[f]" "[m]" f "[]" "[]"] assms(3,4) by auto
  with assms(1,2) show ?thesis
    by (auto simp: try_receive_def receiving_def pc_ensure_conn_def response_frames_def conn_idle_def Let_def dict_simps)
qed

lemma answered_iteration:
  assumes "answered k lc" and "conn_idle leader pc" and "serves k it" and "k < unat num"
    and "serialize (request_message (logical_request i (of_nat k))) = Some bs"
  shows "\<exists>lc' pc'. logical_iteration i num leader it (lc, pc) = Some ([bs], lc', pc') \<and> answered (Suc k) lc' \<and> conn_idle leader pc'"
proof -
  note lc = assms(1) [unfolded answered_def]
  from assms(3) obtain f m r where it: "it_send it = (Connected, True)" "it_checked it - it_stamp it \<le> request_timeout"
    "snd (it_receive it) = Some f" "framed f m" "length f < 2 ^ 32" "payload m = ClientResponse r" "resp_client_seq r = of_nat k"
    by (auto simp: serves_def)
  have k: "k < 2 ^ 64" using assms(4) unat_less_2_64 [of num] by simp
  then have less: "of_nat k < num" using assms(4) by (simp add: word_less_nat_alt unat_of_nat)
  have new: "of_nat k \<notin> (of_nat :: nat \<Rightarrow> u64) ` {0..<k}"
    using k by (auto simp: word_unat_eq_iff unat_of_nat)
  from send_idle [OF assms(2,5)] obtain pc1 where
    s: "call_send (Connected, True) leader (logical_request i (of_nat k)) pc = Some (True, [bs], pc1)"
    "conn_idle leader pc1" "receiving leader [] pc1" by blast
  from receive_idle [OF s(2,3) it(4,5)] obtain pc2 where
    r: "try_receive (\<lambda>_. fst (it_receive it)) (Some f) leader pc1 = Some ((responses_of [m], True), pc2)" "conn_idle leader pc2" by blast
  let ?lc1 = "lc\<lparr>lc_sent := [(of_nat k, it_stamp it)], lc_next := of_nat k + 1\<rparr>"
  have "send_next i num leader it (lc, pc) = Some ([bs], ?lc1, pc1)"
    using lc s(1) less it(1) by (simp add: send_next_def max_in_flight_def hm_insert_def)
  moreover have "give_up_last it ?lc1 = ?lc1" using it(2) by (simp add: give_up_last_def Let_def)
  moreover have "take_replies (it_taken it) (responses_of [m]) ?lc1 =
      ?lc1\<lparr>lc_seen := lc_seen lc @ [of_nat k], lc_sent := [], lc_lats := lc_lats lc @ [it_taken it 0 - it_stamp it]\<rparr>"
    using it(6,7) lc new by (simp add: take_reply_def Let_def mark_seen_def hm_remove_def)
  ultimately show ?thesis
    using r it(3) lc by (auto simp: logical_iteration_def resend_last_def answered_def add.commute)
qed

lemma answered_run:
  assumes "\<forall>j < length its. serves (k + j) (its ! j) \<and> it_now (its ! j) < deadline"
    and "answered k lc" and "conn_idle leader pc" and "k + length its = unat num"
    and "\<forall>j < length its. serialize (request_message (logical_request i (of_nat (k + j)))) = Some (bss ! j)"
    and "length bss = length its"
  shows "\<exists>lc' pc'. run_logical_client i num leader deadline (its @ [it]) (lc, pc) = Some (bss, lc', pc_close leader pc') \<and>
    answered (unat num) lc'"
  using assms
proof (induction its arbitrary: k lc pc bss)
  case Nil
  then show ?case by (auto simp: answered_def)
next
  case (Cons x its)
  then obtain bs bss' where bss: "bss = bs # bss'" by (cases bss) auto
  have k: "k < unat num" "k < 2 ^ 64" using Cons.prems(4) unat_less_2_64 [of num] by simp_all
  then have guard: "of_nat (length (lc_seen lc)) < num"
    using Cons.prems(2) by (simp add: answered_def word_less_nat_alt unat_of_nat)
  have first: "serves k x" "it_now x < deadline" using Cons.prems(1) by force+
  have bs: "serialize (request_message (logical_request i (of_nat k))) = Some bs" using Cons.prems(5) bss by force
  from answered_iteration [OF Cons.prems(2,3) first(1) k(1) bs] obtain lc1 pc1 where
    x: "logical_iteration i num leader x (lc, pc) = Some ([bs], lc1, pc1)" "answered (Suc k) lc1" "conn_idle leader pc1" by blast
  have tail: "\<forall>j < length its. serves (Suc k + j) (its ! j) \<and> it_now (its ! j) < deadline"
    "\<forall>j < length its. serialize (request_message (logical_request i (of_nat (Suc k + j)))) = Some (bss' ! j)"
    using Cons.prems(1,5) bss by (auto simp: All_less_Suc2 simp del: of_nat_Suc of_nat_add)
  from Cons.IH [OF tail(1) x(2,3) _ tail(2)] Cons.prems(4,6) bss guard first(2) x(1) show ?case by auto
qed

lemma logical_client_start: "answered 0 logical_client_new" "conn_idle leader paxos_client_new"
  by (simp_all add: answered_def logical_client_new_def conn_idle_def paxos_client_new_def)

section \<open>One request over its own connection\<close>

text \<open>The wait ends when the time has passed. A read that brought only a part of the answer is a panic.\<close>

lemma read_with_timeout_returns:
  "\<exists>(r, elapsed) \<in> set polls. timeout \<le> elapsed \<Longrightarrow> read_with_timeout timeout polls \<noteq> None"
  by (induction timeout polls rule: read_with_timeout.induct) (auto split: option.split)

lemma perform_request_whole:
  "framed f m \<Longrightarrow> payload m = ClientResponse r \<Longrightarrow> serialize (request_message v) = Some bs \<Longrightarrow>
   perform_request Connected True (Some f) v = Some (Some r)"
  by (simp add: perform_request_def framed_def)

lemma deserialize_part:
  assumes "framed (x @ y) m" and "y \<noteq> []"
  shows "deserialize x = None"
proof (cases "length x < 4")
  case True
  then show ?thesis by (simp add: deserialize_def try_deserialize_def)
next
  case False
  obtain body where body: "x @ y = u32_to_be_bytes (length body) @ body" "length body < 2 ^ 32"
    using assms(1) by (auto simp: framed_def)
  then have "take 4 (x @ y) = u32_to_be_bytes (length body)" by simp
  with False have "u32_from_be_bytes (take 4 x) = length body" using body(2) by (simp add: u32_be_roundtrip)
  moreover have "length x + length y = 4 + length body" using arg_cong [OF body(1), of length] by simp
  then have "length x - 4 \<noteq> length body" using assms(2) False by (cases y) simp_all
  ultimately show ?thesis using False by (simp add: deserialize_def try_deserialize_def Let_def)
qed

lemma perform_request_part:
  "framed (x @ y) m \<Longrightarrow> y \<noteq> [] \<Longrightarrow> perform_request Connected True (Some x) v = None"
  by (auto simp: perform_request_def deserialize_part split: option.split)

section \<open>When the leader is away\<close>

text \<open>Neither the next request nor a read goes through, and then the leader is back.\<close>

lemma resend_iteration:
  assumes "lc_sent lc = []" and "lc_next lc < num" and "hm_get (pc_conns pc) leader = None"
    and "fst (it_send it) = ConnectFailed" and "fst (it_receive it) = ConnectFailed" and "it_resend it = (Connected, True)"
    and "serialize (request_message (logical_request i (lc_next lc - 1))) = Some bs"
  shows "logical_iteration i num leader it (lc, pc) =
    Some ([bs], lc, pc\<lparr>pc_conns := hm_insert leader \<lparr>con_input = True, con_output = True\<rparr> (pc_conns pc)\<rparr>)"
proof -
  obtain bs' where "serialize (request_message (logical_request i (lc_next lc))) = Some bs'"
    using logical_request_serialized by blast
  with assms have "send_next i num leader it (lc, pc) = Some ([], lc, pc)"
    by (simp add: send_next_def max_in_flight_def call_send_def send_request_def pc_ensure_conn_def)
  moreover have "give_up_last it lc = lc" by (simp add: give_up_last_def assms(1))
  moreover have "try_receive (\<lambda>_. ConnectFailed) read leader pc = Some (([], False), pc)" for read
    by (simp add: try_receive_def pc_ensure_conn_def assms(3))
  ultimately show ?thesis using assms
    by (simp add: logical_iteration_def resend_last_def call_send_def send_request_def pc_ensure_conn_def dict_simps)
qed

text \<open>A closed connection leaves its bytes to the next one.\<close>

lemma close_keeps_buffer: "pc_bufs (pc_close addr pc) = pc_bufs pc"
  by (simp add: pc_close_def)

text \<open>The requests of a client as the server reads them.\<close>

lemma request_framed:
  assumes "value_safe v" and "serialize (request_message v) = Some bs"
  shows "framed bs (request_message v)"
proof -
  have "message_safe (request_message v)"
    using assms(1) by (simp add: message_safe_def request_message_def client_node_def)
  from serialize_framed [OF this assms(2)] show ?thesis by (simp add: norm_message_def request_message_def)
qed

lemma logical_requests_serialized:
  "\<exists>out. length out = n \<and> (\<forall>k < n. serialize (request_message (logical_request i (of_nat k))) = Some (out ! k))"
  using logical_request_serialized by (subst Skolem_list_nth [symmetric]) blast

end
