(* ===== verification/Client_Samples.thy ===== *)
theory Client_Samples
  imports Client Samples
begin

text \<open>Iterations of a logical client: one without an answer, and one with the answer to its first request.\<close>

definition sample_iteration :: iteration where
  "sample_iteration =
     \<lparr>it_now = 0, it_stamp = 5, it_checked = 6, it_taken = (\<lambda>_. 7), it_send = (Connected, True),
      it_receive = (Connected, Some []), it_resend = (Connected, True)\<rparr>"

definition first_answer :: client_response where
  "first_answer = \<lparr>resp_client_id = ''c'', resp_client_seq = 0, resp_success = True, command_result = NoOp\<rparr>"

lemma show_u64_0: "show_u64 0 = ''0''"
proof -
  have "(of_char CHR ''0'' :: nat) = 48" by simp
  then have "char_of (48 :: nat) = CHR ''0''" by (metis char_of_char)
  then show ?thesis by (simp add: show_u64_def show_nat.simps digit_char_def)
qed

lemma first_answer_framed:
  "\<exists>f. serialize (sample_message (ClientResponse first_answer)) = Some f \<and>
     framed f (sample_message (ClientResponse first_answer)) \<and> length f < 2 ^ 32"
proof -
  let ?m = "sample_message (ClientResponse first_answer)"
  obtain f where f: "serialize ?m = Some f" "length f < 2 ^ 32"
    by (simp add: serialize_def message_text_def sample_message_def serialize_node_def mk_node_def kv_def
        first_answer_def show_u64_0 show_u64_1 show_bool_def del: One_nat_def)
  have "message_safe ?m" by (simp add: message_safe_def sample_message_def mk_node_def first_answer_def)
  from serialize_framed [OF this f(1)] f show ?thesis by (simp add: norm_message_def sample_message_def first_answer_def)
qed

definition sample_answered :: iteration where
  "sample_answered = sample_iteration\<lparr>it_receive := (Connected, serialize (sample_message (ClientResponse first_answer)))\<rparr>"

lemma sample_serves: "serves 0 sample_answered"
proof -
  obtain f where f: "serialize (sample_message (ClientResponse first_answer)) = Some f"
    "framed f (sample_message (ClientResponse first_answer))" "length f < 2 ^ 32" using first_answer_framed by blast
  have "payload (sample_message (ClientResponse first_answer)) = ClientResponse first_answer" "resp_client_seq first_answer = of_nat 0"
    by (simp_all add: sample_message_def first_answer_def)
  with f show ?thesis
    unfolding serves_def by (auto simp: sample_answered_def sample_iteration_def request_timeout_def from_millis_def)
qed

lemma sample_iteration_run:
  "\<exists>bs pc. run_logical_client 7 2 ''leader'' 100 [sample_iteration] (logical_client_new, paxos_client_new) =
     Some ([bs], logical_client_new\<lparr>lc_sent := [(0, 5)], lc_next := 1\<rparr>, pc)"
proof -
  obtain bs where bs: "serialize (request_message (logical_request 7 0)) = Some bs"
    using logical_request_serialized by blast
  from send_idle [OF logical_client_start(2) bs] obtain pc1 where
    pc1: "call_send (Connected, True) ''leader'' (logical_request 7 0) paxos_client_new = Some (True, [bs], pc1)"
    "receiving ''leader'' [] pc1" by blast
  let ?lc = "logical_client_new\<lparr>lc_sent := [(0, 5)], lc_next := 1\<rparr>"
  have "send_next 7 2 ''leader'' sample_iteration (logical_client_new, paxos_client_new) = Some ([bs], ?lc, pc1)"
    using pc1(1) by (simp add: send_next_def sample_iteration_def logical_client_new_def max_in_flight_def hm_insert_def)
  moreover have "give_up_last sample_iteration ?lc = ?lc"
    by (simp add: give_up_last_def sample_iteration_def logical_client_new_def request_timeout_def from_millis_def Let_def)
  moreover obtain pc2 where "try_receive (\<lambda>_. Connected) (Some []) ''leader'' pc1 = Some (([], True), pc2)"
    using try_receive_one [OF pc1(2), of "[]" "[]" 0 "\<lambda>_. Connected"] by (auto simp: frames_short)
  ultimately have "logical_iteration 7 2 ''leader'' sample_iteration (logical_client_new, paxos_client_new) = Some ([bs], ?lc, pc2)"
    by (simp add: logical_iteration_def Let_def) (simp add: sample_iteration_def resend_last_def)
  then show ?thesis by (simp add: logical_client_new_def sample_iteration_def)
qed

lemma sample_request_serialized: "\<exists>bs. serialize (request_message (get_value ''k'')) = Some bs \<and> length bs < 2 ^ 32"
  by (simp add: serialize_def message_text_def request_message_def client_node_def serialize_node_def kv_def value_parts_def
      get_value_def show_cmd_def show_u64_0 show_u64_1 del: One_nat_def)

lemma sample_answer_serialized:
  "\<exists>bs. serialize \<lparr>sender = mk_node 1 Client, payload = ClientResponse sample_response\<rparr> = Some bs \<and> length bs < 2 ^ 32"
  by (simp add: serialize_def message_text_def serialize_node_def mk_node_def kv_def
      sample_response_def show_u64_1 show_bool_def del: One_nat_def)

end
