(* ===== verification/Udp_Client.thy ===== *)
theory Udp_Client
  imports Delivery
begin

text \<open>
  The client over UDP (\<open>network-ws/udp-client/src/udp-client.rs\<close>), which can stand in the place of
  the TCP client. It keeps no state: a call makes a socket for every node and sends one datagram
  over it. What becomes of the socket of a node is an argument; \<open>None\<close> is a panic.
\<close>

text \<open>
  \<open>us_permit\<close> is what \<open>check_send\<close> gives, \<open>us_received\<close> the datagrams that are there when the
  client looks for a reply; \<open>None\<close> is an error.
\<close>

record udp_socket =
  us_connect :: connect_result
  us_permit :: "u64 option"
  us_sends :: bool
  us_received :: "bytes list option"

definition udp_sent :: "udp_socket \<Rightarrow> bool" where
  "udp_sent u \<longleftrightarrow> us_connect u = Connected \<and> (case us_permit u of Some permit \<Rightarrow> 0 < permit | None \<Rightarrow> False) \<and> us_sends u"

text \<open>The first datagram that is not empty is the reply.\<close>

definition udp_reply :: "udp_socket \<Rightarrow> network_message list option" where
  "udp_reply u =
     (case us_received u of
        None \<Rightarrow> Some []
      | Some datagrams \<Rightarrow>
          (case filter (\<lambda>d. d \<noteq> []) datagrams of
             [] \<Rightarrow> Some []
           | d # _ \<Rightarrow> map_option (\<lambda>m. [m]) (deserialize d)))"

fun udp_exchange :: "(node \<Rightarrow> udp_socket) \<Rightarrow> node list \<Rightarrow> (node list \<times> network_message list) option" where
  "udp_exchange sock [] = Some ([], [])"
| "udp_exchange sock (n # ns) =
     (if us_connect (sock n) = BadAddress then None
      else if udp_sent (sock n)
      then case udp_reply (sock n) of
          None \<Rightarrow> None
        | Some rs \<Rightarrow> map_option (map_prod (Cons n) (append rs)) (udp_exchange sock ns)
      else udp_exchange sock ns)"

definition udp_send_message ::
  "(node \<Rightarrow> udp_socket) \<Rightarrow> node list \<Rightarrow> network_message \<Rightarrow> ((node \<times> bytes) list \<times> network_message list) option" where
  "udp_send_message sock nodes m =
     (case serialize m of
        None \<Rightarrow> None
      | Some bs \<Rightarrow> map_option (apfst (map (\<lambda>n. (n, bs)))) (udp_exchange sock nodes))"

fun udp_forget :: "(node \<Rightarrow> udp_socket) \<Rightarrow> node list \<Rightarrow> node list option" where
  "udp_forget sock [] = Some []"
| "udp_forget sock (n # ns) =
     (if us_connect (sock n) = BadAddress then None
      else map_option (append (if udp_sent (sock n) then [n] else [])) (udp_forget sock ns))"

definition udp_send_message_forget ::
  "(node \<Rightarrow> udp_socket) \<Rightarrow> node list \<Rightarrow> network_message \<Rightarrow> (node \<times> bytes) list option" where
  "udp_send_message_forget sock nodes m =
     (case serialize m of
        None \<Rightarrow> None
      | Some bs \<Rightarrow> map_option (map (\<lambda>n. (n, bs))) (udp_forget sock nodes))"

text \<open>
  What is sent is the same in both variants, and only a bad address can stop the one that does not
  look for replies: it goes to the nodes whose sockets take it.
\<close>

lemma udp_forget_iff:
  "udp_forget sock ns =
     (if \<forall>n \<in> set ns. us_connect (sock n) \<noteq> BadAddress then Some (filter (\<lambda>n. udp_sent (sock n)) ns) else None)"
  by (induction ns) auto

lemma udp_exchange_sends: "udp_exchange sock ns = Some (sent, rs) \<Longrightarrow> udp_forget sock ns = Some sent"
  by (induction ns arbitrary: sent rs) (auto split: if_splits option.splits)

lemma udp_same_sends: "udp_send_message sock nodes m = Some (sent, rs) \<Longrightarrow> udp_send_message_forget sock nodes m = Some sent"
  by (auto simp: udp_send_message_def udp_send_message_forget_def udp_exchange_sends split: option.splits)

text \<open>
  When the first datagram from every node is the frame of a message that survives, the replies are
  these messages, in the order of the nodes.
\<close>

lemma udp_replies:
  assumes "\<forall>n \<in> set ns. us_connect (sock n) \<noteq> BadAddress"
    and "\<forall>n \<in> set ns. udp_sent (sock n) \<longrightarrow> (\<exists>bs ds. us_received (sock n) = Some (bs # ds) \<and> framed bs (reply n))"
  shows "udp_exchange sock ns =
    Some (filter (\<lambda>n. udp_sent (sock n)) ns, map reply (filter (\<lambda>n. udp_sent (sock n)) ns))"
  using assms
proof (induction ns)
  case (Cons n ns)
  show ?case
  proof (cases "udp_sent (sock n)")
    case True
    with Cons.prems(2) obtain bs ds where bs: "us_received (sock n) = Some (bs # ds)" "framed bs (reply n)" by auto
    then have "bs \<noteq> []" using framed_length by fastforce
    with bs have "udp_reply (sock n) = Some [reply n]" by (auto simp: udp_reply_def framed_def)
    with Cons True show ?thesis by simp
  next
    case False
    with Cons show ?thesis by simp
  qed
qed simp

end
