(* ===== verification/Spec2Isabelle.thy ===== *)
theory Spec2Isabelle
  imports Host_Samples Host_Log Round_Events Progress Late_Promise Client_Samples Udp_Client
begin

text \<open>
  Verification of the Paxos implementation under \<open>src/paxos-wasm\<close>: a key-value store that is
  replicated with multi-Paxos, written in Rust as WebAssembly components that the host
  \<open>runner-ws\<close> composes and runs. This theory holds the properties; the definitions and the
  lemmas are in the other theories. Paths below are relative to \<open>src/paxos-wasm\<close>.

  \<^bold>\<open>How the program works.\<close> A host (\<open>runner-ws\<close>) reads a configuration, starts a runner
  for each node of its cluster, watches its pings and replaces it after a failure. A runner
  (\<open>runners/runner\<close>) is an event loop: it takes requests from clients and messages from other nodes
  out of two TCP servers, hands them to the coordinator of the node, ticks it and writes the answers.
  A coordinator (\<open>runners/paxos-coordinator\<close>) owns the agents that the role of the node asks
  for, a proposer, an acceptor or a learner agent, or all three, and a failure detector that tells it
  who leads. An agent (\<open>agents/\<close>) wraps one of the cores (\<open>core/\<close>) and speaks to other nodes
  through the serialiser and the TCP client (\<open>network-ws/\<close>). A leader's round is: prepare with
  a ballot, collect promises, queue what they report, propose a value per slot, collect accepted
  replies; acceptors (or the leader) send learns, the learners count them, learn the value that a
  quorum of acceptors reports, and apply the learned values in slot order to the key-value store.
  Cores write through a storage helper to the storage component, or to the host's storage.

  \<^bold>\<open>Conventions.\<close> Components are modelled as they are written: a resource is a record with
  the source's fields, an operation a function that returns its result and the new state. A
  \<open>u64\<close> is a 64-bit word and wraps around; a \<open>usize\<close> of a component has 32 bits
  (\<open>as_usize\<close>), that of the host 64. Strings and byte vectors are lists of 8-bit characters.
  A \<open>BTreeMap\<close> is a sorted association list, a \<open>HashMap\<close> one with distinct keys. A
  \<open>Result\<close> with a string is a sum, and a panic (\<open>unwrap\<close>, \<open>expect\<close>, \<open>todo!()\<close>, a
  slice out of range) is the option \<open>None\<close>. Steps of agents and coordinators have the type
  \<open>step\<close>: a result, the messages that are posted, and the state, or a panic. What is outside the
  repository's code is an argument: the clock, what a socket accepts, reads and writes, what system
  calls of the file system do (a script of faults), the encoding of \<open>bincode\<close> (a pair of
  functions, with decoding as the inverse of encoding as a hypothesis where something is read back),
  the hash of a string, and the values the YAML library returns. Log output is left out.

  \<^bold>\<open>Shared theories.\<close>
  \<^item> \<open>Prelude\<close>: words, the containers of the standard library with the locales \<open>dict\<close> and
    \<open>ordered_dict\<close>, the locale \<open>majority\<close> for quorums; \<open>Bytes\<close>: length prefixes;
    \<open>Text\<close>: the operations on \<open>str\<close>; \<open>Paxos_Types\<close>: \<open>shared/wit/types.wit\<close>.

  \<^bold>\<open>Cores.\<close>
  \<^item> \<open>Storage\<close>: \<open>core/storage\<close>, on a disk whose calls may fail; the locale \<open>record_log\<close>
    (a log gives back the records that were appended) is interpreted here and in
    \<open>Host_Storage\<close>. \<open>Persistence\<close>: the storage helper that acceptor and learner repeat.
  \<^item> \<open>Acceptor\<close>, \<open>Learner\<close>, \<open>Proposer\<close>: \<open>core/acceptor\<close>,
    \<open>core/learner\<close>, \<open>core/proposer\<close>; \<open>Acceptor_Recovery\<close>: runs and restarts of an
    acceptor. \<open>Kv_Store\<close>, \<open>Leader_Detector\<close>, \<open>Failure_Detector\<close>: the cores of
    these names.

  \<^bold>\<open>Agents and nodes.\<close>
  \<^item> \<open>Acceptor_Agent\<close>, \<open>Learner_Agent\<close>, \<open>Proposer_Agent\<close>: \<open>agents/\<close>;
    \<open>Late_Promise\<close>: what a promise after the quorum can do to a proposer.
  \<^item> \<open>Coordinator\<close>: \<open>runners/paxos-coordinator\<close>. \<open>Coordinator_Runs\<close> has the locales
    for steps and their traces (\<open>trace_relation\<close>, \<open>closure\<close>, \<open>node\<close>): every event
    of a node is a sequence of operations of its agents. \<open>Coordinator_Leader\<close>: a node that leads.
  \<^item> \<open>Runner\<close>: \<open>runners/runner\<close>; \<open>Runner_Runs\<close>: a run of its loop is a run of the
    coordinator with a tick per round; \<open>Round_Events\<close>: the events of that run, computed from what
    the sockets, the host and the clock give in each round.

  \<^bold>\<open>Network.\<close>
  \<^item> \<open>Serializer\<close> and \<open>Wire\<close>: \<open>network-ws/serializer\<close>, and what its format keeps.
  \<^item> \<open>Transport\<close>: \<open>network-ws/network-server\<close>, \<open>client-server\<close>, \<open>tcp-client\<close>;
    \<open>Delivery\<close>: streams of frames in any number of reads, over the locale \<open>frame_test\<close>,
    which both servers' tests for an incomplete frame satisfy. \<open>Udp_Client\<close>:
    \<open>network-ws/udp-client\<close>.
  \<^item> \<open>Client\<close>: the client component \<open>modular-ws-client/paxos-ws-client\<close> and the loop of
    \<open>modular-ws-client/src/main.rs\<close> that drives it (\<open>run_logical_client\<close>).

  \<^bold>\<open>Protocol.\<close>
  \<^item> \<open>Consensus\<close>: acceptor and learner agents on a network that keeps every learn, as a step
    relation with its invariant. \<open>Node_Safety\<close>: every event of a whole node keeps this
    invariant. \<open>Cluster\<close>: whole nodes on a network, with agreement and equal replicas.
    \<open>Progress\<close>: the agents in synchronous rounds, from their construction to the answer.

  \<^bold>\<open>Host.\<close>
  \<^item> \<open>Host_Storage\<close>: \<open>runner-ws/src/host_storage.rs\<close> and the storage resource of
    \<open>paxos_wasm.rs\<close>; the last write of a change, for which the host does not wait, is under way until
    it lands (\<open>hd_late\<close>, \<open>land\<close>), and how much it has to write is an argument; \<open>Host_Network\<close>: \<open>host_network_server.rs\<close>,
    \<open>host_network_client.rs\<close>, and \<open>host_serializer.rs\<close>, whose text is that of the
    serialiser component (the definitions of \<open>Serializer\<close> stand for both) but for the two entry
    points; \<open>Host_Config\<close>: \<open>config.rs\<close> and the start of the nodes in \<open>run.rs\<close>;
    \<open>Supervisor\<close>: \<open>host_control.rs\<close> and the tasks of \<open>run.rs\<close>; \<open>Host_Log\<close>:
    \<open>host_logger.rs\<close>.
  \<^item> \<open>Samples\<close>, \<open>Runner_Samples\<close>, \<open>Cluster_Samples\<close>, \<open>Host_Samples\<close>,
    \<open>Client_Samples\<close>:
    concrete data for the witnesses.

  \<^bold>\<open>What the properties show.\<close> No two nodes of a cluster learn different values for a slot, and
  replicas that executed as far have the same store, in the configuration where acceptors send the
  learns and nothing is stored, and without answers to \<open>RetryLearns\<close>: with those agreement fails,
  which is a property as well, and a leader that sends the learns itself can, after a late promise,
  send one with a value that no acceptor accepted. A leader with a majority that responds answers a request. The acceptor and the key-value store refine
  abstract machines; the quorum tests of learner and proposer agent equal counting; the operations of the cores and agents
  are described on all branches; storage, recovery, messages and TCP delivery are round trips; a
  checkpoint can fail or stop anywhere without a loss (in the component, not in the host). The host's storage
  gives back what the component's does, when its queue is drained and its writes have landed. A run of the
  event loop is the run of the coordinator over the events that its inputs make. A client gets back the answer to its request, has one
  request in flight, and is done when a leader answers. The host starts the cluster of the agreement theorem.
  Properties with a negative outcome (panics, stuck leaders, lost logs) are behaviour of the code, and
  the manifest lists them as findings.

  \<^bold>\<open>Loops and bounds.\<close> Loops over input are recursive functions that terminate: over the rest of
  a buffer (\<open>frames\<close>, \<open>native_frames\<close>, \<open>read_changes\<close>, \<open>host_read_changes\<close>,
  \<open>write_all_in_chunks\<close>, \<open>split_str\<close>, \<open>utf8_ok\<close>) or over a list. The walk of the
  learner has the size of its map as fuel, and visits different keys (\<open>walk_fuel\<close>). The loop of the
  demo client has its quota as bound. The event loop of the runner and the tasks of the host do not
  end by themselves; they are recursions over the list of what the outside gives in each round, and
  properties hold for every such list. Sizes below \<open>2 ^ 32\<close> or \<open>2 ^ 64\<close> are hypotheses where
  a count is truncated.

  \<^bold>\<open>Not modelled.\<close> The log calls of the components (what the host does with one is in
  \<open>Host_Log\<close>), the linking of components with wasmtime and the forwarding of their calls
  (\<open>runner-ws/src/paxos_wasm.rs\<close> but for the storage resource), the command lines, the one-shot
  mode and the summaries of \<open>modular-ws-client\<close>, the build helpers, generated bindings, and
  the earlier versions and experiments under \<open>src/archive\<close>, \<open>src/paxos-rust\<close>,
  \<open>src/pocs\<close> and \<open>src/wasm-examples\<close>. \<open>elect_leader\<close> of the coordinator is
  \<open>todo!()\<close>.
\<close>

section \<open>Agreement of whole nodes\<close>

text \<open>
  C1. Agreement of a cluster: nodes of any role, each with its proposer, acceptor and learner as
  its role says, start fresh in the configuration where acceptors send the learns and nothing is
  stored. Whatever clients submit, whoever believes to be the leader, whatever forged prepares,
  accepts, promises or answers arrive, and however the network delays, duplicates, reorders or
  loses messages, no two nodes learn different values for a slot, as long as no learn is forged
  and no retry is answered.
\<close>

theorem cluster_agreement:
  assumes "cluster_config cfg" and "distinct (map node_id ns)" and "length ns < 2 ^ 32"
    and "(cluster_step env)\<^sup>*\<^sup>* (cluster_new env c cfg disks leader ns) cl"
    and "cl_nodes cl i = Some ci" and "co_learner ci = Some li"
    and "cl_nodes cl j = Some cj" and "co_learner cj = Some lj"
    and "bt_get (learned (la_learner li)) s = Some v" and "bt_get (learned (la_learner lj)) s = Some w"
  shows "v = w"
proof -
  obtain sys where "system_inv (acceptor_ids ns) sys" "sys_learner sys 0 = li" "sys_learner sys 1 = lj"
    using cluster_inv_agreement [OF cluster_reachable(1) [OF assms(1-4)] assms(5-8)] by blast
  with system_inv_agreement [of "acceptor_ids ns" sys 0 s v 1 w] assms(9,10) show ?thesis by simp
qed

theorem cluster_agreement_witness:
  "\<exists>cl c4 c5 l4 l5. (cluster_step sample_env)\<^sup>*\<^sup>* sample_cluster cl \<and>
     cl_nodes cl 4 = Some c4 \<and> co_learner c4 = Some l4 \<and> bt_get (learned (la_learner l4)) 1 = Some val_a \<and>
     cl_nodes cl 5 = Some c5 \<and> co_learner c5 = Some l5 \<and>
     (\<forall>w. bt_get (learned (la_learner l5)) 1 = Some w \<longrightarrow> w = val_a)"
proof -
  obtain cl c4 c5 l4 l5 where run: "(cluster_step sample_env)\<^sup>*\<^sup>* sample_cluster cl"
    and n: "cl_nodes cl 4 = Some c4" "co_learner c4 = Some l4" "cl_nodes cl 5 = Some c5" "co_learner c5 = Some l5"
    and l: "learned (la_learner l4) = [(1, val_a)]"
    using sample_cluster_run by blast
  have "val_a = w" if "bt_get (learned (la_learner l5)) 1 = Some w" for w
    by (rule cluster_agreement [OF small_batch_cluster cluster_nodes_ok run [unfolded sample_cluster_def] n _ that])
      (simp add: l)
  with run n l show ?thesis by (intro exI [of _ cl] exI [of _ c4] exI [of _ c5] exI [of _ l4] exI [of _ l5]) auto
qed

text \<open>
  C2. Replicated state machine of a cluster: in the cluster of the agreement theorem, with the same
  configuration and the same events (no learn made up, no \<open>RetryLearns\<close>), of two nodes whose
  learns are not for the very last slot number, the one that is behind has executed a prefix of what the other one has, each the
  commands of the learned slots from 1 on, and nodes that have executed up to the same slot have
  the same key-value store.
\<close>

theorem cluster_replicas:
  assumes "cluster_config cfg" and "distinct (map node_id ns)" and "length ns < 2 ^ 32"
    and "(cluster_step env)\<^sup>*\<^sup>* (cluster_new env c cfg disks leader ns) cl"
    and "cl_nodes cl i = Some ci" and "co_learner ci = Some li" and "below_max (learned (la_learner li))"
    and "cl_nodes cl j = Some cj" and "co_learner cj = Some lj" and "below_max (learned (la_learner lj))"
    and "la_get_adu li \<le> la_get_adu lj"
  shows "(\<exists>done rest. replica li done \<and> replica lj (done @ rest)) \<and>
    (la_get_adu li = la_get_adu lj \<longrightarrow> la_kv li = la_kv lj)"
proof -
  have adu: "lr_adu (la_learner li) \<le> lr_adu (la_learner lj)"
    using assms(11) by (simp add: la_get_adu_def learner_get_adu_def)
  from cluster_prefix [OF cluster_reachable [OF assms(1-4)] assms(5-10) adu] obtain es rest where
    "replica li es" "replica lj (es @ rest)" by blast
  with replicas_as_far [OF this] show ?thesis
    by (auto simp: la_get_adu_def learner_get_adu_def)
qed

theorem cluster_replicas_witness:
  "\<exists>cl c4 c5 l4 l5. (cluster_step sample_env)\<^sup>*\<^sup>* sample_cluster cl \<and>
     cl_nodes cl 4 = Some c4 \<and> co_learner c4 = Some l4 \<and> learned (la_learner l4) = [(1, val_a)] \<and>
     cl_nodes cl 5 = Some c5 \<and> co_learner c5 = Some l5 \<and> learned (la_learner l5) = [(1, val_a)] \<and>
     ((\<exists>done rest. replica l4 done \<and> replica l5 (done @ rest)) \<or> (\<exists>done rest. replica l5 done \<and> replica l4 (done @ rest)))"
proof -
  obtain cl c4 c5 l4 l5 where run: "(cluster_step sample_env)\<^sup>*\<^sup>* sample_cluster cl"
    and n4: "cl_nodes cl 4 = Some c4" "co_learner c4 = Some l4" and l4: "learned (la_learner l4) = [(1, val_a)]"
    and n5: "cl_nodes cl 5 = Some c5" "co_learner c5 = Some l5" and l5: "learned (la_learner l5) = [(1, val_a)]"
    using sample_cluster_run by blast
  have bm: "below_max (learned (la_learner l4))" "below_max (learned (la_learner l5))"
    by (simp_all add: l4 l5 below_max_def)
  note reach = small_batch_cluster cluster_nodes_ok run [unfolded sample_cluster_def]
  from cluster_replicas [OF reach n4 bm(1) n5 bm(2)] cluster_replicas [OF reach n5 bm(2) n4 bm(1)]
  have "(\<exists>done rest. replica l4 done \<and> replica l5 (done @ rest)) \<or> (\<exists>done rest. replica l5 done \<and> replica l4 (done @ rest))"
    using linear [of "la_get_adu l4" "la_get_adu l5"] by blast
  with run n4 n5 l4 l5 show ?thesis
    by (intro exI [of _ cl] exI [of _ c4] exI [of _ c5] exI [of _ l4] exI [of _ l5]) simp
qed

section \<open>Progress\<close>

text \<open>
  C3. Progress with a majority that responds: a leader, any number of acceptors and a learner start
  fresh in an event-driven configuration where acceptors send the learns, learners send the
  results, nothing is stored, the proposer's crash list is empty and batch sizes and snapshot
  interval are above zero, on nodes with distinct ids; a client's request is submitted, and the
  proposer, the learner and a majority of the acceptors run in four synchronous rounds, the first
  at least the prepare timeout after the start and each at least the execute interval after the
  one before. After these rounds (which ask for the learner's state, start, prepare, and decide;
  the waits are what the agents' timers ask for, so rounds that come more often take more of
  them) the next tick of the leader answers the client with the result of its command; the
  acceptors that responded hold the proposal, and the learner has learned and executed it. The
  other acceptors may be silent.
\<close>

theorem request_is_answered:
  assumes "responsive cfg pn an ln ns"
    and "paced (from_millis (exec_interval_ms cfg)) (clk_now c0) [c1, c2, c3, c4]"
    and "from_millis (prepare_timeout cfg) \<le> clk_now c1 - clk_now c0"
  shows "\<exists>ps ps' r. fresh_parties hash pcd acd lcd c0 cfg disk pn an ln ns v = Some ps \<and>
    sync_rounds pcd acd lcd net [c1, c2, c3, c4] ps = Some ([None, None, None, None], ps') \<and>
    pa_handle_tick pcd net c5 (leading ps') = Some (Some [r], [], (leading ps')\<lparr>client_responses := []\<rparr>) \<and>
    resp_client_id r = client_id v \<and> resp_client_seq r = client_seq v \<and>
    command_result r = fst (kv_apply (command v) kv_new) \<and>
    la_kv (learning ps') = snd (kv_apply (command v) kv_new) \<and> learned (la_learner (learning ps')) = [(1, v)] \<and>
    (\<forall>a \<in> set (responding ps'). accepted_map (aa_acceptor a) = [(1, new_pv 1 (node_id pn + of_nat (length an)) v)])"
proof -
  obtain ps where ps: "fresh_parties hash pcd acd lcd c0 cfg disk pn an ln ns v = Some ps"
    using parties_start [OF assms(1)] by blast
  from sync_rounds_answer [OF assms(1) ps assms(2,3), of net c5] acceptors_at_map ps show ?thesis
    by (fastforce simp: executed_response_def executed_entry_def Let_def)
qed

theorem request_is_answered_witness:
  "\<exists>ps ps' r. sync_rounds proposer_codec0 acceptor_codec0 learner_codec0 (\<lambda>ns m. [])
      (map (\<lambda>t. clk\<lparr>clk_now := from_millis t\<rparr>) [100, 200, 300, 400]) ps = Some ([None, None, None, None], ps') \<and>
    pa_handle_tick proposer_codec0 (\<lambda>ns m. []) clk (leading ps') = Some (Some [r], [], (leading ps')\<lparr>client_responses := []\<rparr>) \<and>
    command_result r = CmdValue None \<and> kv_map (la_kv (learning ps')) = [(''x'', ''a'')]"
proof -
  let ?cfg = "sample_config False 500 10000" and ?c = "\<lambda>t. clk\<lparr>clk_now := from_millis t\<rparr>"
  have "responsive ?cfg (mk_node 5 Proposer) [mk_node 1 Acceptor, mk_node 2 Acceptor, mk_node 3 Acceptor] (mk_node 4 Learner)
      [mk_node 1 Acceptor, mk_node 2 Acceptor]"
    by (simp add: responsive_def sample_config_def as_usize_def mk_node_def)
  moreover have "paced (from_millis (exec_interval_ms ?cfg)) (clk_now clk) [?c 100, ?c 200, ?c 300, ?c 400]"
    "from_millis (prepare_timeout ?cfg) \<le> clk_now (?c 100) - clk_now clk"
    by (simp_all add: sample_config_def clk_def from_millis_def)
  moreover have "kv_apply (command val_a) kv_new = (CmdValue None, \<lparr>kv_map = [(''x'', ''a'')], kv_history = [command val_a]\<rparr>)"
    by (simp add: val_a_def set_value_def kv_defs kv_new_def hm_insert_def)
  ultimately show ?thesis
    using request_is_answered [of ?cfg "mk_node 5 Proposer" "[mk_node 1 Acceptor, mk_node 2 Acceptor, mk_node 3 Acceptor]"
        "mk_node 4 Learner" "[mk_node 1 Acceptor, mk_node 2 Acceptor]" clk "?c 100" "?c 200" "?c 300" "?c 400"
        hash0 proposer_codec0 acceptor_codec0 learner_codec0 "\<lambda>_. empty_disk" val_a "\<lambda>ns m. []" clk]
    by fastforce
qed

section \<open>Agreement of the composed system\<close>

text \<open>
  Agreement of the agents: in a system of acceptor and learner agents that starts fresh and without
  storage, where the acceptors send the learns, whatever the proposers send and however the
  network delays, duplicates, reorders or loses messages, no two learners learn different
  values for a slot, as long as no \<open>RetryLearns\<close> is answered.
\<close>

theorem agreement:
  assumes "reachable (system_step acd lcd A) A sys"
    and "bt_get (learned (la_learner (sys_learner sys j))) s = Some v"
    and "bt_get (learned (la_learner (sys_learner sys k))) s = Some w"
  shows "v = w"
  using system_inv_agreement [OF reachable_inv [OF assms(1)] assms(2,3)] .

theorem agreement_witness:
  "the (bt_get (learned (la_learner (sys_learner run_learns 0))) 1) =
   the (bt_get (learned (la_learner (sys_learner run_learns 1))) 1)"
  by (rule agreement [OF run_learns_reachable, of 0 1 _ 1]) (simp_all add: run_learns_learned del: One_nat_def)

text \<open>
  C4. Answering \<open>RetryLearns\<close> breaks agreement. An acceptor that has accepted nothing in a
  slot answers with a learn for a no-op, which it does not record: a quorum of such answers
  makes one learner learn the no-op, while the acceptors then accept a value that another
  learner learns in the same slot.
\<close>

theorem retry_breaks_agreement:
  "\<exists>sys. reachable (system_step_retry acceptor_codec0 learner_codec0 {1, 2, 3}) {1, 2, 3} sys \<and>
     bt_get (learned (la_learner (sys_learner sys 0))) 1 = Some noop_value \<and>
     bt_get (learned (la_learner (sys_learner sys 1))) 1 = Some val_a \<and> val_a \<noteq> noop_value"
  by (rule exI [of _ run_split])
    (simp add: run_split_reachable run_split_learned val_a_def set_value_def noop_value_def del: One_nat_def)

text \<open>
  Replicated state machine: two learner agents that have executed up to the same slot hold
  the same key-value store, in every reachable state whose learns are not for the very last
  slot number.
\<close>

theorem replicas_agree:
  assumes "reachable (system_step acd lcd A) A sys"
    and "\<forall>m \<in> sys_net sys. learns_in_range (Receive m)"
    and "la_get_adu (sys_learner sys j) = la_get_adu (sys_learner sys k)"
  shows "la_kv (sys_learner sys j) = la_kv (sys_learner sys k)"
proof (rule replicas_equal [OF reachable_inv [OF assms(1)]])
  show "replica_ok (sys_learner sys j)" "replica_ok (sys_learner sys k)"
    using reachable_replicas [OF assms(1,2)] by blast+
  show "lr_adu (la_learner (sys_learner sys j)) = lr_adu (la_learner (sys_learner sys k))"
    using assms(3) by (simp add: la_get_adu_def learner_get_adu_def)
qed

theorem replicas_agree_witness:
  "la_kv (sys_learner run_learns 0) = la_kv (sys_learner run_learns 1)"
proof (rule replicas_agree [OF run_learns_reachable])
  show "\<forall>m \<in> sys_net run_learns. learns_in_range (Receive m)"
    by (simp add: run_learns_def run_accepts_def acceptor_receives_simps sample_system_def
        learns_in_range_def learn_msg_def)
  show "la_get_adu (sys_learner run_learns 0) = la_get_adu (sys_learner run_learns 1)"
    by (simp add: run_learns_learned(2) del: One_nat_def)
qed

text \<open>
  One replica: whatever messages and ticks a learner agent without storage receives, its
  store is the result of the commands of the learned entries of slots 1 to \<open>adu\<close>, each
  applied once and in slot order, to an empty store.
\<close>

theorem replica_executes_in_order:
  assumes "learner_agent_new hash cd c n nodes cfg disk = Some ag" and "\<not> persistent_storage cfg"
    and "\<forall>e \<in> set es. learns_in_range (snd e)"
  shows "la_kv (la_run cd es ag) = snd (kv_run (map (command \<circ> le_value)
        (entries_upto (la_learner (la_run cd es ag)) (unat (la_get_adu (la_run cd es ag))))) kv_new) \<and>
    (\<forall>s. 1 \<le> s \<and> s \<le> la_get_adu (la_run cd es ag) \<longrightarrow>
       bt_get (learned (la_learner (la_run cd es ag))) s \<noteq> None)"
  using la_run_ok [OF learner_agent_new_ok(2) [OF assms(1,2)] assms(3), of cd]
  by (auto simp: replica_ok_def replica_def delivered_def cmds_def la_get_adu_def learner_get_adu_def)

theorem replica_executes_in_order_witness:
  "la_kv (la_run learner_codec0 sample_events sample_learner_agent) = snd (kv_run (map (command \<circ> le_value)
     (entries_upto (la_learner (la_run learner_codec0 sample_events sample_learner_agent))
       (unat (la_get_adu (la_run learner_codec0 sample_events sample_learner_agent))))) kv_new)"
  using replica_executes_in_order [where es = sample_events and cd = learner_codec0, OF sample_learner_agent_new]
  by (simp add: sample_events_def learns_in_range_def learn_msg_def sample_config_def)

section \<open>Nodes\<close>

text \<open>
  Composition, the acceptor: whatever a node does in a run (ticks as a leader that asks its own
  acceptor, messages, elections, requests), its acceptor goes through a run of requests of its own.
  So without storage it stays an implementation of the abstract acceptor: its promise never goes
  back, and what it accepted stays.
\<close>

theorem node_acceptor_refines:
  assumes "co_run env es co = Some (u, out, co')" and "co_acceptor co = Some a"
    and "acceptor_inv (aa_acceptor a)" and "\<not> sh_enabled (acc_storage (aa_acceptor a))"
  shows "\<exists>a' rs. co_acceptor co' = Some a' \<and>
    aa_acceptor a' = acceptor_run (env_acceptor_codec env) rs (aa_acceptor a) \<and>
    abs_acceptor (aa_acceptor a') = foldl (\<lambda>sa r. spec_handle (snd r) sa) (abs_acceptor (aa_acceptor a)) rs \<and>
    highest_promised_ballot (aa_acceptor a) \<le> highest_promised_ballot (aa_acceptor a') \<and>
    bt_get (accepted_map (aa_acceptor a)) \<subseteq>\<^sub>m bt_get (accepted_map (aa_acceptor a'))"
proof -
  from node_acceptor_from [OF assms(1,2,4)] obtain a' rs where a': "co_acceptor co' = Some a'"
    "aa_acceptor a' = acceptor_run (env_acceptor_codec env) rs (aa_acceptor a)"
    by (auto simp: acceptor_from_def)
  with acceptor_run_refines [OF assms(3,4)] acceptor_run_highest acceptor_run_grows [OF assms(3,4)]
  show ?thesis by metis
qed

theorem node_acceptor_refines_witness:
  "\<exists>co a u out co' a' (rs :: (clock \<times> acceptor_request) list). sample_node peers = Some co \<and> co_acceptor co = Some a \<and>
    co_run sample_env [(clk, CoReceive (peer_prepare 9))] co = Some (u, out, co') \<and> co_acceptor co' = Some a' \<and>
    abs_acceptor (aa_acceptor a') = foldl (\<lambda>sa r. spec_handle (snd r) sa) (abs_acceptor (aa_acceptor a)) rs \<and>
    highest_promised_ballot (aa_acceptor a') = 9"
proof -
  obtain co p a l where co: "sample_node peers = Some co" "co_agents co = CoordinatorNode p a l"
    "acceptor_agent_new hash0 acceptor_codec0 clk (mk_node 5 Coordinator) peers small_batch empty_disk = Some a"
    using sample_node_agents by blast
  have a: "co_acceptor co = Some a" using co(2) by (simp add: co_acceptor_def)
  have fresh: "initial_acceptor 5 a" using initial_acceptor_new [OF co(3)] by simp
  obtain out co' where run: "co_run sample_env [(clk, CoReceive (peer_prepare 9))] co = Some ((), out, co')"
    "co_acceptor co' = Some (snd (snd (aa_handle_message acceptor_codec0 clk (peer_prepare 9) a)))"
    using co(2) by (simp add: co_run_def co_handle_message_def coordinator_message_def to_acceptor_def with_acceptor_def
        step_lift_def peer_prepare_def step_bind_def split_def sample_env_def co_acceptor_def)
  have "highest_promised_ballot (aa_acceptor (snd (snd (aa_handle_message acceptor_codec0 clk (peer_prepare 9) a)))) = 9"
    using fresh by (simp add: aa_handle_message_acceptor peer_prepare_def acceptor_prepare_highest initial_acceptor_def)
      (simp add: highest_promised_ballot_def)
  moreover have "acceptor_inv (aa_acceptor a)" "\<not> sh_enabled (acc_storage (aa_acceptor a))"
    using fresh by (simp_all add: initial_acceptor_def acceptor_inv_def)
  from node_acceptor_refines [OF run(1) a this] obtain a' and rs :: "(clock \<times> acceptor_request) list"
    where "co_acceptor co' = Some a'"
    "abs_acceptor (aa_acceptor a') = foldl (\<lambda>sa r. spec_handle (snd r) sa) (abs_acceptor (aa_acceptor a)) rs" by blast
  ultimately show ?thesis using run co(1) a by auto
qed

text \<open>
  Composition, the replica: in a node without storage, whatever its agents do to each other and
  whatever it receives, as long as it has learned nothing for the very last slot number, the store
  is the result of the commands of the learned entries of slots 1 to \<open>adu\<close>, each applied
  once and in slot order, to an empty store.
\<close>

theorem node_replica_in_order:
  assumes "coordinator_new env c n nodes leader cfg pdisk adisk ldisk = Some co" and "\<not> persistent_storage cfg"
    and "co_run env es co = Some (u, out, co')" and "co_learner co' = Some l"
    and "below_max (learned (la_learner l))"
  shows "la_kv l = snd (kv_run (map (command \<circ> le_value) (entries_upto (la_learner l) (unat (la_get_adu l)))) kv_new) \<and>
    (\<forall>s. 1 \<le> s \<and> s \<le> la_get_adu l \<longrightarrow> bt_get (learned (la_learner l)) s \<noteq> None)"
  using node_learner_run [OF assms]
  by (auto simp: replica_def delivered_def cmds_def la_get_adu_def learner_get_adu_def)

theorem node_replica_in_order_witness:
  "\<exists>co u out co' l. sample_node peers = Some co \<and> co_run sample_env peer_learns co = Some (u, out, co') \<and>
    co_learner co' = Some l \<and> learned (la_learner l) = [(1, val_a)] \<and>
    la_kv l = snd (kv_run (map (command \<circ> le_value) (entries_upto (la_learner l) (unat (la_get_adu l)))) kv_new)"
proof -
  obtain co where co: "sample_node peers = Some co" using sample_node_agents by blast
  from peer_learns_run [OF this] obtain out co' l where run: "co_run sample_env peer_learns co = Some ((), out, co')"
    "co_learner co' = Some l" "learned (la_learner l) = [(1, val_a)]" by blast
  have "below_max (learned (la_learner l))" by (simp add: run(3) below_max_def)
  from node_replica_in_order [OF co [unfolded sample_node_def] _ run(1,2) this] co run show ?thesis by auto
qed

text \<open>
  C5. A coordinator's own acceptor comes first: when the accept phase of a node without storage
  returns, every accept it has sent is for a value that its own acceptor holds in that slot, with a
  ballot its acceptor has promised nothing above, and every learn it has sent is for such a value.
\<close>

theorem accepts_sent_are_held:
  assumes "co_accept_phase env c co = Some (r, out, co')" and "co_acceptor co = Some a"
    and "acceptor_inv (aa_acceptor a)" and "\<not> sh_enabled (acc_storage (aa_acceptor a))"
  shows "\<exists>a'. co_acceptor co' = Some a' \<and> (\<forall>(ns, m) \<in> set out.
    (\<forall>x. payload m = AcceptMsg x \<longrightarrow> highest_promised_ballot (aa_acceptor a') \<le> acc_ballot x \<and>
       holds (aa_acceptor a') (acc_slot x) (acc_value x)) \<and>
    (\<forall>ln. payload m = LearnMsg ln \<longrightarrow> holds (aa_acceptor a') (ln_slot ln) (ln_value ln)))"
  using obeysD [OF backs_accept_phase assms(1)] assms(2-4)
  by (fastforce simp: backs_def backed_def)

theorem accepts_sent_are_held_witness:
  "\<exists>co p a l r out co' a'. sample_node peers = Some co \<and> co_agents co = CoordinatorNode p a l \<and>
    co_accept_phase sample_env clk (co\<lparr>co_agents := CoordinatorNode
      ((sample_pa AcceptCommit proposer_two_requests [])\<lparr>pa_config := small_batch\<rparr>) a l\<rparr>) = Some (r, out, co') \<and>
    co_acceptor co' = Some a' \<and> out \<noteq> [] \<and>
    (\<forall>(ns, m) \<in> set out. \<forall>x. payload m = AcceptMsg x \<longrightarrow> holds (aa_acceptor a') (acc_slot x) (acc_value x))"
proof -
  obtain co p a l where co: "sample_node peers = Some co" "co_agents co = CoordinatorNode p a l" "co_config co = small_batch"
    "acceptor_agent_new hash0 acceptor_codec0 clk (mk_node 5 Coordinator) peers small_batch empty_disk = Some a"
    using sample_node_agents by blast
  have fresh: "initial_acceptor 5 a" using initial_acceptor_new [OF co(4)] by simp
  have cfg: "acceptors_send_learns (aa_config a)" using co(4) by (auto simp: acceptor_agent_new_def)
  let ?co = "co\<lparr>co_agents := CoordinatorNode ((sample_pa AcceptCommit proposer_two_requests [])\<lparr>pa_config := small_batch\<rparr>) a l\<rparr>"
  obtain r out co' where run: "co_accept_phase sample_env clk ?co = Some (r, out, co')" "out \<noteq> []"
    using sample_accept_phase [OF co(2,3) fresh cfg] by blast
  have "co_acceptor ?co = Some a" by (simp add: co_acceptor_def)
  moreover have "acceptor_inv (aa_acceptor a)" "\<not> sh_enabled (acc_storage (aa_acceptor a))"
    using fresh by (simp_all add: initial_acceptor_def acceptor_inv_def)
  ultimately obtain a' where "co_acceptor co' = Some a'" "\<forall>(ns, m) \<in> set out. \<forall>x. payload m = AcceptMsg x \<longrightarrow>
      holds (aa_acceptor a') (acc_slot x) (acc_value x)"
    using accepts_sent_are_held [OF run(1)] by blast
  with co(1,2) run show ?thesis by blast
qed

text \<open>
  C6. A leader that loses its acceptor panics: when a node that leads, in \<open>PrepareSend\<close> or
  in \<open>AcceptCommit\<close> with a value to propose (and a batch size above zero), receives a prepare with a higher ballot than its
  own (another node was elected), its own acceptor promises it, and the next tick panics, whatever
  the rest of the state.
\<close>

theorem higher_prepare_kills_leader:
  assumes "co_agents co = CoordinatorNode p a l" and "pr_is_leader (pa_proposer p)"
    and "pa_phase p = PrepareSend \<or>
      pa_phase p = AcceptCommit \<and> prioritized_values (pa_proposer p) @ pending_client_requests (pa_proposer p) \<noteq> [] \<and>
      0 < batch_size (pa_config p)"
    and "payload m = PrepareMsg pr" and "current_ballot (pa_proposer p) < prep_ballot pr"
  shows "step_bind (co_handle_message env c m) (\<lambda>_. co_handle_tick env c') co = None"
  by (rule prepare_dooms [OF assms(1) _ assms(4,5)]) (use assms(2,3) in \<open>simp add: about_to_use_def queued_def\<close>)

theorem higher_prepare_kills_leader_witness:
  "\<exists>co p a l. sample_node peers = Some co \<and> co_agents co = CoordinatorNode p a l \<and>
    step_bind (co_handle_message sample_env clk (peer_prepare 9)) (\<lambda>_. co_handle_tick sample_env clk)
      (co\<lparr>co_agents := CoordinatorNode (sample_pa AcceptCommit proposer_two_requests []) a l\<rparr>) = None"
proof -
  obtain co p a l where co: "sample_node peers = Some co" "co_agents co = CoordinatorNode p a l"
    using sample_node_agents by blast
  have "step_bind (co_handle_message sample_env clk (peer_prepare 9)) (\<lambda>_. co_handle_tick sample_env clk)
      (co\<lparr>co_agents := CoordinatorNode (sample_pa AcceptCommit proposer_two_requests []) a l\<rparr>) = None"
    by (rule higher_prepare_kills_leader [where p = "sample_pa AcceptCommit proposer_two_requests []" and a = a and l = l
          and pr = "\<lparr>prep_slot = 1, prep_ballot = 9\<rparr>"])
      (simp_all add: proposer_two_requests_def peer_prepare_def sample_config_def)
  with co show ?thesis by blast
qed

text \<open>
  A coordinator that hears from no other node never gets past its first phase: with replies
  that come as messages, no run of ticks, requests, elections and heartbeats reaches
  \<open>AcceptCommit\<close>, and no tick after it answers a client, even when the node is the only
  acceptor and its own promise is a quorum.
\<close>

theorem lone_coordinator_waits:
  assumes "co_agents co = CoordinatorNode p a l" and "is_event_driven (pa_config p)" and "pa_phase p = Start"
    and "\<forall>(c, e) \<in> set es. \<forall>m. e \<noteq> CoReceive m" and "co_run env es co = Some (u, out, co')"
  shows "(\<exists>p' a' l'. co_agents co' = CoordinatorNode p' a' l' \<and> pa_phase p' \<noteq> AcceptCommit) \<and>
    (\<forall>c r out' co''. co_handle_tick env c co' = Some (r, out', co'') \<longrightarrow> r = None)"
proof -
  have "waiting co" using assms(1-3) by (auto simp: waiting_def unprepared_def)
  from waiting_run [OF assms(5,4) this] have w: "waiting co'" .
  then show ?thesis using waiting_tick [OF _ w] by (auto simp: waiting_def unprepared_def)
qed

theorem lone_coordinator_waits_witness:
  "\<exists>co u out co' p' a' l'. sample_node [] = Some co \<and>
    co_run sample_env [(clk, CoSubmit val_a), (clk, CoSubmit val_b)] co = Some (u, out, co') \<and>
    co_agents co' = CoordinatorNode p' a' l' \<and> pa_num_acceptors p' = 1 \<and> pa_phase p' \<noteq> AcceptCommit"
proof -
  obtain co p a l where co: "sample_node [] = Some co" "co_agents co = CoordinatorNode p a l"
    and p: "proposer_agent_new proposer_codec0 clk (mk_node 5 Coordinator) [] True small_batch empty_disk = Some p"
    using sample_node_agents by blast
  have fields: "is_event_driven (pa_config p)" "pa_phase p = Start" "pa_num_acceptors p = 1"
    using p by (auto simp: proposer_agent_new_def Let_def as_usize_def)
  have run: "\<exists>out q. co_run sample_env [(clk, CoSubmit val_a), (clk, CoSubmit val_b)] co =
      Some ((), out, co\<lparr>co_agents := CoordinatorNode (p\<lparr>pa_proposer := q\<rparr>) a l\<rparr>)"
    using co(2) by (simp add: co_run_def co_submit_client_request_def with_proposer_def submit_client_request_def
        on_proposer_def enqueue_client_request_def) (rule exI, rule refl)
  then obtain out q where run: "co_run sample_env [(clk, CoSubmit val_a), (clk, CoSubmit val_b)] co =
      Some ((), out, co\<lparr>co_agents := CoordinatorNode (p\<lparr>pa_proposer := q\<rparr>) a l\<rparr>)" by blast
  from lone_coordinator_waits [OF co(2) fields(1,2) _ run] have "pa_phase (p\<lparr>pa_proposer := q\<rparr>) \<noteq> AcceptCommit" by simp
  with co run fields show ?thesis by fastforce
qed

section \<open>The acceptor\<close>

text \<open>
  C7. An acceptor without storage implements the abstract acceptor (one promised ballot, one
  proposal per slot, never replaced): over any run of requests from a fresh start its state is
  the abstract one, and its reply to the next request is the one the abstract acceptor allows,
  rejections included.
\<close>

theorem acceptor_refines_spec:
  assumes "acceptor_new hash c nid cfg disk = Some a" and "\<not> persistent_storage cfg"
  shows "abs_acceptor (acceptor_run cd rs a) =
      foldl (\<lambda>sa r. spec_handle (snd r) sa) \<lparr>sa_promised = 0, sa_accepted = Map.empty\<rparr> rs \<and>
    spec_reply req (abs_acceptor (acceptor_run cd rs a))
      (fst (acceptor_handle cd (c', req) (acceptor_run cd rs a)))"
proof
  have inv: "acceptor_inv a" using assms(1) by (rule acceptor_new_inv)
  show "abs_acceptor (acceptor_run cd rs a) =
      foldl (\<lambda>sa r. spec_handle (snd r) sa) \<lparr>sa_promised = 0, sa_accepted = Map.empty\<rparr> rs"
    using acceptor_run_refines [OF inv acceptor_new_disabled [OF assms]] acceptor_new_abs [OF assms(1)] by simp
  show "spec_reply req (abs_acceptor (acceptor_run cd rs a))
      (fst (acceptor_handle cd (c', req) (acceptor_run cd rs a)))"
    by (rule acceptor_handle_replies [OF acceptor_run_inv [OF inv]])
qed

theorem acceptor_refines_spec_witness:
  "abs_acceptor (acceptor_run acceptor_codec0 [(clk, PrepareReq 1 2), (clk, AcceptReq 1 2 val_a)]
      (sample_acceptor False 1 100)) =
   \<lparr>sa_promised = 2, sa_accepted = [1 \<mapsto> new_pv 1 2 val_a]\<rparr>"
  using acceptor_refines_spec [OF sample_acceptor_new, where p1 = False and n1 = 1 and interval1 = 100
      and cd = acceptor_codec0 and rs = "[(clk, PrepareReq 1 2), (clk, AcceptReq 1 2 val_a)]"]
  by (simp add: sample_config_def)

text \<open>
  C8. A promise binds: once an acceptor (in a state that its invariant allows) has promised a ballot, whatever requests come, whether
  it has storage and however the disk fails, it accepts no proposal with a lower ballot, and its
  list of promises stays strictly ascending.
\<close>

theorem acceptor_promise_kept:
  assumes "acceptor_inv a" and "fst (acceptor_prepare cd c s b a) = Promised p"
    and "fst (acceptor_accept cd c' s' b' v (acceptor_run cd rs (snd (acceptor_prepare cd c s b a)))) = AcceptedOk x"
  shows "b \<le> b' \<and> sorted_wrt (<) (promises (acceptor_run cd rs (snd (acceptor_prepare cd c s b a))))"
proof -
  let ?a = "acceptor_run cd rs (snd (acceptor_prepare cd c s b a))"
  have "b \<le> highest_promised_ballot (snd (acceptor_prepare cd c s b a))"
    by (simp add: acceptor_prepare_highest)
  also have "\<dots> \<le> highest_promised_ballot ?a" by (rule acceptor_run_highest)
  also have "\<dots> \<le> b'" using assms(3) by (simp add: acceptor_accept_reply split: if_splits)
  finally have "b \<le> b'" .
  moreover have "acceptor_inv ?a"
    using assms(1) by (intro acceptor_run_inv acceptor_prepare_inv)
  ultimately show ?thesis by (simp add: acceptor_inv_def)
qed

theorem acceptor_promise_kept_witness:
  "\<exists>p x a'. acceptor_prepare acceptor_codec0 clk 1 2 (sample_acceptor False 1 100) = (Promised p, a') \<and>
    fst (acceptor_accept acceptor_codec0 clk 1 3 val_a (acceptor_run acceptor_codec0 [(clk, PrepareReq 2 3)] a')) = AcceptedOk x \<and>
    promises (acceptor_run acceptor_codec0 [(clk, PrepareReq 2 3)] a') = [2, 3] \<and>
    sorted_wrt (<) (promises (acceptor_run acceptor_codec0 [(clk, PrepareReq 2 3)] a'))"
proof -
  let ?a = "snd (acceptor_prepare acceptor_codec0 clk 1 2 (sample_acceptor False 1 100))"
  let ?b = "acceptor_run acceptor_codec0 [(clk, PrepareReq 2 3)] ?a"
  obtain p where p: "fst (acceptor_prepare acceptor_codec0 clk 1 2 (sample_acceptor False 1 100)) = Promised p"
    by (simp add: acceptor_prepare_result sample_acceptor_fields highest_promised_ballot_def)
  have kept: "promises ?b = [2, 3]" "accepted_map ?b = []"
    by (simp_all add: acceptor_prepare_promises acceptor_prepare_map sample_acceptor_fields highest_promised_ballot_def)
  then have "highest_promised_ballot ?b = 3" by (simp add: highest_promised_ballot_def)
  with kept(2) obtain x where x: "fst (acceptor_accept acceptor_codec0 clk 1 3 val_a ?b) = AcceptedOk x"
    by (simp add: acceptor_accept_reply accepted_reply_def del: acceptor_run.simps)
  show ?thesis
    using acceptor_promise_kept [OF acceptor_new_inv [OF sample_acceptor_new] p x, THEN conjunct2] x kept(1)
    by (intro exI [of _ p] exI [of _ x] exI [of _ ?a] conjI prod_eqI) (simp_all add: p del: acceptor_run.simps)
qed

text \<open>
  One value per slot: an acceptor without storage that answers \<open>Accepted\<close> to two accepts
  for the same slot, with any requests in between, was asked for the same value both times.
\<close>

theorem acceptor_one_value_per_slot:
  assumes "acceptor_inv a" and "\<not> sh_enabled (acc_storage a)"
    and "fst (acceptor_accept cd c s b v a) = AcceptedOk x"
    and "fst (acceptor_accept cd c' s b' w (acceptor_run cd rs (snd (acceptor_accept cd c s b v a)))) = AcceptedOk y"
  shows "w = v"
  using assms by (rule acceptor_accepts_one_value)

theorem acceptor_one_value_per_slot_witness: "val_a = set_value ''x'' ''a'' 1"
  using acceptor_one_value_per_slot [where a = "sample_acceptor False 1 100" and cd = acceptor_codec0
      and c = clk and s = 1 and b = 2 and v = "set_value ''x'' ''a'' 1" and c' = clk and b' = 3
      and w = val_a and rs = "[]"]
    acceptor_new_inv [OF sample_acceptor_new [where p = False and n = 1 and interval = 100]]
  by (simp add: acceptor_accept_reply accepted_reply_def sample_acceptor_fields
      highest_promised_ballot_def acceptor_accept_new recorded_disabled val_a_def)

text \<open>
  C9. Crash recovery: with storage and a flush count of one, on a disk that works, after any run
  of prepares and accepts in which no snapshot falls due, an acceptor that crashes and starts
  again has the promises and the accepted proposals it had.
\<close>

theorem acceptor_survives_crash:
  assumes "acceptor_durable cd a" and "\<forall>ps. codec_ok (promises_codec cd) ps"
    and "\<forall>r \<in> set rs. request_durable cd (acc_storage a) r"
    and "persistent_storage cfg" and "storage_snapshot_slot_interval cfg \<noteq> 0"
    and "storage_load_snapshots cfg = storage_load_snapshots (sh_config (acc_storage a))"
  shows "\<exists>a'. acceptor_restart hash cd c nid cfg (sh_store (acc_storage (acceptor_run cd rs a))) =
      Some (Inr (), a') \<and>
    accepted_map a' = accepted_map (acceptor_run cd rs a) \<and> promises a' = promises (acceptor_run cd rs a)"
proof (rule acceptor_restart_durable [OF acceptor_run_durable [OF assms(2,1,3)] assms(4,5)])
  have "sh_config (acc_storage (acceptor_run cd rs a)) = sh_config (acc_storage a)"
    by (rule acceptor_run_keeps [where q = "\<lambda>a'. sh_config (acc_storage a') = sh_config (acc_storage a)"])
      (simp_all add: acceptor_handle_settings)
  with assms(6) show "storage_load_snapshots cfg =
      storage_load_snapshots (sh_config (acc_storage (acceptor_run cd rs a)))" by simp
qed

theorem acceptor_survives_crash_witness:
  "\<exists>a'. acceptor_restart hash0 acceptor_codec0 clk ''1'' (sample_config True 1 100)
      (sh_store (acc_storage (acceptor_run acceptor_codec0
        [(clk, PrepareReq 1 1), (clk, AcceptReq 1 1 val_a)] (sample_acceptor True 1 100)))) = Some (Inr (), a') \<and>
    accepted_map a' = accepted_map (acceptor_run acceptor_codec0
        [(clk, PrepareReq 1 1), (clk, AcceptReq 1 1 val_a)] (sample_acceptor True 1 100)) \<and>
    promises a' = promises (acceptor_run acceptor_codec0
        [(clk, PrepareReq 1 1), (clk, AcceptReq 1 1 val_a)] (sample_acceptor True 1 100))"
  by (rule acceptor_survives_crash [OF sample_acceptor_durable])
    (simp_all add: acceptor_codec0_facts unary_codec_ok sample_config_def sample_acceptor_fields snapshot_due_def)

text \<open>
  With the flush count of the shipped configuration an acceptor answers \<open>Accepted\<close>
  before the change has left its write buffer: a crash of the process right after the answer
  loses the proposal.
\<close>

theorem acceptor_reply_before_flush:
  "fst (acceptor_accept acceptor_codec0 clk 1 1 val_a (sample_acceptor True 500 10000)) = accepted_reply 1 1 \<and>
   bt_get (accepted_map (snd (acceptor_accept acceptor_codec0 clk 1 1 val_a (sample_acceptor True 500 10000)))) 1
     = Some (new_pv 1 1 val_a) \<and>
   acceptor_restart hash0 acceptor_codec0 clk ''1'' (sample_config True 500 10000)
     (sh_store (acc_storage (snd (acceptor_accept acceptor_codec0 clk 1 1 val_a (sample_acceptor True 500 10000)))))
     = Some (Inr (), sample_acceptor True 500 10000) \<and>
   accepted_map (sample_acceptor True 500 10000) = []"
  by (simp add: sample_reply sample_restart sample_acceptor_fields(2))

section \<open>The learner\<close>

text \<open>
  C10. The quorum test is exact: when the votes for a slot come from the acceptors and there are
  fewer than \<open>2 ^ 32\<close> of them, \<open>check_quorum\<close> answers a value if and only if a majority of
  the acceptors voted for it; the iteration order of the hash maps does not matter.
\<close>

theorem check_quorum_exact:
  assumes "votes_ok l" and "unat (lr_num_acceptors l) < 2 ^ 32" and "finite A"
    and "card A \<le> unat (lr_num_acceptors l)" and "\<And>w. voters l s w \<subseteq> A"
  shows "check_quorum s l = Some v \<longleftrightarrow> unat (lr_num_acceptors l) div 2 < card (voters l s v)"
proof -
  have q: "learner_quorum (lr_num_acceptors l) = unat (lr_num_acceptors l) div 2 + 1"
    using assms(2) by (simp add: learner_quorum_def as_usize_def unat_word_ariths unat_div)
  show ?thesis
  proof
    assume "check_quorum s l = Some v"
    from check_quorum_sound [OF assms(1) this] q
    show "unat (lr_num_acceptors l) div 2 < card (voters l s v)" by simp
  next
    assume "unat (lr_num_acceptors l) div 2 < card (voters l s v)"
    then have v: "learner_quorum (lr_num_acceptors l) \<le> card (voters l s v)" using q by simp
    with check_quorum_complete [OF assms(1) v] q obtain w where w: "check_quorum s l = Some w" by auto
    have "v = w"
      by (rule quorum_unique [OF assms(2,3,4) assms(5) assms(5) v check_quorum_sound [OF assms(1) w]])
    with w show "check_quorum s l = Some v" by simp
  qed
qed

theorem check_quorum_exact_witness:
  "check_quorum 1 (sample_l\<lparr>slot_learns := [(1, [(1, \<lparr>ln_slot = 1, ln_value = val_a\<rparr>)])]\<rparr>) = Some val_a \<longleftrightarrow>
     1 < card (voters (sample_l\<lparr>slot_learns := [(1, [(1, \<lparr>ln_slot = 1, ln_value = val_a\<rparr>)])]\<rparr>) 1 val_a)"
proof -
  let ?l = "sample_l\<lparr>slot_learns := [(1, [(1, \<lparr>ln_slot = 1, ln_value = val_a\<rparr>)])]\<rparr>"
  have ok: "votes_ok ?l" by (auto simp: votes_ok_def hm_ok_def bt_ok_def split: if_splits)
  have voters: "voters ?l 1 w \<subseteq> {1}" for w by (auto simp: voters_def split: if_splits)
  have "lr_num_acceptors ?l = 3" by (simp add: sample_learner_agent_fields)
  then show ?thesis
    using check_quorum_exact [OF ok _ _ _ voters, of val_a] by simp
qed

text \<open>
  C11. Learning is write-once and backed by a quorum: handling a learn keeps every learned entry,
  and a value that is learned by it is, by then, reported for that slot by a quorum of distinct
  senders.
\<close>

theorem handle_learn_safe:
  assumes "learner_inv l"
  shows "bt_get (learned l) \<subseteq>\<^sub>m bt_get (learned (snd (learner_handle_learn cd c ln from l))) \<and>
    (\<forall>s v. bt_get (learned (snd (learner_handle_learn cd c ln from l))) s = Some v \<longrightarrow>
       bt_get (learned l) s = Some v \<or>
       s = ln_slot ln \<and> learner_quorum (lr_num_acceptors l) \<le>
         card (voters (snd (learner_handle_learn cd c ln from l)) s v))"
proof -
  have ok: "bt_ok (learned l)" using assms by (simp add: learner_inv_def)
  note grows = learner_handle_learn_grows [OF ok, of cd c ln "from"]
  have "bt_get (learned l) s = Some v \<or> s = ln_slot ln \<and> learner_quorum (lr_num_acceptors l) \<le>
      card (voters (snd (learner_handle_learn cd c ln from l)) s v)"
    if v: "bt_get (learned (snd (learner_handle_learn cd c ln from l))) s = Some v" for s v
  proof (cases "bt_get (learned l) s")
    case None
    with learner_handle_learn_new [OF assms v] show ?thesis by blast
  next
    case (Some w)
    with grows v show ?thesis by (auto simp: map_le_def dom_def)
  qed
  with grows show ?thesis by blast
qed

theorem handle_learn_safe_witness:
  "let l = sample_l\<lparr>slot_learns := [(1, [(1, \<lparr>ln_slot = 1, ln_value = val_a\<rparr>)])], learned := [(2, val_b)]\<rparr>;
       l' = snd (learner_handle_learn learner_codec0 clk \<lparr>ln_slot = 1, ln_value = val_a\<rparr> (mk_node 2 Acceptor) l) in
   bt_get (learned l') 1 = Some val_a \<and> bt_get (learned l') 2 = Some val_b \<and>
   learner_quorum (lr_num_acceptors l) \<le> card (voters l' 1 val_a)"
proof -
  let ?l = "sample_l\<lparr>slot_learns := [(1, [(1, \<lparr>ln_slot = 1, ln_value = val_a\<rparr>)])], learned := [(2, val_b)]\<rparr>"
  let ?l' = "snd (learner_handle_learn learner_codec0 clk \<lparr>ln_slot = 1, ln_value = val_a\<rparr> (mk_node 2 Acceptor) ?l)"
  have ok: "learner_inv ?l"
    by (auto simp: learner_inv_def votes_ok_def hm_ok_def bt_ok_def sample_learner_agent_fields split: if_splits)
  have new: "bt_get (learned ?l') 1 = Some val_a" "bt_get (learned ?l) 1 = None" "bt_get (learned ?l) 2 = Some val_b"
    by (simp_all add: learner_handle_learn_eq learner_handle_learn_def record_learn_def check_quorum_def count_votes_def
        hm_insert_def learner_quorum_def as_usize_def learner_learn_learned sample_learner_agent_fields mk_node_def Let_def)
  show ?thesis
    using handle_learn_safe [OF ok, of learner_codec0 clk "\<lparr>ln_slot = 1, ln_value = val_a\<rparr>" "mk_node 2 Acceptor"] new
    by (fastforce simp: map_le_def dom_def Let_def)
qed

text \<open>
  C12. \<open>to_be_executed\<close> hands out every learned entry once and in order: in a learner without
  storage that has learned the slots up to \<open>adu\<close> and handed out their entries, has not learned
  the very last slot \<open>2 ^ 64 - 1\<close> and holds fewer than \<open>2 ^ 64\<close> entries, it returns the entries
  from \<open>adu + 1\<close> up to the first slot that is not learned, moves \<open>adu\<close> to the last of them,
  and together with the entries handed out before these are the entries of slots 1 to \<open>adu\<close>.
\<close>

theorem to_be_executed_in_order:
  assumes "delivered l done" and "below_max (learned l)" and "length (learned l) < 2 ^ 64"
  shows "delivered (snd (to_be_executed cd c l)) (done @ result_entries (fst (to_be_executed cd c l))) \<and>
    lr_adu l \<le> lr_adu (snd (to_be_executed cd c l)) \<and>
    bt_get (learned l) (lr_adu (snd (to_be_executed cd c l)) + 1) = None"
  using to_be_executed_delivers [of l "done" cd c "fst (to_be_executed cd c l)" "snd (to_be_executed cd c l)"]
    delivered_in_range [OF assms(1,2)] assms
  by (simp add: in_range_def)

theorem to_be_executed_in_order_witness:
  "let l = sample_l\<lparr>learned := [(1, val_a), (2, val_b), (4, val_a)]\<rparr>; (r, l') = to_be_executed learner_codec0 clk l in
   r = Execute [\<lparr>le_slot = 1, le_value = val_a\<rparr>, \<lparr>le_slot = 2, le_value = val_b\<rparr>] \<and> lr_adu l' = 2 \<and>
   delivered l' [\<lparr>le_slot = 1, le_value = val_a\<rparr>, \<lparr>le_slot = 2, le_value = val_b\<rparr>] \<and> bt_get (learned l') 3 = None"
proof -
  let ?l = "sample_l\<lparr>learned := [(1, val_a), (2, val_b), (4, val_a)]\<rparr>"
  let ?out = "[\<lparr>le_slot = 1, le_value = val_a\<rparr>, \<lparr>le_slot = 2, le_value = val_b\<rparr>]"
  have start: "delivered ?l []" "below_max (learned ?l)"
    using sample_learner_agent_initial
    by (auto simp: sample_learner_agent_fields below_max_def initial_learner_def replica_def delivered_def
        learner_inv_def votes_ok_def bt_ok_def entries_upto_def split: if_splits)
  have run: "to_be_executed learner_codec0 clk ?l = (Execute ?out, ?l\<lparr>lr_adu := 2\<rparr>)"
    by (simp add: to_be_executed_def to_be_executed_disabled sample_learner_agent_fields saturating_sub_def Let_def
        learner_maybe_snapshot_def sh_maybe_snapshot_def)
  from to_be_executed_in_order [OF start, of learner_codec0 clk] show ?thesis
    by (simp add: run result_entries_def)
qed

section \<open>The proposer\<close>

text \<open>
  \<open>process_accept\<close> succeeds exactly when the slot has a proposal in flight and at least a
  quorum of the answers are successful and for the slot and ballot of that proposal.
\<close>

theorem process_accept_exact:
  "process_accept s accepts p =
     (case get_proposal_by_status s InFlight p of
        None \<Rightarrow> MissingProposal
      | Some pr \<Rightarrow>
          if proposer_quorum (pr_num_acceptors p) \<le> length (filter (matching pr) accepts)
          then AcceptAccepted (of_nat (length (filter (matching pr) accepts)))
          else AcceptQuorumFailure)"
  by (simp add: process_accept_eq not_less split: option.split)

text \<open>
  C13. What \<open>collect_accepted_values\<close> returns, when the proposer has not moved past the slot:
  one entry for each of the consecutive slots from \<open>min_slot\<close> on, which is the accepted value
  with the highest ballot that the promises report for the slot, or a no-op when they report
  none; and no reported slot is left out.
\<close>

theorem collect_highest_ballots:
  assumes "current_slot p \<le> min_slot"
  shows "map (\<lambda>pv. unat (pv_slot pv)) (fst (collect_accepted_values min_slot ps p)) =
      [unat min_slot ..< unat min_slot + length (fst (collect_accepted_values min_slot ps p))] \<and>
    (\<forall>pv \<in> set (fst (collect_accepted_values min_slot ps p)).
       best_for (reported ps) (pv_slot pv) pv \<or>
       pv = no_op (current_ballot p) (pv_slot pv) \<and> (\<forall>q \<in> set (reported ps). pv_slot q \<noteq> pv_slot pv)) \<and>
    (\<forall>q \<in> set (reported ps). min_slot \<le> pv_slot q \<longrightarrow>
       (\<exists>pv \<in> set (fst (collect_accepted_values min_slot ps p)). pv_slot pv = pv_slot q))"
  using collect_accepted_values_spec [OF assms] by blast

theorem collect_highest_ballots_witness:
  "map (\<lambda>pv. unat (pv_slot pv)) (fst (collect_accepted_values 1
      [\<lparr>prom_slot = 1, prom_ballot = 1, prom_accepted = [new_pv 3 1 val_a]\<rparr>] sample_proposer)) =
   [1 ..< 1 + length (fst (collect_accepted_values 1
      [\<lparr>prom_slot = 1, prom_ballot = 1, prom_accepted = [new_pv 3 1 val_a]\<rparr>] sample_proposer))]"
  using collect_highest_ballots [of sample_proposer 1 "[\<lparr>prom_slot = 1, prom_ballot = 1, prom_accepted = [new_pv 3 1 val_a]\<rparr>]"]
  by (simp add: sample_proposer_def proposer_new_def del: One_nat_def)

text \<open>
  After a prepare that succeeds, the prioritised queue holds, besides what it held, exactly
  the commands among the highest-ballot values reported for the slots from \<open>min_slot\<close> on, none of
  them twice, and the next proposal goes to \<open>min_slot\<close>.
\<close>

theorem process_prepare_requeues:
  assumes "fst (process_prepare min_slot ps p) = PrepareSuccess" and "current_slot p \<le> min_slot"
    and "distinct (prioritized_values p)"
  shows "set (prioritized_values (snd (process_prepare min_slot ps p))) =
      set (prioritized_values p) \<union>
      {v. \<exists>pv. best_for (reported ps) (pv_slot pv) pv \<and> min_slot \<le> pv_slot pv \<and>
         pv_value pv = Some v \<and> command v \<noteq> None \<and>
         pv \<in> set (fst (collect_accepted_values min_slot ps p))} \<and>
    distinct (prioritized_values (snd (process_prepare min_slot ps p))) \<and>
    current_slot (snd (process_prepare min_slot ps p)) = saturating_sub min_slot 1"
proof -
  have "min_slot \<le> pv_slot pv" if "pv \<in> set (fst (collect_accepted_values min_slot ps p))" for pv
    using collect_accepted_values_slots [OF assms(2) that] .
  then have "{v. \<exists>pv. best_for (reported ps) (pv_slot pv) pv \<and>
        pv \<in> set (fst (collect_accepted_values min_slot ps p)) \<and> pv_value pv = Some v \<and> command v \<noteq> None} =
      {v. \<exists>pv. best_for (reported ps) (pv_slot pv) pv \<and> min_slot \<le> pv_slot pv \<and>
         pv_value pv = Some v \<and> command v \<noteq> None \<and>
         pv \<in> set (fst (collect_accepted_values min_slot ps p))}" by blast
  with process_prepare_queued [OF assms(1,2)] process_prepare_distinct [OF assms(3)]
  show ?thesis by simp
qed

theorem process_prepare_requeues_witness:
  "distinct (prioritized_values (snd (process_prepare 1 sample_promises sample_proposer)))"
  using process_prepare_requeues [of 1 sample_promises sample_proposer]
  by (simp add: sample_proposer_def proposer_new_def process_prepare_result sample_promises_def
      proposer_quorum_def as_usize_def)

text \<open>
  A proposal's life goes forward: marking a proposal chosen or finalized keeps every
  proposal and never moves a status back, and a slot that was finalized is not handed out for
  finalisation again, as long as the statuses only advance.
\<close>

theorem finalized_once:
  assumes "bt_ok (proposals p)" and "fst (mark_proposal_finalized s p) = Some v"
    and "advances (snd (mark_proposal_finalized s p)) p'"
  shows "advances p (snd (mark_proposal_chosen k p)) \<and> advances p (snd (mark_proposal_finalized s p)) \<and>
    mark_proposal_finalized s p' = (None, p')"
  using mark_proposal_chosen_advances [OF assms(1)] mark_proposal_finalized_advances [OF assms(1)]
    finalized_stays [OF assms] by blast

theorem finalized_once_witness:
  "mark_proposal_finalized 1 (snd (mark_proposal_finalized 1 proposer_in_flight)) =
     (None, snd (mark_proposal_finalized 1 proposer_in_flight))"
  using finalized_once [of proposer_in_flight 1 val_a "snd (mark_proposal_finalized 1 proposer_in_flight)"]
  by (simp add: proposer_in_flight_def proposals_simps bt_ok_def)

text \<open>
  Reserving a proposal for its commit does not look at the status: a proposal that was
  finalized while its slot waited in the queue of chosen slots goes back to \<open>CommitPending\<close>,
  and its value is handed out for finalisation a second time.
\<close>

theorem reserve_unfinalizes:
  "let p1 = snd (mark_proposal_chosen 1 proposer_in_flight);
       (v1, p2) = mark_proposal_finalized 1 p1;
       p3 = snd (reserve_next_chosen_proposal p2);
       (v2, p4) = mark_proposal_finalized 1 p3
   in v1 = Some val_a \<and> get_proposal_by_status 1 CommitPending p3 \<noteq> None \<and> v2 = Some val_a"
  by (simp add: proposer_in_flight_def proposals_simps reserve_next_chosen_proposal_def
      get_proposal_by_status_def get_proposal_by_def sample_proposer_def proposer_new_def Let_def)

text \<open>
  A value that was accepted in a slot may be proposed again in another one: no-ops that fill
  the gaps are dropped before the values are queued, so the value the promises report for slot 3
  is proposed in slot 1.
\<close>

theorem reproposal_moves_slot:
  "fst (create_proposal (snd (process_prepare 1 sample_promises sample_proposer))) =
     Some \<lparr>prop_slot = 1, prop_ballot = 1, prop_value = val_a\<rparr> \<and>
   best_for (reported sample_promises) 3 (new_pv 3 1 val_a)"
proof -
  have c: "command val_a \<noteq> None" by (simp add: val_a_def set_value_def)
  have "collect_map 1 sample_promises = [(3, new_pv 3 1 val_a)]"
    by (simp add: collect_map_def sample_promises_def collect_one_def hm_insert_def word_le_nat_alt)
  then have "snd (process_prepare 1 sample_promises sample_proposer) = sample_proposer\<lparr>prioritized_values := [val_a]\<rparr>"
    using c
    by (simp add: process_prepare_def sample_proposer_def proposer_new_def proposer_quorum_def as_usize_def
        sample_promises_def collect_accepted_values_def reproposed_def map_filter_simps no_op_def
        saturating_sub_def enqueue_prioritized_request_def upt_rec Let_def)
  then show ?thesis
    by (simp add: create_proposal_def next_value_def get_next_slot_def sample_proposer_def proposer_new_def
        best_for_def reported_def sample_promises_def Let_def)
qed

text \<open>
  C14. Ballots of different proposers differ: two proposers with the same number of acceptors, which is
  not zero, whose ballots differ modulo that number still differ, and in the same residues, after either has
  become leader, as long as the addition does not wrap around; and the new ballot is higher.
\<close>

theorem ballots_stay_apart:
  assumes "become_leader cd c p = Some (True, p')"
    and "unat (current_ballot p) + unat (ballot_delta p) < 2 ^ 64" and "ballot_delta p \<noteq> 0"
    and "unat (current_ballot p) mod unat (ballot_delta p) \<noteq> unat b mod unat (ballot_delta p)"
  shows "current_ballot p' \<noteq> b \<and> current_ballot p < current_ballot p' \<and>
    unat (current_ballot p') mod unat (ballot_delta p) = unat (current_ballot p) mod unat (ballot_delta p)"
  using become_leader_residue [OF assms(1,2)] become_leader_ballot [OF assms(1)] assms(3,4) by auto

theorem ballots_stay_apart_witness:
  "\<exists>p'. become_leader proposer_codec0 clk (sample_proposer\<lparr>pr_is_leader := False\<rparr>) = Some (True, p') \<and>
    pr_is_leader p' \<and> current_ballot p' = 4 \<and> ballot_delta p' = 3 \<and> current_ballot p' \<noteq> 2 \<and>
    unat (current_ballot p') mod 3 = unat (current_ballot sample_proposer) mod 3"
proof -
  have run: "become_leader proposer_codec0 clk (sample_proposer\<lparr>pr_is_leader := False\<rparr>) =
      Some (True, sample_proposer\<lparr>current_ballot := 4\<rparr>)"
    by (simp add: become_leader_def increase_ballot_def save_proposer_def ph_save_state_def
      sample_proposer_def proposer_new_def proposer_helper_new_def sample_config_def)
  have "current_ballot sample_proposer = 1" "ballot_delta sample_proposer = 3" "pr_is_leader sample_proposer"
    by (simp_all add: sample_proposer_def proposer_new_def)
  with ballots_stay_apart [OF run, of 2] run show ?thesis by simp
qed

section \<open>Leader election\<close>

text \<open>
  C15. In every state that heartbeats and checks can lead to, the leader is the proposer with the
  highest id among those the failure detector does not hold dead, and there is none exactly when
  all are dead.
\<close>

theorem leader_is_highest_live:
  assumes "fd_reachable local others delta fd"
  shows "(fd_leader fd = Some l \<longleftrightarrow>
      l \<in> set (proposer_ids fd) \<and> fd_state fd l \<noteq> Dead \<and>
      (\<forall>p \<in> set (proposer_ids fd). fd_state fd p \<noteq> Dead \<longrightarrow> p \<le> l)) \<and>
    (fd_leader fd = None \<longleftrightarrow> (\<forall>p \<in> set (proposer_ids fd). fd_state fd p = Dead))"
  using fd_leader_dead [OF fd_reachable_inv [OF assms]] ld_no_leader [of "fd_ld fd"]
    fd_reachable_inv [OF assms]
  by (auto simp: fd_inv_def fd_leader_def)

theorem leader_is_highest_live_witness:
  "fd_leader (fd_new (mk_node 5 Proposer) [mk_node 6 Proposer, mk_node 1 Acceptor] 0) = Some 6"
  using leader_is_highest_live [OF fd_reachable_new, of "mk_node 5 Proposer" "[mk_node 6 Proposer, mk_node 1 Acceptor]" 0 6]
  by (simp add: fd_new_state proposer_ids_def fd_new_nodes is_proposer_role_def word_le_nat_alt)

text \<open>
  One period of the failure detector: with distinct ids every node that sent a heartbeat since
  the last check is alive after the check, any other one goes from alive to suspected and from
  suspected to dead, and nobody's heartbeat is remembered.
\<close>

theorem checker_transitions:
  assumes "distinct (map node_id (all_nodes fd))" and "n \<in> set (all_nodes fd)"
  shows "fd_state (snd (fd_checker fd)) (node_id n) =
      (if fd_seen fd (node_id n) then Alive
       else case fd_state fd (node_id n) of Alive \<Rightarrow> Suspected | _ \<Rightarrow> Dead) \<and>
    \<not> fd_seen (snd (fd_checker fd)) (node_id n)"
  using fd_checker_state [OF assms(1), of "node_id n"] assms(2) fd_checker_seen [of fd]
  by (cases "fd_seen fd (node_id n)"; cases "fd_state fd (node_id n)") auto

theorem checker_transitions_witness:
  "fd_state (snd (fd_checker (fd_new (mk_node 5 Proposer) [mk_node 6 Proposer] 0))) 6 = Suspected"
  using checker_transitions [of "fd_new (mk_node 5 Proposer) [mk_node 6 Proposer] 0" "mk_node 6 Proposer"]
  by (simp add: fd_new_state fd_new_nodes)

text \<open>
  The leader that a check reports is the leader afterwards, unless there is none any more: an
  answer is stale only when later in the same check the last proposer died.
\<close>

theorem checker_answer_current:
  "fst (fd_checker fd) = Some l \<longrightarrow> fd_leader (snd (fd_checker fd)) \<in> {Some l, None}"
  using fd_checker_answer [of fd] by (auto simp: answer_ok_def split: option.splits)

theorem checker_answer_current_witness:
  "fd_leader (snd (fd_checker fd_all_suspected)) \<in> {Some 5, None}"
  using checker_answer_current [of fd_all_suspected 5] fd_all_suspected_answer by simp

text \<open>
  A proposer that hears from nobody reports itself as the new leader and holds itself dead:
  after two checks without a heartbeat the proposers die in the order of the node list, the
  answer is the last of them, and there is no leader.
\<close>

theorem isolated_proposer_elects_itself:
  "fst (fd_checker fd_all_suspected) = Some 5 \<and> fd_leader (snd (fd_checker fd_all_suspected)) = None \<and>
   fd_state (snd (fd_checker fd_all_suspected)) (fd_local_id fd_all_suspected) = Dead"
  by (simp add: fd_all_suspected_answer fd_all_suspected_after)

section \<open>Storage and the state machine\<close>

text \<open>
  C16. The changelog gives back what was written: on a disk that works, after any records of fewer
  than \<open>2 ^ 32\<close> bytes were appended, whichever of them the write buffer kept, merged or passed
  through, a flush and a load return all records in order.
\<close>

theorem changelog_roundtrip:
  assumes "changelog_holds s bs" and "\<forall>b \<in> set cs. length b < 2 ^ 32"
  shows "fst (load_changes (snd (flush_changes (foldl (\<lambda>s b. snd (save_change b s)) s cs)))) = Inr (bs @ cs)"
  using changelog.append_flush_load [OF assms] by (simp add: changelog.append_all_def)

theorem changelog_roundtrip_witness:
  "fst (load_changes (snd (flush_changes (foldl (\<lambda>s b. snd (save_change b s)) (empty_disk\<lparr>linked := True\<rparr>)
     [''ab'', '''', ''c''])))) = Inr [''ab'', '''', ''c'']"
  using changelog_roundtrip [of "empty_disk\<lparr>linked := True\<rparr>" "[]" "[''ab'', '''', ''c'']"]
  by (simp add: changelog_holds_def empty_disk_def)

text \<open>
  C17. A checkpoint that fails or stops anywhere loses nothing: for every way the system calls may
  fail, either the changelog and all snapshots are as before, or the new snapshot is there in full.
  The timestamp has to be later than those of the snapshots there are, and \<open>max_snapshots\<close>
  above zero: a storage that is to keep none loses both, see \<open>checkpoint_without_snapshots\<close>.
\<close>

theorem checkpoint_crash_safe:
  assumes "hm_ok (snapshot_files s)" and "\<forall>n \<in> set (snapshot_names s). n < snapshot_name ts"
    and "0 < unat (st_max_snapshots s)"
  shows "(changelog_file (snd (checkpoint st ts s)) = changelog_file s \<and>
      changelog_buf (snd (checkpoint st ts s)) = changelog_buf s \<and>
      (\<forall>n. is_snapshot_name n \<longrightarrow>
         hm_get (snapshot_files (snd (checkpoint st ts s))) n = hm_get (snapshot_files s) n)) \<or>
    hm_get (snapshot_files (snd (checkpoint st ts s))) (snapshot_name ts) = Some st"
  using checkpoint_atomic [OF assms, of st "fst (checkpoint st ts s)" "snd (checkpoint st ts s)"] by simp

theorem checkpoint_crash_safe_witness:
  "changelog_file (snd (checkpoint ''st'' ''t'' crashing_disk)) = ''log'' \<or>
   hm_get (snapshot_files (snd (checkpoint ''st'' ''t'' crashing_disk))) (snapshot_name ''t'') = Some ''st''"
  using checkpoint_crash_safe [of crashing_disk "''t''" "''st''"]
  by (auto simp: crashing_disk_def empty_disk_def hm_ok_def snapshot_names_def)

text \<open>
  With \<open>max_snapshots\<close> zero, for which the acceptor and the learner have a test and the storage
  has none, a checkpoint on a disk that works empties the changelog and then removes every snapshot,
  the new one with the state included.
\<close>

theorem checkpoint_without_snapshots:
  assumes "faults s = []" and "linked s" and "hm_ok (snapshot_files s)" and "st_max_snapshots s = 0"
  shows "fst (checkpoint st ts s) = Inr () \<and> changelog_file (snd (checkpoint st ts s)) = [] \<and>
    changelog_buf (snd (checkpoint st ts s)) = [] \<and> snapshot_names (snd (checkpoint st ts s)) = []"
  using checkpoint_works [OF assms(1-3), of st ts] assms(4) by auto

theorem checkpoint_without_snapshots_witness:
  "snapshot_names (snd (checkpoint ''st'' ''t'' (crashing_disk\<lparr>faults := [], st_max_snapshots := 0\<rparr>))) = []"
  using checkpoint_without_snapshots [of "crashing_disk\<lparr>faults := [], st_max_snapshots := 0\<rparr>" "''st''" "''t''"]
  by (simp add: crashing_disk_def empty_disk_def hm_ok_def)

text \<open>
  A checkpoint on a disk that works empties the changelog and keeps at most
  \<open>max_snapshots\<close> snapshots, the newest ones, the new one among them when its timestamp is the
  latest.
\<close>

theorem checkpoint_retention:
  assumes "faults s = []" and "linked s" and "hm_ok (snapshot_files s)"
    and "\<forall>n \<in> set (snapshot_names s). n < snapshot_name ts" and "0 < unat (st_max_snapshots s)"
  shows "fst (checkpoint st ts s) = Inr () \<and>
    changelog_file (snd (checkpoint st ts s)) = [] \<and> changelog_buf (snd (checkpoint st ts s)) = [] \<and>
    length (snapshot_names (snd (checkpoint st ts s))) \<le> unat (st_max_snapshots s) \<and>
    hm_get (snapshot_files (snd (checkpoint st ts s))) (snapshot_name ts) = Some st"
  by (rule checkpoint_keeps_newest [OF assms])

theorem checkpoint_retention_witness:
  "length (snapshot_names (snd (checkpoint ''st'' ''t'' (crashing_disk\<lparr>faults := []\<rparr>)))) \<le> 1"
  using checkpoint_retention [of "crashing_disk\<lparr>faults := []\<rparr>" "''t''" "''st''"]
  by (auto simp: crashing_disk_def empty_disk_def hm_ok_def snapshot_names_def)

text \<open>
  The file of the current state is not replaced atomically: when the write after the
  truncation fails, what the file held (the acceptor's promises, the proposer's ballot) is gone
  and the file is empty.
\<close>

theorem save_state_not_atomic:
  "fst (save_state new (s\<lparr>faults := [None, None, Some (e, 0)]\<rparr>)) = Inl e \<and>
   state_data (snd (save_state new (s\<lparr>faults := [None, None, Some (e, 0)]\<rparr>))) = []"
  by (simp add: save_state_def syscall_def io_bind_eq)

text \<open>
  C18. The key-value store implements the abstract state machine: over any list of commands the
  results are those of a partial function that is updated, the contents are that function, and the
  history lists the commands.
\<close>

theorem kv_store_refines_spec:
  "fst (kv_run cs kv_new) = fst (spec_run cs Map.empty) \<and>
   kv_view (snd (kv_run cs kv_new)) = snd (spec_run cs Map.empty) \<and>
   kv_get_history (snd (kv_run cs kv_new)) = cs"
  using kv_run_refines [of cs kv_new] by (simp add: kv_new_def kv_get_history_def)


section \<open>Messages on the wire\<close>

text \<open>
  C19. Round trip of messages: a message whose strings are well-formed and free of the three
  delimiters, that carries no \<open>Set\<close> and no empty list of slots to retry, comes back as it was,
  except that an accepted no-op in a promise becomes \<open>None\<close> and a result \<open>none\<close> no result.
\<close>

theorem serialize_roundtrip:
  assumes "message_safe m" and "serialize m = Some bs"
  shows "deserialize bs = Some (norm_message m)"
  using assms by (rule message_roundtrip)

theorem serialize_roundtrip_witness:
  "Option.bind (serialize (sample_message (LearnMsg \<lparr>ln_slot = 1, ln_value = get_value ''k''\<rparr>))) deserialize =
   Some (sample_message (LearnMsg \<lparr>ln_slot = 1, ln_value = get_value ''k''\<rparr>))"
proof -
  let ?m = "sample_message (LearnMsg \<lparr>ln_slot = 1, ln_value = get_value ''k''\<rparr>)"
  have "message_safe ?m"
    by (simp add: message_safe_def sample_message_def mk_node_def value_safe_def get_value_def)
  moreover have "norm_message ?m = ?m" by (simp add: norm_message_def sample_message_def)
  moreover obtain bs where "serialize ?m = Some bs" using sample_learn_serialized by blast
  ultimately show ?thesis using serialize_roundtrip by simp
qed

text \<open>
  A frame that was cut anywhere, or that has bytes after its end, is refused with an error.
\<close>

theorem wrong_length_refused:
  assumes "serialize m = Some bs" and "k < length bs \<and> bs' = take k bs \<or> xs \<noteq> [] \<and> bs' = bs @ xs"
  shows "\<exists>e. try_deserialize bs' = Inl e"
proof (cases "k < length bs \<and> bs' = take k bs")
  case True
  then show ?thesis
    using wrong_length_rejected [OF assms(1), of k "[]"] too_short_rejected [of bs'] by (cases "4 \<le> k") auto
next
  case False
  then have "xs \<noteq> [] \<and> bs' = bs @ xs" using assms(2) by blast
  moreover have "4 \<le> length bs" using assms(1) by (auto simp: serialize_def split: if_splits)
  ultimately show ?thesis using wrong_length_rejected [OF assms(1), of "length bs" xs] by simp
qed

theorem wrong_length_refused_witness:
  "\<exists>bs e. serialize (sample_message (LearnMsg \<lparr>ln_slot = 1, ln_value = get_value ''k''\<rparr>)) = Some bs \<and>
     try_deserialize (take 3 bs) = Inl e"
proof -
  obtain bs where bs: "serialize (sample_message (LearnMsg \<lparr>ln_slot = 1, ln_value = get_value ''k''\<rparr>)) = Some bs"
    using sample_learn_serialized by blast
  moreover have "3 < length bs" using bs by (auto simp: serialize_def split: if_splits)
  ultimately show ?thesis using wrong_length_refused [OF bs, of 3 "take 3 bs"] by blast
qed

text \<open>
  C20. A \<open>Set\<close> cannot be sent: the comma that the text of the operation has between key and
  value ends the operation for the reader, so a client request, an accept or a learn with a
  \<open>Set\<close> makes the receiving component panic, however harmless key and value are.
\<close>

theorem set_panics_receiver:
  assumes "command v = Some (Set p)" and "plain (client_id v)" and "plain (kv_key p)" and "plain (kv_value p)"
    and "plain (address n)"
    and "m \<in> {ClientRequest v, AcceptMsg \<lparr>acc_slot = s, acc_ballot = b, acc_value = v\<rparr>,
      LearnMsg \<lparr>ln_slot = s, ln_value = v\<rparr>}"
    and "serialize \<lparr>sender = n, payload = m\<rparr> = Some bs"
  shows "deserialize bs = None"
proof -
  have "m = ClientRequest v \<or> m = AcceptMsg \<lparr>acc_slot = s, acc_ballot = b, acc_value = v\<rparr> \<or>
    m = LearnMsg \<lparr>ln_slot = s, ln_value = v\<rparr>" using assms(6) by blast
  from set_payloads_rejected [OF assms(1-4) this] show ?thesis
    using try_deserialize_message [OF _ _ assms(7)] assms(5) by (simp add: deserialize_def)
qed

theorem set_panics_receiver_witness:
  "Option.bind (serialize (sample_message (LearnMsg \<lparr>ln_slot = 1, ln_value = val_a\<rparr>))) deserialize = None"
proof -
  obtain bs where bs: "serialize (sample_message (LearnMsg \<lparr>ln_slot = 1, ln_value = val_a\<rparr>)) = Some bs"
    using sample_learn_serialized by blast
  have "deserialize bs = None"
    by (rule set_panics_receiver [where v = val_a and s = 1 and n = "mk_node 1 Client" and p = "\<lparr>kv_key = ''x'', kv_value = ''a''\<rparr>", OF _ _ _ _ _ _ bs [unfolded sample_message_def]])
      (simp_all add: val_a_def set_value_def mk_node_def)
  with bs show ?thesis by simp
qed

text \<open>
  Keys are not escaped: an accept for \<open>get("x,op:clear,")\<close> arrives as an accept for
  \<open>clear\<close>, an operation that the client did not send.
\<close>

theorem key_smuggles_clear:
  assumes "command (acc_value a) = Some (Get ''x,op:clear,'')" and "plain (client_id (acc_value a))"
    and "plain (address n)" and "serialize \<lparr>sender = n, payload = AcceptMsg a\<rparr> = Some bs"
  shows "deserialize bs =
    Some \<lparr>sender = n, payload = AcceptMsg (a\<lparr>acc_value := (acc_value a)\<lparr>command := Some Clear\<rparr>\<rparr>)\<rparr>"
  using try_deserialize_message [OF _ _ assms(4)] smuggled_operation [OF assms(1,2)] assms(3)
  by (simp add: deserialize_def del: serialize_message_payload.simps)

theorem key_smuggles_clear_witness:
  "Option.bind (serialize (sample_message (AcceptMsg \<lparr>acc_slot = 1, acc_ballot = 1, acc_value = get_value ''x,op:clear,''\<rparr>))) deserialize =
   Some (sample_message (AcceptMsg \<lparr>acc_slot = 1, acc_ballot = 1, acc_value = (get_value ''x,op:clear,'')\<lparr>command := Some Clear\<rparr>\<rparr>))"
proof -
  obtain bs where bs: "serialize (sample_message (AcceptMsg \<lparr>acc_slot = 1, acc_ballot = 1, acc_value = get_value ''x,op:clear,''\<rparr>)) = Some bs"
    using sample_accept_serialized by blast
  then show ?thesis
    using key_smuggles_clear [OF _ _ _ bs [unfolded sample_message_def]]
    by (simp add: get_value_def mk_node_def sample_message_def)
qed


section \<open>The proposer agent\<close>

text \<open>
  C21. What a leader without a crash list proposes in a tick: the values at the head of its queues
  (the prioritised ones first), at most \<open>batch_size\<close> of them, in the consecutive slots that follow
  its current slot and with its current ballot.
\<close>

theorem tick_proposes_in_order:
  assumes "pr_is_leader (pa_proposer ag)" and "slot_crash_list ag = []"
  shows "\<exists>props ag'. proposals_to_accept ag = Some (props, [], ag') \<and>
    map prop_value props = take (unat (batch_size (pa_config ag)))
      (prioritized_values (pa_proposer ag) @ pending_client_requests (pa_proposer ag)) \<and>
    map prop_slot props = map (\<lambda>i. current_slot (pa_proposer ag) + 1 + of_nat i) [0..<length props] \<and>
    (\<forall>prop \<in> set props. prop_ballot prop = current_ballot (pa_proposer ag))"
  using accept_loop_exact [OF assms] unfolding proposals_to_accept_def by blast

theorem tick_proposes_in_order_witness:
  "\<exists>props ag'. proposals_to_accept (sample_pa AcceptCommit (sample_proposer\<lparr>pending_client_requests := [val_a, val_b]\<rparr>) [])
      = Some (props, [], ag') \<and> map prop_value props = [val_a, val_b]"
  using tick_proposes_in_order [of "sample_pa AcceptCommit (sample_proposer\<lparr>pending_client_requests := [val_a, val_b]\<rparr>) []"]
  by (auto simp: sample_config_def)

text \<open>
  C22. The agent's accept quorum is exact: an accepted reply makes a proposal in flight chosen if
  and only if, with it, the latest replies of a majority of the acceptors accept that slot with
  that ballot.
\<close>

theorem accepted_quorum_exact:
  assumes "replies_ok (in_flight_accepted ag)" and "slots_ok (pa_proposer ag)"
    and "pa_num_acceptors ag = as_usize (pr_num_acceptors (pa_proposer ag))"
    and "unat (pr_num_acceptors (pa_proposer ag)) < 2 ^ 32"
    and "get_proposal_by_status (ad_slot a) InFlight (pa_proposer ag) = Some p"
  shows "get_proposal_by_status (ad_slot a) Chosen (pa_proposer (handle_accepted a n ag)) = Some p \<longleftrightarrow>
    unat (pr_num_acceptors (pa_proposer ag)) div 2 < card (acceptors_of (snd (insert_and_check_accepted a n ag)) p)"
proof -
  let ?n = "pr_num_acceptors (pa_proposer ag)"
  have q: "proposer_quorum ?n = unat ?n div 2 + 1"
    using assms(4) by (simp add: proposer_quorum_def as_usize_def unat_word_ariths unat_div)
  have "agent_quorum (pa_num_acceptors ag) = proposer_quorum ?n" using agent_quorum_eq [OF assms(4)] assms(3) by simp
  note eq = handle_accepted_eq [OF assms(1) this assms(2,5), where n = n]
  have "get_proposal_by_status (ad_slot a) Chosen (pa_proposer ag) \<noteq> Some p"
    using assms(5) by (auto simp: get_proposal_by_status_Some)
  moreover have "get_proposal_by_status (ad_slot a) Chosen (snd (mark_proposal_chosen (ad_slot a) (pa_proposer ag))) = Some p"
    using assms(2,5) by (intro mark_proposal_chosen_status) (simp_all add: slots_ok_def)
  ultimately show ?thesis using eq q by auto
qed

theorem accepted_quorum_exact_witness:
  "get_proposal_by_status 1 Chosen (pa_proposer (handle_accepted \<lparr>ad_slot = 1, ad_ballot = 1, ad_success = True\<rparr>
      (mk_node 1 Acceptor) (sample_pa AcceptCommit proposer_in_flight []))) = Some \<lparr>prop_slot = 1, prop_ballot = 1, prop_value = val_a\<rparr>
   \<longleftrightarrow> 1 < card (acceptors_of (snd (insert_and_check_accepted \<lparr>ad_slot = 1, ad_ballot = 1, ad_success = True\<rparr>
      (mk_node 1 Acceptor) (sample_pa AcceptCommit proposer_in_flight []))) \<lparr>prop_slot = 1, prop_ballot = 1, prop_value = val_a\<rparr>)"
  using accepted_quorum_exact [of "sample_pa AcceptCommit proposer_in_flight []"
      "\<lparr>ad_slot = 1, ad_ballot = 1, ad_success = True\<rparr>" "\<lparr>prop_slot = 1, prop_ballot = 1, prop_value = val_a\<rparr>" "mk_node 1 Acceptor"]
  by (simp add: replies_ok_def slots_ok_def proposer_in_flight_def as_usize_def proposals_simps bt_ok_def
      get_proposal_by_status_def get_proposal_by_def)

text \<open>
  Every learner reports what it executed, so a leader hears of a slot several times: after one
  report, reports of the same slots from any learner change nothing, so a client gets one answer.
\<close>

theorem duplicate_executed_harmless:
  assumes "process_executed cd c ex ag = Some ((), out, ag')" and "pr_is_leader (pa_proposer ag)"
    and "bt_ok (proposals (pa_proposer ag))"
    and "er_slot ` set (ex_results ex') \<subseteq> er_slot ` set (ex_results ex)" and "ex_adu ex' \<le> ex_adu ex"
  shows "process_executed cd c' ex' ag' = Some ((), [], ag')"
proof (rule process_executed_idle)
  note after = process_executed_leader [OF assms(1-3)]
  show "\<forall>r \<in> set (ex_results ex'). settled (er_slot r) (pa_proposer ag')" using after assms(4) by fastforce
  show "ex_adu ex' \<le> pr_adu (pa_proposer ag')" using after assms(5) by (meson order.trans)
qed

theorem duplicate_executed_harmless_witness:
  "\<exists>ag'. process_executed proposer_codec0 clk \<lparr>ex_results = [\<lparr>er_value = val_a, er_slot = 1, er_success = True, er_cmd_result = CmdValue None\<rparr>], ex_adu = 0\<rparr>
      (sample_pa AcceptCommit proposer_in_flight []) = Some ((), [], ag') \<and>
    process_executed proposer_codec0 clk \<lparr>ex_results = [\<lparr>er_value = val_a, er_slot = 1, er_success = True, er_cmd_result = NoOp\<rparr>], ex_adu = 0\<rparr> ag'
      = Some ((), [], ag')"
proof -
  let ?ex = "\<lparr>ex_results = [\<lparr>er_value = val_a, er_slot = 1, er_success = True, er_cmd_result = CmdValue None\<rparr>], ex_adu = 0\<rparr>"
  obtain ag' where "process_executed proposer_codec0 clk ?ex (sample_pa AcceptCommit proposer_in_flight []) = Some ((), [], ag')"
    by (simp add: process_executed_def)
  with duplicate_executed_harmless [OF this] show ?thesis
    by (simp add: proposer_in_flight_def proposals_simps bt_ok_def)
qed

text \<open>
  C23. The phases of a proposer go around one machine, whatever it receives; only a tick in
  \<open>PrepareSend\<close> sends a prepare; and a proposer that has reached \<open>AcceptCommit\<close> never leaves it and
  never prepares again, also when it resigns and is elected again with a higher ballot.
\<close>

theorem no_prepare_after_accept_commit:
  "(pa_step cd net e ag = Some (u, out, ag') \<longrightarrow>
      phase_step (pa_phase ag) (pa_phase ag') \<and> (quiet out \<or> snd e = PaTick \<and> pa_phase ag = PrepareSend)) \<and>
   (pa_phase ag = AcceptCommit \<longrightarrow> pa_run cd net es ag = Some (u, out, ag') \<longrightarrow>
      pa_phase ag' = AcceptCommit \<and> quiet out)"
  using pa_step_phase pa_run_accept_commit by blast

theorem no_prepare_after_accept_commit_witness:
  "\<exists>ag'. pa_run proposer_codec0 (\<lambda>ns m. []) [(clk, PaResignLeader), (clk, PaBecomeLeader)] (sample_pa AcceptCommit sample_proposer [])
      = Some ((), [], ag') \<and> current_ballot (pa_proposer ag') = 4 \<and> pr_is_leader (pa_proposer ag') \<and> pa_phase ag' = AcceptCommit"
proof -
  obtain ag' where run: "pa_run proposer_codec0 (\<lambda>ns m. []) [(clk, PaResignLeader), (clk, PaBecomeLeader)] (sample_pa AcceptCommit sample_proposer [])
      = Some ((), [], ag')" "current_ballot (pa_proposer ag') = 4" "pr_is_leader (pa_proposer ag')"
    by (simp add: pa_run_def pa_resign_leader_def on_proposer_def resign_leader_def pa_become_leader_def
        on_proposer_saved_def become_leader_def increase_ballot_def save_proposer_def ph_save_state_def)
  from no_prepare_after_accept_commit [THEN conjunct2, rule_format, OF _ run(1)] run show ?thesis by simp
qed

text \<open>
  C24. A late promise can stop the ticks of a proposer for good: when the prepare round has timed out
  and a promise then completes the quorum before the next tick, the proposer waits in
  \<open>PreparePending\<close> without a start time, and no tick at any later time does anything.
\<close>

theorem late_promise_wedges:
  assumes "pa_phase ag = PrepareSend" and "last_prepare_start ag = None"
    and "pa_phase (handle_promise pr n ag) \<noteq> PrepareSend"
  shows "pa_handle_tick cd net c (handle_promise pr n ag) = Some (None, [], handle_promise pr n ag)"
proof (rule pending_without_start)
  show "pa_phase (handle_promise pr n ag) = PreparePending"
    using handle_promise_phase [of pr n ag] assms(1,3) by (auto simp: next_phase_def)
  show "last_prepare_start (handle_promise pr n ag) = None" using assms(2) by simp
qed

theorem late_promise_wedges_witness:
  "let ag = handle_promise promise_1 (mk_node 2 Acceptor) (sample_pa PrepareSend sample_proposer [(1, promise_1)])
   in \<forall>c. pa_handle_tick proposer_codec0 (\<lambda>ns m. []) c ag = Some (None, [], ag)"
  using late_promise_wedges [of "sample_pa PrepareSend sample_proposer [(1, promise_1)]"] sample_late_promise
  by simp

text \<open>
  C25. A promise that comes after the quorum can make a leader have a value learned that no acceptor
  accepted. When exactly the first slot of the round has been proposed, the comparison with the
  current slot lets the promise through and the current slot is reset, so the next proposal, whatever
  its value, has the slot and the ballot of the one before. An acceptor that has accepted the first
  one keeps it and refuses the second, but the replies to the first one name no value: when they come
  from a majority of the acceptors, a leader that sends the learns itself sends one with the second value.
\<close>

theorem late_promise_learns_unaccepted:
  fixes ag m n
  defines "ag2 \<equiv> (handle_promise m n ag)\<lparr>pa_proposer := snd (create_proposal (pa_proposer (handle_promise m n ag)))\<rparr>"
  assumes "fst (create_proposal p) = Some pr" and "pa_proposer ag = snd (create_proposal p)"
    and "prom_slot m = prop_slot pr" and "0 < prom_slot m"
    and "fst (insert_and_check_promises m n ag) = Some (b, ps)"
    and "fst (process_prepare (prom_slot m) ps (pa_proposer ag)) = PrepareSuccess"
    and "fst (create_proposal (pa_proposer (handle_promise m n ag))) = Some pr'"
    and "slots_ok (pa_proposer ag)" and "chosen_slots (pa_proposer ag) = []" and "0 < batch_size (pa_config ag)"
    and "replies_ok (in_flight_accepted ag)" and "entry_of (in_flight_accepted ag) (prop_slot pr) = []"
    and "pa_num_acceptors ag = as_usize (pr_num_acceptors (pa_proposer ag))"
    and "unat (pr_num_acceptors (pa_proposer ag)) < 2 ^ 32"
    and "distinct (map node_id ns)" and "length ns = agent_quorum (pa_num_acceptors ag)"
    and "\<not> sh_enabled (acc_storage a)" and "bt_ok (accepted_map a)" and "highest_promised_ballot a \<le> prop_ballot pr"
    and "bt_get (accepted_map a) (prop_slot pr) = None" and "prop_value pr' \<noteq> prop_value pr"
  shows "\<exists>reply a'. acceptor_accept cd c (prop_slot pr) (prop_ballot pr) (prop_value pr) a = (AcceptedOk reply, a') \<and>
    prop_slot pr' = prop_slot pr \<and> prop_ballot pr' = prop_ballot pr \<and>
    fst (acceptor_accept cd c' (prop_slot pr') (prop_ballot pr') (prop_value pr') a') = AcceptedRejected (prop_ballot pr) \<and>
    \<lparr>ln_slot = prop_slot pr, ln_value = prop_value pr'\<rparr> \<in>
      set (fst (learns_to_commit (foldl (\<lambda>ag n. handle_accepted reply n ag) ag2 ns)))"
proof -
  have same: "prop_slot pr' = prop_slot pr" "prop_ballot pr' = prop_ballot pr"
    using late_promise_slot [OF assms(2,4,5,6,3,7,8)] by simp_all
  let ?reply = "\<lparr>ad_slot = prop_slot pr, ad_ballot = prop_ballot pr, ad_success = True\<rparr>"
  obtain a' where a': "acceptor_accept cd c (prop_slot pr) (prop_ballot pr) (prop_value pr) a = (AcceptedOk ?reply, a')"
    "fst (acceptor_accept cd c' (prop_slot pr) (prop_ballot pr) (prop_value pr') a') = AcceptedRejected (prop_ballot pr)"
    using acceptor_takes_first [OF assms(18-21), of cd c "prop_value pr" "prop_value pr'" c'] assms(22)
    by (cases "acceptor_accept cd c (prop_slot pr) (prop_ballot pr) (prop_value pr) a") auto
  have "entry_of (in_flight_accepted ag) (prop_slot pr') = []" "matching pr' ?reply"
    using assms(13) same by (simp_all add: matching_def)
  from late_promise_learns [OF assms(6,9-11,8,12) this(1) assms(14-17) this(2)] a' same
  show ?thesis by (simp add: ag2_def)
qed

theorem late_promise_learns_unaccepted_witness:
  "\<exists>reply a' ag2. acceptor_accept acceptor_codec0 clk 1 1 val_a (aa_acceptor (sample_acceptor_agent 1)) = (AcceptedOk reply, a') \<and>
     fst (acceptor_accept acceptor_codec0 clk 1 1 val_b a') = AcceptedRejected 1 \<and>
     \<lparr>ln_slot = 1, ln_value = val_b\<rparr> \<in> set (fst (learns_to_commit
       (foldl (\<lambda>ag n. handle_accepted reply n ag) ag2 [mk_node 1 Acceptor, mk_node 2 Acceptor])))"
proof -
  let ?ag = "sample_pa AcceptCommit (snd (create_proposal proposer_two_requests)) [(1, promise_1), (2, promise_1)]"
  have "chosen_slots sample_proposer = []" by (simp add: sample_proposer_def proposer_new_def)
  then have ag: "slots_ok (pa_proposer ?ag)" "chosen_slots (pa_proposer ?ag) = []" "0 < batch_size (pa_config ?ag)"
    "pa_num_acceptors ?ag = as_usize (pr_num_acceptors (pa_proposer ?ag))" "unat (pr_num_acceptors (pa_proposer ?ag)) < 2 ^ 32"
    by (simp_all add: proposer_two_requests_def create_proposal_def next_value_def get_next_slot_def Let_def
        slots_ok_def bt_ok_def sample_config_def as_usize_def)
  have replies: "replies_ok (in_flight_accepted ?ag)" "entry_of (in_flight_accepted ?ag) 1 = []"
    by (simp_all add: replies_ok_def entry_of_def bt_ok_def)
  have nodes: "distinct (map node_id [mk_node 1 Acceptor, mk_node 2 Acceptor])"
    "length [mk_node 1 Acceptor, mk_node 2 Acceptor] = agent_quorum (pa_num_acceptors ?ag)"
    by (simp_all add: mk_node_def agent_quorum_def)
  have a: "\<not> sh_enabled (acc_storage (aa_acceptor (sample_acceptor_agent 1)))" "bt_ok (accepted_map (aa_acceptor (sample_acceptor_agent 1)))"
    "highest_promised_ballot (aa_acceptor (sample_acceptor_agent 1)) \<le> 1"
    "bt_get (accepted_map (aa_acceptor (sample_acceptor_agent 1))) 1 = None"
    using sample_acceptor_agent_initial [of 1] by (simp_all add: initial_acceptor_def highest_promised_ballot_def bt_ok_def)
  have "fst (process_prepare 1 [promise_1, promise_1, promise_1] (pa_proposer ?ag)) = PrepareSuccess" "val_b \<noteq> val_a"
    using two_requests_first(2) by (simp_all add: val_a_def val_b_def set_value_def)
  from late_promise_learns_unaccepted [OF two_requests_first(1) _ _ _ sample_pa_promise(1) _ two_requests_second ag(1-3) replies(1) _
      ag(4,5) nodes, of "aa_acceptor (sample_acceptor_agent 1)" acceptor_codec0 clk clk] a replies(2) this
  show ?thesis by auto
qed

section \<open>Transport\<close>

text \<open>
  C26. TCP delivery: what a client sends to a node over a connection that stays up arrives at the
  node's server once each and in order, however the stream is cut into reads and wherever the cuts
  fall, and leaves nothing in its buffer; every write is of at most 4096 bytes. (The texts are those
  that survive the serializer, and the stream is shorter than \<open>2 ^ 32\<close> bytes.)
\<close>

theorem tcp_delivers_in_order:
  assumes "address n \<in> set (peer_conns c)" and "\<forall>x \<in> set sends. deliverable x"
    and "post connect n sends c = Some (out, c')" and "length (concat out) < 2 ^ 32"
    and "concat (map snd calls) = concat out"
    and "\<forall>(order, chunk) \<in> set calls. ch \<in> set order \<and> distinct order \<and> chunk \<noteq> []"
    and "hm_get (buffers s) ch = Some []"
  shows "(\<exists>s'. serve limit ch calls s = Some (map (\<lambda>x. norm_message (snd x)) sends, s') \<and> hm_get (buffers s') ch = Some []) \<and>
    (\<forall>chunk \<in> set out. length chunk \<le> 4096)"
  using post_serve [OF assms] post_small [OF assms(3)] by (auto simp: max_wasi_chunk_def)

theorem tcp_delivers_in_order_witness:
  "\<exists>out c' s'. post (\<lambda>a. BadAddress) (mk_node 2 Acceptor) sample_sends sample_client = Some (out, c') \<and>
     serve 10 1 [([1, 2], take 5 (concat out)), ([2, 1], drop 5 (concat out))] sample_server =
     Some ([sample_message Heartbeat, sample_message (ClientRequest (get_value ''k''))], s')"
proof -
  note up = sample_connection(1) and ok = sample_connection(2)
  from post_bounds [OF up ok, of "\<lambda>a. BadAddress"] obtain out where
    out: "post (\<lambda>a. BadAddress) (mk_node 2 Acceptor) sample_sends sample_client = Some (out, sample_client)"
    "4 * length sample_sends \<le> length (concat out)"
    "length (concat out) \<le> sum_list (map fst sample_sends) * max_wasi_chunk" by blast
  have small: "length (concat out) < 2 ^ 32" using out(3) by (simp add: max_wasi_chunk_def sample_sends_def)
  have long: "5 < length (concat out)" using out(2) by (simp add: sample_sends_def)
  let ?calls = "[([1, 2], take 5 (concat out)), ([2, 1], drop 5 (concat out))] :: (u64 list \<times> bytes) list"
  have calls: "concat (map snd ?calls) = concat out"
    "\<forall>(order, chunk) \<in> set ?calls. 1 \<in> set order \<and> distinct order \<and> chunk \<noteq> []" using long by (cases "concat out"; auto)+
  from tcp_delivers_in_order [OF up ok out(1) small calls sample_connection(3), of 10] obtain s' where
    "serve 10 1 ?calls sample_server = Some (map (\<lambda>x. norm_message (snd x)) sample_sends, s')" by blast
  with out(1) show ?thesis by (simp add: sample_norm sample_sends_def)
qed

text \<open>
  C27. Four bytes stop a node: when the length at the beginning of a frame is at least
  \<open>2 ^ 32 - 4\<close>, the end of the frame wraps around, the frame passes for complete, and the slice
  panics, in the server for nodes and in the server for clients, whoever is connected besides.
\<close>

theorem hostile_length_panics:
  assumes "wrapping (b @ chunk)" and "chunk \<noteq> []" and "read ch = Some chunk"
    and "\<forall>c \<in> set idle. read c = Some [] \<or> read c = None"
    and "hm_get (buffers s) ch = Some b" and "hm_get (buffers t) ch = Some b"
  shows "get_messages limit 0 (idle @ ch # others) read s = None \<and>
    get_requests limit 0 (idle @ ch # others) read t = None"
proof
  have "frames server_incomplete 0 (b @ chunk) = None" "frames client_incomplete 0 (b @ chunk) = None"
    using wrapping_frames [OF assms(1)] by simp_all
  note panics = read_conns_panic [OF assms(4,3,2) assms(5) this(1)] read_clients_panic [OF assms(4,3,2) assms(6) this(2)]
  from panics(1) show "get_messages limit 0 (idle @ ch # others) read s = None"
    by (simp add: get_messages_def accept_conns_def Let_def)
  from panics(2) show "get_requests limit 0 (idle @ ch # others) read t = None"
    by (simp add: get_requests_def accept_conns_def Let_def)
qed

theorem hostile_length_panics_witness:
  "get_messages 10 0 [1] (\<lambda>c. Some (u32_to_be_bytes 4294967295)) (accept_one_conn net_server_new) = None \<and>
   get_requests 10 0 [1] (\<lambda>c. Some (u32_to_be_bytes 4294967295)) (accept_one_conn client_server_new) = None"
proof -
  have "u32_from_be_bytes (u32_to_be_bytes 4294967295) = 4294967295" by (rule u32_be_roundtrip) simp
  then have "wrapping ([] @ u32_to_be_bytes 4294967295)" by (simp add: wrapping_def)
  moreover have "u32_to_be_bytes 4294967295 \<noteq> []" by (simp add: u32_to_be_bytes_def)
  ultimately show ?thesis
    using hostile_length_panics [where b = "[]" and ch = 1 and idle = "[]" and others = "[]" and limit = 10 and
        read = "\<lambda>c. Some (u32_to_be_bytes 4294967295)" and s = "accept_one_conn net_server_new" and
        t = "accept_one_conn client_server_new"] fresh_connection by simp
qed

text \<open>
  Answers find their way: after a read that holds whole frames, the server for clients hands
  out exactly the requests among them, in order; and the answer to any of them is written to the
  connection that carried it, while it lasts. When that write fails the server panics.
\<close>

theorem answer_returns_to_requester:
  assumes "list_all2 framed fs ms" and "b @ chunk = concat fs" and "length (concat fs) < 2 ^ 32"
    and "ch \<in> set order" and "distinct order" and "hm_get (buffers s) ch = Some b" and "chunk \<noteq> []"
    and "get_requests limit 0 order (\<lambda>c. Some (if c = ch then chunk else [])) s = Some (vs, s')"
    and "v \<in> set vs" and "response_key r = (client_id v, client_seq v)" and "ch \<in> set (conns s)"
    and "serialize \<lparr>sender = me, payload = ClientResponse r\<rparr> = Some bs"
  shows "vs = requests ms \<and>
    send_responses write me [r] s' =
      (if write ch bs then Some ([(ch, bs)], s'\<lparr>req_chan := hm_remove (response_key r) (req_chan s')\<rparr>) else None)"
proof -
  from get_requests_one [OF assms(1-7), of limit] assms(8) have got: "vs = requests ms" "conns s' = conns s"
    "hm_get (req_chan s') (client_id v, client_seq v) =
      (if (client_id v, client_seq v) \<in> (\<lambda>v. (client_id v, client_seq v)) ` set (requests ms) then Some ch
       else hm_get (req_chan s) (client_id v, client_seq v))" by auto
  with assms(9) have "hm_get (req_chan s') (client_id v, client_seq v) = Some ch" by simp
  with assms(10) have "hm_get (req_chan s') (response_key r) = Some ch" by simp
  with answer_one [of s' r ch me bs "write"] got(1,2) assms(11,12) show ?thesis by simp
qed

theorem answer_returns_to_requester_witness:
  "\<exists>f bs s'. serialize (sample_message (ClientRequest (get_value ''k''))) = Some f \<and>
    serialize (sample_message (ClientResponse sample_response)) = Some bs \<and>
    get_requests 10 0 [1] (\<lambda>c. Some (if c = 1 then f else [])) (accept_one_conn client_server_new) = Some ([get_value ''k''], s') \<and>
    send_responses (\<lambda>c b. True) (mk_node 1 Client) [sample_response] s' =
      Some ([(1, bs)], s'\<lparr>req_chan := hm_remove (''c'', 1) (req_chan s')\<rparr>) \<and>
    send_responses (\<lambda>c b. False) (mk_node 1 Client) [sample_response] s' = None"
proof -
  let ?m = "sample_message (ClientRequest (get_value ''k''))" and ?s = "accept_one_conn client_server_new"
  obtain f where f: "serialize ?m = Some f" "message_safe ?m" "length f \<le> 4096"
    using sample_deliverable(2) by (auto simp: deliverable_def max_wasi_chunk_def)
  obtain bs where bs: "serialize \<lparr>sender = mk_node 1 Client, payload = ClientResponse sample_response\<rparr> = Some bs"
    using sample_response_serialized by (auto simp: sample_message_def)
  have framed: "list_all2 framed [f] [?m]" "[] @ f = concat [f]" "length (concat [f]) < 2 ^ 32" "f \<noteq> []"
    using serialize_framed [OF f(2,1)] f(3) framed_length by (fastforce simp: sample_norm)+
  note s = fresh_connection(3,4)
  have rq: "requests [?m] = [get_value ''k'']" by (simp add: sample_message_def)
  from get_requests_one [OF framed(1-3) _ _ s(1) framed(4), of "[1]" 10] rq obtain s' where
    s': "get_requests 10 0 [1] (\<lambda>c. Some (if c = 1 then f else [])) ?s = Some ([get_value ''k''], s')" by auto
  from answer_returns_to_requester [OF framed(1-3) _ _ s(1) framed(4) s' _ _ s(2) bs, of "get_value ''k''"]
  have "send_responses w (mk_node 1 Client) [sample_response] s' =
      (if w 1 bs then Some ([(1, bs)], s'\<lparr>req_chan := hm_remove (''c'', 1) (req_chan s')\<rparr>) else None)" for w
    by (simp add: get_value_def sample_response_def)
  with f(1) bs s' show ?thesis by (auto simp: sample_message_def)
qed

text \<open>
  C28. Nothing is answered that was not asked for, and nothing twice: when \<open>send_responses\<close> returns,
  each answer it has written went to the live connection that was noted for its request, no noted
  live connection refused every write, and answers to the same requests are not written again,
  whoever gives them.
\<close>

theorem answers_once:
  assumes "send_responses write me replies s = Some (sent, s')"
  shows "(\<forall>(ch, bs) \<in> set sent. \<exists>r \<in> set replies. hm_get (req_chan s) (response_key r) = Some ch \<and>
      ch \<in> set (conns s) \<and> write ch bs \<and> serialize \<lparr>sender = me, payload = ClientResponse r\<rparr> = Some bs) \<and>
    (\<forall>r \<in> set replies. \<forall>ch \<in> set (conns s). hm_get (req_chan s) (response_key r) = Some ch \<longrightarrow> (\<exists>bs. write ch bs)) \<and>
    (response_key ` set replies' \<subseteq> response_key ` set replies \<longrightarrow> send_responses write' me replies' s' = Some ([], s'))"
  using send_responses_safe [OF assms] by blast

theorem answers_once_witness:
  "\<exists>bs s'. send_responses (\<lambda>c b. True) (mk_node 1 Client) [sample_response, sample_response]
      ((accept_one_conn client_server_new)\<lparr>req_chan := [((''c'', 1), 1)]\<rparr>) = Some ([(1, bs)], s') \<and>
    send_responses (\<lambda>c b. True) (mk_node 1 Client) [sample_response] s' = Some ([], s')"
proof -
  obtain bs where bs: "serialize \<lparr>sender = mk_node 1 Client, payload = ClientResponse sample_response\<rparr> = Some bs"
    using sample_response_serialized by (auto simp: sample_message_def)
  let ?s = "(accept_one_conn client_server_new)\<lparr>req_chan := [((''c'', 1), 1)]\<rparr>"
  have run: "send_responses (\<lambda>c b. True) (mk_node 1 Client) [sample_response, sample_response] ?s =
      Some ([(1, bs)], ?s\<lparr>req_chan := []\<rparr>)"
    using bs by (simp add: send_responses_def sample_response_def accept_one_conn_def client_server_new_def hm_remove_def)
  from answers_once [OF run, of "[sample_response]" "\<lambda>c b. True"] run show ?thesis by auto
qed

section \<open>The client\<close>

text \<open>
  C29. From the client and back, for a request that is no \<open>Set\<close> and whose strings are free of the
  delimiters, an answer that the wire carries as well (\<open>message_safe\<close>), and texts shorter than
  \<open>2 ^ 32\<close> bytes: over a connection that is up, with nothing waiting in the buffers, the server for
  clients reads exactly the request that \<open>send_request\<close> was given, the answer to it is written to
  the connection that carried it, and \<open>try_receive\<close> gives exactly that answer, with its result
  as the wire keeps it, in however many reads it arrives.
\<close>

theorem client_round_trip:
  assumes "conn_idle leader pc" and "value_safe v" and "serialize (request_message v) = Some bs" and "length bs < 2 ^ 32"
    and "hm_get (buffers s) ch = Some []" and "ch \<in> set (conns s)" and "ch \<in> set order" and "distinct order"
    and "response_key r = (client_id v, client_seq v)" and "message_safe \<lparr>sender = me, payload = ClientResponse r\<rparr>"
    and "serialize \<lparr>sender = me, payload = ClientResponse r\<rparr> = Some bs'" and "concat chunks = bs'" and "length bs' < 2 ^ 32"
  shows "\<exists>pc1 s1 s2 pc2. call_send (Connected, True) leader v pc = Some (True, [bs], pc1) \<and>
    get_requests limit 0 order (\<lambda>c. Some (if c = ch then bs else [])) s = Some ([v], s1) \<and>
    send_responses (\<lambda>_ _. True) me [r] s1 = Some ([(ch, bs')], s2) \<and>
    receives leader chunks pc1 = Some ([r\<lparr>command_result := norm_result (command_result r)\<rparr>], pc2)"
proof -
  from send_idle [OF assms(1,3)] obtain pc1 where
    pc1: "call_send (Connected, True) leader v pc = Some (True, [bs], pc1)" "receiving leader [] pc1" by blast
  have "framed bs (request_message v)" by (rule request_framed [OF assms(2,3)])
  then have "list_all2 framed [bs] [request_message v]" "[] @ bs = concat [bs]" "length (concat [bs]) < 2 ^ 32" "bs \<noteq> []"
    using assms(4) framed_length by fastforce+
  from get_requests_one [OF this(1-3) assms(7,8,5) this(4), of limit] obtain s1 where
    s1: "get_requests limit 0 order (\<lambda>c. Some (if c = ch then bs else [])) s = Some ([v], s1)"
    "conns s1 = conns s" "hm_get (req_chan s1) (client_id v, client_seq v) = Some ch"
    by (auto simp: request_message_def)
  from answer_one [of s1 r ch me bs' "\<lambda>_ _. True"] s1 assms(6,9,11) obtain s2 where
    s2: "send_responses (\<lambda>_ _. True) me [r] s1 = Some ([(ch, bs')], s2)" by simp
  from serialize_framed [OF assms(10,11)]
  have "list_all2 framed [bs'] [norm_message \<lparr>sender = me, payload = ClientResponse r\<rparr>]" by simp
  from receives_frames [OF pc1(2) this, of chunks] assms(12,13) obtain pc2 where
    "receives leader chunks pc1 = Some ([r\<lparr>command_result := norm_result (command_result r)\<rparr>], pc2)"
    by (auto simp: norm_message_def)
  with pc1 s1 s2 show ?thesis by blast
qed

theorem client_round_trip_witness:
  "\<exists>bs bs' pc1 s1 s2 pc2. call_send (Connected, True) ''leader'' (get_value ''k'') paxos_client_new = Some (True, [bs], pc1) \<and>
    get_requests 10 0 [1] (\<lambda>c. Some (if c = 1 then bs else [])) (accept_one_conn client_server_new) = Some ([get_value ''k''], s1) \<and>
    send_responses (\<lambda>_ _. True) (mk_node 1 Client) [sample_response] s1 = Some ([(1, bs')], s2) \<and>
    receives ''leader'' [take 3 bs', drop 3 bs'] pc1 = Some ([sample_response], pc2)"
proof -
  obtain bs where bs: "serialize (request_message (get_value ''k'')) = Some bs" "length bs < 2 ^ 32"
    using sample_request_serialized by blast
  obtain bs' where bs': "serialize \<lparr>sender = mk_node 1 Client, payload = ClientResponse sample_response\<rparr> = Some bs'" "length bs' < 2 ^ 32"
    using sample_answer_serialized by blast
  have safe: "value_safe (get_value ''k'')" "message_safe \<lparr>sender = mk_node 1 Client, payload = ClientResponse sample_response\<rparr>"
    by (simp_all add: value_safe_def get_value_def message_safe_def mk_node_def sample_response_def)
  have "response_key sample_response = (client_id (get_value ''k''), client_seq (get_value ''k''))"
    "concat [take 3 bs', drop 3 bs'] = bs'"
    by (simp_all add: sample_response_def get_value_def)
  from client_round_trip [OF logical_client_start(2) safe(1) bs fresh_connection(3,4) _ _ this(1) safe(2) bs'(1) this(2) bs'(2),
      of "[1]" "''leader''" 10]
  show ?thesis by (fastforce simp: sample_response_def)
qed

text \<open>
  C30. A logical client has one request in flight: whatever connections, writes, reads and times its
  iterations bring, at most one request is in flight, every request that was sent is done or in
  flight, no request is done twice, there are at most as many latencies as requests that were sent
  and are not in flight, and what it has written are requests with a sequence number below its quota
  (or, when the leader is away before the first request, the number before 0).
\<close>

theorem client_one_in_flight:
  assumes "run_logical_client i num leader deadline its (logical_client_new, paxos_client_new) = Some (out, lc, pc)"
  shows "length (lc_sent lc) \<le> 1 \<and> lc_next lc \<le> num \<and> distinct (lc_seen lc) \<and>
    (\<forall>s < lc_next lc. s \<in> set (lc_seen lc) \<or> hm_get (lc_sent lc) s \<noteq> None) \<and>
    length (lc_lats lc) + length (lc_sent lc) \<le> unat (lc_next lc) \<and>
    (\<forall>bs \<in> set out. \<exists>s. (s < num \<or> s = - 1) \<and> serialize (request_message (logical_request i s)) = Some bs)"
  using run_logical_ok [OF logical_client_new_ok(1) _ assms] logical_client_new_ok(2)
  by (auto simp: logical_ok_def issued_def map_of_eq_None_iff)

theorem client_one_in_flight_witness:
  "\<exists>bs lc pc. run_logical_client 7 2 ''leader'' 100 [sample_iteration] (logical_client_new, paxos_client_new) = Some ([bs], lc, pc) \<and>
    length (lc_sent lc) \<le> 1 \<and> lc_next lc \<le> 2"
proof -
  obtain bs pc where run: "run_logical_client 7 2 ''leader'' 100 [sample_iteration] (logical_client_new, paxos_client_new) =
      Some ([bs], logical_client_new\<lparr>lc_sent := [(0, 5)], lc_next := 1\<rparr>, pc)"
    using sample_iteration_run by blast
  from client_one_in_flight [OF run] run show ?thesis by blast
qed

text \<open>
  C31. A leader that answers is served to the end: when each iteration of a logical client sends its
  request over a working connection and reads the frame of the answer within three seconds, before
  the deadline, then after as many iterations as its quota every request was written once and in
  order, every one is done and has a latency, and the loop ends and closes the connection.
\<close>

theorem client_completes:
  assumes "length its = unat num" and "\<forall>k < unat num. serves k (its ! k) \<and> it_now (its ! k) < deadline"
  shows "\<exists>out lc pc. run_logical_client i num leader deadline (its @ [it]) (logical_client_new, paxos_client_new) =
      Some (out, lc, pc_close leader pc) \<and>
    length out = unat num \<and> (\<forall>k < unat num. serialize (request_message (logical_request i (of_nat k))) = Some (out ! k)) \<and>
    lc_seen lc = map of_nat [0..<unat num] \<and> lc_sent lc = [] \<and> length (lc_lats lc) = unat num"
proof -
  obtain out where out: "length out = unat num"
    "\<forall>k < unat num. serialize (request_message (logical_request i (of_nat k))) = Some (out ! k)"
    using logical_requests_serialized by blast
  with assms have "\<forall>j < length its. serves (0 + j) (its ! j) \<and> it_now (its ! j) < deadline"
    "\<forall>j < length its. serialize (request_message (logical_request i (of_nat (0 + j)))) = Some (out ! j)"
    by simp_all
  from answered_run [OF this(1) logical_client_start _ this(2), of num leader it] assms(1) out
  show ?thesis by (auto simp: answered_def)
qed

theorem client_completes_witness:
  "\<exists>out lc pc. run_logical_client 7 1 ''leader'' 100 [sample_answered, sample_iteration] (logical_client_new, paxos_client_new) =
      Some (out, lc, pc_close ''leader'' pc) \<and> lc_seen lc = [0] \<and> length (lc_lats lc) = 1"
  using client_completes [of "[sample_answered]" 1 100 7 "''leader''" sample_iteration] sample_serves
  by (auto simp: sample_answered_def sample_iteration_def)

text \<open>
  A request that was answered is sent again: when the leader is away for the next request and for the
  read that follows, and back after that, a logical client with nothing in flight sends its last
  request once more, which is done; when it has not sent any, it sends one with the sequence number
  2 ^ 64 - 1.
\<close>

theorem client_resends_answered:
  assumes "logical_ok lc" and "lc_sent lc = []" and "lc_next lc < num" and "hm_get (pc_conns pc) leader = None"
    and "fst (it_send it) = ConnectFailed" and "fst (it_receive it) = ConnectFailed" and "it_resend it = (Connected, True)"
  shows "\<exists>bs pc1. logical_iteration i num leader it (lc, pc) = Some ([bs], lc, pc1) \<and>
    serialize (request_message (logical_request i (lc_next lc - 1))) = Some bs \<and>
    (if lc_next lc = 0 then lc_next lc - 1 = - 1 else lc_next lc - 1 \<in> set (lc_seen lc))"
proof -
  obtain bs where bs: "serialize (request_message (logical_request i (lc_next lc - 1))) = Some bs"
    using logical_request_serialized by blast
  have "lc_next lc - 1 \<in> set (lc_seen lc)" if "lc_next lc \<noteq> 0"
  proof -
    have "lc_next lc - 1 < lc_next lc" using that by unat_arith
    with assms(1,2) show ?thesis by (auto simp: logical_ok_def)
  qed
  with resend_iteration [OF assms(2-7) bs] bs show ?thesis by auto
qed

theorem client_resends_answered_witness:
  "\<exists>bs pc1. logical_iteration 7 2 ''leader'' (sample_iteration\<lparr>it_send := (ConnectFailed, True), it_receive := (ConnectFailed, None),
        it_resend := (Connected, True)\<rparr>) (logical_client_new, paxos_client_new) = Some ([bs], logical_client_new, pc1) \<and>
    serialize (request_message (logical_request 7 (- 1))) = Some bs"
proof -
  let ?it = "sample_iteration\<lparr>it_send := (ConnectFailed, True), it_receive := (ConnectFailed, None), it_resend := (Connected, True)\<rparr>"
  have "lc_sent logical_client_new = []" "lc_next logical_client_new < 2" "hm_get (pc_conns paxos_client_new) ''leader'' = None"
    by (simp_all add: logical_client_new_def paxos_client_new_def)
  from client_resends_answered [OF logical_client_new_ok(1) this, of ?it 7]
  show ?thesis by (simp add: logical_client_new_ok(2))
qed

section \<open>The runner\<close>

text \<open>
  C32. The whole node: whatever bytes, connections, commands and times its rounds bring, as long as
  no round panics and nothing was learned for the very last slot number, the store of a node
  without storage is the result of the commands of the learned entries of slots 1 to \<open>adu\<close>, each
  applied once and in slot order, to an empty store.
\<close>

theorem runner_replica_in_order:
  assumes "runner_new env c bind n nodes leader cfg pdisk adisk ldisk = Some r" and "\<not> persistent_storage cfg"
    and "run_rounds env next_tick inputs r = Some (outs, out, r')" and "co_learner (rn_paxos r') = Some l"
    and "below_max (learned (la_learner l))"
  shows "la_kv l = snd (kv_run (map (command \<circ> le_value) (entries_upto (la_learner l) (unat (la_get_adu l)))) kv_new) \<and>
    (\<forall>s. 1 \<le> s \<and> s \<le> la_get_adu l \<longrightarrow> bt_get (learned (la_learner l)) s \<noteq> None)"
proof -
  from run_rounds_ticks [OF assms(3)] obtain es where "co_run env es (rn_paxos r) = Some ((), out, rn_paxos r')"
    by (auto simp: run_moves_def)
  from node_learner_run [OF runner_new_parts(1) [OF assms(1)] assms(2) this assms(4,5)] show ?thesis
    by (auto simp: replica_def delivered_def cmds_def la_get_adu_def learner_get_adu_def)
qed

theorem runner_replica_in_order_witness:
  "\<exists>r bs outs out r' l. sample_runner = Some r \<and> run_rounds sample_env 0 [reading_round bs] r = Some (outs, out, r') \<and>
    co_learner (rn_paxos r') = Some l \<and> learned (la_learner l) = [(1, get_value ''k'')] \<and>
    la_kv l = snd (kv_run (map (command \<circ> le_value) (entries_upto (la_learner l) (unat (la_get_adu l)))) kv_new)"
proof -
  obtain r where r: "sample_runner = Some r" using sample_runner_learner by blast
  from sample_frames obtain f g where frames:
    "list_all2 framed [f, g] [learn_msg 6 1 (get_value ''k''), learn_msg 7 1 (get_value ''k'')]" "length (f @ g) < 2 ^ 32" by blast
  from sample_runner_run [OF r frames] obtain outs out r' l where run:
    "run_rounds sample_env 0 [reading_round (f @ g)] r = Some (outs, out, r')" "co_learner (rn_paxos r') = Some l"
    "learned (la_learner l) = [(1, get_value ''k'')]" by blast
  have "below_max (learned (la_learner l))" by (simp add: run(3) below_max_def)
  from runner_replica_in_order [OF r [unfolded sample_runner_def] _ run(1,2) this] r run show ?thesis by auto
qed

text \<open>
  C33. A run of the event loop is a run of the coordinator over the events that \<open>run_events\<close>
  computes from the inputs: in each round the heartbeat and the failure check when they are due,
  the requests of the clients and of the demo client, every message the network server hands out,
  and one tick; what the coordinator then sends and keeps is what the runner sends and keeps. The
  messages of a round are exactly those that \<open>get_messages\<close> returns, in its order; the requests
  of a round in which the node leads begin with exactly those that \<open>get_requests\<close> returns.
\<close>

theorem rounds_are_node_runs:
  assumes "run_rounds env next_tick inputs r = Some (outs, out, r')"
  shows "co_run env (run_events env next_tick inputs r) (rn_paxos r) = Some ((), out, rn_paxos r') \<and>
    ticks (run_events env next_tick inputs r) = length outs \<and>
    (\<forall>i q. ticks (round_events env i q) = 1 \<and>
      received (round_events env i q) =
        (case get_messages (rn_max_messages q) (net_accepts i) (net_order i) (net_reads i) (rn_network q) of
           None \<Rightarrow> [] | Some (ms, s) \<Rightarrow> ms) \<and>
      (\<forall>x sent q1 vs s. before_clients env i q = Some (x, sent, q1) \<and> co_is_leader (rn_paxos q1) \<and>
         get_requests (rn_max_messages q1) (client_accepts i) (client_order i) (client_reads i) (rn_clients q1) = Some (vs, s) \<longrightarrow>
         (\<exists>own. submitted (round_events env i q) = vs @ own)))"
  using run_rounds_events [OF assms] run_events_ticks [OF assms] submitted_requests
  by (simp add: round_event_lists)

theorem rounds_are_node_runs_witness:
  "\<exists>r bs out (r' :: runner). sample_runner = Some r \<and>
    co_run sample_env (run_events sample_env 0 [reading_round bs] r) (rn_paxos r) = Some ((), out, rn_paxos r') \<and>
    ticks (run_events sample_env 0 [reading_round bs] r) = 1 \<and>
    received (round_events sample_env (reading_round bs) r) = [learn_msg 6 1 (get_value ''k''), learn_msg 7 1 (get_value ''k'')] \<and>
    (\<exists>l. co_learner (rn_paxos r') = Some l \<and> learned (la_learner l) = [(1, get_value ''k'')])"
proof -
  from sample_runner_learner obtain r where r: "sample_runner = Some r" "rn_network r = net_server_new\<lparr>listening := True\<rparr>"
    "rn_max_messages r = 3" by blast
  from sample_frames obtain f g where frames:
    "list_all2 framed [f, g] [learn_msg 6 1 (get_value ''k''), learn_msg 7 1 (get_value ''k'')]" "length (f @ g) < 2 ^ 32" by blast
  from sample_runner_run [OF r(1) frames] obtain outs out r' l where
    run: "run_rounds sample_env 0 [reading_round (f @ g)] r = Some (outs, out, r')" "length outs = 1" and
    l: "co_learner (rn_paxos r') = Some l" "learned (la_learner l) = [(1, get_value ''k'')]" by blast
  from sample_read [OF frames] obtain s where
    "get_messages 3 1 [1] (\<lambda>c. Some (if c = 1 then f @ g else [])) (net_server_new\<lparr>listening := True\<rparr>) =
      Some ([learn_msg 6 1 (get_value ''k''), learn_msg 7 1 (get_value ''k'')], s)" by blast
  then have "received (round_events sample_env (reading_round (f @ g)) r) =
      [learn_msg 6 1 (get_value ''k''), learn_msg 7 1 (get_value ''k'')]"
    using rounds_are_node_runs [OF run(1)] by (simp add: r reading_round_def)
  moreover from rounds_are_node_runs [OF run(1)] run(2)
  have "co_run sample_env (run_events sample_env 0 [reading_round (f @ g)] r) (rn_paxos r) = Some ((), out, rn_paxos r')"
    "ticks (run_events sample_env 0 [reading_round (f @ g)] r) = 1" by simp_all
  ultimately show ?thesis using r(1) l by blast
qed

text \<open>
  C34. The metrics never stop a node: after any run of a node from its start, the timers that
  \<open>track\<close> and \<open>flush_global\<close> unwrap are set whenever they are unwrapped, so reporting an idle
  period never panics, and answering clients only when the server for clients does.
\<close>

theorem metrics_never_panic:
  assumes "runner_new env c bind n nodes leader cfg pdisk adisk ldisk = Some r"
    and "run_rounds env next_tick inputs r = Some (outs, out, r')"
  shows "report_idle i r' \<noteq> None \<and>
    (dispatch_responses i rs r' = None \<longrightarrow> send_responses (client_writes i) (rn_node r') rs (rn_clients r') = None)"
proof -
  have "metrics_ok (rn_metrics r')"
    using run_rounds_ticks [OF assms(2)] runner_new_parts(2) [OF assms(1)] metrics_new_ok by (simp add: run_moves_def)
  from metrics_panic_free [OF this] show ?thesis by blast
qed

theorem metrics_never_panic_witness:
  "\<exists>r bs outs out (r' :: runner). sample_runner = Some r \<and>
    run_rounds sample_env 0 [reading_round bs] r = Some (outs, out, r') \<and> length outs = 1 \<and> report_idle quiet_round r' \<noteq> None"
proof -
  obtain r where r: "sample_runner = Some r" using sample_runner_learner by blast
  from sample_frames obtain f g where frames:
    "list_all2 framed [f, g] [learn_msg 6 1 (get_value ''k''), learn_msg 7 1 (get_value ''k'')]" "length (f @ g) < 2 ^ 32" by blast
  from sample_runner_run [OF r frames] obtain outs out r' where
    run: "run_rounds sample_env 0 [reading_round (f @ g)] r = Some (outs, out, r')" "length outs = 1" by blast
  from metrics_never_panic [OF r [unfolded sample_runner_def] run(1)] r run show ?thesis by blast
qed

text \<open>
  The demo client submits the next requests, as many as the batch quota and the configured total
  allow, with consecutive sequence numbers and none of them twice, and remembers where it stopped;
  at the total it submits nothing.
\<close>

theorem demo_client_submits_once:
  "let k = min quota (unat max_requests - unat (demo_seq d)) in
   demo_loop quota max_requests d =
     step_bind (step_each (\<lambda>v. step_bind (co_submit_client_request v) (\<lambda>_. step_return ())) (demo_requests d k))
       (\<lambda>_. step_return (d\<lparr>demo_seq := demo_seq d + of_nat k\<rparr>)) \<and>
   distinct (demo_requests d k)"
  using demo_loop_exact [of quota max_requests d] demo_requests_distinct [of _ max_requests d] by (simp add: Let_def)

text \<open>
  C35. A shutdown ends the loop: the round that gets the command is the last one, whatever would
  come after it, so the loop is over after at most that many rounds.
\<close>

theorem shutdown_ends_run:
  assumes "in_command i = Some Shutdown"
  shows "run_rounds env next_tick (before @ i # rest) r = run_rounds env next_tick (before @ [i]) r \<and>
    (run_rounds env next_tick (before @ i # rest) r = Some (outs, out, r') \<longrightarrow> length outs \<le> length before + 1)"
  using run_rounds_length [of env next_tick "before @ [i]" r outs out r']
  by (simp add: run_rounds_shutdown [OF assms, of env next_tick before rest r])

theorem shutdown_ends_run_witness:
  "run_rounds sample_env 0 ([quiet_round] @ quiet_round\<lparr>in_command := Some Shutdown\<rparr> # [quiet_round]) =
   run_rounds sample_env 0 ([quiet_round] @ [quiet_round\<lparr>in_command := Some Shutdown\<rparr>])"
  by (rule ext) (rule shutdown_ends_run [THEN conjunct1], simp)
section \<open>The host\<close>

text \<open>
  C36. The host's storage does what the storage component does: from any two disks that work and hold
  the same snapshots and changes (fresh ones, or those of a node that starts again), with no write
  under way, after any sequence of states, changes and checkpoints, a load from the host's storage
  gives the snapshots and changes that a load from the component gives after a flush, however much
  of each change is written late, if the host's queue is drained and the writes of each request have
  landed before the next one and before the load. Changes have to be shorter than \<open>2 ^ 32\<close> bytes, and
  the number of snapshots asked for, which a component truncates to 32 bits, below \<open>2 ^ 32\<close>.
\<close>

theorem host_storage_equals_guest:
  assumes "twin (storage_new key limit disk) (hd_disk (dirs key)) bs" and "hd_late (dirs key) = []"
    and "\<forall>x \<in> set xs. op_fits x" and "unat num < 2 ^ 32"
  shows "fst (hs_load_state_and_changes num (drain lates (fold host_op xs (hs_new key limit dirs)))) =
    fst (load_state_and_changes num (snd (flush_changes (fold guest_op xs (storage_new key limit disk)))))"
proof -
  let ?h = "hs_new key limit dirs" and ?g = "storage_new key limit disk"
  have "twin ?g (host_disk (drain lates ?h)) bs" "host_late (drain lates ?h) = []"
    using assms(1,2) by (simp_all add: hs_new_def host_disk_def host_late_def)
  moreover have "faults disk = []"
    using assms(1) by (auto simp: twin_def changelog_holds_def storage_new_def split: if_splits)
  then have "hs_max_snapshots ?h = st_max_snapshots ?g" by (simp add: hs_new_def storage_new_def)
  ultimately obtain cs where twin: "twin (fold guest_op xs ?g) (host_disk (drain lates (fold host_op xs ?h))) cs"
    using twin_ops [OF _ _ assms(3)] by blast
  show ?thesis
    using twin_load [OF twin assms(4)]
    by (simp add: hs_load_state_and_changes_def in_dir_def with_disk_def host_disk_def Let_def split_def)
qed

theorem host_storage_equals_guest_witness:
  "let disk = empty_disk\<lparr>linked := True, snapshot_files := [(snapshot_name ''s'', ''old'')], changelog_file := frame ''a''\<rparr>;
       xs = [OpChange ''b'', OpCheckpoint ''new'' ''t'', OpState ''x'', OpChange ''cd''] in
   fst (hs_load_state_and_changes 5 (drain (\<lambda>n. n) (fold host_op xs
     (hs_new ''k'' 3 (\<lambda>_. \<lparr>hd_disk = disk, hd_state_file = False, hd_late = []\<rparr>))))) =
   fst (load_state_and_changes 5 (snd (flush_changes (fold guest_op xs (storage_new ''k'' 3 disk)))))"
proof -
  let ?disk = "empty_disk\<lparr>linked := True, snapshot_files := [(snapshot_name ''s'', ''old'')], changelog_file := frame ''a''\<rparr>"
  have "twin (storage_new ''k'' 3 ?disk) ?disk [''a'']"
    by (simp add: twin_def changelog_holds_def storage_new_def empty_disk_def hm_ok_def snapshot_name_ok)
  then show ?thesis
    unfolding Let_def by (intro host_storage_equals_guest) simp_all
qed

text \<open>
  Nothing makes the host wait for the last write of a change: a load that comes before it has landed
  finds the record cut off and fails, and when the next change is served first, the two are mixed
  up in the file for good, whichever lands first.
\<close>

theorem host_load_before_landing:
  assumes "faults (hd_disk d) = []" and "linked (hd_disk d)" and "changelog_file (hd_disk d) = concat (map frame bs)"
    and "\<forall>b \<in> set bs. length b < 2 ^ 32" and "data \<noteq> []" and "length data < 2 ^ 32" and "0 < late"
  shows "fst (host_load_changes (hd_disk (host_save_change late data d))) = Inl host_eof"
  using assms by (rule host_load_torn)

theorem host_load_before_landing_witness:
  "let d = host_save_change 1 ''ab'' \<lparr>hd_disk = empty_disk\<lparr>linked := True\<rparr>, hd_state_file = False, hd_late = []\<rparr> in
   hd_late d = [''b''] \<and> fst (host_load_changes (hd_disk d)) = Inl host_eof \<and>
   fst (host_load_changes (hd_disk (land 0 d))) = Inr [''ab'']"
proof -
  let ?e = "\<lparr>hd_disk = empty_disk\<lparr>linked := True\<rparr>, hd_state_file = False, hd_late = []\<rparr>"
  have "hd_late (host_save_change 1 ''ab'' ?e) = [''b'']" and
    landed: "hd_disk (land 0 (host_save_change 1 ''ab'' ?e)) = empty_disk\<lparr>linked := True, changelog_file := frame ''ab''\<rparr>"
    by (simp_all add: host_save_change_def append_late_def append_file_def fs_create_dir_def land_def frame_def empty_disk_def Let_def)
  moreover have "fst (host_load_changes (empty_disk\<lparr>linked := True, changelog_file := frame ''ab''\<rparr>)) = Inr [''ab'']"
    using host_read_changes_frames [of "empty_disk\<lparr>linked := True, changelog_file := frame ''ab''\<rparr>" "[''ab'']" "[]"]
    by (simp add: host_load_changes_def empty_disk_def)
  moreover have "fst (host_load_changes (hd_disk (host_save_change 1 ''ab'' ?e))) = Inl host_eof"
    by (rule host_load_before_landing [where bs = "[]"]) (simp_all add: empty_disk_def)
  ultimately show ?thesis by (simp add: Let_def)
qed

theorem host_changes_mixed_up:
  "let d = host_save_change 1 ''b'' (host_save_change 1 ''a'' \<lparr>hd_disk = empty_disk, hd_state_file = False, hd_late = []\<rparr>) in
   hd_late d = [''a'', ''b''] \<and> fst (host_load_changes (hd_disk (land_all d))) = Inl host_eof \<and>
   fst (host_load_changes (hd_disk (land 0 (land 1 d)))) = Inl host_eof"
proof -
  let ?e = "\<lparr>hd_disk = empty_disk, hd_state_file = False, hd_late = []\<rparr>"
  let ?d = "host_save_change 1 ''b'' (host_save_change 1 ''a'' ?e)" and ?one = "u32_to_be_bytes 1"
  have one: "?one = map char_of [0, 0, 0, 1 :: nat]" by (simp add: u32_to_be_bytes_def del: One_nat_def)
  have mixed: "fst (host_read_changes (?one @ ?one @ [x, y]) [] s) = Inl host_eof" if "faults s = []" for x y s
  proof -
    have "host_read_changes (?one @ ?one @ [x, y]) [] s = host_read_changes (map char_of [0, 0, 1 :: nat] @ [x, y]) [[char_of (0 :: nat)]] s"
      using that by (subst host_read_changes.simps, simp add: one u32_from_be_bytes_def Let_def del: One_nat_def) simp
    also have "\<dots> = (Inl host_eof, s)"
      using that by (subst host_read_changes.simps) (simp add: u32_from_be_bytes_def Let_def)
    finally show ?thesis by simp
  qed
  have d: "?d = \<lparr>hd_disk = empty_disk\<lparr>linked := True, changelog_file := ?one @ ?one\<rparr>, hd_state_file = False, hd_late = [''a'', ''b'']\<rparr>"
    by (simp add: host_save_change_def append_late_def append_file_def fs_create_dir_def empty_disk_def Let_def as_u32_def)
  then have "hd_disk (land_all ?d) = empty_disk\<lparr>linked := True, changelog_file := ?one @ ?one @ ''ab''\<rparr>"
    "hd_disk (land 0 (land 1 ?d)) = empty_disk\<lparr>linked := True, changelog_file := ?one @ ?one @ ''ba''\<rparr>"
    by (simp_all add: land_def land_all_def append_file_def empty_disk_def)
  then show ?thesis
    using d mixed by (simp add: host_load_changes_def empty_disk_def)
qed

text \<open>
  The host's checkpoint can lose the log: when the file for the new snapshot cannot be created,
  the request goes on, truncates the changelog and prunes the snapshots, so a load afterwards has no
  changes, no new snapshot, and nobody was told. The storage component stops at the first error.
\<close>

theorem host_checkpoint_loses_log:
  assumes "linked s" and "faults s = [None, Some (e, k)]"
  shows "fst (host_load_changes (host_checkpoint st ts retain s)) = Inr [] \<and>
    set (snapshot_names (host_checkpoint st ts retain s)) \<subseteq> set (snapshot_names s) \<and>
    (snapshot_name ts \<notin> set (snapshot_names s) \<longrightarrow>
       snapshot_name ts \<notin> set (snapshot_names (host_checkpoint st ts retain s))) \<and>
    fst (hs_checkpoint st ts h) = Inr ()"
proof -
  let ?s = "host_checkpoint st ts retain s"
  have eq: "?s = s\<lparr>faults := [], changelog_file := [], snapshot_files := kept_snapshots retain (snapshot_files s)\<rparr>"
    by (rule host_checkpoint_drops [OF assms])
  have sub: "set (snapshot_names ?s) \<subseteq> set (snapshot_names s)"
    using kept_snapshots_names [of retain "snapshot_files s"] by (simp add: eq snapshot_names_def)
  have "fst (host_load_changes ?s) = Inr []"
    using host_read_changes_frames [of ?s "[]" "[]"] assms(1) by (simp add: eq host_load_changes_def)
  with sub show ?thesis by (auto simp: hs_checkpoint_def)
qed

theorem host_checkpoint_loses_log_witness:
  "fst (host_load_changes (empty_disk\<lparr>linked := True, changelog_file := frame ''abc''\<rparr>)) = Inr [''abc''] \<and>
   fst (host_load_changes (host_checkpoint ''st'' ''t'' 3
     (empty_disk\<lparr>linked := True, changelog_file := frame ''abc'', faults := [None, Some (''No space left'', 0)]\<rparr>))) = Inr []"
proof -
  have "fst (host_load_changes (empty_disk\<lparr>linked := True, changelog_file := frame ''abc''\<rparr>)) = Inr [''abc'']"
    using host_read_changes_frames [of "empty_disk\<lparr>linked := True, changelog_file := frame ''abc''\<rparr>" "[''abc'']" "[]"]
    by (simp add: host_load_changes_def empty_disk_def)
  with host_checkpoint_loses_log
    [of "empty_disk\<lparr>linked := True, changelog_file := frame ''abc'', faults := [None, Some (''No space left'', 0)]\<rparr>"
      "''No space left''" 0 "''st''" "''t''" 3]
  show ?thesis by simp
qed

text \<open>
  C37. The host's client and server deliver: when connections and writes succeed, messages that the
  wire carries (\<open>message_safe\<close>: no \<open>Set\<close>, and strings free of the delimiters) with texts shorter than
  \<open>2 ^ 32\<close> bytes that were sent to an address arrive there in the order of the calls, each once and
  as the wire keeps it (\<open>norm_message\<close>), in whatever chunks the server reads the stream, when the
  client is new and nothing waits in the server's buffer of the connection.
\<close>

theorem native_network_delivers:
  assumes "\<forall>(ns, m) \<in> set calls. message_safe m \<and> length (message_text m) < 2 ^ 32"
    and "native_post calls native_client_new = Some c"
    and "concat (map snd turns) = written_to a (fst (native_writes (length (nc_channel c)) c))"
    and "\<forall>(order, chunk) \<in> set turns. i \<in> set order \<and> distinct order \<and> chunk \<noteq> []"
    and "hm_get (nv_buffers s) i = Some []"
  shows "\<exists>s'. native_serve i turns s = Some s' \<and>
    nv_messages s' = nv_messages s @ map norm_message (addressed a calls)"
proof -
  let ?ms = "addressed a calls"
  have ms: "message_safe m \<and> length (message_text m) < 2 ^ 32" if "m \<in> set ?ms" for m
    using that assms(1) by (auto simp: addressed_def)
  have "nc_alive native_client_new" by (simp add: native_client_new_def)
  from native_post_channel [OF _ this, of calls a] assms(1,2)
  have c: "nc_alive c" "written_to a (nc_channel c) = records (map message_text ?ms)"
    by (auto simp: native_client_new_def)
  have stream: "[] @ concat (map snd turns) = records (map message_text ?ms)"
    using assms(3) c native_writes_channel [OF c(1)] by simp
  have "concat (map readable (map message_text xs)) = map norm_message xs"
    if "\<forall>m \<in> set xs. message_safe m \<and> length (message_text m) < 2 ^ 32" for xs
    using that by (induction xs) (simp_all add: message_readable)
  then have "concat (map readable (map message_text ?ms)) = map norm_message ?ms" using ms by blast
  moreover have "\<forall>b \<in> set (map message_text ?ms). length b < 2 ^ 32" using ms by auto
  ultimately show ?thesis
    using native_serve_stream [OF _ assms(5) stream _ assms(4)] by auto
qed

theorem native_network_delivers_witness:
  "\<exists>s'. native_serve 1 [([1], record_of (message_text \<lparr>sender = mk_node 6 Acceptor, payload = Heartbeat\<rparr>))]
     (native_server_new\<lparr>nv_buffers := [(1, [])]\<rparr>) = Some s' \<and>
   nv_messages s' = [\<lparr>sender = mk_node 6 Acceptor, payload = Heartbeat\<rparr>]"
proof -
  let ?m = "\<lparr>sender = mk_node 6 Acceptor, payload = Heartbeat\<rparr>" and ?n = "mk_node 1 Learner"
  have safe: "message_safe ?m" "norm_message ?m = ?m" "length (message_text ?m) < 2 ^ 32"
    by (simp_all add: message_safe_def norm_message_def mk_node_def plain_def utf8_ok_ascii message_text_def serialize_node_def
        kv_def show_digit [of 6, simplified])
  let ?c = "\<lparr>nc_channel = [(address ?n, record_of (message_text ?m))], nc_conns = [], nc_alive = True\<rparr>"
  have post: "native_post [([?n], ?m)] native_client_new = Some ?c"
    using safe(3) by (simp add: native_send_forget_def host_serialize_def Let_def native_client_new_def record_of_def)
  have writes: "fst (native_writes (length (nc_channel ?c)) ?c) = nc_channel ?c"
    by (rule native_writes_channel) simp
  have "addressed (address ?n) [([?n], ?m)] = [?m]" by (simp add: addressed_def)
  moreover have "record_of (message_text ?m) \<noteq> []" by (simp add: record_of_def u32_to_be_bytes_def)
  ultimately show ?thesis
    using native_network_delivers [OF _ post, of "[([1], record_of (message_text ?m))]" "address ?n" 1
        "native_server_new\<lparr>nv_buffers := [(1, [])]\<rparr>"] safe writes
    by (simp add: written_to_def native_server_new_def)
qed

text \<open>
  One peer that cannot be reached silences the host's client: its thread then connects to
  \<open>0.0.0.0:0\<close> instead, and when that fails it panics; from then on every call still succeeds, and
  nothing is ever written again, to any node.
\<close>

theorem native_client_dies:
  assumes "nc_channel c = (a, bs) # rest" and "nc_alive c" and "a \<notin> set (nc_conns c)" and "\<not> connect a"
    and "native_client_run (NcTurn connect False write # es) c = Some (out, c')"
  shows "out = [] \<and> \<not> nc_alive c'"
  using assms(5) dead_client_silent [of "c\<lparr>nc_alive := False, nc_channel := []\<rparr>" es]
    client_dies [of c a bs rest connect "write", OF assms(1-4)]
  by auto

theorem native_client_dies_witness:
  "\<exists>c'. native_client_run [NcTurn (\<lambda>a. a = ''b'') False (\<lambda>a b. length b), NcTurn (\<lambda>a. a = ''b'') False (\<lambda>a b. length b)]
     \<lparr>nc_channel = [(''a'', ''x''), (''b'', ''y'')], nc_conns = [], nc_alive = True\<rparr> = Some ([], c') \<and> \<not> nc_alive c'"
proof -
  let ?c = "\<lparr>nc_channel = [(''a'', ''x''), (''b'', ''y'')], nc_conns = [], nc_alive = True\<rparr>"
  let ?t = "NcTurn (\<lambda>a. a = ''b'') False (\<lambda>a b. length b)"
  obtain out c' where run: "native_client_run [?t, ?t] ?c = Some (out, c')"
    by (simp add: native_client_turn_def)
  with native_client_dies [OF _ _ _ _ run] show ?thesis by simp
qed

text \<open>
  C38. Every host of a configuration whose active nodes have distinct ids starts its nodes as parts of
  one and the same cluster, the one of the agreement theorem: whichever cluster a host runs, it takes the same active nodes and the
  same leader, which is the highest id among them whatever its role, and gives each of its nodes
  all other active nodes.
\<close>

theorem hosts_start_one_cluster:
  assumes "config_load doc k = Some (Inr cfg)" and "config_load doc k' = Some (Inr cfg')"
    and "distinct (map node_id (active_nodes cfg))" and "n \<in> set (hc_cluster_nodes cfg')"
  shows "start_node env c cfg' n pdisk adisk ldisk =
      cl_nodes (cluster_new env c (hc_run_config cfg) (\<lambda>_. (pdisk, adisk, ldisk)) (leader_id cfg) (active_nodes cfg)) (node_id n) \<and>
    leader_id cfg \<in> node_id ` set (active_nodes cfg) \<and> (\<forall>m \<in> set (active_nodes cfg). node_id m \<le> leader_id cfg)"
proof -
  from config_load_same [OF assms(1,2)] have same: "active_nodes cfg' = active_nodes cfg"
    "leader_id cfg' = leader_id cfg" "hc_run_config cfg' = hc_run_config cfg" by blast+
  have n: "n \<in> set (active_nodes cfg)" using config_load_cluster [OF assms(2)] assms(4) same(1) by auto
  have "iter_max (map node_id (active_nodes cfg)) = Some (leader_id cfg)"
    using config_load_parts [OF assms(1)] by blast
  then show ?thesis
    using start_node_cluster [OF assms(1,3) n, of env c "\<lambda>_. (pdisk, adisk, ldisk)"] same
    by (auto simp: iter_max_Some start_node_def other_active_def)
qed

theorem hosts_start_one_cluster_witness:
  "\<exists>cfg1 cfg2. config_load sample_doc 1 = Some (Inr cfg1) \<and> config_load sample_doc 2 = Some (Inr cfg2) \<and>
     start_node sample_env clk cfg2 \<lparr>node_id = 3, address = ''c'', role = Learner\<rparr> empty_disk empty_disk empty_disk =
       cl_nodes (cluster_new sample_env clk (hc_run_config cfg1) (\<lambda>_. (empty_disk, empty_disk, empty_disk)) 3 sample_actives) 3"
proof -
  obtain cfg1 where 1: "config_load sample_doc 1 = Some (Inr cfg1)" "active_nodes cfg1 = sample_actives" "leader_id cfg1 = 3"
    using sample_doc_loads [of 1 "[1, 2]"] by auto
  obtain cfg2 where 2: "config_load sample_doc 2 = Some (Inr cfg2)"
    "hc_cluster_nodes cfg2 = filter (\<lambda>n. node_id n \<in> set [3]) sample_actives"
    using sample_doc_loads [of 2 "[3]"] by auto
  have "distinct (map node_id (active_nodes cfg1))" "\<lparr>node_id = 3, address = ''c'', role = Learner\<rparr> \<in> set (hc_cluster_nodes cfg2)"
    by (simp_all add: 1 2 sample_actives_def)
  from hosts_start_one_cluster [OF 1(1) 2(1) this, of sample_env clk empty_disk empty_disk empty_disk] 1 2
  show ?thesis by auto
qed

text \<open>
  C39. The supervisor counts failures: while the builder delivers instances, a node that failed less
  than five times is started again, with the same nodes and again believing to be the leader when it
  was the leader at the start, each time with one slot less in its crash list; ends that are clean
  do not count; after the fifth failure it is never started again.
\<close>

theorem supervisor_restarts:
  fixes es n others leader cfg
  defines "sv \<equiv> fold supervise es (supervisor_new n others leader cfg)"
  assumes "None \<notin> set es" and "find_crashes (node_id n) (crashes cfg) = Some xs"
  shows "sv_retries sv = min 5 (failures es) \<and>
    sv_status sv = (if failures es < 5 then Supervising else GivenUp) \<and>
    fst (instance_args sv) = n \<and> fst (snd (instance_args sv)) = others \<and> fst (snd (snd (instance_args sv))) = leader \<and>
    (failures es < 5 \<longrightarrow> find_crashes (node_id n) (crashes (sv_config sv)) = Some (drop (failures es) xs))"
  using supervise_counts [OF assms(2), of "supervisor_new n others leader cfg"]
    supervise_same [of es "supervisor_new n others leader cfg"]
    supervise_crashes [OF assms(2), of "supervisor_new n others leader cfg" xs] assms(3)
  by (simp add: sv_def supervisor_new_def max_retries_def instance_args_def Let_def)

theorem supervisor_restarts_witness:
  "sv_status (fold supervise [Some RunPanicked, Some Clean, Some Unresponsive]
     (supervisor_new (mk_node 1 Proposer) [] True (small_batch\<lparr>crashes := [[1, 10, 20, 30]]\<rparr>))) = Supervising"
  using supervisor_restarts [of "[Some RunPanicked, Some Clean, Some Unresponsive]" "mk_node 1 Proposer"
      "small_batch\<lparr>crashes := [[1, 10, 20, 30]]\<rparr>" "[10, 20, 30]" "[]" True]
  by simp

text \<open>
  C40. The monitor asks a node to stop exactly when, at some wake-up after one at which it had seen a
  ping, the last ping is older than seven heartbeats: a node that never pings is never stopped.
\<close>

theorem monitor_fires_exactly:
  "mo_fired (fst (monitor_run hb es)) \<longleftrightarrow>
     (\<exists>n < length es. \<exists>t. es ! n = Woke t \<and> watching (take n es) \<and> pings (take n es) \<noteq> [] \<and>
        shutdown_threshold hb < as_millis (t - last (pings (take n es))))"
  using monitor_run_state [of hb es] by (simp add: overdue_def)

end
